(* ===== verification/PyStr.thy ===== *)
theory PyStr
  imports Complex_Main "HOL-Library.Sublist" "HOL-Library.Char_ord" "HOL-Library.List_Lexorder"
begin

text \<open>
  The part of Python's \<^verbatim>\<open>str\<close> that the scanner uses, on \<^typ>\<open>string\<close>. A string is a
  list of code points; the model is faithful for code points below 128 (package names,
  rule identifiers, versions and paths), where \<^verbatim>\<open>str.lower\<close>, SQL \<^verbatim>\<open>lower()\<close> and the
  whitespace class of \<^verbatim>\<open>str.strip\<close> are the functions below. Lists of strings are
  ordered lexicographically by code point, as \<^verbatim>\<open>sorted\<close> orders them.
\<close>

section \<open>Case and whitespace\<close>

definition lower_char :: "char \<Rightarrow> char" where
  "lower_char c = (let n = (of_char c :: nat) in
     if 65 \<le> n \<and> n \<le> 90 then char_of (n + 32) else c)"

definition lower :: "string \<Rightarrow> string" where
  "lower s = map lower_char s"

text \<open>The characters \<^verbatim>\<open>str.isspace\<close> accepts below 128: tab to carriage return,
  the separators 28 to 31, and the space.\<close>

definition is_space :: "char \<Rightarrow> bool" where
  "is_space c = (let n = (of_char c :: nat) in (9 \<le> n \<and> n \<le> 13) \<or> (28 \<le> n \<and> n \<le> 32))"

definition is_digit :: "char \<Rightarrow> bool" where
  "is_digit c = (let n = (of_char c :: nat) in 48 \<le> n \<and> n \<le> 57)"

definition lstrip_by :: "(char \<Rightarrow> bool) \<Rightarrow> string \<Rightarrow> string" where
  "lstrip_by p s = dropWhile p s"

definition rstrip_by :: "(char \<Rightarrow> bool) \<Rightarrow> string \<Rightarrow> string" where
  "rstrip_by p s = rev (dropWhile p (rev s))"

definition strip_by :: "(char \<Rightarrow> bool) \<Rightarrow> string \<Rightarrow> string" where
  "strip_by p s = rstrip_by p (lstrip_by p s)"

definition strip :: "string \<Rightarrow> string" where
  "strip s = strip_by is_space s"

section \<open>Splitting, joining, searching\<close>

text \<open>\<^verbatim>\<open>s.split(c, 1)\<close>: what stands before the first \<^term>\<open>c\<close>, and what follows it, if any.\<close>

definition split1 :: "char \<Rightarrow> string \<Rightarrow> string \<times> string option" where
  "split1 c s = (takeWhile (\<lambda>x. x \<noteq> c) s,
     (case dropWhile (\<lambda>x. x \<noteq> c) s of [] \<Rightarrow> None | _ # r \<Rightarrow> Some r))"

fun split_on :: "char \<Rightarrow> string \<Rightarrow> string list" where
  "split_on c [] = [[]]"
| "split_on c (x # xs) =
     (if x = c then [] # split_on c xs
      else (case split_on c xs of [] \<Rightarrow> [[x]] | p # ps \<Rightarrow> (x # p) # ps))"

text \<open>\<^verbatim>\<open>s.rsplit(c, 1)[-1]\<close>: what follows the last \<^term>\<open>c\<close>, or the whole string.\<close>

definition rsplit1_last :: "char \<Rightarrow> string \<Rightarrow> string" where
  "rsplit1_last c s = rev (takeWhile (\<lambda>x. x \<noteq> c) (rev s))"

definition basename :: "string \<Rightarrow> string" where
  "basename p = rsplit1_last (CHR ''/'') p"

fun join :: "string \<Rightarrow> string list \<Rightarrow> string" where
  "join sep [] = []"
| "join sep [x] = x"
| "join sep (x # y # ys) = x @ sep @ join sep (y # ys)"

text \<open>\<^verbatim>\<open>needle in s\<close>.\<close>

definition contains :: "string \<Rightarrow> string \<Rightarrow> bool" where
  "contains s needle = sublist needle s"

text \<open>\<^verbatim>\<open>s.find(c)\<close>, with \<^verbatim>\<open>-1\<close> as \<^const>\<open>None\<close>.\<close>

definition find_char :: "char \<Rightarrow> string \<Rightarrow> nat option" where
  "find_char c s = (let n = length (takeWhile (\<lambda>x. x \<noteq> c) s) in
     if n < length s then Some n else None)"

definition strip_nul :: "string \<Rightarrow> string" where
  "strip_nul s = filter (\<lambda>c. c \<noteq> CHR 0x00) s"

text \<open>\<^verbatim>\<open>str.splitlines\<close> below 128: the line boundaries are LF, VT, FF, CR, CR LF and 28 to 30.\<close>

definition is_break :: "char \<Rightarrow> bool" where
  "is_break c = (let n = (of_char c :: nat) in (10 \<le> n \<and> n \<le> 13) \<or> (28 \<le> n \<and> n \<le> 30))"

function splitlines :: "string \<Rightarrow> string list" where
  "splitlines s =
    (if s = [] then []
     else (let line = takeWhile (\<lambda>c. \<not> is_break c) s in
       case dropWhile (\<lambda>c. \<not> is_break c) s of
         [] \<Rightarrow> [line]
       | c # cs \<Rightarrow> line # splitlines (if c = CHR 0x0D \<and> prefix [CHR 0x0A] cs then tl cs else cs)))"
  by pat_completeness auto
termination
proof (relation "measure length", goal_cases)
  case 1
  then show ?case by simp
next
  case (2 s line c cs)
  have "length (dropWhile (\<lambda>c. \<not> is_break c) s) \<le> length s" by (rule length_dropWhile_le)
  with 2 show ?case by (auto split: if_splits)
qed

declare splitlines.simps [simp del]

section \<open>Printing\<close>

definition digit_char :: "nat \<Rightarrow> char" where
  "digit_char d = char_of (d + 48)"

fun nat_str :: "nat \<Rightarrow> string" where
  "nat_str n = (if n < 10 then [digit_char n] else nat_str (n div 10) @ [digit_char (n mod 10)])"

declare nat_str.simps [simp del]

definition int_str :: "int \<Rightarrow> string" where
  "int_str i = (if i < 0 then CHR ''-'' # nat_str (nat (- i)) else nat_str (nat i))"

text \<open>\<^verbatim>\<open>repr(s)\<close> of a string: double quotes exactly when the text holds a single quote and no
  double one, the chosen quote and the backslash escaped, control characters as escapes.\<close>

definition hex_digit :: "nat \<Rightarrow> char" where
  "hex_digit d = (if d < 10 then char_of (d + 48) else char_of (d + 87))"

definition repr_char :: "char \<Rightarrow> char \<Rightarrow> string" where
  "repr_char q c = (let n = (of_char c :: nat) in
     if c = q \<or> c = CHR 0x5C then [CHR 0x5C, c]
     else if n = 9 then [CHR 0x5C, CHR ''t'']
     else if n = 10 then [CHR 0x5C, CHR ''n'']
     else if n = 13 then [CHR 0x5C, CHR ''r'']
     else if n < 32 \<or> n = 127 then [CHR 0x5C, CHR ''x'', hex_digit (n div 16), hex_digit (n mod 16)]
     else [c])"

definition repr :: "string \<Rightarrow> string" where
  "repr s = (let q = (if CHR 0x27 \<in> set s \<and> CHR 0x22 \<notin> set s then CHR 0x22 else CHR 0x27)
     in [q] @ concat (map (repr_char q) s) @ [q])"

definition repr_list :: "string list \<Rightarrow> string" where
  "repr_list xs = ''['' @ join '', '' (map repr xs) @ '']''"

section \<open>Lemmas\<close>

lemma lower_char_idem [simp]: "lower_char (lower_char c) = lower_char c"
  by (auto simp: lower_char_def Let_def)

lemma lower_idem [simp]: "lower (lower s) = lower s"
  by (simp add: lower_def)

lemma lower_simps [simp]:
  "lower [] = []" "lower (c # s) = lower_char c # lower s" "lower (s @ t) = lower s @ lower t"
  by (simp_all add: lower_def)

lemma length_lower [simp]: "length (lower s) = length s"
  by (simp add: lower_def)

lemma lower_eq_Nil [simp]: "lower s = [] \<longleftrightarrow> s = []"
  by (simp add: lower_def)

lemma prefix_lower: "prefix p s \<Longrightarrow> prefix (lower p) (lower s)"
  by (auto simp: prefix_def)

lemma split_on_ne [simp]: "split_on c s \<noteq> []"
  by (induction s) (auto split: list.splits)

lemma join_split_on: "join [c] (split_on c s) = s"
proof (induction s)
  case Nil
  then show ?case by simp
next
  case (Cons x xs)
  obtain p ps where ps: "split_on c xs = p # ps"
    by (cases "split_on c xs") auto
  with Cons show ?case by (cases ps) auto
qed

lemma split_on_no_sep: "\<forall>p \<in> set (split_on c s). c \<notin> set p"
proof (induction s)
  case Nil
  then show ?case by simp
next
  case (Cons x xs)
  obtain p ps where "split_on c xs = p # ps"
    by (cases "split_on c xs") auto
  with Cons show ?case by auto
qed

lemma basename_no_slash: "CHR ''/'' \<notin> set (basename p)"
  by (auto simp: basename_def rsplit1_last_def dest: set_takeWhileD)

lemma suffix_basename: "suffix (basename p) p"
proof -
  have "prefix (takeWhile (\<lambda>x. x \<noteq> CHR ''/'') (rev p)) (rev p)"
    by (metis prefixI takeWhile_dropWhile_id)
  then show ?thesis
    by (simp add: basename_def rsplit1_last_def suffix_to_prefix)
qed

lemma strip_nul_no_nul [simp]: "CHR 0x00 \<notin> set (strip_nul s)"
  by (simp add: strip_nul_def)

lemma strip_nul_idem [simp]: "strip_nul (strip_nul s) = strip_nul s"
  by (simp add: strip_nul_def)

lemma strip_nul_id: "CHR 0x00 \<notin> set s \<Longrightarrow> strip_nul s = s"
  by (induction s) (auto simp: strip_nul_def)

lemma contains_refl [simp]: "contains s s"
  by (simp add: contains_def)

lemma contains_append [simp]: "contains (a @ s @ b) s"
  by (auto simp: contains_def sublist_def)

lemma lower_rstrip_lower: "lower (rstrip_by p (lower s)) = rstrip_by p (lower s)"
proof -
  have "\<forall>c \<in> set (rstrip_by p (lower s)). lower_char c = c"
    by (auto simp: rstrip_by_def lower_def dest!: set_dropWhileD)
  then show ?thesis unfolding lower_def by (simp add: map_idI)
qed

lemma strip_by_id:
  assumes "\<forall>c \<in> set s. \<not> p c"
  shows "strip_by p s = s"
proof -
  have "dropWhile p s = s" "dropWhile p (rev s) = rev s"
    using assms by (auto intro: dropWhile_eq_self_iff [THEN iffD2] simp: hd_rev)
  then show ?thesis by (simp add: strip_by_def lstrip_by_def rstrip_by_def)
qed

lemma strip_by_ends:
  assumes "s \<noteq> []" and "\<not> p (hd s)" and "\<not> p (last s)"
  shows "strip_by p s = s"
proof -
  have "dropWhile p s = s" "dropWhile p (rev s) = rev s"
    using assms by (auto intro: dropWhile_eq_self_iff [THEN iffD2] simp: hd_rev)
  then show ?thesis by (simp add: strip_by_def lstrip_by_def rstrip_by_def)
qed

lemma dropWhile_all: "\<forall>c \<in> set s. p c \<Longrightarrow> dropWhile p s = []"
  by (simp add: dropWhile_eq_Nil_conv)

lemma takeWhile_all: "\<forall>c \<in> set s. p c \<Longrightarrow> takeWhile p s = s"
  by (simp add: takeWhile_eq_all_conv)

lemma split1_no_sep:
  assumes "c \<notin> set s"
  shows "split1 c s = (s, None)"
proof -
  have a: "\<forall>x \<in> set s. x \<noteq> c" using assms by auto
  show ?thesis unfolding split1_def dropWhile_all [OF a] takeWhile_all [OF a] by simp
qed

section \<open>Lemmas on separators\<close>

lemma lower_char_sep: "c \<in> {CHR ''/'', CHR ''@''} \<Longrightarrow> lower_char x = c \<longleftrightarrow> x = c"
proof
  assume c: "c \<in> {CHR ''/'', CHR ''@''}" and x: "lower_char x = c"
  have n: "(of_char c :: nat) < 65" using c by auto
  show "x = c"
  proof (cases "65 \<le> (of_char x :: nat) \<and> (of_char x :: nat) \<le> 90")
    case True
    then have "(of_char (lower_char x) :: nat) = of_char x + 32" by (simp add: lower_char_def Let_def)
    with True n x show ?thesis by simp
  next
    case False
    then show ?thesis using x by (simp add: lower_char_def Let_def split: if_splits)
  qed
qed (auto simp: lower_char_def)

lemma lower_char_fixed [simp]: "lower_char (CHR ''/'') = CHR ''/''" "lower_char (CHR ''@'') = CHR ''@''"
  by (simp_all add: lower_char_def)

lemma lower_takeWhile_slash: "lower (takeWhile (\<lambda>x. x \<noteq> CHR ''/'') s) = takeWhile (\<lambda>x. x \<noteq> CHR ''/'') (lower s)"
  by (induction s) (auto simp: lower_char_sep)

lemma slash_in_lower [simp]: "CHR ''/'' \<in> set (lower s) \<longleftrightarrow> CHR ''/'' \<in> set s"
  by (induction s) (auto simp: lower_char_sep dest: sym)

lemma find_char_Some: "find_char c s = Some n \<longleftrightarrow> c \<in> set s \<and> n = length (takeWhile (\<lambda>x. x \<noteq> c) s)"
proof -
  have "length (takeWhile (\<lambda>x. x \<noteq> c) s) < length s \<longleftrightarrow> c \<in> set s"
    by (induction s) auto
  then show ?thesis by (auto simp: find_char_def Let_def)
qed

lemma find_char_None: "find_char c s = None \<longleftrightarrow> c \<notin> set s"
  using find_char_Some [of c s] by (cases "find_char c s") auto

lemma take_find_char: "find_char c s = Some n \<Longrightarrow> take n s = takeWhile (\<lambda>x. x \<noteq> c) s"
  by (simp add: find_char_Some) (metis takeWhile_eq_take)

lemma prefix_before_sep:
  assumes "c \<notin> set a"
  shows "prefix (a @ [c]) s \<longleftrightarrow> c \<in> set s \<and> takeWhile (\<lambda>x. x \<noteq> c) s = a"
  using assms
proof (induction a arbitrary: s)
  case Nil
  then show ?case by (cases s) auto
next
  case (Cons x a)
  then show ?case by (cases s) auto
qed

lemma split_on_append: "c \<notin> set a \<Longrightarrow> split_on c (a @ c # s) = a # split_on c s"
  by (induction a) auto

lemma split_on_nosep: "c \<notin> set a \<Longrightarrow> split_on c a = [a]"
  by (induction a) auto

lemma split_on_lower_slash: "split_on (CHR ''/'') (lower s) = map lower (split_on (CHR ''/'') s)"
proof (induction s)
  case Nil
  then show ?case by simp
next
  case (Cons x s)
  obtain p ps where "split_on (CHR ''/'') s = p # ps" by (cases "split_on (CHR ''/'') s") auto
  with Cons show ?case by (simp add: lower_char_sep)
qed

lemma split_on_two:
  assumes "c \<notin> set a" and "c \<notin> set b"
  shows "take 2 (split_on c s) = [a, b] \<longleftrightarrow> s = a @ c # b \<or> prefix (a @ c # b @ [c]) s"
proof
  assume t: "take 2 (split_on c s) = [a, b]"
  then obtain ps where ps: "split_on c s = a # b # ps"
    by (cases "split_on c s"; cases "tl (split_on c s)") auto
  have "s = join [c] (a # b # ps)" using join_split_on [of c s] ps by simp
  then show "s = a @ c # b \<or> prefix (a @ c # b @ [c]) s" by (cases ps) auto
next
  assume "s = a @ c # b \<or> prefix (a @ c # b @ [c]) s"
  then show "take 2 (split_on c s) = [a, b]"
  proof
    assume "s = a @ c # b"
    then show ?thesis using assms by (simp add: split_on_append split_on_nosep)
  next
    assume "prefix (a @ c # b @ [c]) s"
    then obtain r where "s = a @ c # (b @ c # r)" by (auto simp: prefix_def)
    then show ?thesis using assms by (simp add: split_on_append)
  qed
qed

section \<open>Lines\<close>

lemma break_space: "is_break c \<Longrightarrow> is_space c"
  by (auto simp: is_break_def is_space_def Let_def)

lemma takeWhile_before: "\<forall>c \<in> set a. p c \<Longrightarrow> \<not> p b \<Longrightarrow> takeWhile p (a @ b # r) = a"
  by (induction a) auto

lemma dropWhile_before: "\<forall>c \<in> set a. p c \<Longrightarrow> \<not> p b \<Longrightarrow> dropWhile p (a @ b # r) = b # r"
  by (induction a) auto

lemma splitlines_join:
  "\<forall>l \<in> set ls. l \<noteq> [] \<and> (\<forall>c \<in> set l. \<not> is_break c) \<Longrightarrow> splitlines (join [CHR 0x0A] ls) = ls"
proof (induction "[CHR 0x0A]" ls rule: join.induct)
  case 1
  then show ?case by (simp add: splitlines.simps)
next
  case (2 x)
  then show ?case
    by (subst splitlines.simps) (simp add: dropWhile_all takeWhile_all del: dropWhile_eq_Nil_conv)
next
  case (3 x y ys)
  let ?r = "join [CHR 0x0A] (y # ys)"
  have b: "is_break (CHR 0x0A)" by code_simp
  have "takeWhile (\<lambda>c. \<not> is_break c) (x @ CHR 0x0A # ?r) = x"
    "dropWhile (\<lambda>c. \<not> is_break c) (x @ CHR 0x0A # ?r) = CHR 0x0A # ?r"
    using 3(2) b by (simp_all add: takeWhile_before dropWhile_before)
  with 3 show ?case by (subst splitlines.simps) (simp add: Let_def)
qed

end
