(* ===== verification/Prelude.thy ===== *)
theory Prelude
  imports PyStr "HOL-Library.Multiset"
begin

text \<open>
  What the components share: the names of the model's basic types, tables as lists of rows
  in primary-key order with the SQL operations the code uses on them (first match, minimum
  by a key, conditional update and delete), association lists for ordered dictionaries, and
  the lemma collections \<open>table_simps\<close> and \<open>order_simps\<close>.
\<close>

named_theorems table_simps \<open>rewriting of table operations\<close>
named_theorems order_simps \<open>what ordered selection returns\<close>

text \<open>A point in time, in microseconds since the epoch (\<^verbatim>\<open>datetime\<close> is exact to the
  microsecond), and an ecosystem identifier.\<close>

type_synonym timestamp = int
type_synonym ecosystem = string

abbreviation seconds :: "int \<Rightarrow> int" where
  "seconds n \<equiv> n * 1000000"

abbreviation hours :: "int \<Rightarrow> int" where
  "hours n \<equiv> n * 3600000000"

abbreviation days :: "int \<Rightarrow> int" where
  "days n \<equiv> n * 86400000000"

section \<open>Tables\<close>

text \<open>\<^verbatim>\<open>UPDATE ... WHERE\<close>, \<^verbatim>\<open>DELETE ... WHERE\<close> and the row count both return.\<close>

definition update_where :: "('r \<Rightarrow> bool) \<Rightarrow> ('r \<Rightarrow> 'r) \<Rightarrow> 'r list \<Rightarrow> 'r list" where
  "update_where p f rs = map (\<lambda>r. if p r then f r else r) rs"

definition delete_where :: "('r \<Rightarrow> bool) \<Rightarrow> 'r list \<Rightarrow> 'r list" where
  "delete_where p rs = filter (\<lambda>r. \<not> p r) rs"

definition count_where :: "('r \<Rightarrow> bool) \<Rightarrow> 'r list \<Rightarrow> nat" where
  "count_where p rs = length (filter p rs)"

text \<open>\<^verbatim>\<open>ORDER BY key ASC LIMIT 1\<close> and \<^verbatim>\<open>ORDER BY key DESC LIMIT 1\<close>: the first row in
  primary-key order among those with the least (greatest) key.\<close>

fun min_by :: "('r \<Rightarrow> 'k::linorder) \<Rightarrow> 'r list \<Rightarrow> 'r option" where
  "min_by k [] = None"
| "min_by k (x # xs) = (case min_by k xs of None \<Rightarrow> Some x
     | Some y \<Rightarrow> if k x \<le> k y then Some x else Some y)"

fun max_by :: "('r \<Rightarrow> 'k::linorder) \<Rightarrow> 'r list \<Rightarrow> 'r option" where
  "max_by k [] = None"
| "max_by k (x # xs) = (case max_by k xs of None \<Rightarrow> Some x
     | Some y \<Rightarrow> if k y \<le> k x then Some x else Some y)"

text \<open>Rows sorted by a key in descending order, ties in primary-key order.\<close>

definition sort_desc :: "('r \<Rightarrow> 'k::linorder) \<Rightarrow> 'r list \<Rightarrow> 'r list" where
  "sort_desc k rs = rev (sort_key k (rev rs))"

text \<open>Keys in order of first appearance, as \<^verbatim>\<open>GROUP BY\<close> without an order or a set built in
  a loop; the order is not used by any claim.\<close>

fun nub :: "'a list \<Rightarrow> 'a list" where
  "nub [] = []"
| "nub (x # xs) = x # filter (\<lambda>y. y \<noteq> x) (nub xs)"

section \<open>Ordered dictionaries\<close>

text \<open>\<^verbatim>\<open>d[k] = v\<close> on a dictionary that keeps insertion order.\<close>

fun dict_put :: "'k \<Rightarrow> 'v \<Rightarrow> ('k \<times> 'v) list \<Rightarrow> ('k \<times> 'v) list" where
  "dict_put k v [] = [(k, v)]"
| "dict_put k v ((k', v') # d) = (if k' = k then (k, v) # d else (k', v') # dict_put k v d)"

definition dict_get :: "('k \<times> 'v) list \<Rightarrow> 'k \<Rightarrow> 'v option" where
  "dict_get d k = map_of d k"

definition get_or :: "'v \<Rightarrow> 'v option \<Rightarrow> 'v" where
  "get_or d x = (case x of None \<Rightarrow> d | Some v \<Rightarrow> v)"

text \<open>Python's truth value of an optional string.\<close>

definition truthy :: "string option \<Rightarrow> bool" where
  "truthy x = (case x of None \<Rightarrow> False | Some s \<Rightarrow> s \<noteq> [])"

definition or_empty :: "string option \<Rightarrow> string" where
  "or_empty x = (case x of None \<Rightarrow> [] | Some s \<Rightarrow> s)"

section \<open>Lemmas on tables\<close>

lemma in_map_filter: "y \<in> set (List.map_filter f xs) \<longleftrightarrow> (\<exists>x\<in>set xs. f x = Some y)"
  by (induction xs) (auto simp: List.map_filter_def split: option.splits)

lemma length_update_where [simp, table_simps]: "length (update_where p f rs) = length rs"
  by (simp add: update_where_def)

lemma update_where_simps [simp, table_simps]:
  "update_where p f [] = []"
  "update_where p f (r # rs) = (if p r then f r else r) # update_where p f rs"
  by (simp_all add: update_where_def)

lemma in_update_where: "x \<in> set (update_where p f rs) \<longleftrightarrow>
    (\<exists>r \<in> set rs. x = (if p r then f r else r))"
  by (auto simp: update_where_def)

lemma update_where_none: "(\<And>r. r \<in> set rs \<Longrightarrow> \<not> p r) \<Longrightarrow> update_where p f rs = rs"
  by (induction rs) auto

lemma map_update_where: "(\<And>r. g (f r) = g r) \<Longrightarrow> map g (update_where p f rs) = map g rs"
  by (induction rs) auto

lemma in_delete_where [simp, table_simps]:
  "x \<in> set (delete_where p rs) \<longleftrightarrow> x \<in> set rs \<and> \<not> p x"
  by (simp add: delete_where_def)

lemma distinct_map_filterI: "distinct (map k rs) \<Longrightarrow> distinct (map k (filter p rs))"
  by (induction rs) auto

lemma distinct_map_delete_where: "distinct (map k rs) \<Longrightarrow> distinct (map k (delete_where p rs))"
  by (simp add: delete_where_def distinct_map_filterI)

lemma count_where_simps [simp, table_simps]:
  "count_where p [] = 0"
  "count_where p (r # rs) = (if p r then Suc (count_where p rs) else count_where p rs)"
  by (simp_all add: count_where_def)

lemma count_where_append [simp, table_simps]:
  "count_where p (rs @ ts) = count_where p rs + count_where p ts"
  by (simp add: count_where_def)

lemma count_where_0: "count_where p rs = 0 \<longleftrightarrow> (\<forall>r \<in> set rs. \<not> p r)"
  by (induction rs) auto

lemma length_filter_imp: "(\<And>x. x \<in> set xs \<Longrightarrow> p x \<Longrightarrow> q x) \<Longrightarrow> length (filter p xs) \<le> length (filter q xs)"
  by (induction xs) (auto intro: le_SucI)

lemma mset_remove_key:
  assumes "distinct (map k rs)" and "r \<in> set rs"
  shows "add_mset (k r) (mset (map k (filter (\<lambda>x. k x \<noteq> k r) rs))) = mset (map k rs)"
  using assms
proof (induction rs)
  case Nil
  then show ?case by simp
next
  case (Cons x rs)
  show ?case
  proof (cases "k x = k r")
    case True
    then have "filter (\<lambda>y. k y \<noteq> k r) rs = rs"
      using Cons.prems(1) by (intro filter_True) (auto simp: image_def)
    with True show ?thesis by simp
  next
    case False
    with Cons show ?thesis by auto
  qed
qed

lemma count_where_key_le_1: "distinct (map k rs) \<Longrightarrow> count_where (\<lambda>r. k r = a \<and> q r) rs \<le> 1"
proof (induction rs)
  case Nil
  then show ?case by simp
next
  case (Cons x rs)
  show ?case
  proof (cases "k x = a")
    case True
    with Cons.prems have "count_where (\<lambda>r. k r = a \<and> q r) rs = 0"
      by (auto simp: count_where_0 image_def)
    then show ?thesis by simp
  next
    case False
    with Cons show ?thesis by simp
  qed
qed

lemma filter_not_prefix:
  assumes "distinct (map k (ys @ zs))"
  shows "filter (\<lambda>x. k x \<notin> k ` set ys) (ys @ zs) = zs"
proof -
  have "filter (\<lambda>x. k x \<notin> k ` set ys) ys = []" by (simp add: filter_empty_conv)
  moreover have "filter (\<lambda>x. k x \<notin> k ` set ys) zs = zs" using assms by (intro filter_True) auto
  ultimately show ?thesis by simp
qed

lemma filter_not_taken: "distinct (map k xs) \<Longrightarrow> filter (\<lambda>x. k x \<notin> k ` set (take n xs)) xs = drop n xs"
  using filter_not_prefix [of k "take n xs" "drop n xs"] unfolding append_take_drop_id .

lemma filter_kept_sort:
  assumes "distinct (map k xs)"
  shows "mset (filter (\<lambda>x. k x \<notin> k ` set (take n (sort_key f xs))) xs) = mset (drop n (sort_key f xs))"
proof -
  have d: "distinct (map k (sort_key f xs))"
    using assms by (metis distinct_map distinct_sort set_sort)
  have "mset (filter (\<lambda>x. k x \<notin> k ` set (take n (sort_key f xs))) xs) =
      mset (filter (\<lambda>x. k x \<notin> k ` set (take n (sort_key f xs))) (sort_key f xs))"
    by simp
  then show ?thesis unfolding filter_not_taken [OF d] .
qed

lemma length_delete_where: "length (delete_where p rs) + count_where p rs = length rs"
  by (induction rs) (auto simp: delete_where_def)

lemma min_by_None [simp, order_simps]: "min_by k rs = None \<longleftrightarrow> rs = []"
  by (cases rs) (auto split: option.splits)

lemma min_by_Some:
  "min_by k rs = Some x \<Longrightarrow> x \<in> set rs \<and> (\<forall>y \<in> set rs. k x \<le> k y)"
  by (induction rs arbitrary: x) (fastforce split: option.splits if_splits)+

lemma max_by_None [simp, order_simps]: "max_by k rs = None \<longleftrightarrow> rs = []"
  by (cases rs) (auto split: option.splits)

lemma max_by_Some:
  "max_by k rs = Some x \<Longrightarrow> x \<in> set rs \<and> (\<forall>y \<in> set rs. k y \<le> k x)"
  by (induction rs arbitrary: x) (fastforce split: option.splits if_splits)+

lemma set_sort_desc [simp, order_simps]: "set (sort_desc k rs) = set rs"
  by (simp add: sort_desc_def)

lemma length_sort_desc [simp, order_simps]: "length (sort_desc k rs) = length rs"
  by (simp add: sort_desc_def)

lemma sort_desc_sorted: "sorted_wrt (\<lambda>x y. k y \<le> k x) (sort_desc k rs)"
proof -
  have "sorted (map k (sort_key k (rev rs)))"
    by simp
  then show ?thesis
    by (simp add: sort_desc_def sorted_wrt_rev sorted_wrt_map)
qed

lemma set_nub [simp]: "set (nub xs) = set xs"
  by (induction xs) auto

lemma distinct_nub [simp]: "distinct (nub xs)"
  by (induction xs) auto

lemma nub_eq_Nil [simp]: "nub xs = [] \<longleftrightarrow> xs = []"
  by (cases xs) auto

lemma find_distinct_key:
  assumes "distinct (map k rs)" and "r \<in> set rs"
  shows "find (\<lambda>x. k x = k r) rs = Some r"
  using assms by (induction rs) (auto intro: rev_image_eqI)

lemma find_None_key: "find (\<lambda>x. k x = a) rs = None \<longleftrightarrow> a \<notin> k ` set rs"
  by (auto simp: find_None_iff)

lemma find_SomeD: "find p rs = Some r \<Longrightarrow> r \<in> set rs \<and> p r"
  by (auto simp: find_Some_iff)

lemma find_append:
  "find p (xs @ ys) = (case find p xs of None \<Rightarrow> find p ys | Some y \<Rightarrow> Some y)"
  by (induction xs) auto

section \<open>Lemmas on dictionaries\<close>

lemma map_of_dict_put [simp]: "map_of (dict_put k v d) = (map_of d)(k \<mapsto> v)"
  by (induction d) auto

lemma dict_get_Nil [simp]: "dict_get [] k = None"
  by (simp add: dict_get_def)

lemma dict_get_put [simp]: "dict_get (dict_put k v d) k' = (if k' = k then Some v else dict_get d k')"
  by (simp add: dict_get_def)

lemma fst_set_dict_put: "fst ` set (dict_put k v d) = insert k (fst ` set d)"
  by (simp flip: dom_map_of_conv_image_fst)

lemma snd_set_dict_put: "snd ` set (dict_put k v d) \<subseteq> insert v (snd ` set d)"
  by (induction k v d rule: dict_put.induct) auto

lemma distinct_dict_put: "distinct (map fst d) \<Longrightarrow> distinct (map fst (dict_put k v d))"
  by (induction k v d rule: dict_put.induct) (simp_all add: fst_set_dict_put, blast)

lemma get_or_simps [simp]: "get_or d None = d" "get_or d (Some v) = v"
  by (simp_all add: get_or_def)

lemma truthy_simps [simp]: "\<not> truthy None" "truthy (Some s) \<longleftrightarrow> s \<noteq> []"
  by (simp_all add: truthy_def)

lemma or_empty_simps [simp]: "or_empty None = []" "or_empty (Some s) = s"
  by (simp_all add: or_empty_def)

end
