(* ===== verification/Janitor.thy ===== *)
theory Janitor
  imports Prelude
begin

text \<open>
  The contract of a table kept under a cap by evicting its oldest rows: \<open>janitor\<close>. The tables of
  \<^verbatim>\<open>watchlist_auto.py\<close> (\<^verbatim>\<open>prune_over_cap\<close>) and \<^verbatim>\<open>maintainer_watch.py\<close> (\<^verbatim>\<open>prune\<close>) interpret it.
\<close>

locale janitor =
  fixes ident :: "'r \<Rightarrow> nat"
    and stamp :: "'r \<Rightarrow> timestamp"
    and member :: "ecosystem \<Rightarrow> 'r \<Rightarrow> bool"
    and evict :: "nat \<Rightarrow> ecosystem \<Rightarrow> 'r list \<Rightarrow> 'r list"
  assumes evict_oldest: "evict cap eco rs =
    delete_where (\<lambda>r. ident r \<in> ident ` set (take (count_where (member eco) rs - cap)
                        (sort_key stamp (filter (member eco) rs)))) rs"
begin

lemma evict_ids: "distinct (map ident rs) \<Longrightarrow> distinct (map ident (evict cap eco rs))"
  by (simp add: evict_oldest distinct_map_delete_where)

lemma evict_subset: "set (evict cap eco rs) \<subseteq> set rs"
  by (auto simp: evict_oldest)

lemma evict_survivors:
  assumes "distinct (map ident rs)"
  shows "mset (filter (member eco) (evict cap eco rs)) =
    mset (drop (count_where (member eco) rs - cap) (sort_key stamp (filter (member eco) rs)))"
proof -
  let ?n = "count_where (member eco) rs - cap" and ?S = "sort_key stamp (filter (member eco) rs)"
  have d: "distinct (map ident (filter (member eco) rs))" using assms by (rule distinct_map_filterI)
  have "filter (member eco) (evict cap eco rs) =
      filter (\<lambda>r. ident r \<notin> ident ` set (take ?n ?S)) (filter (member eco) rs)"
    by (simp add: evict_oldest delete_where_def conj_commute)
  then show ?thesis using filter_kept_sort [OF d] by simp
qed

lemma evict_bounded:
  assumes "distinct (map ident rs)"
  shows "count_where (member eco) (evict cap eco rs) = min cap (count_where (member eco) rs)"
proof -
  have "count_where (member eco) (evict cap eco rs) =
      length (drop (count_where (member eco) rs - cap) (sort_key stamp (filter (member eco) rs)))"
    using arg_cong [OF evict_survivors [OF assms, of eco cap], of size] unfolding size_mset count_where_def .
  then show ?thesis by (simp add: count_where_def)
qed

lemma evict_others:
  assumes "distinct (map ident rs)" and "r \<in> set rs" and "\<not> member eco r"
  shows "r \<in> set (evict cap eco rs)"
proof -
  have "ident r \<noteq> ident s" if "s \<in> set (take n (sort_key stamp (filter (member eco) rs)))" for s n
    using in_set_takeD [OF that] assms by (auto simp: distinct_map inj_on_def)
  with assms(2) show ?thesis by (auto simp: evict_oldest)
qed

lemma evict_age:
  assumes "distinct (map ident rs)" and "r \<in> set rs" and "member eco r" and "r \<notin> set (evict cap eco rs)"
    and "s \<in> set (evict cap eco rs)" and "member eco s"
  shows "stamp r \<le> stamp s"
proof -
  let ?n = "count_where (member eco) rs - cap" and ?S = "sort_key stamp (filter (member eco) rs)"
  have low: "x \<in> set (evict cap eco rs) \<and> member eco x \<longleftrightarrow> x \<in> set (drop ?n ?S)" for x
    using mset_eq_setD [OF evict_survivors [OF assms(1), of eco cap]] by auto
  have "r \<in> set ?S" using assms(2,3) by simp
  then have "r \<in> set (take ?n ?S @ drop ?n ?S)" unfolding append_take_drop_id .
  then have "r \<in> set (take ?n ?S)" using low [of r] assms(3,4) unfolding set_append by blast
  moreover have "s \<in> set (drop ?n ?S)" using low [of s] assms(5,6) by blast
  moreover have "sorted (map stamp (take ?n ?S @ drop ?n ?S))" by simp
  ultimately show ?thesis unfolding map_append sorted_append by (simp del: append_take_drop_id)
qed

text \<open>Evicting in one ecosystem after the other.\<close>

lemma fold_evict:
  assumes "distinct (map ident rs)"
  shows "distinct (map ident (fold (evict cap) ecos rs)) \<and> set (fold (evict cap) ecos rs) \<subseteq> set rs \<and>
    (\<forall>eco \<in> set ecos. count_where (member eco) (fold (evict cap) ecos rs) \<le> cap) \<and>
    (\<forall>r \<in> set rs. (\<forall>eco \<in> set ecos. \<not> member eco r) \<longrightarrow> r \<in> set (fold (evict cap) ecos rs))"
  using assms
proof (induction ecos arbitrary: rs)
  case Nil
  then show ?case by simp
next
  case (Cons e ecos)
  let ?ts = "evict cap e rs" and ?us = "fold (evict cap) ecos (evict cap e rs)"
  have d: "distinct (map ident ?ts)" by (rule evict_ids [OF Cons.prems])
  note ih = Cons.IH [OF d]
  have "count_where (member e) ?us \<le> count_where (member e) ?ts"
  proof -
    have "distinct ?us" "distinct ?ts" using ih d by (auto simp: distinct_map)
    then have "count_where (member e) ?us = card {x \<in> set ?us. member e x}"
      "count_where (member e) ?ts = card {x \<in> set ?ts. member e x}"
      by (simp_all add: count_where_def distinct_length_filter Int_def conj_commute)
    then show ?thesis using ih by (auto intro: card_mono)
  qed
  then have "count_where (member e) ?us \<le> cap"
    using evict_bounded [OF Cons.prems, of e cap] by simp
  moreover have "\<forall>r \<in> set rs. (\<forall>eco \<in> set (e # ecos). \<not> member eco r) \<longrightarrow> r \<in> set ?us"
    using ih evict_others [OF Cons.prems] by auto
  ultimately show ?case using ih evict_subset [of cap e rs] by auto
qed

end

end
