(* ===== verification/IntelPack.thy ===== *)
theory IntelPack
  imports Prelude
begin

text \<open>
  The intel pack (\<^verbatim>\<open>src/pkgward/intel/pack.py\<close>): the record of detection content, the
  per-field merge of a private overlay onto the baseline, and the numeric coercion of its
  maps. Ordered dictionaries are association lists; dictionaries that are only looked up
  are maps. A hash seed is its \<^verbatim>\<open>sha256\<close> and the rest of its keys.
\<close>

record hash_seed =
  hs_sha256 :: "string option"
  hs_rest :: "(string \<times> string) list"

record intel_pack =
  ip_source :: string
  ip_yara_dirs :: "string list"
  ip_opengrep_dirs :: "string list"
  ip_hash_seeds :: "hash_seed list"
  ip_prompts :: "(string \<times> string) list"
  ip_thresholds :: "string \<rightharpoonup> int"
  ip_scoring_weights :: "string \<rightharpoonup> int"
  ip_behavioral_chain_ids :: "string set"
  ip_lure_keywords :: "(string \<times> string list) list"
  ip_ioc_whitelist :: "string set"
  ip_malware_pattern_strings :: "(string \<times> string list) list"
  ip_gomod_benign_tools :: "string list"
  ip_npm_benign_tools :: "string list"
  ip_detonation_rules_data :: "(string \<times> string list) list"
  ip_detonation_noise :: "(string \<times> string list) list"

text \<open>\<^verbatim>\<open>for x in new: if x not in acc: acc.append(x)\<close>, the loop every list field uses.\<close>

fun append_new :: "'a list \<Rightarrow> 'a list \<Rightarrow> 'a list" where
  "append_new acc [] = acc"
| "append_new acc (x # xs) = append_new (if x \<in> set acc then acc else acc @ [x]) xs"

text \<open>The loop over the overlay's hash seeds, with \<^verbatim>\<open>seen_sha\<close> and \<^verbatim>\<open>merged_hashes\<close>.\<close>

fun merge_hashes :: "string set \<Rightarrow> hash_seed list \<Rightarrow> hash_seed list \<Rightarrow> hash_seed list" where
  "merge_hashes seen acc [] = acc"
| "merge_hashes seen acc (h # hs) =
     (if truthy (hs_sha256 h) \<and> or_empty (hs_sha256 h) \<in> seen then merge_hashes seen acc hs
      else merge_hashes
        (if truthy (hs_sha256 h) then insert (or_empty (hs_sha256 h)) seen else seen)
        (acc @ [h]) hs)"

definition seen_shas :: "hash_seed list \<Rightarrow> string set" where
  "seen_shas hs = (\<lambda>h. or_empty (hs_sha256 h)) ` set (filter (\<lambda>h. truthy (hs_sha256 h)) hs)"

fun merge_prompts :: "(string \<times> string) list \<Rightarrow> (string \<times> string) list \<Rightarrow> (string \<times> string) list" where
  "merge_prompts acc [] = acc"
| "merge_prompts acc ((k, v) # r) = merge_prompts (if v \<noteq> [] then dict_put k v acc else acc) r"

text \<open>\<^verbatim>\<open>existing = merged.setdefault(cat, []); for kw in kws: if kw not in existing: ...\<close>\<close>

fun merge_lists :: "(string \<times> string list) list \<Rightarrow> (string \<times> string list) list
    \<Rightarrow> (string \<times> string list) list" where
  "merge_lists acc [] = acc"
| "merge_lists acc ((cat, kws) # r) =
     merge_lists (dict_put cat (append_new (get_or [] (dict_get acc cat)) kws) acc) r"

definition merge :: "intel_pack \<Rightarrow> intel_pack \<Rightarrow> intel_pack" where
  "merge self overlay = \<lparr>
     ip_source = ip_source self @ ''+'' @ ip_source overlay,
     ip_yara_dirs = append_new (ip_yara_dirs self) (ip_yara_dirs overlay),
     ip_opengrep_dirs = append_new (ip_opengrep_dirs self) (ip_opengrep_dirs overlay),
     ip_hash_seeds = merge_hashes (seen_shas (ip_hash_seeds self)) (ip_hash_seeds self)
                       (ip_hash_seeds overlay),
     ip_prompts = merge_prompts (ip_prompts self) (ip_prompts overlay),
     ip_thresholds = ip_thresholds self ++ ip_thresholds overlay,
     ip_scoring_weights = ip_scoring_weights self ++ ip_scoring_weights overlay,
     ip_behavioral_chain_ids = ip_behavioral_chain_ids self \<union> ip_behavioral_chain_ids overlay,
     ip_lure_keywords = merge_lists (ip_lure_keywords self) (ip_lure_keywords overlay),
     ip_ioc_whitelist = ip_ioc_whitelist self \<union> ip_ioc_whitelist overlay,
     ip_malware_pattern_strings =
       merge_lists (ip_malware_pattern_strings self) (ip_malware_pattern_strings overlay),
     ip_gomod_benign_tools = append_new (ip_gomod_benign_tools self) (ip_gomod_benign_tools overlay),
     ip_npm_benign_tools = append_new (ip_npm_benign_tools self) (ip_npm_benign_tools overlay),
     ip_detonation_rules_data =
       merge_lists (ip_detonation_rules_data self) (ip_detonation_rules_data overlay),
     ip_detonation_noise = merge_lists (ip_detonation_noise self) (ip_detonation_noise overlay) \<rparr>"

text \<open>TOML scalars as \<^verbatim>\<open>_numeric_map\<close> sees them; \<^verbatim>\<open>int(v)\<close> of a float truncates towards zero.\<close>

datatype toml_value = TInt int | TFloat rat | TBool bool | TStr string

definition py_trunc :: "rat \<Rightarrow> int" where
  "py_trunc q = (if q < 0 then - \<lfloor>- q\<rfloor> else \<lfloor>q\<rfloor>)"

fun numeric_map :: "(string \<times> toml_value) list \<Rightarrow> (string \<times> int) list" where
  "numeric_map [] = []"
| "numeric_map ((k, v) # r) = (case v of
       TInt i \<Rightarrow> (k, i) # numeric_map r
     | TFloat q \<Rightarrow> (k, py_trunc q) # numeric_map r
     | TBool _ \<Rightarrow> numeric_map r
     | TStr _ \<Rightarrow> numeric_map r)"

section \<open>Merging is additive\<close>

lemma set_append_new [simp]: "set (append_new acc xs) = set acc \<union> set xs"
  by (induction acc xs rule: append_new.induct) auto

lemma prefix_append_new: "prefix acc (append_new acc xs)"
  by (induction acc xs rule: append_new.induct) (auto split: if_splits dest: append_prefixD)

lemma distinct_append_new: "distinct acc \<Longrightarrow> distinct (append_new acc xs)"
  by (induction acc xs rule: append_new.induct) auto

lemma append_new_absorb: "set xs \<subseteq> set acc \<Longrightarrow> append_new acc xs = acc"
  by (induction acc xs rule: append_new.induct) auto

lemma prefix_merge_hashes: "prefix acc (merge_hashes seen acc hs)"
  by (induction seen acc hs rule: merge_hashes.induct) (auto split: if_splits dest: append_prefixD)

lemma set_merge_hashes_subset: "set (merge_hashes seen acc hs) \<subseteq> set acc \<union> set hs"
  by (induction seen acc hs rule: merge_hashes.induct) auto

lemma seen_shas_snoc: "seen_shas (acc @ [h]) =
    (if truthy (hs_sha256 h) then insert (or_empty (hs_sha256 h)) (seen_shas acc) else seen_shas acc)"
  by (auto simp: seen_shas_def)

lemma merge_hashes_seen:
  "seen_shas (merge_hashes (seen_shas acc) acc hs) = seen_shas acc \<union> seen_shas hs"
proof (induction hs arbitrary: acc)
  case Nil
  then show ?case by (simp add: seen_shas_def)
next
  case (Cons h hs)
  have h: "seen_shas (h # hs) =
      (if truthy (hs_sha256 h) then insert (or_empty (hs_sha256 h)) (seen_shas hs) else seen_shas hs)"
    by (simp add: seen_shas_def)
  show ?case using Cons [of acc] Cons [of "acc @ [h]"] by (auto simp: h seen_shas_snoc)
qed

lemma merge_lists_get:
  "get_or [] (dict_get (merge_lists acc ov) cat) =
     fold (\<lambda>p ks. if fst p = cat then append_new ks (snd p) else ks) ov (get_or [] (dict_get acc cat))"
  by (induction acc ov rule: merge_lists.induct) auto

lemma merge_lists_supset:
  "set (get_or [] (dict_get acc cat)) \<subseteq> set (get_or [] (dict_get (merge_lists acc ov) cat))"
proof (induction acc ov rule: merge_lists.induct)
  case (1 acc)
  then show ?case by simp
next
  case (2 acc cat' kws r)
  have "set (get_or [] (dict_get acc cat)) \<subseteq>
      set (get_or [] (dict_get (dict_put cat' (append_new (get_or [] (dict_get acc cat')) kws) acc) cat))"
    by auto
  with 2 show ?case by simp
qed

lemma merge_lists_overlay:
  "(cat, kws) \<in> set ov \<Longrightarrow> set kws \<subseteq> set (get_or [] (dict_get (merge_lists acc ov) cat))"
proof (induction acc ov rule: merge_lists.induct)
  case (1 acc)
  then show ?case by simp
next
  case (2 acc cat' kws' r)
  show ?case
  proof (cases "(cat, kws) \<in> set r")
    case True
    then show ?thesis using 2 by simp
  next
    case False
    with 2 have "cat' = cat" "kws' = kws" by auto
    then show ?thesis
      using merge_lists_supset [of "dict_put cat (append_new (get_or [] (dict_get acc cat)) kws) acc" cat r]
      by simp
  qed
qed

lemma merge_prompts_get:
  "dict_get (merge_prompts acc ov) k =
     (case find (\<lambda>p. fst p = k \<and> snd p \<noteq> []) (rev ov) of None \<Rightarrow> dict_get acc k | Some p \<Rightarrow> Some (snd p))"
proof (induction acc ov rule: merge_prompts.induct)
  case (1 acc)
  then show ?case by simp
next
  case (2 acc k' v r)
  then show ?case by (cases "v = []") (auto simp: find_append split: option.splits)
qed

text \<open>Overlaying a private pack never loses baseline content: every YARA and opengrep
  directory, hash seed (up to its SHA-256), chain identifier, whitelisted domain, benign tool and
  keyword of either pack is in the merge, in the baseline's order, while a threshold or weight the
  overlay sets replaces the baseline's and one it leaves out is inherited.\<close>

theorem merge_union_replace:
  "set (ip_yara_dirs (merge b ov)) = set (ip_yara_dirs b) \<union> set (ip_yara_dirs ov) \<and>
   prefix (ip_yara_dirs b) (ip_yara_dirs (merge b ov)) \<and>
   set (ip_opengrep_dirs (merge b ov)) = set (ip_opengrep_dirs b) \<union> set (ip_opengrep_dirs ov) \<and>
   prefix (ip_hash_seeds b) (ip_hash_seeds (merge b ov)) \<and>
   seen_shas (ip_hash_seeds (merge b ov)) = seen_shas (ip_hash_seeds b) \<union> seen_shas (ip_hash_seeds ov) \<and>
   ip_behavioral_chain_ids (merge b ov) = ip_behavioral_chain_ids b \<union> ip_behavioral_chain_ids ov \<and>
   ip_ioc_whitelist (merge b ov) = ip_ioc_whitelist b \<union> ip_ioc_whitelist ov \<and>
   set (ip_npm_benign_tools (merge b ov)) = set (ip_npm_benign_tools b) \<union> set (ip_npm_benign_tools ov) \<and>
   set (get_or [] (dict_get (ip_lure_keywords b) cat))
     \<subseteq> set (get_or [] (dict_get (ip_lure_keywords (merge b ov)) cat)) \<and>
   ((cat, kws) \<in> set (ip_lure_keywords ov) \<longrightarrow>
     set kws \<subseteq> set (get_or [] (dict_get (ip_lure_keywords (merge b ov)) cat))) \<and>
   ip_thresholds (merge b ov) k =
     (case ip_thresholds ov k of None \<Rightarrow> ip_thresholds b k | Some v \<Rightarrow> Some v) \<and>
   ip_scoring_weights (merge b ov) k =
     (case ip_scoring_weights ov k of None \<Rightarrow> ip_scoring_weights b k | Some v \<Rightarrow> Some v)"
  by (simp add: merge_def prefix_append_new prefix_merge_hashes merge_hashes_seen
      merge_lists_supset merge_lists_overlay map_add_def)

definition demo_base :: intel_pack where
  "demo_base = \<lparr> ip_source = ''baseline'', ip_yara_dirs = [''y''], ip_opengrep_dirs = [],
     ip_hash_seeds = [], ip_prompts = [], ip_thresholds = [''malicious_min'' \<mapsto> 61],
     ip_scoring_weights = [''high'' \<mapsto> 25], ip_behavioral_chain_ids = {''dyn_reverse_shell''},
     ip_lure_keywords = [(''crypto'', [''wallet''])], ip_ioc_whitelist = {''pypi.org''},
     ip_malware_pattern_strings = [], ip_gomod_benign_tools = [], ip_npm_benign_tools = [],
     ip_detonation_rules_data = [], ip_detonation_noise = [] \<rparr>"

theorem merge_union_replace_witness:
  "set [''seed''] \<subseteq>
     set (get_or [] (dict_get (ip_lure_keywords (merge demo_base
        (demo_base\<lparr>ip_lure_keywords := [(''crypto'', [''seed''])]\<rparr>))) ''crypto''))"
  using merge_union_replace [of demo_base "demo_base\<lparr>ip_lure_keywords := [(''crypto'', [''seed''])]\<rparr>"
      "''crypto''" "[''seed'']" "''malicious_min''"]
  by simp

end
