(* ===== verification/Score.thy ===== *)
theory Score
  imports IntelPack
begin

text \<open>
  Findings, verdicts and scoring: \<^verbatim>\<open>adapter.Finding\<close>, \<^verbatim>\<open>detect/score.py\<close>,
  \<^verbatim>\<open>detect/rules.py\<close> and the detonation gate \<^verbatim>\<open>detonate/gate.py\<close>. A finding's \<^verbatim>\<open>file\<close>
  is optional because one analyzer passes \<^verbatim>\<open>None\<close>. The intel pack is an argument in place of
  \<^verbatim>\<open>intel.current()\<close>. The locale \<open>verdict_policy\<close> states what the re-scoring client
  (\<^verbatim>\<open>detonation_worker\<close>) relies on; it is interpreted on \<open>score_and_verdict\<close>.
\<close>

record finding =
  f_rule_id :: string
  f_category :: string
  f_severity :: string
  f_confidence :: string
  f_file :: "string option"
  f_line :: "int option"
  f_evidence :: string

text \<open>\<open>mk_finding\<close> is \<^verbatim>\<open>Finding(rule_id=..., category=..., severity=..., confidence=..., file="",
  line=None, evidence=...)\<close>.\<close>

definition mk_finding :: "string \<Rightarrow> string \<Rightarrow> string \<Rightarrow> string \<Rightarrow> string \<Rightarrow> finding" where
  "mk_finding rid cat sev conf ev = \<lparr>f_rule_id = rid, f_category = cat, f_severity = sev,
     f_confidence = conf, f_file = Some [], f_line = None, f_evidence = ev\<rparr>"

text \<open>The verdict strings of \<^verbatim>\<open>Scan.verdict\<close> and \<^verbatim>\<open>LLMTriageResult.verdict\<close>.\<close>

datatype verdict = Clean | Suspicious | Malicious | Benign | Inconclusive | Errored | Skipped | Unverified

record score_result =
  sr_score :: int
  sr_verdict :: verdict
  sr_alert_tag :: "string option"

section \<open>score.py\<close>

definition severity_points :: "intel_pack \<Rightarrow> string \<Rightarrow> int" where
  "severity_points p sev = get_or 0 (ip_scoring_weights p sev)"

definition category_cap :: "intel_pack \<Rightarrow> int" where
  "category_cap p = get_or 30 (ip_thresholds p ''category_cap'')"

definition suspicious_min :: "intel_pack \<Rightarrow> int" where
  "suspicious_min p = get_or 20 (ip_thresholds p ''suspicious_min'')"

definition malicious_min :: "intel_pack \<Rightarrow> int" where
  "malicious_min p = get_or 61 (ip_thresholds p ''malicious_min'')"

definition bucket_key :: "finding \<Rightarrow> string" where
  "bucket_key f = (if f_category f = ''dynamic'' then f_rule_id f else f_category f)"

fun score_loop :: "intel_pack \<Rightarrow> (string \<times> int) list \<Rightarrow> finding list \<Rightarrow> (string \<times> int) list" where
  "score_loop p d [] = d"
| "score_loop p d (f # fs) =
     score_loop p (dict_put (bucket_key f)
       (min (get_or 0 (dict_get d (bucket_key f)) + severity_points p (f_severity f)) (category_cap p)) d) fs"

definition raw_score :: "intel_pack \<Rightarrow> finding list \<Rightarrow> int" where
  "raw_score p fs = sum_list (map snd (score_loop p [] fs))"

definition has_any :: "finding list \<Rightarrow> string \<Rightarrow> bool" where
  "has_any fs sev = list_ex (\<lambda>f. f_severity f = sev) fs"

definition has_behavioral_chain :: "intel_pack \<Rightarrow> finding list \<Rightarrow> bool" where
  "has_behavioral_chain p fs = list_ex (\<lambda>f. f_rule_id f \<in> ip_behavioral_chain_ids p) fs"

definition is_shadow_finding :: "finding \<Rightarrow> bool" where
  "is_shadow_finding f = prefix ''opengrep.shadow_'' (f_rule_id f)"

definition score_and_verdict :: "intel_pack \<Rightarrow> finding list \<Rightarrow> int option \<Rightarrow> score_result" where
  "score_and_verdict p findings watchlist_rank =
    (let scoring = filter (\<lambda>f. \<not> is_shadow_finding f) findings;
         score = raw_score p scoring;
         verdict =
           (if has_behavioral_chain p scoring \<or> has_any scoring ''critical'' \<or> malicious_min p \<le> score
            then Malicious
            else if has_any scoring ''high'' \<or> suspicious_min p \<le> score then Suspicious
            else Clean)
     in case watchlist_rank of
          None \<Rightarrow> \<lparr>sr_score = score, sr_verdict = verdict, sr_alert_tag = None\<rparr>
        | Some rank \<Rightarrow>
            (let verdict1 =
               (if verdict = Clean \<and>
                   list_ex (\<lambda>f. f_severity f \<in> {''medium'', ''high'', ''critical''}) scoring
                then Suspicious else verdict)
             in if rank \<le> 100 \<and> list_ex (\<lambda>f. f_severity f \<in> {''high'', ''critical''}) scoring
                then \<lparr>sr_score = score, sr_verdict = Malicious, sr_alert_tag = Some ''watchlist_top100''\<rparr>
                else \<lparr>sr_score = score, sr_verdict = verdict1, sr_alert_tag = None\<rparr>))"

section \<open>rules.py and gate.py\<close>

definition behavioral_chain_rules :: "intel_pack \<Rightarrow> string set" where
  "behavioral_chain_rules p = ip_behavioral_chain_ids p"

definition should_detonate :: "string set \<Rightarrow> verdict \<Rightarrow> int \<Rightarrow> finding list \<Rightarrow> int option \<Rightarrow> bool \<Rightarrow> bool" where
  "should_detonate chain_rules verdict score findings watchlist_rank is_new_package =
    (if is_new_package then True
     else if watchlist_rank \<noteq> None then True
     else if verdict = Malicious \<and> list_ex (\<lambda>f. f_rule_id f \<in> chain_rules) findings then False
     else if verdict \<in> {Suspicious, Malicious} then True
     else False)"

section \<open>Reference definitions\<close>

text \<open>What the scoring loop is meant to compute: per bucket, the points of its findings added up
  and capped once.\<close>

definition bucket_sum :: "intel_pack \<Rightarrow> finding list \<Rightarrow> string \<Rightarrow> int" where
  "bucket_sum p fs k = sum_list (map (\<lambda>f. severity_points p (f_severity f)) (filter (\<lambda>f. bucket_key f = k) fs))"

definition capped_score :: "intel_pack \<Rightarrow> finding list \<Rightarrow> int" where
  "capped_score p fs = (\<Sum>k \<in> bucket_key ` set fs. min (bucket_sum p fs k) (category_cap p))"

definition sane_pack :: "intel_pack \<Rightarrow> bool" where
  "sane_pack p \<longleftrightarrow> 0 \<le> category_cap p \<and> (\<forall>s \<in> dom (ip_scoring_weights p). 0 \<le> severity_points p s)"

text \<open>Verdict order for what a rule verdict means: clean, suspicious, malicious.\<close>

fun rule_rank :: "verdict \<Rightarrow> nat" where
  "rule_rank Malicious = 2"
| "rule_rank Suspicious = 1"
| "rule_rank _ = 0"

section \<open>Lemmas\<close>

lemma severity_points_nonneg: "sane_pack p \<Longrightarrow> 0 \<le> severity_points p s"
  by (cases "ip_scoring_weights p s") (force simp: sane_pack_def severity_points_def dom_def)+

lemma has_any_iff: "has_any fs sev \<longleftrightarrow> (\<exists>f \<in> set fs. f_severity f = sev)"
  by (auto simp: has_any_def list_ex_iff)

lemma has_behavioral_chain_iff:
  "has_behavioral_chain p fs \<longleftrightarrow> (\<exists>f \<in> set fs. f_rule_id f \<in> ip_behavioral_chain_ids p)"
  by (auto simp: has_behavioral_chain_def list_ex_iff)

lemma score_loop_distinct: "distinct (map fst d) \<Longrightarrow> distinct (map fst (score_loop p d fs))"
  by (induction p d fs rule: score_loop.induct) (auto intro: distinct_dict_put)

lemma score_loop_keys: "fst ` set (score_loop p d fs) = fst ` set d \<union> bucket_key ` set fs"
  by (induction p d fs rule: score_loop.induct) (auto simp: fst_set_dict_put)

lemma min_add_min: "0 \<le> (b::int) \<Longrightarrow> min (min a c + b) c = min (a + b) c"
  by (simp add: min_def)

lemma bucket_sum_Cons: "bucket_sum p (f # fs) k =
    (if bucket_key f = k then severity_points p (f_severity f) else 0) + bucket_sum p fs k"
  by (simp add: bucket_sum_def)

lemma bucket_sum_nonneg: "sane_pack p \<Longrightarrow> 0 \<le> bucket_sum p fs k"
  by (induction fs) (auto simp: bucket_sum_Cons bucket_sum_def[of p "[]"] severity_points_nonneg)

lemma score_loop_get:
  assumes "sane_pack p"
  shows "min (get_or 0 (dict_get d k) + bucket_sum p fs k) (category_cap p) =
         min (get_or 0 (dict_get (score_loop p d fs) k)) (category_cap p)"
proof (induction fs arbitrary: d)
  case Nil
  then show ?case by (simp add: bucket_sum_def)
next
  case (Cons f fs)
  let ?d = "dict_put (bucket_key f)
       (min (get_or 0 (dict_get d (bucket_key f)) + severity_points p (f_severity f)) (category_cap p)) d"
  have "min (get_or 0 (dict_get d k) + bucket_sum p (f # fs) k) (category_cap p) =
        min (get_or 0 (dict_get ?d k) + bucket_sum p fs k) (category_cap p)"
    using bucket_sum_nonneg [OF assms, of fs k]
    by (auto simp: bucket_sum_Cons min_add_min add.assoc)
  with Cons [of ?d] show ?case by simp
qed

lemma score_loop_le_cap:
  assumes "\<forall>v \<in> snd ` set d. v \<le> category_cap p"
  shows "\<forall>v \<in> snd ` set (score_loop p d fs). v \<le> category_cap p"
  using assms
proof (induction fs arbitrary: d)
  case Nil
  then show ?case by simp
next
  case (Cons f fs)
  let ?v = "min (get_or 0 (dict_get d (bucket_key f)) + severity_points p (f_severity f)) (category_cap p)"
  from Cons.prems have "\<forall>v \<in> insert ?v (snd ` set d). v \<le> category_cap p" by simp
  then have "\<forall>v \<in> snd ` set (dict_put (bucket_key f) ?v d). v \<le> category_cap p"
    using snd_set_dict_put [of "bucket_key f" ?v d] by (meson subsetD)
  from Cons.IH [OF this] show ?case by simp
qed

lemma sum_list_snd_dict:
  "distinct (map fst d) \<Longrightarrow> sum_list (map snd d) = (\<Sum>k \<in> fst ` set d. get_or 0 (dict_get d k :: int option))"
proof (induction d)
  case Nil
  then show ?case by simp
next
  case (Cons e d)
  obtain k v where e: "e = (k, v)" by (cases e)
  have "(\<Sum>k' \<in> fst ` set d. get_or 0 (dict_get (e # d) k')) = (\<Sum>k' \<in> fst ` set d. get_or 0 (dict_get d k'))"
    using Cons.prems by (intro sum.cong) (auto simp: e dict_get_def)
  with Cons show ?case by (simp add: e dict_get_def)
qed

lemma raw_score_eq_capped:
  assumes "sane_pack p"
  shows "raw_score p fs = capped_score p fs"
proof -
  let ?d = "score_loop p [] fs"
  have v: "get_or 0 (dict_get ?d k) = min (bucket_sum p fs k) (category_cap p)"
    if "k \<in> bucket_key ` set fs" for k
  proof -
    from that obtain x where x: "dict_get ?d k = Some x"
      using score_loop_keys [of p "[]" fs] by (cases "dict_get ?d k") (auto simp: dict_get_def map_of_eq_None_iff)
    then have "x \<in> snd ` set ?d" by (auto simp: dict_get_def dest: map_of_SomeD intro: rev_image_eqI)
    then have "x \<le> category_cap p" using score_loop_le_cap [of "[]" p fs] by auto
    with score_loop_get [OF assms, of "[]" k fs] x show ?thesis by (simp add: dict_get_def)
  qed
  have "raw_score p fs = (\<Sum>k \<in> fst ` set ?d. get_or 0 (dict_get ?d k))"
    unfolding raw_score_def by (rule sum_list_snd_dict) (simp add: score_loop_distinct)
  also have "\<dots> = capped_score p fs"
    unfolding capped_score_def score_loop_keys by (rule sum.cong) (auto simp: v)
  finally show ?thesis .
qed

lemma bucket_sum_mset: "mset fs = mset gs \<Longrightarrow> bucket_sum p fs k = bucket_sum p gs k"
  unfolding bucket_sum_def sum_mset_sum_list [symmetric] mset_map mset_filter by simp

lemma capped_score_mset: "mset fs = mset gs \<Longrightarrow> capped_score p fs = capped_score p gs"
  unfolding capped_score_def using bucket_sum_mset [of fs gs p] mset_eq_setD [of fs gs] by simp

lemma bucket_sum_append: "bucket_sum p (fs @ gs) k = bucket_sum p fs k + bucket_sum p gs k"
  by (simp add: bucket_sum_def)

lemma capped_score_mono:
  assumes "sane_pack p"
  shows "capped_score p fs \<le> capped_score p (fs @ gs)"
proof -
  let ?g = "\<lambda>hs k. min (bucket_sum p hs k) (category_cap p)"
  have "capped_score p fs \<le> (\<Sum>k \<in> bucket_key ` set fs. ?g (fs @ gs) k)"
    unfolding capped_score_def
    by (rule sum_mono, rule min.mono) (simp_all add: bucket_sum_append bucket_sum_nonneg [OF assms])
  also have "\<dots> \<le> capped_score p (fs @ gs)"
    unfolding capped_score_def
    by (rule sum_mono2) (use bucket_sum_nonneg [OF assms] assms in \<open>auto simp: sane_pack_def min_def\<close>)
  finally show ?thesis .
qed

lemma capped_score_bound:
  assumes "sane_pack p"
  shows "0 \<le> capped_score p fs \<and> capped_score p fs \<le> category_cap p * int (card (bucket_key ` set fs))"
proof -
  have "capped_score p fs \<le> (\<Sum>k \<in> bucket_key ` set fs. category_cap p)"
    unfolding capped_score_def by (rule sum_mono) simp
  moreover have "0 \<le> capped_score p fs"
    unfolding capped_score_def
    by (rule sum_nonneg) (use bucket_sum_nonneg [OF assms] assms in \<open>auto simp: sane_pack_def min_def\<close>)
  ultimately show ?thesis by (simp add: mult.commute)
qed

lemma sr_score_eq: "sr_score (score_and_verdict p fs rank) = raw_score p (filter (\<lambda>f. \<not> is_shadow_finding f) fs)"
  by (auto simp: score_and_verdict_def Let_def split: option.splits)

lemma score_and_verdict_malicious_iff:
  "sr_verdict (score_and_verdict p fs rank) = Malicious \<longleftrightarrow>
     (let sc = filter (\<lambda>f. \<not> is_shadow_finding f) fs in
      has_behavioral_chain p sc \<or> has_any sc ''critical'' \<or> malicious_min p \<le> raw_score p sc \<or>
      (\<exists>r. rank = Some r \<and> r \<le> 100 \<and> has_any sc ''high''))"
  by (auto simp: score_and_verdict_def Let_def has_any_iff list_ex_iff split: option.splits)

lemma score_and_verdict_suspicious_iff:
  "sr_verdict (score_and_verdict p fs rank) \<in> {Suspicious, Malicious} \<longleftrightarrow>
     (let sc = filter (\<lambda>f. \<not> is_shadow_finding f) fs in
      has_behavioral_chain p sc \<or> has_any sc ''critical'' \<or> has_any sc ''high'' \<or>
      malicious_min p \<le> raw_score p sc \<or> suspicious_min p \<le> raw_score p sc \<or>
      (rank \<noteq> None \<and> has_any sc ''medium''))"
  by (auto simp: score_and_verdict_def Let_def has_any_iff list_ex_iff split: option.splits)

lemma score_and_verdict_range: "sr_verdict (score_and_verdict p fs rank) \<in> {Clean, Suspicious, Malicious}"
  by (auto simp: score_and_verdict_def Let_def split: option.splits)

section \<open>The contract of a verdict policy\<close>

text \<open>What a client that re-scores a grown list of findings relies on: the result does not depend
  on the order of the findings, and more findings never lower the verdict or the score.\<close>

locale verdict_policy =
  fixes ok :: "'c \<Rightarrow> bool"
    and assess :: "'c \<Rightarrow> finding list \<Rightarrow> int option \<Rightarrow> score_result"
  assumes assess_perm: "ok c \<Longrightarrow> mset fs = mset gs \<Longrightarrow> assess c fs r = assess c gs r"
    and assess_grows: "ok c \<Longrightarrow> rule_rank (sr_verdict (assess c fs r)) \<le> rule_rank (sr_verdict (assess c (fs @ gs) r))"
    and score_grows: "ok c \<Longrightarrow> sr_score (assess c fs r) \<le> sr_score (assess c (fs @ gs) r)"
begin

lemma assess_submset:
  assumes "ok c" and "mset fs \<subseteq># mset gs"
  shows "rule_rank (sr_verdict (assess c fs r)) \<le> rule_rank (sr_verdict (assess c gs r)) \<and>
         sr_score (assess c fs r) \<le> sr_score (assess c gs r)"
proof -
  obtain hs where "mset gs = mset (fs @ hs)"
    using assms(2) by (metis ex_mset mset_append mset_subset_eq_exists_conv)
  with assms(1) assess_perm [of c gs "fs @ hs" r] show ?thesis
    by (simp add: assess_grows score_grows)
qed

lemma assess_filter:
  "ok c \<Longrightarrow> rule_rank (sr_verdict (assess c (filter q fs) r)) \<le> rule_rank (sr_verdict (assess c fs r))"
  using assess_submset [of c "filter q fs" fs r] by (simp add: multiset_filter_subset)

lemma assess_malicious_stays:
  assumes "ok c" and "mset fs \<subseteq># mset gs" and "sr_verdict (assess c fs r) = Malicious"
  shows "sr_verdict (assess c gs r) = Malicious"
  using assess_submset [OF assms(1,2), of r] assms(3)
  by (cases "sr_verdict (assess c gs r)") auto

end

lemma has_any_append: "has_any (fs @ gs) s \<longleftrightarrow> has_any fs s \<or> has_any gs s"
  by (simp add: has_any_def)

lemma has_behavioral_chain_append:
  "has_behavioral_chain p (fs @ gs) \<longleftrightarrow> has_behavioral_chain p fs \<or> has_behavioral_chain p gs"
  by (simp add: has_behavioral_chain_def)

lemma rule_rank_mono:
  assumes "v = Malicious \<Longrightarrow> w = Malicious"
    and "v \<in> {Suspicious, Malicious} \<Longrightarrow> w \<in> {Suspicious, Malicious}"
    and "v \<in> {Clean, Suspicious, Malicious}"
  shows "rule_rank v \<le> rule_rank w"
  using assms by (cases v; cases w) auto

lemma raw_score_mono: "sane_pack p \<Longrightarrow> raw_score p fs \<le> raw_score p (fs @ gs)"
  by (simp add: raw_score_eq_capped capped_score_mono)

lemma score_and_verdict_perm:
  assumes "sane_pack p" and "mset fs = mset gs"
  shows "score_and_verdict p fs rank = score_and_verdict p gs rank"
proof -
  let ?nf = "filter (\<lambda>f. \<not> is_shadow_finding f)"
  have m: "mset (?nf fs) = mset (?nf gs)"
    using assms(2) by simp
  have st: "set fs = set gs"
    using assms(2) by (rule mset_eq_setD)
  have raw: "raw_score p (?nf fs) = raw_score p (?nf gs)"
    using raw_score_eq_capped [OF assms(1)] capped_score_mset [OF m] by simp
  show ?thesis
    unfolding score_and_verdict_def Let_def has_any_def has_behavioral_chain_def list_ex_iff set_filter st raw ..
qed

lemma malicious_grows:
  assumes "sane_pack p" and "sr_verdict (score_and_verdict p fs r) = Malicious"
  shows "sr_verdict (score_and_verdict p (fs @ gs) r) = Malicious"
proof -
  let ?nf = "filter (\<lambda>f. \<not> is_shadow_finding f)"
  have m: "raw_score p (?nf fs) \<le> raw_score p (?nf fs @ ?nf gs)"
    using assms(1) by (rule raw_score_mono)
  then have "malicious_min p \<le> raw_score p (?nf fs) \<Longrightarrow> malicious_min p \<le> raw_score p (?nf fs @ ?nf gs)"
    by (rule order.trans [rotated])
  with assms(2) show ?thesis
    unfolding score_and_verdict_malicious_iff Let_def filter_append has_any_append has_behavioral_chain_append
    by blast
qed

lemma suspicious_grows:
  assumes "sane_pack p" and "sr_verdict (score_and_verdict p fs r) \<in> {Suspicious, Malicious}"
  shows "sr_verdict (score_and_verdict p (fs @ gs) r) \<in> {Suspicious, Malicious}"
proof -
  let ?nf = "filter (\<lambda>f. \<not> is_shadow_finding f)"
  have m: "raw_score p (?nf fs) \<le> raw_score p (?nf fs @ ?nf gs)"
    using assms(1) by (rule raw_score_mono)
  then have "\<And>t. t \<le> raw_score p (?nf fs) \<Longrightarrow> t \<le> raw_score p (?nf fs @ ?nf gs)"
    by (rule order.trans [rotated])
  with assms(2) show ?thesis
    unfolding score_and_verdict_suspicious_iff Let_def filter_append has_any_append has_behavioral_chain_append
    by blast
qed

interpretation scoring: verdict_policy sane_pack score_and_verdict
proof (unfold_locales, goal_cases)
  case (1 c fs gs r)
  then show ?case by (rule score_and_verdict_perm)
next
  case (2 c fs r gs)
  then show ?case
    by (intro rule_rank_mono malicious_grows suspicious_grows score_and_verdict_range)
next
  case (3 c fs r gs)
  then show ?case by (simp add: sr_score_eq raw_score_mono)
qed

section \<open>Properties\<close>

definition baseline_thresholds :: "string \<rightharpoonup> int" where
  "baseline_thresholds = [''suspicious_min'' \<mapsto> 20, ''malicious_min'' \<mapsto> 61, ''category_cap'' \<mapsto> 30,
     ''whitespace_min_leading_spaces'' \<mapsto> 200]"

definition baseline_weights :: "string \<rightharpoonup> int" where
  "baseline_weights = [''low'' \<mapsto> 1, ''medium'' \<mapsto> 8, ''high'' \<mapsto> 25, ''critical'' \<mapsto> 60]"

definition baseline_chain_ids :: "string set" where
  "baseline_chain_ids = {''installer.urlopen_exec_chain'', ''installer.npm_install_obfuscated_entrypoint'',
     ''installer.npm_runtime_obfuscated_entrypoint'', ''installer.npm_install_persistence_loader'',
     ''imports.network_subprocess_chain'', ''malware.deobfuscation_exec_chain'', ''malware.discord_webhook'',
     ''malware.env_exfil_tainted'', ''malware.pth_exec_injection'', ''dyn_install_exfil'',
     ''dyn_reverse_shell'', ''dyn_proc_inject''}"

definition scoring_baseline :: intel_pack where
  "scoring_baseline = demo_base\<lparr>ip_thresholds := baseline_thresholds, ip_scoring_weights := baseline_weights,
     ip_behavioral_chain_ids := baseline_chain_ids\<rparr>"

lemma sane_scoring_baseline: "sane_pack scoring_baseline"
  by (auto simp: sane_pack_def scoring_baseline_def severity_points_def category_cap_def
      baseline_weights_def baseline_thresholds_def)

text \<open>C5. With non-negative weights the incremental scoring loop (cap after every addition) computes
  the reference score: for each bucket (the rule identifier for dynamic findings, the category
  otherwise) the points of the bucket's non-shadow findings, capped once, summed over the buckets.\<close>

theorem score_is_capped_sum:
  assumes "sane_pack p"
  shows "sr_score (score_and_verdict p fs rank) = capped_score p (filter (\<lambda>f. \<not> is_shadow_finding f) fs)"
  using assms by (simp add: sr_score_eq raw_score_eq_capped)

theorem score_is_capped_sum_witness:
  "sr_score (score_and_verdict scoring_baseline
     [mk_finding ''iocs.a'' ''iocs'' ''high'' ''low'' [], mk_finding ''iocs.b'' ''iocs'' ''medium'' ''low'' []] None)
   = capped_score scoring_baseline
     (filter (\<lambda>f. \<not> is_shadow_finding f)
       [mk_finding ''iocs.a'' ''iocs'' ''high'' ''low'' [], mk_finding ''iocs.b'' ''iocs'' ''medium'' ''low'' []])"
  by (rule score_is_capped_sum [OF sane_scoring_baseline])

text \<open>The rule verdict, decided exactly: malicious when a non-shadow finding is a behavioral chain
  or critical, or the score reaches the malicious threshold, or the package is in the watchlist's
  top 100 and has a high finding; at least suspicious when moreover a high finding, the suspicious
  threshold, or a medium finding on any watchlisted package is there; clean otherwise.\<close>

theorem score_verdict_decision:
  "sr_verdict (score_and_verdict p fs rank) =
    (let sc = filter (\<lambda>f. \<not> is_shadow_finding f) fs in
     if has_behavioral_chain p sc \<or> has_any sc ''critical'' \<or> malicious_min p \<le> raw_score p sc \<or>
        (\<exists>r. rank = Some r \<and> r \<le> 100 \<and> has_any sc ''high'')
     then Malicious
     else if has_any sc ''high'' \<or> suspicious_min p \<le> raw_score p sc \<or> (rank \<noteq> None \<and> has_any sc ''medium'')
     then Suspicious else Clean)"
  using score_and_verdict_malicious_iff [of p fs rank] score_and_verdict_suspicious_iff [of p fs rank]
    score_and_verdict_range [of p fs rank]
  by (auto simp: Let_def)

text \<open>C25. Scoring is a sound policy to re-apply when evidence is added: the result does not depend on
  the order of the findings, and adding findings never lowers the score nor turns a malicious verdict
  into a lesser one or a suspicious one into clean.\<close>

theorem score_monotone:
  assumes "sane_pack p" and "mset fs \<subseteq># mset gs"
  shows "rule_rank (sr_verdict (score_and_verdict p fs rank)) \<le> rule_rank (sr_verdict (score_and_verdict p gs rank))
    \<and> sr_score (score_and_verdict p fs rank) \<le> sr_score (score_and_verdict p gs rank)"
  by (rule scoring.assess_submset [OF assms])

theorem score_monotone_witness:
  "rule_rank (sr_verdict (score_and_verdict scoring_baseline [mk_finding ''a'' ''iocs'' ''high'' [] []] (Some 7)))
    \<le> rule_rank (sr_verdict (score_and_verdict scoring_baseline
        [mk_finding ''dyn_x'' ''dynamic'' ''low'' [] [], mk_finding ''a'' ''iocs'' ''high'' [] []] (Some 7)))"
  using score_monotone [OF sane_scoring_baseline, of "[mk_finding ''a'' ''iocs'' ''high'' [] []]"
      "[mk_finding ''dyn_x'' ''dynamic'' ''low'' [] [], mk_finding ''a'' ''iocs'' ''high'' [] []]" "Some 7"]
  by simp

text \<open>Points alone convict only on breadth: the score lies between zero and the category cap times
  the number of buckets, so a score at the malicious threshold needs that many distinct buckets (three
  with the shipped thresholds), however many findings one analyzer emits.\<close>

theorem score_needs_breadth:
  assumes "sane_pack p" and "malicious_min p \<le> sr_score (score_and_verdict p fs rank)"
  shows "malicious_min p \<le>
    category_cap p * int (card (bucket_key ` set (filter (\<lambda>f. \<not> is_shadow_finding f) fs)))"
  using capped_score_bound [OF assms(1), of "filter (\<lambda>f. \<not> is_shadow_finding f) fs"] assms
  by (simp add: sr_score_eq raw_score_eq_capped)

definition broad_findings :: "finding list" where
  "broad_findings = [mk_finding ''a'' ''iocs'' ''critical'' [] [], mk_finding ''b'' ''imports'' ''critical'' [] [],
     mk_finding ''c'' ''entropy'' ''medium'' [] []]"

lemma broad_score: "sr_score (score_and_verdict scoring_baseline broad_findings None) = 68"
  by code_simp

lemma broad_min: "malicious_min scoring_baseline = 61"
  by code_simp

theorem score_needs_breadth_witness:
  "61 \<le> category_cap scoring_baseline *
     int (card (bucket_key ` set (filter (\<lambda>f. \<not> is_shadow_finding f) broad_findings)))"
  using score_needs_breadth [OF sane_scoring_baseline, of broad_findings None]
  by (simp add: broad_score broad_min)

end
