(* ===== verification/SourceGather.thy ===== *)
theory SourceGather
  imports Score
begin

text \<open>
  Which code the triage model is shown: \<^verbatim>\<open>_finding_notes\<close> and \<^verbatim>\<open>_gather_source\<close> of
  \<^verbatim>\<open>llm/triage.py\<close>. The extracted tree is given by what the walks over it find: the entry
  files, the companions of \<^verbatim>\<open>.pth\<close> files and, per flagged name, the file it resolves to. A file whose
  reading raises \<^verbatim>\<open>OSError\<close> has no text. The order in which Python iterates over the set of flagged
  files is the argument \<open>flagged\<close>.
\<close>

record src_file =
  sf_rel :: string
  sf_text :: "string option"
  sf_binary :: bool
  sf_stub :: string

definition max_code_bytes :: int where
  "max_code_bytes = 48 * 1024"

definition lines_around_finding :: int where
  "lines_around_finding = 20"

definition per_file_cap :: int where
  "per_file_cap = 12 * 1024"

definition reserved_entry_bytes :: int where
  "reserved_entry_bytes = 16 * 1024"

definition entry_file_cap :: int where
  "entry_file_cap = 8 * 1024"

definition len :: "string \<Rightarrow> int" where
  "len s = int (length s)"

definition nl :: string where
  "nl = [CHR 0x0A]"

definition finding_tag :: "finding \<Rightarrow> string" where
  "finding_tag f = f_rule_id f @ (case f_line f of None \<Rightarrow> [] | Some n \<Rightarrow> ''@L'' @ int_str n)"

definition finding_notes :: "finding list \<Rightarrow> string \<Rightarrow> string" where
  "finding_notes findings fname =
    (let tags = sort (nub (map finding_tag (filter (\<lambda>f. f_file f = Some fname) findings)));
         out = join '', '' (take 8 tags)
     in if 8 < length tags then out @ '', +'' @ nat_str (length tags - 8) @ '' more'' else out)"

record gather =
  g_seen :: "string list"
  g_snippets :: "string list"
  g_total :: int

definition add_block :: "string \<Rightarrow> gather \<Rightarrow> gather" where
  "add_block block g = g\<lparr>g_snippets := g_snippets g @ [block], g_total := g_total g + len block\<rparr>"

definition see :: "string \<Rightarrow> gather \<Rightarrow> gather" where
  "see rel g = g\<lparr>g_seen := g_seen g @ [rel]\<rparr>"

text \<open>A block cut to a cap and marked as cut.\<close>

definition cut_block :: "int \<Rightarrow> string \<Rightarrow> string \<Rightarrow> string" where
  "cut_block cap marker block =
    (if cap < len block then take (nat cap) block @ nl @ marker @ nl else block)"

definition file_block :: "string \<Rightarrow> string \<Rightarrow> string \<Rightarrow> string" where
  "file_block rel note src = ''--- FILE: '' @ rel @ note @ '' ---'' @ nl @ src @ nl"

text \<open>\<^verbatim>\<open>_include\<close>: whether to go on, and the new state.\<close>

definition include_file :: "src_file \<Rightarrow> gather \<Rightarrow> bool \<times> gather" where
  "include_file p g =
    (if sf_rel p \<in> set (g_seen g) then (True, g)
     else (let g1 = see (sf_rel p) g in
       case sf_text p of
         None \<Rightarrow> (True, g1)
       | Some src \<Rightarrow>
           (let block = file_block (sf_rel p) [] src in
            if max_code_bytes < g_total g1 + len block then
              (let remaining = max_code_bytes - g_total g1 in
               if 200 < remaining then
                 (let g2 = add_block (cut_block remaining ''... [truncated] ...'' block) g1
                  in (g_total g2 < max_code_bytes, g2))
               else (False, g1))
            else (let g2 = add_block block g1 in (g_total g2 < max_code_bytes, g2)))))"

fun include_all :: "src_file list \<Rightarrow> gather \<Rightarrow> gather" where
  "include_all [] g = g"
| "include_all (p # ps) g = (case include_file p g of (True, g1) \<Rightarrow> include_all ps g1 | (False, g1) \<Rightarrow> g1)"

text \<open>The reserved pass over the entry files.\<close>

fun entry_pass :: "int \<Rightarrow> src_file list \<Rightarrow> gather \<Rightarrow> gather" where
  "entry_pass bound [] g = g"
| "entry_pass bound (p # ps) g =
    (if bound \<le> g_total g then g
     else if sf_rel p \<in> set (g_seen g) then entry_pass bound ps g
     else (case sf_text p of
         None \<Rightarrow> entry_pass bound ps g
       | Some src \<Rightarrow>
           (let g1 = see (sf_rel p) g;
                block = cut_block entry_file_cap ''... [entry truncated] ...'' (file_block (sf_rel p) '' (install entry)'' src)
            in if bound < g_total g1 + len block then entry_pass bound ps g1
               else entry_pass bound ps (add_block block g1))))"

section \<open>The convicting pass\<close>

definition sev_order :: "string \<Rightarrow> nat" where
  "sev_order sev = (if sev = ''critical'' then 0 else if sev = ''high'' then 1 else if sev = ''medium'' then 2
     else if sev = ''low'' then 3 else 9)"

definition file_rank :: "finding list \<Rightarrow> string \<Rightarrow> nat" where
  "file_rank findings n =
    (case map (\<lambda>f. sev_order (f_severity f)) (filter (\<lambda>f. f_file f = Some n) findings) of
       [] \<Rightarrow> 9 | x # xs \<Rightarrow> fold min xs x)"

text \<open>\<^verbatim>\<open>f"{i:>5}: {line}"\<close>.\<close>

definition numbered_line :: "string list \<Rightarrow> nat \<Rightarrow> string" where
  "numbered_line src i = (let n = nat_str i in replicate (5 - length n) (CHR '' '') @ n @ '': '' @ src ! (i - 1))"

definition window :: "nat \<Rightarrow> int \<Rightarrow> int \<times> int" where
  "window n l = (max 1 (l - lines_around_finding), min (int n) (l + lines_around_finding))"

fun window_lines :: "string list \<Rightarrow> int \<Rightarrow> (int \<times> int) list \<Rightarrow> string list" where
  "window_lines src last_end [] = []"
| "window_lines src last_end ((s, e) # ws) =
    (if last_end + 1 < s then [''... [skip] ...''] else []) @
    map (numbered_line src) [nat s..<nat (e + 1)] @ window_lines src (max last_end e) ws"

text \<open>\<^verbatim>\<open>sorted\<close> of the windows of the set of lines: windows of distinct lines in the order of the pairs.\<close>

definition sorted_windows :: "nat \<Rightarrow> int list \<Rightarrow> (int \<times> int) list" where
  "sorted_windows n lns = sort_key fst (sort_key snd (map (window n) (nub lns)))"

definition convict_block :: "finding list \<Rightarrow> string \<Rightarrow> src_file \<Rightarrow> string option" where
  "convict_block findings fname p =
    (let notes = finding_notes findings fname;
         lns = List.map_filter f_line (filter (\<lambda>f. f_file f = Some fname) findings)
     in if lns = [] \<and> sf_binary p then Some (sf_stub p)
        else (case sf_text p of
            None \<Rightarrow> None
          | Some txt \<Rightarrow>
              (if lns \<noteq> [] then
                 (let src = splitlines txt in
                  Some (join nl ((''--- FILE: '' @ sf_rel p @ '' (regions around findings: '' @ notes @ '') ---'')
                          # window_lines src 0 (sorted_windows (length src) lns)) @ nl))
               else Some (file_block (sf_rel p)
                      ('' (flagged '' @ [CHR 0xE2, CHR 0x80, CHR 0x94] @ '' whole file; findings: '' @ notes @ '')'') txt))))"

fun convict_pass :: "finding list \<Rightarrow> (string \<Rightarrow> src_file option) \<Rightarrow> string list \<Rightarrow> gather \<Rightarrow> gather" where
  "convict_pass findings resolve [] g = g"
| "convict_pass findings resolve (fname # fs) g =
    (if max_code_bytes \<le> g_total g then g
     else (case resolve fname of
         None \<Rightarrow> convict_pass findings resolve fs g
       | Some p \<Rightarrow>
           (if sf_rel p \<in> set (g_seen g) then convict_pass findings resolve fs g
            else (let g1 = see (sf_rel p) g in
              case convict_block findings fname p of
                None \<Rightarrow> convict_pass findings resolve fs g1
              | Some block0 \<Rightarrow>
                  (let block = cut_block per_file_cap ''... [finding-file truncated] ...'' block0
                   in if max_code_bytes < g_total g1 + len block then g1
                      else convict_pass findings resolve fs (add_block block g1))))))"

definition gather_all :: "int \<Rightarrow> ecosystem \<Rightarrow> finding list \<Rightarrow> src_file list \<Rightarrow> src_file list \<Rightarrow>
    (string \<Rightarrow> src_file option) \<Rightarrow> string list \<Rightarrow> gather" where
  "gather_all reserved eco findings entries companions resolve flagged =
    (let g0 = \<lparr>g_seen = [], g_snippets = [], g_total = 0\<rparr>;
         g1 = entry_pass (min reserved max_code_bytes) entries g0;
         g2 = (if eco = ''pypi'' then include_all companions g1 else g1)
     in convict_pass findings resolve (sort_key (file_rank findings) flagged) g2)"

definition gather_source :: "int \<Rightarrow> ecosystem \<Rightarrow> finding list \<Rightarrow> src_file list \<Rightarrow> src_file list \<Rightarrow>
    (string \<Rightarrow> src_file option) \<Rightarrow> string list \<Rightarrow> string" where
  "gather_source reserved eco findings entries companions resolve flagged =
    (let snippets = g_snippets (gather_all reserved eco findings entries companions resolve flagged)
     in if snippets \<noteq> [] then join nl snippets else ''(no source extracted)'')"

section \<open>Budgets\<close>

definition gather_ok :: "int \<Rightarrow> gather \<Rightarrow> bool" where
  "gather_ok bound g \<longleftrightarrow> g_total g = sum_list (map len (g_snippets g)) \<and> g_total g \<le> bound"

lemma len_nonneg [simp]: "0 \<le> len s"
  by (simp add: len_def)

lemma len_append [simp]: "len (s @ t) = len s + len t" "len [] = 0" "len (c # s) = 1 + len s"
  by (simp_all add: len_def)

lemma len_take_le: "len (take n s) \<le> int n"
  by (simp add: len_def)

lemma see_ok [simp]: "gather_ok b (see rel g) = gather_ok b g" "g_total (see rel g) = g_total g"
    "g_snippets (see rel g) = g_snippets g"
  by (simp_all add: gather_ok_def see_def)

lemma add_block_ok:
  "gather_ok b g \<Longrightarrow> g_total g + len block \<le> b' \<Longrightarrow> gather_ok b' (add_block block g)"
  by (simp add: gather_ok_def add_block_def)

lemma add_block_total [simp]: "g_total (add_block block g) = g_total g + len block"
  "g_snippets (add_block block g) = g_snippets g @ [block]"
  by (simp_all add: add_block_def)

lemma len_cut:
  assumes "0 \<le> cap"
  shows "len (cut_block cap marker block) \<le> cap + len marker + 2"
proof -
  have m: "0 \<le> len marker" by simp
  show ?thesis
  proof (cases "cap < len block")
    case True
    then show ?thesis using assms len_take_le [of "nat cap" block] by (simp add: cut_block_def nl_def)
  next
    case False
    then have "len (cut_block cap marker block) = len block" and "len block \<le> cap"
      by (simp_all add: cut_block_def)
    with m show ?thesis by linarith
  qed
qed

lemma len_cut_le: "len block \<le> cap \<Longrightarrow> cut_block cap marker block = block"
  by (simp add: cut_block_def)

lemma add_seen_ok:
  "gather_ok b g \<Longrightarrow> m \<le> b \<Longrightarrow> \<not> m < g_total g + len block \<Longrightarrow> gather_ok b (add_block block (see rel g))"
  by (rule add_block_ok [of b]) simp_all

lemma entry_pass_ok: "gather_ok bound g \<Longrightarrow> gather_ok bound (entry_pass bound ps g)"
proof (induction ps arbitrary: g)
  case Nil
  then show ?case by simp
next
  case (Cons p ps)
  have "gather_ok bound (add_block b (see (sf_rel p) g))" if "\<not> bound < g_total g + len b" for b
    using add_seen_ok [OF Cons.prems _ that] by simp
  with Cons show ?case by (simp add: Let_def split: option.splits)
qed

lemma include_file_ok:
  assumes "gather_ok (max_code_bytes + 21) g"
  shows "gather_ok (max_code_bytes + 21) (snd (include_file p g))"
proof -
  have "gather_ok (max_code_bytes + 21) (add_block (cut_block (max_code_bytes - g_total g) ''... [truncated] ...'' block) (see (sf_rel p) g))"
    if "200 < max_code_bytes - g_total g" for block
    using assms that len_cut [of "max_code_bytes - g_total g" "''... [truncated] ...''" block]
    by (intro add_block_ok [of "max_code_bytes + 21"]) simp_all
  with assms show ?thesis
    by (auto simp: include_file_def Let_def split: option.splits intro!: add_block_ok)
qed

lemma include_all_ok: "gather_ok (max_code_bytes + 21) g \<Longrightarrow> gather_ok (max_code_bytes + 21) (include_all ps g)"
proof (induction ps arbitrary: g)
  case Nil
  then show ?case by simp
next
  case (Cons p ps)
  then show ?case using include_file_ok [OF Cons.prems, of p] by (auto split: prod.splits bool.splits)
qed

lemma convict_pass_ok:
  assumes "max_code_bytes \<le> b"
  shows "gather_ok b g \<Longrightarrow> gather_ok b (convict_pass findings resolve fs g)"
proof (induction fs arbitrary: g)
  case Nil
  then show ?case by simp
next
  case (Cons f fs)
  have "gather_ok b (add_block t (see r g))" if "\<not> max_code_bytes < g_total g + len t" for t r
    using add_seen_ok [OF Cons.prems assms that] .
  with Cons show ?case by (simp add: Let_def split: option.splits)
qed

lemma add_block_prefix: "prefix (g_snippets (add_block b g)) xs \<Longrightarrow> prefix (g_snippets g) xs"
  by (auto dest: append_prefixD)

lemma add_seen_prefix: "prefix (g_snippets (add_block b (see r g))) xs \<Longrightarrow> prefix (g_snippets g) xs"
  using add_block_prefix [of b "see r g"] by simp

lemma entry_prefix: "prefix (g_snippets g) (g_snippets (entry_pass bound ps g))"
proof (induction ps arbitrary: g)
  case Nil
  then show ?case by simp
next
  case (Cons p ps)
  then show ?case
    using Cons.IH [of "see (sf_rel p) g"] add_seen_prefix [OF Cons.IH] by (simp add: Let_def split: option.splits)
qed

lemma include_prefix: "prefix (g_snippets g) (g_snippets (include_all ps g))"
proof (induction ps arbitrary: g)
  case Nil
  then show ?case by simp
next
  case (Cons p ps)
  have "prefix (g_snippets g) (g_snippets (snd (include_file p g)))"
    by (auto simp: include_file_def Let_def split: option.splits)
  with Cons show ?case by (auto split: prod.splits bool.splits intro: prefix_order.trans)
qed

lemma convict_prefix: "prefix (g_snippets g) (g_snippets (convict_pass findings resolve fs g))"
proof (induction fs arbitrary: g)
  case Nil
  then show ?case by simp
next
  case (Cons f fs)
  have "prefix (g_snippets g) (g_snippets (convict_pass findings resolve fs (see r g)))" for r
    using Cons.IH [of "see r g"] by simp
  then show ?case
    using Cons.IH add_seen_prefix [OF Cons.IH] by (simp add: Let_def split: option.splits)
qed

text \<open>The convicting pass feeds the first file it is given, whenever it fits: findings never starve it.\<close>

lemma convict_first:
  assumes "g_total g < max_code_bytes" and "resolve fname = Some p" and "sf_rel p \<notin> set (g_seen g)"
    and "convict_block findings fname p = Some b" and "g_total g + per_file_cap + 35 \<le> max_code_bytes"
  shows "prefix (g_snippets g @ [cut_block per_file_cap ''... [finding-file truncated] ...'' b])
     (g_snippets (convict_pass findings resolve (fname # fs) g))"
proof -
  let ?b = "cut_block per_file_cap ''... [finding-file truncated] ...'' b"
  have "len ?b \<le> per_file_cap + 35"
    using len_cut [of per_file_cap "''... [finding-file truncated] ...''" b] by (simp add: per_file_cap_def)
  then have "convict_pass findings resolve (fname # fs) g =
      convict_pass findings resolve fs (add_block ?b (see (sf_rel p) g))"
    using assms by (simp add: Let_def)
  then show ?thesis using convict_prefix [of "add_block ?b (see (sf_rel p) g)"] by simp
qed

lemma entry_seen: "set (g_seen (entry_pass bound ps g)) \<subseteq> set (g_seen g) \<union> sf_rel ` set ps"
proof (induction ps arbitrary: g)
  case Nil
  then show ?case by simp
next
  case (Cons p ps)
  have 1: "set (g_seen (entry_pass bound ps (see (sf_rel p) g))) \<subseteq> set (g_seen g) \<union> sf_rel ` set (p # ps)"
    using Cons.IH [of "see (sf_rel p) g"] by (auto simp: see_def)
  have 2: "set (g_seen (entry_pass bound ps (add_block b (see (sf_rel p) g))))
      \<subseteq> set (g_seen g) \<union> sf_rel ` set (p # ps)" for b
    using Cons.IH [of "add_block b (see (sf_rel p) g)"] by (auto simp: see_def add_block_def)
  show ?case using Cons.IH [of g] 1 2 by (auto simp: Let_def split: option.splits)
qed

lemma gather_all_ok: "gather_ok (max_code_bytes + 21) (gather_all reserved eco findings entries companions resolve flagged)"
  if "0 \<le> reserved"
proof -
  let ?m = "min reserved max_code_bytes"
  have "gather_ok ?m (entry_pass ?m entries \<lparr>g_seen = [], g_snippets = [], g_total = 0\<rparr>)"
    using that by (intro entry_pass_ok) (simp add: gather_ok_def max_code_bytes_def)
  then have "gather_ok (max_code_bytes + 21) (entry_pass ?m entries \<lparr>g_seen = [], g_snippets = [], g_total = 0\<rparr>)"
    by (simp add: gather_ok_def)
  then show ?thesis by (auto simp: gather_all_def Let_def intro!: convict_pass_ok include_all_ok)
qed

lemma len_join_nl: "xs \<noteq> [] \<Longrightarrow> len (join nl xs) = sum_list (map len xs) + int (length xs) - 1"
  by (induction nl xs rule: join.induct) (simp_all add: nl_def)

lemma sort_key_first:
  assumes "sort_key k xs = y # ys"
  shows "y \<in> set xs" and "\<forall>x\<in>set xs. k y \<le> k x"
proof -
  have "set xs = set (y # ys)" using assms by (metis set_sort)
  moreover have "sorted (map k (y # ys))" using assms by (metis sorted_sort_key)
  ultimately show "y \<in> set xs" and "\<forall>x\<in>set xs. k y \<le> k x" by auto
qed

lemma gather_first_fed:
  assumes "0 \<le> reserved" and "eco \<noteq> ''pypi''" and "reserved + per_file_cap + 35 \<le> max_code_bytes"
    and "sort_key (file_rank findings) flagged = fname # fs" and "resolve fname = Some p"
    and "sf_rel p \<notin> sf_rel ` set entries" and "convict_block findings fname p = Some b"
  shows "cut_block per_file_cap ''... [finding-file truncated] ...'' b
      \<in> set (g_snippets (gather_all reserved eco findings entries companions resolve flagged))"
proof -
  let ?m = "min reserved max_code_bytes"
  let ?e = "entry_pass ?m entries \<lparr>g_seen = [], g_snippets = [], g_total = 0\<rparr>"
  have "gather_ok ?m ?e"
    using assms(1) by (intro entry_pass_ok) (simp add: gather_ok_def max_code_bytes_def)
  then have t: "g_total ?e \<le> reserved" by (simp add: gather_ok_def)
  have s: "sf_rel p \<notin> set (g_seen ?e)" using assms entry_seen [of ?m entries] by fastforce
  have "prefix (g_snippets ?e @ [cut_block per_file_cap ''... [finding-file truncated] ...'' b])
      (g_snippets (convict_pass findings resolve (fname # fs) ?e))"
    using assms t s by (intro convict_first) (simp_all add: per_file_cap_def)
  moreover have "gather_all reserved eco findings entries companions resolve flagged
      = convict_pass findings resolve (fname # fs) ?e"
    using assms by (simp add: gather_all_def Let_def)
  ultimately have "prefix (g_snippets ?e @ [cut_block per_file_cap ''... [finding-file truncated] ...'' b])
      (g_snippets (gather_all reserved eco findings entries companions resolve flagged))"
    by metis
  then show ?thesis by (auto dest!: set_mono_prefix)
qed


definition demo_src :: "string \<Rightarrow> string \<Rightarrow> src_file" where
  "demo_src rel t = \<lparr>sf_rel = rel, sf_text = Some t, sf_binary = False, sf_stub = []\<rparr>"


text \<open>The reserve loses a file: an entry file that does not fit what is left of the reserve is
  already marked as seen, so the convicting pass skips it too. Two entry files at the per-file cap
  never fit the reserve together, hence the second is not shown at all, whatever is found in it.\<close>

theorem entry_reserve_drops_second:
  assumes "sf_text p = Some s" and "sf_text q = Some t" and "entry_file_cap \<le> len s" and "entry_file_cap \<le> len t"
    and "sf_rel p \<noteq> sf_rel q" and "eco \<noteq> ''pypi''" and "resolve fname = Some q"
  shows "g_snippets (gather_all reserved_entry_bytes eco findings [p, q] companions resolve [fname])
    = [cut_block entry_file_cap ''... [entry truncated] ...'' (file_block (sf_rel p) '' (install entry)'' s)]"
proof -
  let ?c = "\<lambda>r u. cut_block entry_file_cap ''... [entry truncated] ...'' (file_block r '' (install entry)'' u)"
  have c: "len (?c r u) = entry_file_cap + 27" if "entry_file_cap \<le> len u" for r u
    using that len_nonneg [of r] by (simp add: cut_block_def file_block_def nl_def entry_file_cap_def) (simp add: len_def)
  have "entry_pass reserved_entry_bytes [p, q] \<lparr>g_seen = [], g_snippets = [], g_total = 0\<rparr>
      = \<lparr>g_seen = [sf_rel p, sf_rel q], g_snippets = [?c (sf_rel p) s], g_total = entry_file_cap + 27\<rparr>"
    using assms c [of s "sf_rel p"] c [of t "sf_rel q"]
    by (simp add: Let_def see_def add_block_def reserved_entry_bytes_def entry_file_cap_def)
  then show ?thesis using assms
    by (simp add: gather_all_def Let_def reserved_entry_bytes_def max_code_bytes_def entry_file_cap_def)
qed

theorem entry_reserve_drops_second_witness:
  "length (g_snippets (gather_all reserved_entry_bytes ''npm'' []
      [demo_src ''a.js'' (replicate 8192 (CHR ''x'')), demo_src ''b.js'' (replicate 8192 (CHR ''y''))] []
      (\<lambda>f. Some (demo_src ''b.js'' (replicate 8192 (CHR ''y'')))) [''b.js''])) = 1"
  by (subst entry_reserve_drops_second [where s = "replicate 8192 (CHR ''x'')" and t = "replicate 8192 (CHR ''y'')"])
    (simp_all add: demo_src_def len_def entry_file_cap_def)

end
