(* ===== verification/Store.thy ===== *)
theory Store
  imports Score
begin

text \<open>
  The rows of \<^verbatim>\<open>store/models.py\<close> that more than one component reads, and decoded JSON. A table is the list
  of its rows in the order of the primary key. A row of class \<^verbatim>\<open>Finding\<close> carries the columns it shares
  with \<^verbatim>\<open>adapter.Finding\<close> as one field. JSON objects keep one entry per key.
\<close>

datatype json = JNull | JBool bool | JInt int | JFloat rat | JStr string
  | JList "json list" | JObj "(string \<times> json) list"

definition jget :: "(string \<times> json) list \<Rightarrow> string \<Rightarrow> json option" where
  "jget d k = dict_get d k"

text \<open>Python's truth value of a decoded value, \<^verbatim>\<open>d.get(k) or None\<close>, and the fields read as texts or as
  lists of texts.\<close>

fun jtruthy :: "json \<Rightarrow> bool" where
  "jtruthy JNull \<longleftrightarrow> False"
| "jtruthy (JBool b) \<longleftrightarrow> b"
| "jtruthy (JInt i) \<longleftrightarrow> i \<noteq> 0"
| "jtruthy (JFloat q) \<longleftrightarrow> q \<noteq> 0"
| "jtruthy (JStr s) \<longleftrightarrow> s \<noteq> []"
| "jtruthy (JList xs) \<longleftrightarrow> xs \<noteq> []"
| "jtruthy (JObj kvs) \<longleftrightarrow> kvs \<noteq> []"

definition jtext :: "(string \<times> json) list \<Rightarrow> string \<Rightarrow> string option" where
  "jtext d k = (case jget d k of Some (JStr s) \<Rightarrow> (if s = [] then None else Some s) | _ \<Rightarrow> None)"

fun jstr_of :: "json \<Rightarrow> string option" where
  "jstr_of (JStr s) = Some s"
| "jstr_of _ = None"

definition jtexts :: "(string \<times> json) list \<Rightarrow> string \<Rightarrow> string list option" where
  "jtexts d k = (case jget d k of Some (JList xs) \<Rightarrow> Some (List.map_filter jstr_of xs) | _ \<Rightarrow> None)"

record package_row =
  pk_id :: nat
  pk_ecosystem :: ecosystem
  pk_name :: string
  pk_first_seen_at :: timestamp

record version_row =
  vr_id :: nat
  vr_ecosystem :: ecosystem
  vr_package_id :: nat
  vr_version :: string
  vr_first_seen_at :: timestamp
  vr_author :: "string option"
  vr_author_email :: "string option"
  vr_upload_user :: "string option"
  vr_home_page :: "string option"
  vr_summary :: "string option"
  vr_requires_python :: "string option"
  vr_keywords :: "string option"
  vr_license_text :: "string option"
  vr_upload_time :: "timestamp option"
  vr_requires_dist :: "string list option"
  vr_maintainers :: "string list option"
  vr_downloads_last_30d :: "int option"

record scan_entry =
  sc_id :: nat
  sc_version_id :: nat
  sc_started_at :: timestamp
  sc_finished_at :: "timestamp option"
  sc_verdict :: verdict
  sc_score :: int
  sc_alert_tag :: "string option"
  sc_llm_verdict :: "verdict option"
  sc_llm_confidence :: "rat option"

record finding_row =
  fr_scan_id :: nat
  fr_finding :: finding

record file_hash =
  fh_scan_id :: nat
  fh_archive_kind :: string
  fh_path :: string
  fh_sha256 :: string
  fh_ssdeep :: "string option"
  fh_tlsh :: "string option"
  fh_entropy :: "rat option"

record file_info =
  fi_sha256 :: string
  fi_entropy :: rat
  fi_ssdeep :: string
  fi_tlsh :: string

lemma jget_Nil [simp]: "jget [] k = None"
  by (simp add: jget_def dict_get_def)

lemma jget_Cons [simp]: "jget ((k', v) # d) k = (if k' = k then Some v else jget d k)"
  by (simp add: jget_def dict_get_def)

lemma jtext_nonempty: "jtext d k = Some s \<Longrightarrow> s \<noteq> []"
  by (auto simp: jtext_def split: option.splits json.splits if_splits)

end
