(* ===== verification/Triage.thy ===== *)
theory Triage
  imports SourceGather Store
begin

text \<open>
  The LLM adjudication: the in-process budget, the retry loop, the IOC check and
  \<^verbatim>\<open>_enforce_no_downgrade\<close> of \<^verbatim>\<open>llm/triage.py\<close>. The model behind the endpoint is the argument
  \<open>call\<close>: attempt number and \<^verbatim>\<open>max_tokens\<close> to a reply. A reply carries what the code reads of it, its
  content already stripped of the code fence and decoded by \<^verbatim>\<open>json.loads\<close>. \<open>clock k\<close> is the time of attempt
  \<open>k\<close> and \<open>others k\<close> what other workers of the process do to the shared budget before it. Dollars are
  rationals. \<open>float_of\<close> is Python's \<^verbatim>\<open>float\<close> on strings (\<^verbatim>\<open>None\<close> for \<^verbatim>\<open>ValueError\<close>). The free texts kept for
  people (\<^verbatim>\<open>reasoning\<close>, \<^verbatim>\<open>missing_evidence\<close>, the latency and the raw response) are left out.
\<close>

section \<open>The budget\<close>

record llm_cfg =
  lc_max_usd :: rat
  lc_max_calls_per_hour :: nat
  lc_est_prompt :: rat
  lc_est_completion :: rat
  lc_max_retries :: nat
  lc_max_tokens :: int
  lc_tokens_ceiling :: int

definition default_llm_cfg :: llm_cfg where
  "default_llm_cfg = \<lparr>lc_max_usd = 20, lc_max_calls_per_hour = 1000, lc_est_prompt = 5 / 10000,
     lc_est_completion = 15 / 10000, lc_max_retries = 2, lc_max_tokens = 5000, lc_tokens_ceiling = 8000\<rparr>"

record llm_budget =
  lb_spent :: rat
  lb_calls :: "timestamp list"

datatype budget_block = Max_usd rat rat | Max_calls nat nat

definition check_budget :: "llm_cfg \<Rightarrow> timestamp \<Rightarrow> llm_budget \<Rightarrow> budget_block option \<times> llm_budget" where
  "check_budget c now b =
    (if lc_max_usd c \<le> lb_spent b then (Some (Max_usd (lb_spent b) (lc_max_usd c)), b)
     else (let calls = dropWhile (\<lambda>t. t < now - hours 1) (lb_calls b); b1 = b\<lparr>lb_calls := calls\<rparr> in
       if lc_max_calls_per_hour c \<le> length calls
       then (Some (Max_calls (length calls) (lc_max_calls_per_hour c)), b1)
       else (None, b1)))"

definition record_call :: "timestamp \<Rightarrow> rat \<Rightarrow> llm_budget \<Rightarrow> llm_budget" where
  "record_call now cost b = \<lparr>lb_spent = lb_spent b + cost, lb_calls = lb_calls b @ [now]\<rparr>"

definition estimate_cost :: "llm_cfg \<Rightarrow> int \<Rightarrow> int \<Rightarrow> rat" where
  "estimate_cost c prompt_tokens completion_tokens =
    of_int prompt_tokens / 1000 * lc_est_prompt c + of_int completion_tokens / 1000 * lc_est_completion c"

section \<open>Replies\<close>

datatype reply_body = Invalid_json | Json json

record llm_reply =
  rp_length :: bool
  rp_prompt :: int
  rp_completion :: int
  rp_cost :: rat
  rp_body :: reply_body

datatype call_result = Call_failed | Replied llm_reply

definition attempt_cost :: "llm_cfg \<Rightarrow> llm_reply \<Rightarrow> rat" where
  "attempt_cost c r = (if rp_cost r \<le> 0 then estimate_cost c (rp_prompt r) (rp_completion r) else rp_cost r)"

text \<open>\<^verbatim>\<open>str(candidate.get("verdict", "")).lower()\<close>, tested for membership in the four verdicts; the text of
  a value that is no string is none of them.\<close>

definition cand_verdict :: "(string \<times> json) list \<Rightarrow> verdict option" where
  "cand_verdict d =
    (case jget d ''verdict'' of
       Some (JStr s) \<Rightarrow>
         (let v = lower s in
          if v = ''malicious'' then Some Malicious else if v = ''suspicious'' then Some Suspicious
          else if v = ''benign'' then Some Benign else if v = ''inconclusive'' then Some Inconclusive else None)
     | _ \<Rightarrow> None)"

datatype triage_error = Attribute_error | Float_error

text \<open>\<^verbatim>\<open>float(parsed.get("confidence", 0.0) or 0.0)\<close>.\<close>

definition cand_confidence :: "(string \<Rightarrow> rat option) \<Rightarrow> (string \<times> json) list \<Rightarrow> triage_error + rat" where
  "cand_confidence float_of d =
    (case jget d ''confidence'' of
       None \<Rightarrow> Inr 0 | Some JNull \<Rightarrow> Inr 0
     | Some (JBool b) \<Rightarrow> Inr (if b then 1 else 0)
     | Some (JInt i) \<Rightarrow> Inr (of_int i) | Some (JFloat q) \<Rightarrow> Inr q
     | Some (JStr s) \<Rightarrow> (if s = [] then Inr 0 else case float_of s of None \<Rightarrow> Inl Float_error | Some q \<Rightarrow> Inr q)
     | Some (JList xs) \<Rightarrow> (if xs = [] then Inr 0 else Inl Float_error)
     | Some (JObj xs) \<Rightarrow> (if xs = [] then Inr 0 else Inl Float_error))"

definition cand_agrees :: "(string \<times> json) list \<Rightarrow> bool option" where
  "cand_agrees d =
    (case jget d ''agrees_with_rules'' of
       Some (JBool b) \<Rightarrow> Some b | Some (JInt i) \<Rightarrow> Some (i \<noteq> 0)
     | Some (JStr s) \<Rightarrow> Some (s = ''true'') | _ \<Rightarrow> None)"

section \<open>IOCs\<close>

definition ioc_types :: "string set" where
  "ioc_types = {''url'', ''ip'', ''domain'', ''hash'', ''email'', ''path''}"

definition valid_ioc :: "string \<Rightarrow> json \<Rightarrow> (string \<times> string) option" where
  "valid_ioc source entry =
    (case entry of
       JObj d \<Rightarrow>
         (case (jget d ''type'', jget d ''value'') of
            (Some (JStr t), Some (JStr v)) \<Rightarrow>
              (if t \<in> ioc_types \<and> contains source v then Some (t, v) else None)
          | _ \<Rightarrow> None)
     | _ \<Rightarrow> None)"

definition validate_iocs :: "json option \<Rightarrow> string \<Rightarrow> (string \<times> string) list" where
  "validate_iocs claimed source =
    (case claimed of Some (JList es) \<Rightarrow> List.map_filter (valid_ioc source) es | _ \<Rightarrow> [])"

section \<open>No downgrade\<close>

definition malicious_conf_floor :: rat where
  "malicious_conf_floor = 7 / 10"

definition is_exact_intel_match :: "finding \<Rightarrow> bool" where
  "is_exact_intel_match f \<longleftrightarrow> f_category f = ''threat_intel'' \<and> contains (f_evidence f) ''(sha256 match''"

definition enforce_no_downgrade :: "string set \<Rightarrow> verdict \<Rightarrow> verdict \<Rightarrow> finding list \<Rightarrow> rat \<Rightarrow> verdict" where
  "enforce_no_downgrade chain_rules llm_verdict rule_verdict findings conf =
    (if list_ex (\<lambda>f. f_rule_id f = ''iocs.llm_prompt_injection'') findings \<and> llm_verdict = Benign \<and>
        rule_verdict \<in> {Malicious, Suspicious}
     then rule_verdict
     else if rule_verdict = Malicious then
       (if list_ex is_exact_intel_match findings then Malicious
        else (let has_chain = list_ex (\<lambda>f. f_rule_id f \<in> chain_rules) findings in
          if has_chain \<and> llm_verdict \<in> {Benign, Suspicious} \<and> 8 / 10 \<le> conf then llm_verdict
          else if has_chain then Malicious else llm_verdict))
     else llm_verdict)"

section \<open>The retry loop\<close>

text \<open>\<open>tl_sent\<close> is the \<^verbatim>\<open>max_tokens\<close> of the requests sent so far; the code keeps no such list, the
  statements below do.\<close>

datatype last_err = No_err | Err_budget budget_block | Err_call | Err_json | Err_verdict | Err_truncated_clear

record triage_loop =
  tl_tokens :: int
  tl_prompt :: int
  tl_completion :: int
  tl_cost :: rat
  tl_err :: last_err
  tl_budget :: llm_budget
  tl_sent :: "int list"

datatype loop_result = Parsed "(string \<times> json) list" verdict | Exhausted | Crashed triage_error

definition escalate :: "llm_cfg \<Rightarrow> bool \<Rightarrow> int \<Rightarrow> int" where
  "escalate c len_cut t =
    (if len_cut \<and> t < lc_tokens_ceiling c then min (t * 3 div 2) (lc_tokens_ceiling c) else t)"

definition sent :: "triage_loop \<Rightarrow> triage_loop" where
  "sent st = st\<lparr>tl_sent := tl_sent st @ [tl_tokens st]\<rparr>"

definition account :: "llm_cfg \<Rightarrow> timestamp \<Rightarrow> llm_reply \<Rightarrow> triage_loop \<Rightarrow> triage_loop" where
  "account c now r st = st\<lparr>tl_prompt := tl_prompt st + rp_prompt r, tl_completion := tl_completion st + rp_completion r,
     tl_cost := tl_cost st + attempt_cost c r, tl_budget := record_call now (attempt_cost c r) (tl_budget st)\<rparr>"

text \<open>What one accounted reply does to the loop: leave it with a value, or go on.\<close>

definition judge_reply :: "llm_cfg \<Rightarrow> llm_reply \<Rightarrow> triage_loop \<Rightarrow> loop_result option \<times> triage_loop" where
  "judge_reply c r st =
    (case rp_body r of
       Invalid_json \<Rightarrow> (None, st\<lparr>tl_err := Err_json, tl_tokens := escalate c (rp_length r) (tl_tokens st)\<rparr>)
     | Json (JObj d) \<Rightarrow>
         (case cand_verdict d of
            None \<Rightarrow> (None, st\<lparr>tl_err := Err_verdict\<rparr>)
          | Some v \<Rightarrow>
              (if rp_length r \<and> v \<in> {Benign, Suspicious}
               then (None, st\<lparr>tl_err := Err_truncated_clear, tl_tokens := escalate c True (tl_tokens st)\<rparr>)
               else (Some (Parsed d v), st)))
     | Json _ \<Rightarrow> (Some (Crashed Attribute_error), st))"

fun attempt_loop :: "llm_cfg \<Rightarrow> (nat \<Rightarrow> timestamp) \<Rightarrow> (nat \<Rightarrow> llm_budget \<Rightarrow> llm_budget) \<Rightarrow> (nat \<Rightarrow> int \<Rightarrow> call_result) \<Rightarrow>
    nat \<Rightarrow> nat \<Rightarrow> triage_loop \<Rightarrow> loop_result \<times> triage_loop" where
  "attempt_loop c clock others call 0 k st = (Exhausted, st)"
| "attempt_loop c clock others call (Suc n) k st =
    (case check_budget c (clock k) (others k (tl_budget st)) of
       (Some reason, b) \<Rightarrow> (Exhausted, st\<lparr>tl_budget := b, tl_err := Err_budget reason\<rparr>)
     | (None, b) \<Rightarrow>
         (let st0 = sent (st\<lparr>tl_budget := b\<rparr>) in
          case call k (tl_tokens st) of
            Call_failed \<Rightarrow> attempt_loop c clock others call n (Suc k)
              (st0\<lparr>tl_budget := record_call (clock k) 0 b, tl_err := Err_call\<rparr>)
          | Replied r \<Rightarrow>
              (case judge_reply c r (account c (clock k) r st0) of
                 (Some res, st1) \<Rightarrow> (res, st1)
               | (None, st1) \<Rightarrow> attempt_loop c clock others call n (Suc k) st1)))"

section \<open>triage\<close>

record triage_result =
  tr_verdict :: verdict
  tr_confidence :: rat
  tr_iocs :: "(string \<times> string) list"
  tr_agrees :: "bool option"
  tr_prompt_tokens :: int
  tr_completion_tokens :: int
  tr_cost :: rat

definition loop_start :: "llm_cfg \<Rightarrow> llm_budget \<Rightarrow> triage_loop" where
  "loop_start c b = \<lparr>tl_tokens = lc_max_tokens c, tl_prompt = 0, tl_completion = 0, tl_cost = 0, tl_err = No_err,
     tl_budget = b, tl_sent = []\<rparr>"

definition triage_verdict :: "(string \<Rightarrow> rat option) \<Rightarrow> string set \<Rightarrow> verdict \<Rightarrow> finding list \<Rightarrow> string \<Rightarrow>
    loop_result \<Rightarrow> triage_loop \<Rightarrow> triage_error + triage_result" where
  "triage_verdict float_of chain_rules rule_verdict findings source res st =
    (case res of
       Crashed e \<Rightarrow> Inl e
     | Exhausted \<Rightarrow> Inr \<lparr>tr_verdict = Errored, tr_confidence = 0, tr_iocs = [], tr_agrees = None,
         tr_prompt_tokens = tl_prompt st, tr_completion_tokens = tl_completion st, tr_cost = tl_cost st\<rparr>
     | Parsed d v \<Rightarrow>
         (case cand_confidence float_of d of
            Inl e \<Rightarrow> Inl e
          | Inr conf \<Rightarrow> Inr \<lparr>tr_verdict = enforce_no_downgrade chain_rules v rule_verdict findings conf,
              tr_confidence = conf, tr_iocs = validate_iocs (Some (get_or (JList []) (jget d ''iocs''))) source,
              tr_agrees = cand_agrees d,
              tr_prompt_tokens = tl_prompt st, tr_completion_tokens = tl_completion st, tr_cost = tl_cost st\<rparr>))"

definition triage :: "llm_cfg \<Rightarrow> (string \<Rightarrow> rat option) \<Rightarrow> (nat \<Rightarrow> timestamp) \<Rightarrow> (nat \<Rightarrow> llm_budget \<Rightarrow> llm_budget) \<Rightarrow>
    (nat \<Rightarrow> int \<Rightarrow> call_result) \<Rightarrow> string set \<Rightarrow> verdict \<Rightarrow> finding list \<Rightarrow> string \<Rightarrow> timestamp \<Rightarrow> llm_budget \<Rightarrow>
    (triage_error + triage_result) \<times> triage_loop" where
  "triage c float_of clock others call chain_rules rule_verdict findings source now b =
    (case check_budget c now b of
       (Some reason, b1) \<Rightarrow>
         (Inr \<lparr>tr_verdict = Skipped, tr_confidence = 0, tr_iocs = [], tr_agrees = None, tr_prompt_tokens = 0,
            tr_completion_tokens = 0, tr_cost = 0\<rparr>, loop_start c b1)
     | (None, b1) \<Rightarrow>
         (case attempt_loop c clock others call (Suc (lc_max_retries c)) 0 (loop_start c b1) of
            (res, st) \<Rightarrow> (triage_verdict float_of chain_rules rule_verdict findings source res st, st)))"

section \<open>Lemmas\<close>

lemma exists_iff_list_ex: "(\<exists>f\<in>set fs. P f) \<longleftrightarrow> list_ex P fs"
  by (simp add: list_ex_iff)

lemma no_downgrade_exact: "list_ex is_exact_intel_match fs \<Longrightarrow> enforce_no_downgrade ch v Malicious fs q = Malicious"
  by (auto simp: enforce_no_downgrade_def)

lemma enforce_range: "enforce_no_downgrade ch v r fs q \<in> {v, r, Malicious}"
  by (simp add: enforce_no_downgrade_def Let_def)

lemma judge_reply_parsed:
  "judge_reply c r st = (Some (Parsed d v), st') \<Longrightarrow>
     rp_body r = Json (JObj d) \<and> cand_verdict d = Some v \<and> \<not> (rp_length r \<and> v \<in> {Benign, Suspicious}) \<and> st' = st"
  by (auto simp: judge_reply_def split: reply_body.splits json.splits option.splits if_splits)

lemma cand_verdict_range: "cand_verdict d = Some v \<Longrightarrow> v \<in> {Malicious, Suspicious, Benign, Inconclusive}"
  by (auto simp: cand_verdict_def Let_def split: option.splits json.splits if_splits)

lemma judge_reply_frame:
  "judge_reply c r st = (res, st') \<Longrightarrow> tl_sent st' = tl_sent st \<and> tl_budget st' = tl_budget st \<and>
     tl_tokens st \<le> max (tl_tokens st) (tl_tokens st')"
  by (auto simp: judge_reply_def split: reply_body.splits json.splits option.splits if_splits)

lemma escalate_bounds: "0 \<le> t \<Longrightarrow> t \<le> escalate c b t \<and> escalate c b t \<le> max t (lc_tokens_ceiling c)"
  by (auto simp: escalate_def min_def)

lemma judge_reply_tokens:
  "judge_reply c r st = (res, st') \<Longrightarrow> 0 \<le> tl_tokens st \<Longrightarrow>
     tl_tokens st \<le> tl_tokens st' \<and> tl_tokens st' \<le> max (tl_tokens st) (lc_tokens_ceiling c)"
  using escalate_bounds [of "tl_tokens st" c "rp_length r"] escalate_bounds [of "tl_tokens st" c True]
  by (auto simp: judge_reply_def split: reply_body.splits json.splits option.splits if_splits)

text \<open>One iteration, as an equation over its three outcomes.\<close>

lemma attempt_loop_cases [consumes 1, case_names blocked failed stop continue]:
  assumes "attempt_loop c clock others call (Suc n) k st = (res, st')"
  obtains reason b where "check_budget c (clock k) (others k (tl_budget st)) = (Some reason, b)"
      "res = Exhausted" "st' = st\<lparr>tl_budget := b, tl_err := Err_budget reason\<rparr>"
  | b where "check_budget c (clock k) (others k (tl_budget st)) = (None, b)" "call k (tl_tokens st) = Call_failed"
      "attempt_loop c clock others call n (Suc k)
         ((sent (st\<lparr>tl_budget := b\<rparr>))\<lparr>tl_budget := record_call (clock k) 0 b, tl_err := Err_call\<rparr>) = (res, st')"
  | b r where "check_budget c (clock k) (others k (tl_budget st)) = (None, b)" "call k (tl_tokens st) = Replied r"
      "judge_reply c r (account c (clock k) r (sent (st\<lparr>tl_budget := b\<rparr>))) = (Some res, st')"
  | b r st1 where "check_budget c (clock k) (others k (tl_budget st)) = (None, b)" "call k (tl_tokens st) = Replied r"
      "judge_reply c r (account c (clock k) r (sent (st\<lparr>tl_budget := b\<rparr>))) = (None, st1)"
      "attempt_loop c clock others call n (Suc k) st1 = (res, st')"
proof -
  obtain bl b where cb: "check_budget c (clock k) (others k (tl_budget st)) = (bl, b)" by fastforce
  show thesis
  proof (cases bl)
    case (Some reason)
    then show ?thesis using assms cb that(1) [of reason b] by simp
  next
    case None
    show ?thesis
    proof (cases "call k (tl_tokens st)")
      case Call_failed
      then show ?thesis using assms cb None that(2) [of b] by (simp add: Let_def)
    next
      case (Replied r)
      obtain o1 st1 where j: "judge_reply c r (account c (clock k) r (sent (st\<lparr>tl_budget := b\<rparr>))) = (o1, st1)"
        by fastforce
      show ?thesis using assms cb None Replied j that(3) [of b r] that(4) [of b r st1]
        by (cases o1) (simp_all add: Let_def)
    qed
  qed
qed

lemma attempt_loop_parsed:
  "attempt_loop c clock others call n k st = (Parsed d v, st') \<Longrightarrow>
     \<exists>k' t r. k \<le> k' \<and> k' < k + n \<and> call k' t = Replied r \<and> rp_body r = Json (JObj d) \<and> cand_verdict d = Some v \<and>
       \<not> (rp_length r \<and> v \<in> {Benign, Suspicious})"
proof (induction n arbitrary: k st)
  case 0
  then show ?case by simp
next
  case (Suc n)
  have up: "\<exists>k' t r. k \<le> k' \<and> k' < k + Suc n \<and> call k' t = Replied r \<and> rp_body r = Json (JObj d) \<and> cand_verdict d = Some v \<and>
       \<not> (rp_length r \<and> v \<in> {Benign, Suspicious})"
    if "attempt_loop c clock others call n (Suc k) s = (Parsed d v, st')" for s
    using Suc.IH [OF that] by (metis Suc_leD add_Suc_shift)
  show ?case
    using Suc.prems
  proof (cases rule: attempt_loop_cases)
    case (blocked reason b)
    then show ?thesis by simp
  next
    case (failed b)
    then show ?thesis by (intro up)
  next
    case (stop b r)
    then show ?thesis using judge_reply_parsed [OF stop(3)] by (intro exI [of _ k] exI [of _ "tl_tokens st"] exI [of _ r]) simp
  next
    case (continue b r st1)
    then show ?thesis by (intro up)
  qed
qed

lemma attempt_loop_sent:
  "attempt_loop c clock others call n k st = (res, st') \<Longrightarrow> 0 \<le> tl_tokens st \<Longrightarrow> tl_tokens st \<le> m \<Longrightarrow>
     lc_tokens_ceiling c \<le> m \<Longrightarrow>
     \<exists>ts. tl_sent st' = tl_sent st @ ts \<and> length ts \<le> n \<and> sorted ts \<and> (\<forall>t\<in>set ts. tl_tokens st \<le> t \<and> t \<le> m)"
proof (induction n arbitrary: k st)
  case 0
  then show ?case by simp
next
  case (Suc n)
  have up: "\<exists>ts. tl_sent st' = tl_sent st @ ts \<and> length ts \<le> Suc n \<and> sorted ts \<and> (\<forall>t\<in>set ts. tl_tokens st \<le> t \<and> t \<le> m)"
    if l: "attempt_loop c clock others call n (Suc k) s = (res, st')" and s: "tl_sent s = tl_sent st @ [tl_tokens st]"
      "tl_tokens st \<le> tl_tokens s" "tl_tokens s \<le> m" for s
  proof -
    obtain ts where "tl_sent st' = tl_sent s @ ts" "length ts \<le> n" "sorted ts"
      "\<forall>t\<in>set ts. tl_tokens s \<le> t \<and> t \<le> m"
      using Suc.IH [OF l] s Suc.prems by auto
    with s Suc.prems show ?thesis by (intro exI [of _ "tl_tokens st # ts"]) force
  qed
  show ?case
    using Suc.prems(1)
  proof (cases rule: attempt_loop_cases)
    case (blocked reason b)
    then show ?thesis by simp
  next
    case (failed b)
    then show ?thesis using Suc.prems by (intro up [OF failed(3)]) (simp_all add: sent_def)
  next
    case (stop b r)
    then show ?thesis using judge_reply_frame [OF stop(3)] Suc.prems
      by (intro exI [of _ "[tl_tokens st]"]) (simp add: account_def sent_def)
  next
    case (continue b r st1)
    then show ?thesis using judge_reply_frame [OF continue(3)] judge_reply_tokens [OF continue(3)] Suc.prems
      by (intro up [OF continue(4)]) (auto simp: account_def sent_def max_def split: if_splits)
  qed
qed

lemma check_budget_spent: "check_budget c now b = (o1, b1) \<Longrightarrow> lb_spent b1 = lb_spent b \<and>
    (o1 = None \<longrightarrow> lb_spent b < lc_max_usd c \<and> length (lb_calls b1) < lc_max_calls_per_hour c)"
  by (auto simp: check_budget_def Let_def split: if_splits)

lemma attempt_loop_spent:
  assumes "\<And>k t r. call k t = Replied r \<Longrightarrow> attempt_cost c r \<le> m" and "0 \<le> m"
  shows "attempt_loop c clock (\<lambda>_ b. b) call n k st = (res, st') \<Longrightarrow>
     lb_spent (tl_budget st) \<le> u \<Longrightarrow> lc_max_usd c + m \<le> u \<Longrightarrow> lb_spent (tl_budget st') \<le> u"
proof (induction n arbitrary: k st)
  case 0
  then show ?case by simp
next
  case (Suc n)
  show ?case
    using Suc.prems(1)
  proof (cases rule: attempt_loop_cases)
    case (blocked reason b)
    then show ?thesis using check_budget_spent [OF blocked(1)] Suc.prems by simp
  next
    case (failed b)
    then show ?thesis using check_budget_spent [OF failed(1)] Suc.prems assms(2)
      by (intro Suc.IH [OF failed(3)]) (simp_all add: record_call_def)
  next
    case (stop b r)
    then show ?thesis using check_budget_spent [OF stop(1)] Suc.prems assms(1) [OF stop(2)] judge_reply_frame [OF stop(3)]
      by (simp add: account_def record_call_def sent_def)
  next
    case (continue b r st1)
    then show ?thesis
      using check_budget_spent [OF continue(1)] Suc.prems assms(1) [OF continue(2)] judge_reply_frame [OF continue(3)]
      by (intro Suc.IH [OF continue(4)]) (simp_all add: account_def record_call_def sent_def)
  qed
qed

lemma valid_ioc_sound: "valid_ioc source j = Some (t, v) \<Longrightarrow> t \<in> ioc_types \<and> contains source v"
  by (auto simp: valid_ioc_def split: option.splits json.splits if_splits)

lemma validate_iocs_sound: "(t, v) \<in> set (validate_iocs j source) \<Longrightarrow> t \<in> ioc_types \<and> contains source v"
  by (auto simp: validate_iocs_def in_map_filter dest: valid_ioc_sound split: option.splits json.splits)

section \<open>Properties\<close>





lemma triage_parsed_or_not:
  assumes "triage c float_of clock others call ch rule fs source now b = (Inr r, st)"
  obtains (parsed) k t rp d v where "k \<le> lc_max_retries c" "call k t = Replied rp" "rp_body rp = Json (JObj d)"
      "cand_verdict d = Some v" "\<not> (rp_length rp \<and> v \<in> {Benign, Suspicious})"
      "cand_confidence float_of d = Inr (tr_confidence r)"
      "tr_verdict r = enforce_no_downgrade ch v rule fs (tr_confidence r)"
      "tr_iocs r = validate_iocs (Some (get_or (JList []) (jget d ''iocs''))) source"
  | (unparsed) "tr_verdict r \<in> {Errored, Skipped}" "tr_iocs r = []"
proof -
  obtain o1 b1 where cb: "check_budget c now b = (o1, b1)" by fastforce
  show thesis
  proof (cases o1)
    case (Some reason)
    then show ?thesis using assms cb unparsed by (auto simp: triage_def)
  next
    case None
    obtain lr st' where l: "attempt_loop c clock others call (Suc (lc_max_retries c)) 0 (loop_start c b1) = (lr, st')"
      by fastforce
    with None have tv: "triage_verdict float_of ch rule fs source lr st' = Inr r"
      using assms cb by (auto simp: triage_def simp del: attempt_loop.simps)
    show ?thesis
    proof (cases lr)
      case (Parsed d v)
      then have q: "cand_confidence float_of d = Inr (tr_confidence r)"
        "tr_verdict r = enforce_no_downgrade ch v rule fs (tr_confidence r)"
        "tr_iocs r = validate_iocs (Some (get_or (JList []) (jget d ''iocs''))) source"
        using tv by (auto simp: triage_verdict_def split: sum.splits)
      obtain k t rp where "k < Suc (lc_max_retries c)" "call k t = Replied rp" "rp_body rp = Json (JObj d)"
        "cand_verdict d = Some v" "\<not> (rp_length rp \<and> v \<in> {Benign, Suspicious})"
        using attempt_loop_parsed [OF l [unfolded Parsed]] by auto
      with q show ?thesis by (intro parsed) auto
    next
      case Exhausted
      then show ?thesis using tv by (intro unparsed) (auto simp: triage_verdict_def)
    next
      case (Crashed e)
      then show ?thesis using tv by (simp add: triage_verdict_def)
    qed
  qed
qed

lemma triage_cleared_no_exact:
  assumes "triage c float_of clock others call ch Malicious fs source now b = (Inr r, st)"
    and "list_ex is_exact_intel_match fs"
  shows "tr_verdict r \<notin> {Benign, Suspicious}"
  using assms(1)
proof (cases rule: triage_parsed_or_not)
  case (parsed k t rp d v)
  then show ?thesis using no_downgrade_exact [OF assms(2)] by simp
qed auto

text \<open>C10. A package is only cleared by a complete answer. Whatever the endpoint replies and whatever the
  other workers do, when the triage of a malicious rule verdict ends in benign or suspicious, one of its
  attempts was answered with a decodable object of that very verdict, not cut off by the token limit, and
  no exact intel match is among the findings; and every indicator returned is of a known type and occurs
  in the shown source.\<close>

theorem triage_clear_is_complete:
  assumes "triage c float_of clock others call ch Malicious fs source now b = (Inr r, st)"
  shows "(tr_verdict r \<in> {Benign, Suspicious} \<longrightarrow>
      (\<exists>k t rp d. k \<le> lc_max_retries c \<and> call k t = Replied rp \<and> \<not> rp_length rp \<and> rp_body rp = Json (JObj d) \<and>
         cand_verdict d = Some (tr_verdict r) \<and> cand_confidence float_of d = Inr (tr_confidence r)) \<and>
      \<not> list_ex is_exact_intel_match fs) \<and>
    (\<forall>(t, v)\<in>set (tr_iocs r). t \<in> ioc_types \<and> contains source v)"
  using assms
proof (cases rule: triage_parsed_or_not)
  case (parsed k t rp d v)
  have "tr_verdict r = v" if "tr_verdict r \<in> {Benign, Suspicious}"
    using that parsed(7) enforce_range [of ch v Malicious fs "tr_confidence r"] by auto
  then show ?thesis
    using parsed triage_cleared_no_exact [OF assms] validate_iocs_sound by fastforce
next
  case unparsed
  then show ?thesis by auto
qed

definition demo_reply :: "string \<Rightarrow> bool \<Rightarrow> llm_reply" where
  "demo_reply v len_cut = \<lparr>rp_length = len_cut, rp_prompt = 1000, rp_completion = 100, rp_cost = 0,
     rp_body = Json (JObj [(''verdict'', JStr v), (''confidence'', JFloat (9 / 10))])\<rparr>"

definition demo_call :: "nat \<Rightarrow> int \<Rightarrow> call_result" where
  "demo_call k t = (if k = 0 then Replied (demo_reply ''benign'' True) else Replied (demo_reply ''Benign'' False))"

lemma demo_triage: "fst (triage default_llm_cfg (\<lambda>_. None) (\<lambda>k. 0) (\<lambda>_ b. b) demo_call {} Malicious [] [] 0
     \<lparr>lb_spent = 0, lb_calls = []\<rparr>) = Inr \<lparr>tr_verdict = Benign, tr_confidence = 9 / 10, tr_iocs = [], tr_agrees = None,
       tr_prompt_tokens = 2000, tr_completion_tokens = 200, tr_cost = 13 / 10000\<rparr>"
  by code_simp

theorem triage_clear_is_complete_witness:
  "\<exists>k t rp. k \<le> 2 \<and> demo_call k t = Replied rp \<and> \<not> rp_length rp"
proof -
  obtain st where "triage default_llm_cfg (\<lambda>_. None) (\<lambda>k. 0) (\<lambda>_ b. b) demo_call {} Malicious [] [] 0
     \<lparr>lb_spent = 0, lb_calls = []\<rparr> = (Inr \<lparr>tr_verdict = Benign, tr_confidence = 9 / 10, tr_iocs = [], tr_agrees = None,
       tr_prompt_tokens = 2000, tr_completion_tokens = 200, tr_cost = 13 / 10000\<rparr>, st)"
    using demo_triage by (metis prod.collapse)
  from triage_clear_is_complete [OF this] show ?thesis
    by (auto simp: default_llm_cfg_def)
qed

end
