(* ===== verification/WatchlistAuto.thy ===== *)
theory WatchlistAuto
  imports Janitor
begin

text \<open>
  The automatic watchlist: \<^verbatim>\<open>watchlist_auto.py\<close> on the table of class \<^verbatim>\<open>Watchlist\<close>. The settings
  are the texts of the environment variables or the numbers read from them. The rate limiter's
  queues (\<^verbatim>\<open>_recent_adds\<close>) are state passed explicitly; their times are those of the monotonic clock, in
  microseconds. Other workers' inserts between the lookup and the insert are the argument \<open>env\<close>.
\<close>

record watch_row =
  wl_id :: nat
  wl_ecosystem :: ecosystem
  wl_name :: string
  wl_rank :: int
  wl_downloads_last_30d :: int
  wl_refreshed_at :: timestamp

type_synonym watch_rows = "watch_row list"
type_synonym rate_state = "ecosystem \<Rightarrow> timestamp list"

definition auto_malicious_rank :: int where
  "auto_malicious_rank = 9999999"

record wla_cfg =
  wa_enabled :: string
  wa_ttl_days :: int
  wa_max_per_eco :: int
  wa_max_adds_per_hour :: int
  wa_blocklist :: string

definition default_wla_cfg :: wla_cfg where
  "default_wla_cfg = \<lparr>wa_enabled = ''1'', wa_ttl_days = 180, wa_max_per_eco = 5000, wa_max_adds_per_hour = 100,
     wa_blocklist = []\<rparr>"

definition wla_is_enabled :: "wla_cfg \<Rightarrow> bool" where
  "wla_is_enabled cfg \<longleftrightarrow> lower (wa_enabled cfg) \<notin> {''0'', ''false'', ''off'', ''no''}"

text \<open>\<^verbatim>\<open>_blocklist()\<close> as the list of its (ecosystem, lowercased name) pairs.\<close>

fun blocklist_pairs :: "string list \<Rightarrow> (string \<times> string) list" where
  "blocklist_pairs [] = []"
| "blocklist_pairs (tok # toks) =
    (case split1 (CHR '':'') (strip tok) of
       (eco, None) \<Rightarrow> blocklist_pairs toks
     | (eco, Some name) \<Rightarrow> (strip eco, lower (strip name)) # blocklist_pairs toks)"

definition blocklist :: "wla_cfg \<Rightarrow> (string \<times> string) list" where
  "blocklist cfg = (let raw = strip (wa_blocklist cfg) in
     if raw = [] then [] else blocklist_pairs (split_on (CHR '','') raw))"

text \<open>\<^verbatim>\<open>_rate_limited\<close> on one ecosystem's queue.\<close>

definition rate_limited :: "int \<Rightarrow> timestamp \<Rightarrow> timestamp list \<Rightarrow> bool \<times> timestamp list" where
  "rate_limited cap now dq =
    (if cap \<le> 0 then (False, dq)
     else (let dq1 = dropWhile (\<lambda>t. t < now - seconds 3600) dq in
       if cap \<le> int (length dq1) then (True, dq1) else (False, dq1 @ [now])))"

datatype add_status = Disabled | Blocklisted | Refreshed | AlreadyPopularity | RateLimited | Added

definition wl_key :: "watch_row \<Rightarrow> string \<times> string" where
  "wl_key r = (wl_ecosystem r, wl_name r)"

definition wl_match :: "ecosystem \<Rightarrow> string \<Rightarrow> watch_row \<Rightarrow> bool" where
  "wl_match eco name r \<longleftrightarrow> wl_ecosystem r = eco \<and> lower (wl_name r) = lower name"

definition wl_next_id :: "watch_rows \<Rightarrow> nat" where
  "wl_next_id rs = Suc (foldr max (map wl_id rs) 0)"

definition auto_row :: "nat \<Rightarrow> ecosystem \<Rightarrow> string \<Rightarrow> timestamp \<Rightarrow> watch_row" where
  "auto_row i eco name now = \<lparr>wl_id = i, wl_ecosystem = eco, wl_name = name, wl_rank = auto_malicious_rank,
     wl_downloads_last_30d = 0, wl_refreshed_at = now\<rparr>"

text \<open>\<^verbatim>\<open>add_confirmed_malicious\<close>: \<open>now\<close> is the wall clock, \<open>tick\<close> the monotonic clock.\<close>

definition add_confirmed_malicious :: "wla_cfg \<Rightarrow> (watch_rows \<Rightarrow> watch_rows) \<Rightarrow> timestamp \<Rightarrow> timestamp \<Rightarrow>
    ecosystem \<Rightarrow> string \<Rightarrow> rate_state \<Rightarrow> watch_rows \<Rightarrow> add_status \<times> rate_state \<times> watch_rows" where
  "add_confirmed_malicious cfg env now tick eco name rate rs =
    (if \<not> wla_is_enabled cfg then (Disabled, rate, rs)
     else if (eco, lower name) \<in> set (blocklist cfg) then (Blocklisted, rate, rs)
     else (case find (wl_match eco name) rs of
         Some existing \<Rightarrow>
           (if wl_rank existing = auto_malicious_rank
            then (Refreshed, rate, update_where (\<lambda>r. wl_id r = wl_id existing) (\<lambda>r. r\<lparr>wl_refreshed_at := now\<rparr>) rs)
            else (AlreadyPopularity, rate, rs))
       | None \<Rightarrow>
           (case rate_limited (wa_max_adds_per_hour cfg) tick (rate eco) of
              (True, dq) \<Rightarrow> (RateLimited, rate(eco := dq), rs)
            | (False, dq) \<Rightarrow>
                (let rs1 = env rs in
                 if (eco, name) \<in> wl_key ` set rs1 then (AlreadyPopularity, rate(eco := dq), rs1)
                 else (Added, rate(eco := dq), rs1 @ [auto_row (wl_next_id rs1) eco name now])))))"

definition is_auto :: "watch_row \<Rightarrow> bool" where
  "is_auto r \<longleftrightarrow> wl_rank r = auto_malicious_rank"

definition prune_expired :: "wla_cfg \<Rightarrow> timestamp \<Rightarrow> watch_rows \<Rightarrow> watch_rows \<times> nat" where
  "prune_expired cfg now rs =
    (if wa_ttl_days cfg \<le> 0 then (rs, 0)
     else (let old = (\<lambda>r. is_auto r \<and> wl_refreshed_at r < now - days (wa_ttl_days cfg))
           in (delete_where old rs, count_where old rs)))"

text \<open>The body of the loop of \<^verbatim>\<open>prune_over_cap\<close> for one ecosystem.\<close>

definition prune_eco :: "nat \<Rightarrow> ecosystem \<Rightarrow> watch_rows \<Rightarrow> watch_rows" where
  "prune_eco cap eco rs =
    (let rows = sort_key wl_refreshed_at (filter (\<lambda>r. wl_ecosystem r = eco \<and> is_auto r) rs);
         excess = int (length rows) - int cap
     in if excess \<le> 0 then rs
        else (let ids = map wl_id (take (nat excess) rows) in delete_where (\<lambda>r. wl_id r \<in> set ids) rs))"

definition prune_over_cap :: "wla_cfg \<Rightarrow> watch_rows \<Rightarrow> watch_rows \<times> nat" where
  "prune_over_cap cfg rs =
    (if wa_max_per_eco cfg \<le> 0 then (rs, 0)
     else (let rs' = fold (prune_eco (nat (wa_max_per_eco cfg))) [''pypi'', ''crates'', ''gomod'', ''npm''] rs
           in (rs', length rs - length rs')))"

definition list_auto_entries :: "ecosystem option \<Rightarrow> watch_rows \<Rightarrow> (string \<times> string \<times> timestamp) list" where
  "list_auto_entries eco rs =
    map (\<lambda>r. (wl_ecosystem r, wl_name r, wl_refreshed_at r))
      (sort_desc wl_refreshed_at
        (filter (\<lambda>r. is_auto r \<and> (truthy eco \<longrightarrow> Some (wl_ecosystem r) = eco)) rs))"

definition is_watchlist_auto_only :: "ecosystem \<Rightarrow> string \<Rightarrow> watch_rows \<Rightarrow> bool" where
  "is_watchlist_auto_only eco name rs = (find (\<lambda>r. wl_match eco name r \<and> is_auto r) rs \<noteq> None)"

definition remove_auto_entry :: "ecosystem \<Rightarrow> string \<Rightarrow> watch_rows \<Rightarrow> watch_rows \<times> bool" where
  "remove_auto_entry eco name rs =
    (delete_where (\<lambda>r. wl_match eco name r \<and> is_auto r) rs, 0 < count_where (\<lambda>r. wl_match eco name r \<and> is_auto r) rs)"

section \<open>The cap\<close>

interpretation watch_janitor: janitor wl_id wl_refreshed_at "\<lambda>eco r. wl_ecosystem r = eco \<and> is_auto r" prune_eco
proof (unfold_locales, goal_cases)
  case (1 cap eco rs)
  let ?n = "count_where (\<lambda>r. wl_ecosystem r = eco \<and> is_auto r) rs"
  have n: "nat (int ?n - int cap) = ?n - cap" by simp
  show ?case
    unfolding prune_eco_def Let_def length_sort count_where_def [symmetric] n
    by (auto simp: delete_where_def)
qed

section \<open>The rate limiter over a sequence of calls\<close>

text \<open>The times of the calls that were let through, when the limiter is asked at the times \<open>ts\<close>.\<close>

fun rate_run :: "int \<Rightarrow> timestamp list \<Rightarrow> timestamp list \<Rightarrow> timestamp list" where
  "rate_run cap dq [] = []"
| "rate_run cap dq (t # ts) =
    (case rate_limited cap t dq of
       (True, dq1) \<Rightarrow> rate_run cap dq1 ts
     | (False, dq1) \<Rightarrow> t # rate_run cap dq1 ts)"

definition in_hour :: "timestamp \<Rightarrow> timestamp list \<Rightarrow> nat" where
  "in_hour x ts = count_where (\<lambda>t. x \<le> t \<and> t \<le> x + seconds 3600) ts"

lemma dropWhile_less_sorted: "sorted xs \<Longrightarrow> dropWhile (\<lambda>t. t < (c::int)) xs = filter (\<lambda>t. c \<le> t) xs"
  by (induction xs) (auto intro!: filter_True [symmetric] intro: order.trans)

lemma filter_later: "c \<le> (d::int) \<Longrightarrow> filter (\<lambda>t. d \<le> t) (filter (\<lambda>t. c \<le> t) xs) = filter (\<lambda>t. d \<le> t) xs"
  by (induction xs) auto

lemma rate_run_window:
  assumes "0 < cap" and "sorted (past @ ts)" and "\<And>x. int (in_hour x past) \<le> cap"
    and "dq = filter (\<lambda>t. c \<le> t) past" and "\<And>t. t \<in> set ts \<Longrightarrow> c \<le> t - seconds 3600"
  shows "int (in_hour x (past @ rate_run cap dq ts)) \<le> cap"
  using assms(2-5)
proof (induction ts arbitrary: past dq c)
  case Nil
  then show ?case by simp
next
  case (Cons t ts)
  have srt: "sorted past" "\<forall>p \<in> set past. p \<le> t" "sorted ts" "\<forall>s \<in> set ts. t \<le> s"
    using Cons.prems(1) by (auto simp: sorted_append)
  let ?d = "filter (\<lambda>u. t - seconds 3600 \<le> u) past"
  have "sorted dq" using srt(1) Cons.prems(3) by (simp add: sorted_wrt_filter)
  then have "dropWhile (\<lambda>u. u < t - seconds 3600) dq = filter (\<lambda>u. t - seconds 3600 \<le> u) dq"
    by (rule dropWhile_less_sorted)
  also have "\<dots> = ?d"
    unfolding Cons.prems(3) by (rule filter_later) (use Cons.prems(4) [of t] in simp)
  finally have d: "dropWhile (\<lambda>u. u < t - seconds 3600) dq = ?d" .
  show ?case
  proof (cases "cap \<le> int (length ?d)")
    case True
    then have "rate_run cap dq (t # ts) = rate_run cap ?d ts"
      using assms(1) d by (simp add: rate_limited_def Let_def)
    moreover have "int (in_hour x (past @ rate_run cap ?d ts)) \<le> cap"
      by (rule Cons.IH [OF _ Cons.prems(2) refl]) (use Cons.prems(1) srt in \<open>auto simp: sorted_append\<close>)
    ultimately show ?thesis by simp
  next
    case False
    then have r: "rate_run cap dq (t # ts) = t # rate_run cap (?d @ [t]) ts"
      using assms(1) d by (simp add: rate_limited_def Let_def)
    have "int (in_hour y (past @ [t])) \<le> cap" for y
    proof (cases "y \<le> t \<and> t \<le> y + seconds 3600")
      case True
      then have "in_hour y past \<le> length ?d"
        unfolding in_hour_def count_where_def by (intro length_filter_imp) auto
      with True False show ?thesis by (simp add: in_hour_def)
    next
      case False
      then show ?thesis using Cons.prems(2) [of y] by (auto simp: in_hour_def)
    qed
    moreover have "?d @ [t] = filter (\<lambda>u. t - seconds 3600 \<le> u) (past @ [t])" by simp
    ultimately have "int (in_hour x ((past @ [t]) @ rate_run cap (?d @ [t]) ts)) \<le> cap"
      by (intro Cons.IH) (use Cons.prems(1) srt in \<open>auto simp: sorted_append\<close>)
    with r show ?thesis by simp
  qed
qed

lemma refresh_keeps_popularity:
  assumes "distinct (map wl_id rs)" and "e \<in> set rs" and "is_auto e"
  shows "filter (\<lambda>r. \<not> is_auto r) (update_where (\<lambda>r. wl_id r = wl_id e) (\<lambda>r. r\<lparr>wl_refreshed_at := now\<rparr>) rs) =
    filter (\<lambda>r. \<not> is_auto r) rs"
proof -
  have "is_auto r" if "r \<in> set rs" "wl_id r = wl_id e" for r
    using assms that by (metis distinct_map inj_onD)
  then show ?thesis by (induction rs) (auto simp: is_auto_def)
qed

lemma find_appended: "find p xs = None \<Longrightarrow> p x \<Longrightarrow> find p (xs @ [x]) = Some x"
  by (simp add: find_append)

lemma auto_row_simps [simp]: "is_auto (auto_row i eco name now)" "wl_match eco name (auto_row i eco name now)"
  by (simp_all add: is_auto_def auto_row_def wl_match_def)

section \<open>Properties\<close>

text \<open>Adding a confirmed package never disturbs the popularity watchlist: whatever the outcome, the
  popularity rows are those the call found or those other workers' commits left. A row is added only with
  the sentinel rank and only when the feature is on, the name is not blocklisted, no row matches it and
  the rate limiter lets it through; then it is on the automatic list, and confirming it again refreshes it.\<close>

theorem watchlist_add_safe:
  assumes "distinct (map wl_id rs)"
    and "add_confirmed_malicious cfg env now tick eco name rate rs = (st, rate', rs')"
  shows "(filter (\<lambda>r. \<not> is_auto r) rs' = filter (\<lambda>r. \<not> is_auto r) rs \<or>
          filter (\<lambda>r. \<not> is_auto r) rs' = filter (\<lambda>r. \<not> is_auto r) (env rs)) \<and>
    (st \<in> {Disabled, Blocklisted, RateLimited} \<longrightarrow> rs' = rs) \<and>
    (st = Added \<longrightarrow> wla_is_enabled cfg \<and> (eco, lower name) \<notin> set (blocklist cfg) \<and>
       find (wl_match eco name) rs = None \<and> \<not> fst (rate_limited (wa_max_adds_per_hour cfg) tick (rate eco)) \<and>
       rs' = env rs @ [auto_row (wl_next_id (env rs)) eco name now] \<and> is_watchlist_auto_only eco name rs' \<and>
       (find (wl_match eco name) (env rs) = None \<longrightarrow>
          fst (add_confirmed_malicious cfg env' now' tick' eco name rate' rs') = Refreshed))"
proof (cases "\<not> wla_is_enabled cfg \<or> (eco, lower name) \<in> set (blocklist cfg)")
  case True
  then show ?thesis using assms(2) by (auto simp: add_confirmed_malicious_def split: if_splits)
next
  case on: False
  show ?thesis
  proof (cases "find (wl_match eco name) rs")
    case (Some e)
    have e: "e \<in> set rs" using find_SomeD [OF Some] by simp
    have "st = Refreshed \<and> is_auto e \<and> rs' = update_where (\<lambda>r. wl_id r = wl_id e) (\<lambda>r. r\<lparr>wl_refreshed_at := now\<rparr>) rs \<or>
        st = AlreadyPopularity \<and> rs' = rs"
      using assms(2) on Some by (auto simp: add_confirmed_malicious_def is_auto_def split: if_splits)
    then show ?thesis using refresh_keeps_popularity [OF assms(1) e] by auto
  next
    case None
    obtain lim dq where l: "rate_limited (wa_max_adds_per_hour cfg) tick (rate eco) = (lim, dq)" by (cases "rate_limited (wa_max_adds_per_hour cfg) tick (rate eco)")
    have "lim \<and> st = RateLimited \<and> rs' = rs \<or> \<not> lim \<and> st = AlreadyPopularity \<and> rs' = env rs \<or>
        \<not> lim \<and> st = Added \<and> rs' = env rs @ [auto_row (wl_next_id (env rs)) eco name now]"
      using assms(2) on None l by (auto simp: add_confirmed_malicious_def Let_def split: if_splits bool.splits)
    then consider (lim) "st = RateLimited" "rs' = rs" | (race) "st = AlreadyPopularity" "rs' = env rs"
      | (add) "\<not> lim" "st = Added" "rs' = env rs @ [auto_row (wl_next_id (env rs)) eco name now]"
      by blast
    then show ?thesis
    proof cases
      case add
      have "is_watchlist_auto_only eco name rs'"
        using add(3) by (auto simp: is_watchlist_auto_only_def find_append split: option.splits)
      moreover have "fst (add_confirmed_malicious cfg env' now' tick' eco name rate' rs') = Refreshed"
        if "find (wl_match eco name) (env rs) = None"
        using on add(3) find_appended [OF that auto_row_simps(2)] auto_row_simps(1) [unfolded is_auto_def]
        by (simp add: add_confirmed_malicious_def)
      ultimately show ?thesis using on None l add by simp
    qed simp_all
  qed
qed

definition popular_lodash :: watch_row where
  "popular_lodash = \<lparr>wl_id = 1, wl_ecosystem = ''npm'', wl_name = ''lodash'', wl_rank = 5, wl_downloads_last_30d = 9,
     wl_refreshed_at = 0\<rparr>"

lemma add_demo: "add_confirmed_malicious default_wla_cfg (\<lambda>x. x) 7 7 ''npm'' ''Evil'' (\<lambda>_. []) [popular_lodash] =
    (Added, (\<lambda>_. [])(''npm'' := [7]), [popular_lodash, auto_row 2 ''npm'' ''Evil'' 7])"
proof -
  have "find (wl_match ''npm'' ''Evil'') [popular_lodash] = None" by code_simp
  moreover have "wla_is_enabled default_wla_cfg" by code_simp
  moreover have "blocklist default_wla_cfg = []" by code_simp
  moreover have "wl_next_id [popular_lodash] = 2" by code_simp
  ultimately show ?thesis
    by (simp add: add_confirmed_malicious_def rate_limited_def default_wla_cfg_def wl_key_def popular_lodash_def)
qed

theorem watchlist_add_safe_witness:
  "filter (\<lambda>r. \<not> is_auto r) [popular_lodash, auto_row 2 ''npm'' ''Evil'' 7] = filter (\<lambda>r. \<not> is_auto r) [popular_lodash] \<and>
   is_watchlist_auto_only ''npm'' ''Evil'' [popular_lodash, auto_row 2 ''npm'' ''Evil'' 7]"
proof -
  have d: "distinct (map wl_id [popular_lodash])" by simp
  show ?thesis
    using watchlist_add_safe [OF d add_demo, where env' = "\<lambda>x. x" and now' = 0 and tick' = 0] by blast
qed

text \<open>The surge guard holds: whatever the times of the confirmations (in clock order) and however many
  there are, the limiter lets at most \<open>cap\<close> additions through in any hour.\<close>

theorem watchlist_rate_bounded:
  assumes "0 < cap" and "sorted ts"
  shows "int (in_hour x (rate_run cap [] ts)) \<le> cap"
proof -
  have "int (in_hour x ([] @ rate_run cap [] ts)) \<le> cap"
  proof (rule rate_run_window [OF assms(1), where c = "(if ts = [] then 0 else hd ts) - seconds 3600"])
    fix t assume "t \<in> set ts"
    then show "(if ts = [] then 0 else hd ts) - seconds 3600 \<le> t - seconds 3600"
      using assms(2) by (cases ts) auto
  qed (use assms in \<open>auto simp: in_hour_def\<close>)
  then show ?thesis by simp
qed

theorem watchlist_rate_bounded_witness: "int (in_hour 0 (rate_run 2 [] [1, 2, 3, 4])) \<le> 2"
  by (rule watchlist_rate_bounded) simp_all

text \<open>The janitor keeps the list bounded without touching popularity: with a positive cap, after
  \<open>prune_over_cap\<close> each of the four ecosystems has at most that many automatic rows, every popularity row
  is still there, and no row is new. After \<open>prune_expired\<close> with a positive time to live exactly the
  automatic rows older than it are gone.\<close>

theorem watchlist_janitor_bounds:
  assumes "distinct (map wl_id rs)" and "0 < wa_max_per_eco cfg" and "0 < wa_ttl_days cfg"
  shows "(\<forall>eco \<in> {''pypi'', ''crates'', ''gomod'', ''npm''}.
       int (count_where (\<lambda>r. wl_ecosystem r = eco \<and> is_auto r) (fst (prune_over_cap cfg rs))) \<le> wa_max_per_eco cfg) \<and>
    (\<forall>r \<in> set rs. \<not> is_auto r \<longrightarrow> r \<in> set (fst (prune_over_cap cfg rs))) \<and>
    set (fst (prune_over_cap cfg rs)) \<subseteq> set rs \<and>
    fst (prune_expired cfg now rs) =
      filter (\<lambda>r. is_auto r \<longrightarrow> now - days (wa_ttl_days cfg) \<le> wl_refreshed_at r) rs"
proof -
  let ?ecos = "[''pypi'', ''crates'', ''gomod'', ''npm'']" and ?cap = "nat (wa_max_per_eco cfg)"
  have f: "fst (prune_over_cap cfg rs) = fold (prune_eco ?cap) ?ecos rs"
    using assms(2) by (simp add: prune_over_cap_def Let_def)
  note j = watch_janitor.fold_evict [OF assms(1), of ?cap ?ecos]
  have "\<forall>eco \<in> set ?ecos. int (count_where (\<lambda>r. wl_ecosystem r = eco \<and> is_auto r) (fold (prune_eco ?cap) ?ecos rs)) \<le> wa_max_per_eco cfg"
    using j assms(2) by fastforce
  moreover have "fst (prune_expired cfg now rs) =
      filter (\<lambda>r. is_auto r \<longrightarrow> now - days (wa_ttl_days cfg) \<le> wl_refreshed_at r) rs"
    using assms(3) by (auto simp: prune_expired_def delete_where_def Let_def intro: filter_cong)
  ultimately show ?thesis unfolding f using j by simp
qed

theorem watchlist_janitor_bounds_witness:
  "popular_lodash \<in> set (fst (prune_over_cap default_wla_cfg [popular_lodash, auto_row 2 ''npm'' ''Evil'' 7]))"
  using watchlist_janitor_bounds [of "[popular_lodash, auto_row 2 ''npm'' ''Evil'' 7]" default_wla_cfg 0]
  by (simp add: default_wla_cfg_def popular_lodash_def auto_row_def is_auto_def auto_malicious_rank_def)

end
