(* ===== verification/ThreatIntel.thy ===== *)
theory ThreatIntel
  imports Store WatchlistAuto
begin

text \<open>
  Known-malicious fingerprints: matching (\<^verbatim>\<open>analyze/threat_intel.py\<close>) and the life of the table of class
  \<^verbatim>\<open>ThreatIntelHash\<close> (\<^verbatim>\<open>threat_intel_auto.py\<close>). The fuzzy hash libraries are arguments: a comparison
  function each, or none when the library is not installed. Filling in missing TLSH values from the vault's
  archives is not modelled.
\<close>

record intel_row =
  ti_sha256 :: string
  ti_ssdeep :: "string option"
  ti_tlsh :: "string option"
  ti_campaign :: string
  ti_label :: string
  ti_file_pattern :: "string option"
  ti_description :: "string option"
  ti_source :: "string option"

record fuzzy_caps =
  fc_ssdeep :: "(string \<Rightarrow> string \<Rightarrow> int) option"
  fc_tlsh :: "(string \<Rightarrow> string \<Rightarrow> int) option"

section \<open>Glob patterns\<close>

text \<open>\<^verbatim>\<open>fnmatch.fnmatch\<close> on a POSIX host: \<^verbatim>\<open>*\<close>, \<^verbatim>\<open>?\<close> and bracketed sets with ranges and \<^verbatim>\<open>!\<close>. A bracket without
  its closing one stands for itself; a closing bracket right after the opening (or its \<^verbatim>\<open>!\<close>) is a member.\<close>

definition glob_close :: "string \<Rightarrow> (string \<times> string) option" where
  "glob_close q = (case dropWhile (\<lambda>c. c \<noteq> CHR '']'') q of [] \<Rightarrow> None
     | _ # r \<Rightarrow> Some (takeWhile (\<lambda>c. c \<noteq> CHR '']'') q, r))"

fun glob_members :: "string \<Rightarrow> (string \<times> string) option" where
  "glob_members (c # r) =
    (if c = CHR '']'' then map_option (\<lambda>(b, t). (c # b, t)) (glob_close r) else glob_close (c # r))"
| "glob_members [] = None"

fun glob_set :: "string \<Rightarrow> (bool \<times> string \<times> string) option" where
  "glob_set (c # r) =
    (if c = CHR ''!'' then map_option (Pair True) (glob_members r) else map_option (Pair False) (glob_members (c # r)))"
| "glob_set [] = None"

fun in_set :: "char \<Rightarrow> string \<Rightarrow> bool" where
  "in_set c (a # b # e # r) =
    (if b = CHR ''-'' then (of_char a \<le> (of_char c :: nat) \<and> of_char c \<le> (of_char e :: nat)) \<or> in_set c r
     else c = a \<or> in_set c (b # e # r))"
| "in_set c s = (c \<in> set s)"

lemma glob_close_shorter: "glob_close q = Some (b, r) \<Longrightarrow> length r < length q"
  using length_dropWhile_le [of "\<lambda>c. c \<noteq> CHR '']''" q] by (auto simp: glob_close_def split: list.splits)

lemma glob_members_shorter: "glob_members q = Some (b, r) \<Longrightarrow> length r < length q"
  by (cases q) (auto dest: glob_close_shorter split: if_splits)

lemma glob_set_shorter [termination_simp]: "glob_set p = Some (neg, b, r) \<Longrightarrow> length r < length p"
  by (cases p) (auto simp del: glob_members.simps dest: glob_members_shorter split: if_splits)

function glob :: "string \<Rightarrow> string \<Rightarrow> bool" where
  "glob [] t = (t = [])"
| "glob (c # p) t =
    (if c = CHR ''*'' then glob p t \<or> (case t of [] \<Rightarrow> False | _ # t' \<Rightarrow> glob (c # p) t')
     else (case t of
         [] \<Rightarrow> False
       | x # t' \<Rightarrow>
           (if c = CHR ''?'' then glob p t'
            else if c = CHR ''['' then
              (case glob_set p of
                 None \<Rightarrow> x = c \<and> glob p t'
               | Some (neg, body, r) \<Rightarrow> (in_set x body \<noteq> neg) \<and> glob r t')
            else x = c \<and> glob p t')))"
  by pat_completeness auto
termination
  by (relation "measure (\<lambda>(p, t). length p + length t)") (auto simp: neq_Nil_conv dest: glob_set_shorter)

section \<open>Matching\<close>

definition ssdeep_threshold :: int where "ssdeep_threshold = 70"
definition tlsh_threshold :: int where "tlsh_threshold = 120"
definition promoted_ssdeep_threshold :: int where "promoted_ssdeep_threshold = 88"
definition promoted_tlsh_threshold :: int where "promoted_tlsh_threshold = 40"

definition is_auto_seed :: "intel_row \<Rightarrow> bool" where
  "is_auto_seed e \<longleftrightarrow> or_empty (ti_source e) = ''auto''"

definition is_promoted :: "intel_row \<Rightarrow> bool" where
  "is_promoted e \<longleftrightarrow> or_empty (ti_source e) = ''promoted''"

definition campaign_tlsh_threshold :: "string \<Rightarrow> int option" where
  "campaign_tlsh_threshold c = (if c = ''github_contents_exfil'' then Some 60 else None)"

definition label_severity :: "string \<Rightarrow> string" where
  "label_severity l = (if l = ''malicious'' then ''critical'' else if l = ''suspicious'' then ''high''
     else if l = ''pua'' then ''medium'' else ''critical'')"

definition pattern_ok :: "intel_row \<Rightarrow> string \<Rightarrow> bool" where
  "pattern_ok e name \<longleftrightarrow> \<not> truthy (ti_file_pattern e) \<or> name = [] \<or> glob (or_empty (ti_file_pattern e)) name"

datatype match_tier = Sha256 | Ssdeep | Tlsh

record threat_match =
  tm_tier :: match_tier
  tm_score :: int
  tm_campaign :: string
  tm_label :: string
  tm_description :: string
  tm_sha256 :: string

definition mk_match :: "match_tier \<Rightarrow> int \<Rightarrow> intel_row \<Rightarrow> threat_match" where
  "mk_match tier score e = \<lparr>tm_tier = tier, tm_score = score, tm_campaign = ti_campaign e, tm_label = ti_label e,
     tm_description = or_empty (ti_description e), tm_sha256 = ti_sha256 e\<rparr>"

definition ssdeep_hit :: "(string \<Rightarrow> string \<Rightarrow> int) \<Rightarrow> string \<Rightarrow> string \<Rightarrow> intel_row \<Rightarrow> bool" where
  "ssdeep_hit compare h name e \<longleftrightarrow> \<not> is_auto_seed e \<and> truthy (ti_ssdeep e) \<and> pattern_ok e name \<and>
     (if is_promoted e then promoted_ssdeep_threshold else ssdeep_threshold) \<le> compare h (or_empty (ti_ssdeep e))"

definition tlsh_limit :: "intel_row \<Rightarrow> int" where
  "tlsh_limit e = get_or (if is_promoted e then promoted_tlsh_threshold else tlsh_threshold)
     (campaign_tlsh_threshold (ti_campaign e))"

definition tlsh_hit :: "(string \<Rightarrow> string \<Rightarrow> int) \<Rightarrow> string \<Rightarrow> string \<Rightarrow> intel_row \<Rightarrow> bool" where
  "tlsh_hit diff h name e \<longleftrightarrow> \<not> is_auto_seed e \<and> truthy (ti_tlsh e) \<and> ti_tlsh e \<noteq> Some ''TNULL'' \<and> pattern_ok e name \<and>
     diff h (or_empty (ti_tlsh e)) \<le> tlsh_limit e"

definition check_ssdeep :: "fuzzy_caps \<Rightarrow> intel_row list \<Rightarrow> string \<Rightarrow> string \<Rightarrow> threat_match option" where
  "check_ssdeep caps intel h name =
    (case fc_ssdeep caps of
       Some compare \<Rightarrow>
         (if h = [] then None
          else map_option (\<lambda>e. mk_match Ssdeep (compare h (or_empty (ti_ssdeep e))) e)
            (find (ssdeep_hit compare h name) intel))
     | None \<Rightarrow> None)"

definition check_tlsh :: "fuzzy_caps \<Rightarrow> intel_row list \<Rightarrow> string \<Rightarrow> string \<Rightarrow> threat_match option" where
  "check_tlsh caps intel h name =
    (case fc_tlsh caps of
       Some diff \<Rightarrow>
         (if h \<in> {[], ''TNULL''} then None
          else map_option (\<lambda>e. mk_match Tlsh (diff h (or_empty (ti_tlsh e))) e)
            (find (tlsh_hit diff h name) intel))
     | None \<Rightarrow> None)"

definition check_file :: "fuzzy_caps \<Rightarrow> intel_row list \<Rightarrow> string \<Rightarrow> string \<Rightarrow> string \<Rightarrow> string \<Rightarrow> threat_match option" where
  "check_file caps intel sha ssdeep tlsh filename =
    (let name = basename filename in
     case find (\<lambda>e. ti_sha256 e = sha) intel of
       Some e \<Rightarrow> Some (mk_match Sha256 100 e)
     | None \<Rightarrow>
         (case check_ssdeep caps intel ssdeep name of
            Some m \<Rightarrow> Some m
          | None \<Rightarrow> check_tlsh caps intel tlsh name))"

fun tier_name :: "match_tier \<Rightarrow> string" where
  "tier_name Sha256 = ''sha256''"
| "tier_name Ssdeep = ''ssdeep''"
| "tier_name Tlsh = ''tlsh''"

definition intel_evidence :: "threat_match \<Rightarrow> string" where
  "intel_evidence m = ''Known malicious file ('' @ tier_name (tm_tier m) @ '' match, score='' @ int_str (tm_score m) @
     ''.0, campaign='' @ tm_campaign m @ ''): '' @ tm_description m"

definition intel_finding :: "string \<Rightarrow> threat_match \<Rightarrow> finding" where
  "intel_finding path m = \<lparr>f_rule_id = ''intel.'' @ tm_campaign m, f_category = ''threat_intel'',
     f_severity = label_severity (lower (if tm_label m = [] then ''malicious'' else tm_label m)),
     f_confidence = ''high'', f_file = Some path, f_line = None, f_evidence = intel_evidence m\<rparr>"

definition check_files_batch :: "fuzzy_caps \<Rightarrow> intel_row list \<Rightarrow> (string \<times> file_info) list \<Rightarrow> finding list" where
  "check_files_batch caps intel files =
    List.map_filter (\<lambda>(path, fi). map_option (intel_finding path)
      (check_file caps intel (fi_sha256 fi) (fi_ssdeep fi) (fi_tlsh fi) path)) files"

section \<open>Seeding\<close>

definition skip_basenames :: "string set" where
  "skip_basenames = {''package.json'', ''package-lock.json'', ''readme'', ''readme.md'', ''license'', ''licence'',
     ''license.md'', ''notice'', ''changelog.md'', ''tsconfig.json'', ''.npmignore'', ''.gitignore'', ''yarn.lock'',
     ''pnpm-lock.yaml''}"

definition binary_exts :: "string set" where
  "binary_exts = {''so'', ''dll'', ''exe'', ''dylib'', ''bin'', ''o'', ''a'', ''node'', ''wasm'', ''pyc'', ''pyd'',
     ''class'', ''jar'', ''zip'', ''gz'', ''tgz'', ''whl'', ''png'', ''jpg'', ''jpeg'', ''gif'', ''ico'', ''woff'', ''woff2'',
     ''ttf'', ''pdf'', ''mp4'', ''mp3''}"

definition binary_entropy :: rat where
  "binary_entropy = 72 / 10"

definition ti_is_enabled :: bool where
  "ti_is_enabled = False"

definition bad_basenames :: "nat \<Rightarrow> finding_row list \<Rightarrow> string set" where
  "bad_basenames scan_id findings =
    (\<lambda>r. basename (or_empty (f_file (fr_finding r)))) `
      set (filter (\<lambda>r. fr_scan_id r = scan_id \<and> f_severity (fr_finding r) \<in> {''high'', ''critical''} \<and>
        truthy (f_file (fr_finding r))) findings) - skip_basenames"

definition file_ext :: "string \<Rightarrow> string" where
  "file_ext base = (if CHR ''.'' \<in> set base then lower (rsplit1_last (CHR ''.'') base) else [])"

definition seedable :: "string set \<Rightarrow> file_hash \<Rightarrow> bool" where
  "seedable bad fh \<longleftrightarrow>
    (let base = basename (fh_path fh); ext = file_ext base in
     lower base \<notin> skip_basenames \<and> base \<in> bad \<and> fh_sha256 fh \<noteq> [] \<and> ext \<noteq> [] \<and> ext \<notin> binary_exts \<and>
     (case fh_entropy fh of None \<Rightarrow> True | Some h \<Rightarrow> h < binary_entropy))"

definition seed_row :: "ecosystem \<Rightarrow> string \<Rightarrow> file_hash \<Rightarrow> intel_row" where
  "seed_row eco name fh =
    (let base = basename (fh_path fh) in
     \<lparr>ti_sha256 = fh_sha256 fh, ti_ssdeep = (if truthy (fh_ssdeep fh) then fh_ssdeep fh else None),
      ti_tlsh = (if truthy (fh_tlsh fh) then fh_tlsh fh else None),
      ti_campaign = take 128 (''auto:'' @ eco @ '':'' @ name), ti_label = ''malicious'',
      ti_file_pattern = Some (''*.'' @ file_ext base),
      ti_description = Some (take 500 (''auto-seeded from confirmed-malicious '' @ eco @ '' '' @ name @ '' ('' @ base @ '')'')),
      ti_source = Some ''auto''\<rparr>)"

fun seed_loop_files :: "ecosystem \<Rightarrow> string \<Rightarrow> nat \<Rightarrow> string set \<Rightarrow> nat \<Rightarrow> file_hash list \<Rightarrow> intel_row list \<Rightarrow> intel_row list \<times> nat" where
  "seed_loop_files eco name cap bad n [] table = (table, n)"
| "seed_loop_files eco name cap bad n (fh # fhs) table =
    (if cap \<le> n then (table, n)
     else if \<not> seedable bad fh \<or> fh_sha256 fh \<in> ti_sha256 ` set table then seed_loop_files eco name cap bad n fhs table
     else seed_loop_files eco name cap bad (Suc n) fhs (table @ [seed_row eco name fh]))"

text \<open>What \<^verbatim>\<open>seed_from_scan\<close> does past its first test, and the function itself.\<close>

definition seed_files :: "wla_cfg \<Rightarrow> nat \<Rightarrow> nat \<Rightarrow> ecosystem \<Rightarrow> string \<Rightarrow> finding_row list \<Rightarrow> file_hash list \<Rightarrow>
    intel_row list \<Rightarrow> intel_row list \<times> nat" where
  "seed_files cfg cap scan_id eco name findings hashes table =
    (if (eco, lower name) \<in> set (blocklist cfg) then (table, 0)
     else if bad_basenames scan_id findings = {} then (table, 0)
     else seed_loop_files eco name cap (bad_basenames scan_id findings) 0
       (filter (\<lambda>h. fh_scan_id h = scan_id) hashes) table)"

definition seed_from_scan :: "wla_cfg \<Rightarrow> nat \<Rightarrow> nat \<Rightarrow> ecosystem \<Rightarrow> string \<Rightarrow> finding_row list \<Rightarrow> file_hash list \<Rightarrow>
    intel_row list \<Rightarrow> intel_row list \<times> nat" where
  "seed_from_scan cfg cap scan_id eco name findings hashes table =
    (if \<not> ti_is_enabled then (table, 0) else seed_files cfg cap scan_id eco name findings hashes table)"

fun backfill_loop :: "wla_cfg \<Rightarrow> nat \<Rightarrow> finding_row list \<Rightarrow> file_hash list \<Rightarrow> (nat \<times> ecosystem \<times> string) list \<Rightarrow>
    intel_row list \<Rightarrow> intel_row list \<times> nat \<times> nat" where
  "backfill_loop cfg cap findings hashes [] table = (table, 0, 0)"
| "backfill_loop cfg cap findings hashes ((i, eco, name) # rs) table =
    (case seed_from_scan cfg cap i eco name findings hashes table of
       (t1, n) \<Rightarrow> (case backfill_loop cfg cap findings hashes rs t1 of (t2, scans, k) \<Rightarrow> (t2, Suc scans, n + k)))"

text \<open>\<open>rows\<close> are the confirmed scans, newest first.\<close>

definition backfill :: "wla_cfg \<Rightarrow> nat \<Rightarrow> nat option \<Rightarrow> finding_row list \<Rightarrow> file_hash list \<Rightarrow> (nat \<times> ecosystem \<times> string) list \<Rightarrow>
    intel_row list \<Rightarrow> intel_row list \<times> nat \<times> nat" where
  "backfill cfg cap limit findings hashes rows table =
    backfill_loop cfg cap findings hashes
      (case limit of None \<Rightarrow> rows | Some n \<Rightarrow> (if n = 0 then rows else take n rows)) table"

section \<open>Promotion and removal\<close>

text \<open>SQL \<^verbatim>\<open>LIKE\<close>: \<^verbatim>\<open>%\<close> any text, \<^verbatim>\<open>_\<close> any character, a backslash escapes.\<close>

function sql_like :: "string \<Rightarrow> string \<Rightarrow> bool" where
  "sql_like [] t = (t = [])"
| "sql_like (c # p) t =
    (if c = CHR ''%'' then sql_like p t \<or> (case t of [] \<Rightarrow> False | _ # t' \<Rightarrow> sql_like (c # p) t')
     else (case t of
         [] \<Rightarrow> False
       | x # t' \<Rightarrow>
           (if c = CHR ''_'' then sql_like p t'
            else if c = CHR 0x5C then (case p of [] \<Rightarrow> False | e # p' \<Rightarrow> x = e \<and> sql_like p' t')
            else x = c \<and> sql_like p t')))"
  by pat_completeness auto
termination
  by (relation "measure (\<lambda>(p, t). length p + length t)") auto

definition campaign_selected :: "string \<Rightarrow> string \<Rightarrow> bool" where
  "campaign_selected arg campaign =
    (if prefix ''auto:'' arg then campaign = arg else sql_like (''auto:%:'' @ arg) campaign)"

definition promote :: "string \<Rightarrow> intel_row list \<Rightarrow> intel_row list \<times> nat" where
  "promote arg table =
    (let sel = (\<lambda>e. ti_source e = Some ''auto'' \<and> campaign_selected arg (ti_campaign e))
     in (update_where sel (\<lambda>e. e\<lparr>ti_source := Some ''promoted''\<rparr>) table, count_where sel table))"

definition remove_campaign :: "string \<Rightarrow> intel_row list \<Rightarrow> intel_row list \<times> nat" where
  "remove_campaign arg table =
    (let sel = (\<lambda>e. ti_source e \<in> {Some ''auto'', Some ''promoted''} \<and> campaign_selected arg (ti_campaign e))
     in (delete_where sel table, count_where sel table))"

definition candidates :: "intel_row list \<Rightarrow> (string \<times> nat) list" where
  "candidates table =
    (let auto = filter (\<lambda>e. ti_source e = Some ''auto'') table
     in sort_desc snd (map (\<lambda>c. (c, count_where (\<lambda>e. ti_campaign e = c) auto)) (nub (map ti_campaign auto))))"

definition ti_stats :: "intel_row list \<Rightarrow> nat \<times> nat \<times> nat" where
  "ti_stats table = (count_where (\<lambda>e. ti_source e = Some ''auto'') table,
     count_where (\<lambda>e. ti_source e = Some ''promoted'') table, length table)"

section \<open>Lemmas\<close>

lemma find_auto_append:
  "(\<And>e. e \<in> set new \<Longrightarrow> \<not> p e) \<Longrightarrow> find p (old @ new) = find p old"
  by (induction old) (auto simp: find_None_iff)

lemma auto_rows_no_fuzzy:
  assumes "\<And>e. e \<in> set new \<Longrightarrow> is_auto_seed e"
  shows "check_ssdeep caps (table @ new) h name = check_ssdeep caps table h name"
    and "check_tlsh caps (table @ new) h name = check_tlsh caps table h name"
  using assms
  by (auto simp: check_ssdeep_def check_tlsh_def ssdeep_hit_def tlsh_hit_def find_auto_append split: option.splits)

lemma check_file_auto_append:
  assumes "\<And>e. e \<in> set new \<Longrightarrow> is_auto_seed e" and "sha \<notin> ti_sha256 ` set new"
  shows "check_file caps (table @ new) sha ss ts fn = check_file caps table sha ss ts fn"
proof -
  have "find (\<lambda>e. ti_sha256 e = sha) (table @ new) = find (\<lambda>e. ti_sha256 e = sha) table"
    using assms(2) by (intro find_auto_append) auto
  moreover have "check_ssdeep caps (table @ new) ss n = check_ssdeep caps table ss n"
      "check_tlsh caps (table @ new) ts n = check_tlsh caps table ts n" for n
    using assms(1) by (simp_all add: auto_rows_no_fuzzy)
  ultimately show ?thesis by (simp add: check_file_def cong: option.case_cong)
qed

lemma seed_loop_files_spec:
  "seed_loop_files eco name cap bad n fhs table = (t', n') \<Longrightarrow> n \<le> cap \<Longrightarrow>
     \<exists>new. t' = table @ new \<and> n' = n + length new \<and> n' \<le> cap \<and> (\<forall>e\<in>set new. ti_source e = Some ''auto'') \<and>
       distinct (map ti_sha256 new) \<and> (\<forall>e\<in>set new. ti_sha256 e \<notin> ti_sha256 ` set table \<and> ti_sha256 e \<in> fh_sha256 ` set fhs)"
proof (induction fhs arbitrary: n table)
  case Nil
  then show ?case by simp
next
  case (Cons fh fhs)
  consider (full) "cap \<le> n" | (skip) "\<not> cap \<le> n" "\<not> seedable bad fh \<or> fh_sha256 fh \<in> ti_sha256 ` set table"
    | (add) "\<not> cap \<le> n" "\<not> (\<not> seedable bad fh \<or> fh_sha256 fh \<in> ti_sha256 ` set table)"
    by blast
  then show ?case
  proof cases
    case full
    then show ?thesis using Cons.prems by simp
  next
    case skip
    then have "seed_loop_files eco name cap bad n fhs table = (t', n')" using Cons.prems by simp
    from Cons.IH [OF this] Cons.prems(2) show ?thesis by fastforce
  next
    case add
    then have "seed_loop_files eco name cap bad (Suc n) fhs (table @ [seed_row eco name fh]) = (t', n')"
      using Cons.prems by simp
    from Cons.IH [OF this] add obtain new where new: "t' = (table @ [seed_row eco name fh]) @ new" "n' = Suc n + length new"
      "n' \<le> cap" "\<forall>e\<in>set new. ti_source e = Some ''auto''" "distinct (map ti_sha256 new)"
      "\<forall>e\<in>set new. ti_sha256 e \<notin> ti_sha256 ` set (table @ [seed_row eco name fh]) \<and> ti_sha256 e \<in> fh_sha256 ` set fhs"
      by auto
    have s: "ti_sha256 (seed_row eco name fh) = fh_sha256 fh" "ti_source (seed_row eco name fh) = Some ''auto''"
      by (simp_all add: seed_row_def Let_def)
    from new s add(2) show ?thesis by (intro exI [of _ "seed_row eco name fh # new"]) force
  qed
qed

lemma check_file_exact:
  "(\<exists>m. check_file caps table sha ss ts fn = Some m \<and> tm_tier m = Sha256) \<longleftrightarrow> sha \<in> ti_sha256 ` set table"
proof (cases "find (\<lambda>e. ti_sha256 e = sha) table")
  case None
  then have "sha \<notin> ti_sha256 ` set table" by (auto simp: find_None_iff)
  moreover have "tm_tier m \<noteq> Sha256" if "check_file caps table sha ss ts fn = Some m" for m
    using that None
    by (auto simp: check_file_def check_ssdeep_def check_tlsh_def mk_match_def Let_def split: option.splits if_splits)
  ultimately show ?thesis by blast
next
  case (Some e)
  then have "sha \<in> ti_sha256 ` set table" by (auto dest: find_SomeD)
  with Some show ?thesis by (simp add: check_file_def mk_match_def)
qed

lemma check_ssdeep_hit: "check_ssdeep caps table h name = Some m \<Longrightarrow>
    \<exists>compare e. fc_ssdeep caps = Some compare \<and> h \<noteq> [] \<and> e \<in> set table \<and> ssdeep_hit compare h name e \<and>
      m = mk_match Ssdeep (compare h (or_empty (ti_ssdeep e))) e"
  by (auto simp: check_ssdeep_def dest!: find_SomeD split: option.splits if_splits)

lemma check_tlsh_hit: "check_tlsh caps table h name = Some m \<Longrightarrow>
    \<exists>diff e. fc_tlsh caps = Some diff \<and> h \<notin> {[], ''TNULL''} \<and> e \<in> set table \<and> tlsh_hit diff h name e \<and>
      m = mk_match Tlsh (diff h (or_empty (ti_tlsh e))) e"
  by (auto simp: check_tlsh_def dest!: find_SomeD split: option.splits if_splits)

lemma check_file_cases:
  assumes "check_file caps table sha ss ts fn = Some m"
  obtains e where "e \<in> set table" "ti_sha256 e = sha" "m = mk_match Sha256 100 e"
  | "sha \<notin> ti_sha256 ` set table" "check_ssdeep caps table ss (basename fn) = Some m"
  | "sha \<notin> ti_sha256 ` set table" "check_ssdeep caps table ss (basename fn) = None"
      "check_tlsh caps table ts (basename fn) = Some m"
proof (cases "find (\<lambda>e. ti_sha256 e = sha) table")
  case None
  then have "sha \<notin> ti_sha256 ` set table" by (auto simp: find_None_iff)
  then show ?thesis using None assms that(2,3)
    by (cases "check_ssdeep caps table ss (basename fn)") (simp_all add: check_file_def)
next
  case (Some e)
  then show ?thesis using assms that(1) [of e] by (auto simp: check_file_def dest: find_SomeD)
qed

section \<open>Properties\<close>

text \<open>C15. Which fingerprints match. A file matches in the exact tier exactly when its SHA-256 is in the
  table, whatever its name and its fuzzy hashes. A fuzzy match is only returned otherwise; it comes from
  an entry that is not an unreviewed automatic seed and whose file pattern allows the name, with a
  similarity of at least 70 (88 for promoted entries) or a distance within the entry's limit. Automatic
  seeds therefore act on their exact bytes only: adding any number of them changes the outcome for no
  other file.\<close>

theorem threat_match_decision:
  "((\<exists>m. check_file caps table sha ss ts fn = Some m \<and> tm_tier m = Sha256) \<longleftrightarrow> sha \<in> ti_sha256 ` set table) \<and>
   (\<forall>m. check_file caps table sha ss ts fn = Some m \<and> tm_tier m \<noteq> Sha256 \<longrightarrow>
      (\<exists>e\<in>set table. \<not> is_auto_seed e \<and> pattern_ok e (basename fn) \<and> tm_campaign m = ti_campaign e \<and>
        (tm_tier m = Ssdeep \<longrightarrow> ssdeep_threshold \<le> tm_score m \<and> (is_promoted e \<longrightarrow> promoted_ssdeep_threshold \<le> tm_score m)) \<and>
        (tm_tier m = Tlsh \<longrightarrow> tm_score m \<le> tlsh_limit e))) \<and>
   ((\<forall>e\<in>set new. is_auto_seed e) \<and> sha \<notin> ti_sha256 ` set new \<longrightarrow>
      check_file caps (table @ new) sha ss ts fn = check_file caps table sha ss ts fn)"
proof -
  have "\<exists>e\<in>set table. \<not> is_auto_seed e \<and> pattern_ok e (basename fn) \<and> tm_campaign m = ti_campaign e \<and>
        (tm_tier m = Ssdeep \<longrightarrow> ssdeep_threshold \<le> tm_score m \<and> (is_promoted e \<longrightarrow> promoted_ssdeep_threshold \<le> tm_score m)) \<and>
        (tm_tier m = Tlsh \<longrightarrow> tm_score m \<le> tlsh_limit e)"
    if m: "check_file caps table sha ss ts fn = Some m" and t: "tm_tier m \<noteq> Sha256" for m
    using m
  proof (cases rule: check_file_cases)
    case (1 e)
    with t show ?thesis by (simp add: mk_match_def)
  next
    case 2
    then obtain compare e where "e \<in> set table" "ssdeep_hit compare ss (basename fn) e"
      "m = mk_match Ssdeep (compare ss (or_empty (ti_ssdeep e))) e"
      using check_ssdeep_hit by blast
    then show ?thesis
      by (intro bexI [of _ e])
        (auto simp: ssdeep_hit_def mk_match_def ssdeep_threshold_def promoted_ssdeep_threshold_def split: if_splits)
  next
    case 3
    then obtain diff e where "e \<in> set table" "tlsh_hit diff ts (basename fn) e"
      "m = mk_match Tlsh (diff ts (or_empty (ti_tlsh e))) e"
      using check_tlsh_hit by blast
    then show ?thesis by (intro bexI [of _ e]) (auto simp: tlsh_hit_def mk_match_def)
  qed
  then show ?thesis using check_file_exact check_file_auto_append [of new sha caps table ss ts fn] by blast
qed

definition demo_intel :: "string option \<Rightarrow> intel_row" where
  "demo_intel src = \<lparr>ti_sha256 = ''aa'', ti_ssdeep = Some ''3:x'', ti_tlsh = None, ti_campaign = ''c'',
     ti_label = ''malicious'', ti_file_pattern = Some ''*.js'', ti_description = None, ti_source = src\<rparr>"

definition demo_caps :: fuzzy_caps where
  "demo_caps = \<lparr>fc_ssdeep = Some (\<lambda>a b. 90), fc_tlsh = None\<rparr>"

theorem threat_match_decision_witness:
  "check_file demo_caps ([demo_intel None] @ [demo_intel (Some ''auto'')\<lparr>ti_sha256 := ''cc''\<rparr>]) ''bb'' ''3:y'' [] ''package/a.js''
     = check_file demo_caps [demo_intel None] ''bb'' ''3:y'' [] ''package/a.js'' \<and>
   map_option tm_tier (check_file demo_caps [demo_intel None] ''bb'' ''3:y'' [] ''package/a.js'') = Some Ssdeep"
proof (intro conjI)
  show "check_file demo_caps ([demo_intel None] @ [demo_intel (Some ''auto'')\<lparr>ti_sha256 := ''cc''\<rparr>]) ''bb'' ''3:y'' [] ''package/a.js''
     = check_file demo_caps [demo_intel None] ''bb'' ''3:y'' [] ''package/a.js''"
    using threat_match_decision [of demo_caps "[demo_intel None]" "''bb''" "''3:y''" "[]" "''package/a.js''"
        "[demo_intel (Some ''auto'')\<lparr>ti_sha256 := ''cc''\<rparr>]"]
    by (simp add: demo_intel_def is_auto_seed_def)
  show "map_option tm_tier (check_file demo_caps [demo_intel None] ''bb'' ''3:y'' [] ''package/a.js'') = Some Ssdeep"
    by code_simp
qed

text \<open>Seeding stays within its cap and its own rows, and is switched off.\<close>

lemma seed_files_bounded:
  assumes "seed_files cfg cap scan_id eco name findings hashes table = (t', n)"
  shows "\<exists>new. t' = table @ new \<and> n = length new \<and> n \<le> cap \<and> (\<forall>e\<in>set new. is_auto_seed e) \<and>
    distinct (map ti_sha256 new) \<and> ti_sha256 ` set new \<inter> ti_sha256 ` set table = {} \<and>
    ((eco, lower name) \<in> set (blocklist cfg) \<longrightarrow> new = [])"
proof -
  have "seed_loop_files eco name cap (bad_basenames scan_id findings) 0 (filter (\<lambda>h. fh_scan_id h = scan_id) hashes) table
      = (t', n) \<or> (t' = table \<and> n = 0)"
    using assms by (auto simp: seed_files_def split: if_splits)
  then show ?thesis
  proof
    assume l: "seed_loop_files eco name cap (bad_basenames scan_id findings) 0
      (filter (\<lambda>h. fh_scan_id h = scan_id) hashes) table = (t', n)"
    from seed_loop_files_spec [OF l] obtain new where new: "t' = table @ new" "n = length new" "n \<le> cap"
      "\<forall>e\<in>set new. ti_source e = Some ''auto''" "distinct (map ti_sha256 new)"
      "\<forall>e\<in>set new. ti_sha256 e \<notin> ti_sha256 ` set table"
      by auto
    moreover have "new = []" if "(eco, lower name) \<in> set (blocklist cfg)"
      using assms that new by (simp add: seed_files_def)
    ultimately show ?thesis by (intro exI [of _ new]) (auto simp: is_auto_seed_def)
  qed simp
qed

lemma seeding_disabled: "seed_from_scan cfg cap i eco name findings hashes table = (table, 0)"
  by (simp add: seed_from_scan_def ti_is_enabled_def)

lemma backfill_loop_disabled: "backfill_loop cfg cap findings hashes rows table = (table, length rows, 0)"
  by (induction rows arbitrary: table) (auto simp: seeding_disabled)

text \<open>A bare name is a pattern: promoting \<^verbatim>\<open>a_b\<close> also promotes the campaign of \<^verbatim>\<open>a-b\<close>.\<close>

lemma promote_overmatches:
  "fst (promote ''a_b'' [demo_intel (Some ''auto'')\<lparr>ti_campaign := ''auto:pypi:a-b''\<rparr>])
     = [demo_intel (Some ''promoted'')\<lparr>ti_campaign := ''auto:pypi:a-b''\<rparr>]"
  by code_simp

end
