(* ===== verification/Adjudication.thy ===== *)
theory Adjudication
  imports Triage ThreatIntel
begin

text \<open>
  What becomes of the rule verdict and the triage: the decisions of \<^verbatim>\<open>_persist_and_finalize\<close> and
  \<^verbatim>\<open>_auto_watchlist_qualifies\<close> in \<^verbatim>\<open>pipeline.py\<close> as functions. The triage is \<^const>\<open>None\<close> when it is
  disabled or has raised; \<open>present\<close> is whether the scan's row is still there.
\<close>

section \<open>Promotion\<close>

definition non_primary_promote_categories :: "string set" where
  "non_primary_promote_categories = {''iocs'', ''dep_intel'', ''metadata'', ''version_diff''}"

datatype promote_reason = Llm_not_malicious | Thin_evidence | Llm_confidence_below_floor | Qualifies_ok | Weak_corroboration

definition strong_findings :: "finding list \<Rightarrow> finding list" where
  "strong_findings fs = filter (\<lambda>f. \<not> is_shadow_finding f \<and> f_severity f \<in> {''high'', ''critical''}) fs"

definition auto_watchlist_qualifies :: "verdict \<Rightarrow> triage_result option \<Rightarrow> finding list \<Rightarrow> bool \<times> promote_reason" where
  "auto_watchlist_qualifies rule_verdict tri findings =
    (case tri of
       None \<Rightarrow> (False, Llm_not_malicious)
     | Some t \<Rightarrow>
         (if tr_verdict t \<noteq> Malicious then (False, Llm_not_malicious)
          else (let cats = nub (map f_category (strong_findings findings));
                    has_primary = list_ex (\<lambda>c. c \<notin> non_primary_promote_categories) cats
            in if \<not> has_primary \<and> length cats < 2 then (False, Thin_evidence)
               else if tr_confidence t < malicious_conf_floor then (False, Llm_confidence_below_floor)
               else if rule_verdict = Malicious \<or> 8 / 10 \<le> tr_confidence t then (True, Qualifies_ok)
               else (False, Weak_corroboration))))"

section \<open>Verdict, tag, alert, vault\<close>

definition do_triage :: "verdict \<Rightarrow> bool" where
  "do_triage rule_verdict \<longleftrightarrow> rule_verdict \<in> {Malicious, Suspicious}"

definition adjudicate :: "verdict \<Rightarrow> triage_result option \<Rightarrow> bool \<Rightarrow> verdict" where
  "adjudicate rule_verdict tri present =
    (case tri of
       None \<Rightarrow> rule_verdict
     | Some t \<Rightarrow>
         (if \<not> present then rule_verdict
          else if tr_verdict t = Malicious \<and> tr_confidence t < malicious_conf_floor \<and> rule_verdict \<noteq> Malicious then rule_verdict
          else if tr_verdict t \<in> {Malicious, Suspicious, Benign} then tr_verdict t
          else if tr_verdict t = Inconclusive \<and> rule_verdict \<noteq> Malicious then Inconclusive
          else rule_verdict))"

definition llm_cleared :: "triage_result option \<Rightarrow> bool" where
  "llm_cleared tri = (case tri of None \<Rightarrow> False | Some t \<Rightarrow> tr_verdict t \<in> {Benign, Suspicious})"

definition llm_mal :: "triage_result option \<Rightarrow> bool" where
  "llm_mal tri = (case tri of None \<Rightarrow> False | Some t \<Rightarrow> tr_verdict t = Malicious)"

definition adjudication_tag :: "verdict \<Rightarrow> triage_result option \<Rightarrow> bool \<Rightarrow> string option \<Rightarrow> string option" where
  "adjudication_tag final tri present tag =
    (if \<not> present \<or> truthy tag then tag
     else if final = Inconclusive then Some ''needs_review''
     else if llm_cleared tri \<or> llm_mal tri then tag
     else Some ''llm_unverified'')"

definition vault_keep :: "verdict \<Rightarrow> triage_result option \<Rightarrow> bool \<Rightarrow> bool" where
  "vault_keep rule_verdict tri llm_enabled \<longleftrightarrow>
     llm_mal tri \<or> (rule_verdict = Malicious \<and> tri = None \<and> llm_enabled)"

definition llm_confident_mal :: "triage_result option \<Rightarrow> bool" where
  "llm_confident_mal tri = (case tri of None \<Rightarrow> False
     | Some t \<Rightarrow> tr_verdict t = Malicious \<and> malicious_conf_floor \<le> tr_confidence t)"

definition should_alert :: "verdict \<Rightarrow> triage_result option \<Rightarrow> bool" where
  "should_alert rule_verdict tri \<longleftrightarrow> (rule_verdict = Malicious \<and> \<not> llm_cleared tri) \<or> llm_confident_mal tri"

datatype notification = No_notification | Alert | Review_alert

definition notify_choice :: "bool \<Rightarrow> verdict \<Rightarrow> verdict \<Rightarrow> triage_result option \<Rightarrow> notification" where
  "notify_choice discord_enabled rule_verdict final tri =
    (if should_alert rule_verdict tri \<and> discord_enabled then Alert
     else if final = Inconclusive \<and> discord_enabled then Review_alert else No_notification)"

text \<open>The call of the triage with its handler: disabled, without a tree to show, or raising gives \<^const>\<open>None\<close>.\<close>

definition triage_or_none :: "bool \<Rightarrow> triage_error + triage_result \<Rightarrow> triage_result option" where
  "triage_or_none enabled outcome =
    (if enabled then (case outcome of Inl e \<Rightarrow> None | Inr r \<Rightarrow> Some r) else None)"

section \<open>Lemmas\<close>

lemma intel_evidence_exact: "tm_tier m = Sha256 \<Longrightarrow> contains (intel_evidence m) ''(sha256 match''"
  using contains_append [of "''Known malicious file ''" "''(sha256 match''"
      "'', score='' @ int_str (tm_score m) @ ''.0, campaign='' @ tm_campaign m @ ''): '' @ tm_description m"]
  by (simp add: intel_evidence_def)

lemma exact_intel_finding: "tm_tier m = Sha256 \<Longrightarrow> is_exact_intel_match (intel_finding path m)"
  by (simp add: is_exact_intel_match_def intel_evidence_exact) (simp add: intel_finding_def intel_evidence_exact)

lemma intel_finding_not_shadow: "\<not> is_shadow_finding (intel_finding path m)"
  by (simp add: is_shadow_finding_def intel_finding_def)

lemma check_file_exact_entry:
  assumes "sha \<in> ti_sha256 ` set table"
  obtains e where "e \<in> set table" "ti_sha256 e = sha" "check_file caps table sha ss ts fn = Some (mk_match Sha256 100 e)"
proof -
  obtain m where m: "check_file caps table sha ss ts fn = Some m" "tm_tier m = Sha256"
    using assms check_file_exact [of caps table sha ss ts fn] by auto
  from m(1) show thesis
  proof (cases rule: check_file_cases)
    case (1 e)
    then show ?thesis using that m by blast
  qed (use assms in simp_all)
qed

lemma batch_finding:
  assumes "(path, fi) \<in> set files"
    and "check_file caps table (fi_sha256 fi) (fi_ssdeep fi) (fi_tlsh fi) path = Some m"
  shows "intel_finding path m \<in> set (check_files_batch caps table files)"
  using assms by (force simp: check_files_batch_def in_map_filter)

lemma adjudicate_range:
  "adjudicate rv tri present = Malicious \<Longrightarrow> rv = Malicious \<or> llm_confident_mal tri"
  by (auto simp: adjudicate_def llm_confident_mal_def split: option.splits if_splits)

lemma alert_iff_triaged: "do_triage rv \<Longrightarrow> should_alert rv tri \<longleftrightarrow> adjudicate rv tri True = Malicious"
  by (cases tri) (auto simp: do_triage_def should_alert_def adjudicate_def llm_cleared_def llm_confident_mal_def)

lemma strong_findings_member:
  "c \<in> f_category ` set (strong_findings fs) \<longleftrightarrow>
     (\<exists>f\<in>set fs. \<not> is_shadow_finding f \<and> f_severity f \<in> {''high'', ''critical''} \<and> f_category f = c)"
  by (auto simp: strong_findings_def)

section \<open>Properties\<close>

text \<open>C3. A known malicious file always alarms. If a file's SHA-256 is in the fingerprint table and the entries
  of that hash are labelled malicious, then with the batch's findings among the scan's the rule verdict
  is malicious, and whatever the model replies, whatever other workers do, and whether or not the triage
  is enabled or raises, the final verdict is malicious and the alert is due.\<close>

theorem exact_match_always_alerts:
  assumes "(path, fi) \<in> set files" and "fi_sha256 fi \<in> ti_sha256 ` set table"
    and "\<forall>e\<in>set table. ti_sha256 e = fi_sha256 fi \<longrightarrow> ti_label e = ''malicious''"
    and "set (check_files_batch caps table files) \<subseteq> set findings"
    and "rv = sr_verdict (score_and_verdict p findings rank)"
    and "triage c float_of clock others call ch rv findings source now b = (outcome, st)"
  shows "rv = Malicious \<and> adjudicate rv (triage_or_none enabled outcome) True = Malicious \<and>
    should_alert rv (triage_or_none enabled outcome)"
proof -
  obtain e where e: "e \<in> set table" "ti_sha256 e = fi_sha256 fi"
    "check_file caps table (fi_sha256 fi) (fi_ssdeep fi) (fi_tlsh fi) path = Some (mk_match Sha256 100 e)"
    by (rule check_file_exact_entry [OF assms(2)])
  let ?f = "intel_finding path (mk_match Sha256 100 e)"
  have f: "?f \<in> set findings" using batch_finding [OF assms(1) e(3)] assms(4) by auto
  have "ti_label e = ''malicious''" using assms(3) e by auto
  moreover have "lower ''malicious'' = ''malicious''" by code_simp
  ultimately have "f_severity ?f = ''critical''"
    by (simp add: intel_finding_def mk_match_def label_severity_def)
  then have rv: "rv = Malicious"
    using f intel_finding_not_shadow [of path] assms(5)
    by (auto simp: score_and_verdict_malicious_iff has_any_iff Let_def)
  have x: "list_ex is_exact_intel_match findings"
    using f exact_intel_finding [of "mk_match Sha256 100 e" path] by (auto simp: list_ex_iff mk_match_def)
  have "tr_verdict r \<notin> {Benign, Suspicious}" if "outcome = Inr r" for r
    using triage_cleared_no_exact [of c float_of clock others call ch findings source now b r st] assms(6) that rv x by auto
  then show ?thesis using rv
    by (auto simp: triage_or_none_def adjudicate_def should_alert_def llm_cleared_def llm_confident_mal_def split: sum.splits)
qed

text \<open>C4. The alert is due exactly when the stored verdict is malicious. For a scan that is triaged and whose
  row is still there, an alert is due if and only if the final verdict is malicious: a triage that is
  disabled, raises, errs, is skipped or cannot decide leaves a malicious rule verdict standing and alarmed,
  a clearing one silences it, and a suspicious package alarms only on a confident conviction.\<close>

theorem alert_iff_final_malicious:
  assumes "do_triage rv"
  shows "(should_alert rv tri \<longleftrightarrow> adjudicate rv tri True = Malicious) \<and>
    (rv = Malicious \<and> \<not> llm_cleared tri \<longrightarrow> should_alert rv tri) \<and>
    (rv = Suspicious \<and> should_alert rv tri \<longrightarrow>
      (\<exists>t. tri = Some t \<and> tr_verdict t = Malicious \<and> malicious_conf_floor \<le> tr_confidence t))"
  using alert_iff_triaged [OF assms, of tri]
  by (cases tri) (auto simp: should_alert_def llm_confident_mal_def)


definition demo_result :: "verdict \<Rightarrow> rat \<Rightarrow> triage_result" where
  "demo_result v q = \<lparr>tr_verdict = v, tr_confidence = q, tr_iocs = [], tr_agrees = None, tr_prompt_tokens = 0,
     tr_completion_tokens = 0, tr_cost = 0\<rparr>"

definition demo_info :: file_info where
  "demo_info = \<lparr>fi_sha256 = ''aa'', fi_entropy = 0, fi_ssdeep = [], fi_tlsh = []\<rparr>"

theorem exact_match_always_alerts_witness:
  "should_alert Malicious (triage_or_none True (fst (triage default_llm_cfg (\<lambda>_. None) (\<lambda>k. 0) (\<lambda>_ b. b) demo_call {}
      Malicious (check_files_batch demo_caps [demo_intel None] [(''a.js'', demo_info)]) [] 0 \<lparr>lb_spent = 0, lb_calls = []\<rparr>)))"
proof -
  let ?fs = "check_files_batch demo_caps [demo_intel None] [(''a.js'', demo_info)]"
  let ?rv = "sr_verdict (score_and_verdict scoring_baseline ?fs None)"
  have 1: "(''a.js'', demo_info) \<in> set [(''a.js'', demo_info)]" "fi_sha256 demo_info \<in> ti_sha256 ` set [demo_intel None]"
    "\<forall>e\<in>set [demo_intel None]. ti_sha256 e = fi_sha256 demo_info \<longrightarrow> ti_label e = ''malicious''"
    by (simp_all add: demo_info_def demo_intel_def)
  note main = exact_match_always_alerts [OF 1 subset_refl refl surjective_pairing]
  have rv: "?rv = Malicious" by (rule main [THEN conjunct1])
  show ?thesis using main [THEN conjunct2, THEN conjunct2] rv by metis
qed

theorem alert_iff_final_malicious_witness:
  "should_alert Suspicious (Some (demo_result Malicious (6 / 10))) = (adjudicate Suspicious (Some (demo_result Malicious (6 / 10))) True = Malicious)"
  by (rule alert_iff_final_malicious [THEN conjunct1]) (simp add: do_triage_def)


text \<open>Two gaps. A triage that ends in an error or is skipped alarms but is not vaulted, unlike one that raises;
  and a package counts as confirmed by the model although the model called it benign, when the
  no-downgrade rule overrode that answer: the confidence tested is the confidence in the overridden one.\<close>

lemma errored_triage_not_vaulted:
  "tr_verdict t \<in> {Errored, Skipped} \<Longrightarrow> should_alert Malicious (Some t) \<and> \<not> vault_keep Malicious (Some t) True"
  by (auto simp: should_alert_def vault_keep_def llm_mal_def llm_cleared_def)

lemma overridden_clear_is_promoted:
  assumes "list_ex is_exact_intel_match fs" and "list_ex (\<lambda>f. f_category f \<notin> non_primary_promote_categories) (strong_findings fs)"
  shows "enforce_no_downgrade ch Benign Malicious fs (95 / 100) = Malicious \<and>
    fst (auto_watchlist_qualifies Malicious
      (Some (demo_result (enforce_no_downgrade ch Benign Malicious fs (95 / 100)) (95 / 100))) fs)"
  using assms
  by (auto simp: no_downgrade_exact auto_watchlist_qualifies_def demo_result_def malicious_conf_floor_def list_ex_iff)

end
