(* ===== verification/JobQueue.thy ===== *)
theory JobQueue
  imports Prelude
begin

text \<open>
  What the scan queue (\<^verbatim>\<open>queue.py\<close>) and the detonation queue (\<^verbatim>\<open>detonation_queue.py\<close>)
  share: priorities, job states, the interference of other transactions with a claim, and the
  locale \<open>claim_table\<close>, the contract of a table whose rows are claimed by compare-and-swap and
  finished with the claim's token. Both queues interpret it.
\<close>

datatype priority = High | Normal | Low

datatype job_status = Pending | Claimed | Done | Failed | Expired

text \<open>\<^verbatim>\<open>_PRIORITY_ORDER\<close>.\<close>

fun prio_order :: "priority \<Rightarrow> nat" where
  "prio_order High = 0"
| "prio_order Normal = 1"
| "prio_order Low = 2"

text \<open>Other transactions. Before the \<open>k\<close>-th statement of an operation they turn the committed
  table into \<open>itf_env k rows\<close>; a \<^verbatim>\<open>SELECT\<close> reads \<open>itf_view k rows\<close>, which is the table itself
  under READ COMMITTED and may be an older one under snapshot isolation. An \<^verbatim>\<open>UPDATE\<close> works on
  the committed table.\<close>

record 'r interference =
  itf_env :: "nat \<Rightarrow> 'r list \<Rightarrow> 'r list"
  itf_view :: "nat \<Rightarrow> 'r list \<Rightarrow> 'r list"

definition quiet :: "'r interference" where
  "quiet = \<lparr>itf_env = (\<lambda>_ rs. rs), itf_view = (\<lambda>_ rs. rs)\<rparr>"

lemma quiet_simps [simp]: "itf_env quiet k rs = rs" "itf_view quiet k rs = rs"
  by (simp_all add: quiet_def)

text \<open>The tables the commits of others can make of a table.\<close>

inductive env_reach :: "'r interference \<Rightarrow> 'r list \<Rightarrow> 'r list \<Rightarrow> bool" for itf where
  env_refl: "env_reach itf rs rs"
| env_more: "env_reach itf rs rs' \<Longrightarrow> env_reach itf rs (itf_env itf k rs')"

definition keeps_ids :: "('r \<Rightarrow> nat) \<Rightarrow> 'r interference \<Rightarrow> bool" where
  "keeps_ids ident itf \<longleftrightarrow> (\<forall>k rs. distinct (map ident rs) \<longrightarrow> distinct (map ident (itf_env itf k rs)))"

text \<open>What a claim attempt may have done to the table: nothing but let others commit, or turn a row
  into \<open>row\<close> by one compare-and-swap that updated exactly one row.\<close>

definition claim_outcome :: "('r \<Rightarrow> nat) \<Rightarrow> (string \<Rightarrow> timestamp \<Rightarrow> nat \<Rightarrow> 'r list \<Rightarrow> 'r list \<times> nat) \<Rightarrow>
    'r interference \<Rightarrow> string \<Rightarrow> timestamp \<Rightarrow> 'r list \<Rightarrow> 'r list \<Rightarrow> 'r option \<Rightarrow> bool" where
  "claim_outcome ident cas itf t now rs rs' res \<longleftrightarrow>
    (case res of
       None \<Rightarrow> env_reach itf rs rs'
     | Some row \<Rightarrow> (\<exists>rs0 i. env_reach itf rs rs0 \<and> snd (cas t now i rs0) = 1 \<and> rs' = fst (cas t now i rs0) \<and>
         find (\<lambda>x. ident x = i) rs' = Some row))"

lemma env_reach_trans: "env_reach itf a b \<Longrightarrow> env_reach itf b c \<Longrightarrow> env_reach itf a c"
  by (rotate_tac, induction rule: env_reach.induct) (auto intro: env_reach.intros)

lemma env_reach_one: "env_reach itf rs (itf_env itf k rs)"
  by (intro env_reach.intros)

lemma env_reach_distinct:
  "env_reach itf rs rs' \<Longrightarrow> keeps_ids ident itf \<Longrightarrow> distinct (map ident rs) \<Longrightarrow> distinct (map ident rs')"
  by (induction rule: env_reach.induct) (auto simp: keeps_ids_def)

lemma quiet_env_reach: "env_reach quiet rs rs' \<Longrightarrow> rs' = rs"
  by (induction rule: env_reach.induct) simp_all

lemma claim_outcome_trans:
  "env_reach itf rs rs1 \<Longrightarrow> claim_outcome ident cas itf t now rs1 rs' res \<Longrightarrow> claim_outcome ident cas itf t now rs rs' res"
  by (cases res) (auto simp: claim_outcome_def intro: env_reach_trans)

lemma claim_outcome_NoneI: "env_reach itf rs rs' \<Longrightarrow> claim_outcome ident cas itf t now rs rs' None"
  by (simp add: claim_outcome_def)

section \<open>The contract of a claim table\<close>

locale claim_table =
  fixes ident :: "'r \<Rightarrow> nat"
    and stat :: "'r \<Rightarrow> job_status"
    and tok :: "'r \<Rightarrow> string option"
    and cas :: "string \<Rightarrow> timestamp \<Rightarrow> nat \<Rightarrow> 'r list \<Rightarrow> 'r list \<times> nat"
    and mark :: "timestamp \<Rightarrow> nat \<Rightarrow> string option \<Rightarrow> 'r list \<Rightarrow> 'r list \<times> bool"
    and sweep :: "timestamp \<Rightarrow> 'r list \<Rightarrow> 'r list"
  assumes cas_ids: "map ident (fst (cas t now i rs)) = map ident rs"
    and cas_count: "snd (cas t now i rs) = count_where (\<lambda>r. ident r = i \<and> stat r = Pending) rs"
    and cas_rows: "r \<in> set (fst (cas t now i rs)) \<Longrightarrow>
        r \<in> set rs \<and> \<not> (ident r = i \<and> stat r = Pending) \<or>
        ident r = i \<and> stat r = Claimed \<and> tok r = Some t"
    and mark_not_owner: "(\<And>r. r \<in> set rs \<Longrightarrow> ident r = i \<Longrightarrow> tok r \<noteq> Some t) \<Longrightarrow>
        mark now i (Some t) rs = (rs, False)"
    and sweep_ids: "map ident (sweep now rs) = map ident rs"
    and sweep_rows: "r \<in> set (sweep now rs) \<Longrightarrow>
        r \<in> set rs \<or> stat r = Pending \<and> tok r = None \<or> stat r = Failed"
begin

lemma set_ids_cas: "ident ` set (fst (cas t now i rs)) = ident ` set rs"
  by (metis cas_ids set_map)

lemma same_row:
  "distinct (map ident rs) \<Longrightarrow> r \<in> set rs \<Longrightarrow> s \<in> set rs \<Longrightarrow> ident r = ident s \<Longrightarrow> r = s"
  by (meson distinct_map inj_onD)

text \<open>A successful claim leaves exactly one row with the identifier, and it is the claimer's.\<close>

lemma cas_row:
  assumes "distinct (map ident rs)" and "0 < snd (cas t now i rs)"
    and "r \<in> set (fst (cas t now i rs))" and "ident r = i"
  shows "stat r = Claimed \<and> tok r = Some t"
proof (rule ccontr)
  assume n: "\<not> (stat r = Claimed \<and> tok r = Some t)"
  with cas_rows [OF assms(3)] assms(4) have r: "r \<in> set rs" "stat r \<noteq> Pending" by auto
  from assms(2) cas_count [of t now i rs] obtain s where s: "s \<in> set rs" "ident s = i" "stat s = Pending"
    using count_where_0 [of "\<lambda>r. ident r = i \<and> stat r = Pending" rs] by auto
  with same_row [OF assms(1) r(1) s(1)] assms(4) r(2) show False by simp
qed

lemma cas_at_most_one: "distinct (map ident rs) \<Longrightarrow> snd (cas t now i rs) \<le> 1"
  unfolding cas_count by (rule count_where_key_le_1)

text \<open>The step every claim loop makes: one compare-and-swap after some commits of others. Either it
  updated one row, or the table is what the others left.\<close>

lemma claim_outcome_cas:
  assumes "env_reach itf rs rs0" and "distinct (map ident rs0)" and "snd (cas t now i rs0) = 1"
  shows "claim_outcome ident cas itf t now rs (fst (cas t now i rs0)) (find (\<lambda>x. ident x = i) (fst (cas t now i rs0)))"
proof -
  obtain s where "s \<in> set rs0" "ident s = i"
    using assms(3) cas_count [of t now i rs0] count_where_0 [of "\<lambda>r. ident r = i \<and> stat r = Pending" rs0] by auto
  then have "i \<in> ident ` set (fst (cas t now i rs0))" by (auto simp: set_ids_cas)
  then obtain row where "find (\<lambda>x. ident x = i) (fst (cas t now i rs0)) = Some row"
    by (metis find_None_key not_Some_eq)
  with assms(1,3) show ?thesis by (auto simp: claim_outcome_def)
qed

lemma cas_rowcount: "distinct (map ident rs) \<Longrightarrow> snd (cas t now i rs) \<noteq> 1 \<Longrightarrow> snd (cas t now i rs) = 0"
  using cas_at_most_one [of rs t now i] by linarith

lemma claimed_row:
  assumes "keeps_ids ident itf" and "distinct (map ident rs)"
    and "claim_outcome ident cas itf t now rs rs' (Some row)"
  shows "\<exists>rs0 r0. env_reach itf rs rs0 \<and> r0 \<in> set rs0 \<and> stat r0 = Pending \<and> ident r0 = ident row \<and>
     rs' = fst (cas t now (ident row) rs0) \<and> row \<in> set rs' \<and> stat row = Claimed \<and> tok row = Some t \<and>
     distinct (map ident rs0) \<and> 0 < snd (cas t now (ident row) rs0)"
proof -
  from assms(3) obtain rs0 i where c: "env_reach itf rs rs0" "snd (cas t now i rs0) = 1"
      "rs' = fst (cas t now i rs0)" "find (\<lambda>x. ident x = i) rs' = Some row"
    by (auto simp: claim_outcome_def)
  have d: "distinct (map ident rs0)" by (rule env_reach_distinct [OF c(1) assms(1,2)])
  have row: "row \<in> set rs'" "ident row = i" using find_SomeD [OF c(4)] by auto
  have st: "stat row = Claimed \<and> tok row = Some t"
    using cas_row [OF d, of t now i row] c(2,3) row by simp
  obtain r0 where "r0 \<in> set rs0" "ident r0 = i" "stat r0 = Pending"
    using c(2) cas_count [of t now i rs0] count_where_0 [of "\<lambda>r. ident r = i \<and> stat r = Pending" rs0] by auto
  with c row st d show ?thesis by (intro exI [of _ rs0] exI [of _ r0]) auto
qed

text \<open>Two claims of one row: the second finds nothing to update.\<close>

lemma cas_exclusive:
  assumes "distinct (map ident rs)" and "0 < snd (cas t now i rs)"
  shows "snd (cas t' now' i (fst (cas t now i rs))) = 0"
  unfolding cas_count count_where_0 using cas_row [OF assms] by auto

lemma cas_then_foreign_mark:
  assumes "distinct (map ident rs)" and "0 < snd (cas t now i rs)" and "t' \<noteq> t"
  shows "mark now' i (Some t') (fst (cas t now i rs)) = (fst (cas t now i rs), False)"
  by (rule mark_not_owner) (use cas_row [OF assms(1,2)] assms(3) in auto)

text \<open>Once a sweep has returned a row to pending, its former owner can no longer finish it, also
  after another worker has claimed it.\<close>

lemma stale_mark:
  assumes "\<And>r. r \<in> set rs \<Longrightarrow> ident r = i \<Longrightarrow> tok r = None"
  shows "mark now i (Some t) rs = (rs, False)"
  by (rule mark_not_owner) (use assms in force)

lemma stale_mark_reclaimed:
  assumes "\<And>r. r \<in> set rs \<Longrightarrow> ident r = i \<Longrightarrow> tok r = None" and "t' \<noteq> t"
  shows "mark now' i (Some t) (fst (cas t' now i rs)) = (fst (cas t' now i rs), False)"
  by (rule mark_not_owner) (use cas_rows assms in force)

end

end
