(* ===== verification/ScanQueue.thy ===== *)
theory ScanQueue
  imports JobQueue
begin

text \<open>
  The scan queue: \<^verbatim>\<open>store/models.py\<close> (class \<^verbatim>\<open>ScanQueue\<close>), \<^verbatim>\<open>queue.py\<close> and the
  claiming and failing of \<^verbatim>\<open>workers.py\<close>. The table is a list of rows in primary-key order. The
  statements of \<open>claim_next\<close> and the insert of \<open>enqueue\<close> run among the commits of other
  transactions (an \<open>interference\<close>). The random draws of \<^verbatim>\<open>random.choices\<close> are an argument;
  weights are exact rationals where Python has doubles.
\<close>

record scan_row =
  sq_id :: nat
  sq_ecosystem :: ecosystem
  sq_name :: string
  sq_version :: string
  sq_priority :: priority
  sq_status :: job_status
  sq_attempts :: nat
  sq_claim_token :: "string option"
  sq_last_error :: "string option"
  sq_enqueued_at :: timestamp
  sq_claimed_at :: "timestamp option"
  sq_finished_at :: "timestamp option"

type_synonym scan_rows = "scan_row list"

text \<open>Module constants, and the settings read from the environment.\<close>

definition max_auto_attempts :: nat where
  "max_auto_attempts = 3"

definition claim_cas_retries :: nat where
  "claim_cas_retries = 5"

definition stale_claim_timeout_seconds :: int where
  "stale_claim_timeout_seconds = 1800"

record queue_cfg =
  qc_retention_days :: int
  qc_deadlock_retries :: nat
  qc_reserved_fraction :: rat
  qc_max_eco_share :: rat

definition default_queue_cfg :: queue_cfg where
  "default_queue_cfg = \<lparr>qc_retention_days = 14, qc_deadlock_retries = 3,
     qc_reserved_fraction = 4/10, qc_max_eco_share = 7/10\<rparr>"

text \<open>Classification of an \<^verbatim>\<open>OperationalError\<close> by its message.\<close>

definition is_deadlock :: "string \<Rightarrow> bool" where
  "is_deadlock msg = contains (lower msg) ''deadlock detected''"

definition is_lock_timeout :: "string \<Rightarrow> bool" where
  "is_lock_timeout msg = (let s = lower msg in
     contains s ''canceling statement due to'' \<or> contains s ''lock timeout'' \<or>
     contains s ''could not obtain lock'')"

section \<open>Enqueue\<close>

definition sq_key :: "scan_row \<Rightarrow> string \<times> string \<times> string" where
  "sq_key r = (sq_ecosystem r, sq_name r, sq_version r)"

definition next_id :: "scan_rows \<Rightarrow> nat" where
  "next_id rs = Suc (foldr max (map sq_id rs) 0)"

definition new_row :: "nat \<Rightarrow> timestamp \<Rightarrow> string \<times> string \<times> string \<Rightarrow> priority \<Rightarrow> scan_row" where
  "new_row i now k prio = \<lparr>sq_id = i, sq_ecosystem = fst k, sq_name = fst (snd k), sq_version = snd (snd k),
     sq_priority = prio, sq_status = Pending, sq_attempts = 0, sq_claim_token = None, sq_last_error = None,
     sq_enqueued_at = now, sq_claimed_at = None, sq_finished_at = None\<rparr>"

definition upd_row :: "nat \<Rightarrow> (scan_row \<Rightarrow> scan_row) \<Rightarrow> scan_rows \<Rightarrow> scan_rows" where
  "upd_row i f rs = update_where (\<lambda>r. sq_id r = i) f rs"

definition bump_priority :: "priority \<Rightarrow> scan_row \<Rightarrow> scan_row" where
  "bump_priority prio r = (if prio_order prio < prio_order (sq_priority r) then r\<lparr>sq_priority := prio\<rparr> else r)"

definition reset_row :: "scan_row \<Rightarrow> scan_row" where
  "reset_row r = r\<lparr>sq_status := Pending, sq_last_error := None, sq_claim_token := None,
     sq_claimed_at := None, sq_finished_at := None\<rparr>"

text \<open>What \<open>enqueue\<close> makes of the existing row: the branches for \<^verbatim>\<open>allow_rescan\<close> and for automated
  ingest.\<close>

definition requeue_row :: "bool \<Rightarrow> priority \<Rightarrow> scan_row \<Rightarrow> scan_row" where
  "requeue_row allow_rescan prio r =
    (if allow_rescan then
       (if sq_status r \<in> {Pending, Claimed} then bump_priority prio r
        else (reset_row r)\<lparr>sq_priority := prio\<rparr>)
     else if sq_status r \<in> {Pending, Claimed, Done} then
       (if sq_status r \<noteq> Done then bump_priority prio r else r)
     else if sq_status r = Failed then
       (if max_auto_attempts \<le> sq_attempts r then r
        else bump_priority prio (reset_row r))
     else r)"

text \<open>The insert with its retries. \<open>env k\<close> are the commits of others before attempt \<open>k\<close>, \<open>fault k\<close>
  the message of an \<^verbatim>\<open>OperationalError\<close> the database raises at that attempt, if any. \<^const>\<open>Inl\<close> is a
  re-raised error; \<open>Inr None\<close> is \<^verbatim>\<open>return None\<close>.\<close>

function enqueue_insert :: "nat \<Rightarrow> (nat \<Rightarrow> scan_rows \<Rightarrow> scan_rows) \<Rightarrow> (nat \<Rightarrow> string option) \<Rightarrow>
    timestamp \<Rightarrow> string \<times> string \<times> string \<Rightarrow> priority \<Rightarrow> nat \<Rightarrow> scan_rows \<Rightarrow>
    scan_rows \<times> (string + scan_row option)" where
  "enqueue_insert retries env fault now k prio attempt rs =
    (if retries < attempt then (rs, Inr None)
     else (let rs1 = env attempt rs in
       case fault attempt of
         None \<Rightarrow> (if k \<in> sq_key ` set rs1 then (rs1, Inr None)
                 else (let row = new_row (next_id rs1) now k prio in (rs1 @ [row], Inr (Some row))))
       | Some msg \<Rightarrow>
           (if is_deadlock msg \<and> attempt < retries
            then enqueue_insert retries env fault now k prio (Suc attempt) rs1
            else if is_deadlock msg \<or> is_lock_timeout msg then (rs1, Inr None)
            else (rs1, Inl msg))))"
  by pat_completeness auto
termination by (relation "measure (\<lambda>(retries, env, fault, now, k, prio, attempt, rs). Suc retries - attempt)") auto

declare enqueue_insert.simps [simp del]

definition enqueue :: "queue_cfg \<Rightarrow> (nat \<Rightarrow> scan_rows \<Rightarrow> scan_rows) \<Rightarrow> (nat \<Rightarrow> string option) \<Rightarrow>
    timestamp \<Rightarrow> ecosystem \<Rightarrow> string \<Rightarrow> string \<Rightarrow> priority \<Rightarrow> bool \<Rightarrow> scan_rows \<Rightarrow>
    scan_rows \<times> (string + scan_row option)" where
  "enqueue cfg env fault now eco name ver prio allow_rescan rs =
    (case find (\<lambda>r. sq_key r = (eco, name, ver)) rs of
       Some existing \<Rightarrow>
         (if \<not> allow_rescan \<and> sq_status existing \<notin> {Pending, Claimed, Done, Failed}
          then enqueue_insert (qc_deadlock_retries cfg) env fault now (eco, name, ver) prio 0 rs
          else (upd_row (sq_id existing) (requeue_row allow_rescan prio) rs,
                Inr (Some (requeue_row allow_rescan prio existing))))
     | None \<Rightarrow> enqueue_insert (qc_deadlock_retries cfg) env fault now (eco, name, ver) prio 0 rs)"

section \<open>Fair claiming\<close>

definition eco_weights :: "queue_cfg \<Rightarrow> ecosystem list \<Rightarrow> (ecosystem \<Rightarrow> nat) \<Rightarrow> rat list" where
  "eco_weights cfg ecosystems counts =
    (let n = length ecosystems in
     if n \<le> 1 then replicate n 1
     else (let reserved = max 0 (min (qc_reserved_fraction cfg) 1);
               max_share = max (reserved / of_nat n) (min (qc_max_eco_share cfg) 1);
               total0 = sum_list (map counts ecosystems);
               total = (if total0 = 0 then 1 else total0);
               base = reserved / of_nat n
           in map (\<lambda>e. min (base + (1 - reserved) * of_nat (counts e) / of_nat total) max_share) ecosystems))"

text \<open>\<^verbatim>\<open>random.choices(population, weights, k=1)\<close>: the cumulative weights, then
  \<^verbatim>\<open>bisect(cum_weights, random() * total, 0, n - 1)\<close>; without weights \<^verbatim>\<open>floor(random() * n)\<close>.
  \<open>u\<close> is the value of \<^verbatim>\<open>random()\<close>. A total that is not positive raises \<^verbatim>\<open>ValueError\<close>: \<^const>\<open>None\<close>.\<close>

fun cum_weights :: "rat \<Rightarrow> rat list \<Rightarrow> rat list" where
  "cum_weights acc [] = []"
| "cum_weights acc (w # ws) = (acc + w) # cum_weights (acc + w) ws"

fun bisect_right :: "rat list \<Rightarrow> rat \<Rightarrow> nat \<Rightarrow> nat" where
  "bisect_right [] x hi = 0"
| "bisect_right (c # cs) x hi = (if hi = 0 \<or> x < c then 0 else Suc (bisect_right cs x (hi - 1)))"

definition choice_index :: "rat \<Rightarrow> rat list option \<Rightarrow> nat \<Rightarrow> nat option" where
  "choice_index u weights n =
    (case weights of
       None \<Rightarrow> Some (nat \<lfloor>u * of_nat n\<rfloor>)
     | Some ws \<Rightarrow> (if sum_list ws \<le> 0 then None
                  else Some (bisect_right (cum_weights 0 ws) (u * sum_list ws) (n - 1))))"

text \<open>The sampling loop; \<open>draw k\<close> is the \<open>k\<close>-th value of \<^verbatim>\<open>random()\<close>. The guard \<open>i < length remaining\<close>
  holds for every draw in the unit interval (\<open>choice_index_less\<close> below).\<close>

function weighted_order_loop :: "(nat \<Rightarrow> rat) \<Rightarrow> nat \<Rightarrow> (ecosystem \<times> rat) list \<Rightarrow> ecosystem list option" where
  "weighted_order_loop draw k remaining =
    (if remaining = [] then Some []
     else (let ws = map snd remaining in
       case choice_index (draw k) (if list_ex (\<lambda>w. w \<noteq> 0) ws then Some ws else None) (length remaining) of
         None \<Rightarrow> None
       | Some i \<Rightarrow>
           (if i < length remaining then
              (let pick = fst (remaining ! i) in
               map_option (Cons pick)
                 (weighted_order_loop draw (Suc k) (filter (\<lambda>p. fst p \<noteq> pick) remaining)))
            else None)))"
  by pat_completeness auto
termination
proof (relation "measure (\<lambda>(draw, k, remaining). length remaining)", goal_cases)
  case 1
  then show ?case by simp
next
  case (2 draw k remaining ws i pick)
  then have "remaining ! i \<in> set remaining" "\<not> fst (remaining ! i) \<noteq> pick" by simp_all
  then have "length (filter (\<lambda>p. fst p \<noteq> pick) remaining) < length remaining"
    by (rule length_filter_less)
  then show ?case by simp
qed

declare weighted_order_loop.simps [simp del]

definition weighted_order :: "(nat \<Rightarrow> rat) \<Rightarrow> ecosystem list \<Rightarrow> rat list \<Rightarrow> ecosystem list option" where
  "weighted_order draw ecosystems weights = weighted_order_loop draw 0 (zip ecosystems weights)"

definition claimable :: "priority \<Rightarrow> scan_row \<Rightarrow> bool" where
  "claimable prio r \<longleftrightarrow> sq_status r = Pending \<and> sq_priority r = prio"

text \<open>The compare-and-swap \<^verbatim>\<open>UPDATE\<close> of a claim and its row count.\<close>

definition claim_row :: "string \<Rightarrow> timestamp \<Rightarrow> scan_row \<Rightarrow> scan_row" where
  "claim_row token now r = r\<lparr>sq_status := Claimed, sq_claim_token := Some token,
     sq_claimed_at := Some now, sq_attempts := sq_attempts r + 1\<rparr>"

definition claim_cas :: "string \<Rightarrow> timestamp \<Rightarrow> nat \<Rightarrow> scan_rows \<Rightarrow> scan_rows \<times> nat" where
  "claim_cas token now i rs =
    (update_where (\<lambda>r. sq_id r = i \<and> sq_status r = Pending) (claim_row token now) rs,
     count_where (\<lambda>r. sq_id r = i \<and> sq_status r = Pending) rs)"

text \<open>The inner loop over the tries in one ecosystem; \<open>k\<close> counts the statements executed.\<close>

fun claim_tries :: "scan_row interference \<Rightarrow> string \<Rightarrow> timestamp \<Rightarrow> priority \<Rightarrow> ecosystem \<Rightarrow> nat set \<Rightarrow> nat \<Rightarrow>
    nat \<Rightarrow> scan_rows \<Rightarrow> nat \<times> scan_rows \<times> scan_row option" where
  "claim_tries itf token now prio eco lost 0 k rs = (k, rs, None)"
| "claim_tries itf token now prio eco lost (Suc n) k rs =
    (let rs1 = itf_env itf k rs in
     case min_by sq_enqueued_at
            (filter (\<lambda>r. claimable prio r \<and> sq_ecosystem r = eco \<and> sq_id r \<notin> lost) (itf_view itf k rs1)) of
       None \<Rightarrow> (Suc k, rs1, None)
     | Some row \<Rightarrow>
         (let rs2 = itf_env itf (Suc k) rs1;
              (rs3, rowcount) = claim_cas token now (sq_id row) rs2
          in if rowcount = 1
             then (Suc (Suc k), rs3, find (\<lambda>r. sq_id r = sq_id row) rs3)
             else claim_tries itf token now prio eco (insert (sq_id row) lost) n (Suc (Suc k)) rs3))"

fun claim_ecos :: "scan_row interference \<Rightarrow> string \<Rightarrow> timestamp \<Rightarrow> priority \<Rightarrow> ecosystem list \<Rightarrow>
    nat \<Rightarrow> scan_rows \<Rightarrow> nat \<times> scan_rows \<times> scan_row option" where
  "claim_ecos itf token now prio [] k rs = (k, rs, None)"
| "claim_ecos itf token now prio (eco # ecos) k rs =
    (case claim_tries itf token now prio eco {} claim_cas_retries k rs of
       (k1, rs1, Some row) \<Rightarrow> (k1, rs1, Some row)
     | (k1, rs1, None) \<Rightarrow> claim_ecos itf token now prio ecos k1 rs1)"

text \<open>The loop over the priorities. The token is the fresh \<^verbatim>\<open>uuid4\<close>, \<open>draw prio\<close> the random draws of
  that tier; the outer \<^const>\<open>None\<close> of the result is a \<^verbatim>\<open>ValueError\<close> out of \<^verbatim>\<open>random.choices\<close>.\<close>

fun claim_prios :: "queue_cfg \<Rightarrow> scan_row interference \<Rightarrow> (priority \<Rightarrow> nat \<Rightarrow> rat) \<Rightarrow> string \<Rightarrow> timestamp \<Rightarrow>
    priority list \<Rightarrow> nat \<Rightarrow> scan_rows \<Rightarrow> scan_rows \<times> scan_row option option" where
  "claim_prios cfg itf draw token now [] k rs = (rs, Some None)"
| "claim_prios cfg itf draw token now (prio # prios) k rs =
    (let rs1 = itf_env itf k rs;
         pend = filter (claimable prio) (itf_view itf k rs1);
         ecosystems = nub (map sq_ecosystem pend);
         counts = (\<lambda>e. count_where (\<lambda>r. sq_ecosystem r = e) pend)
     in if ecosystems = [] then claim_prios cfg itf draw token now prios (Suc k) rs1
        else (case weighted_order (draw prio) ecosystems (eco_weights cfg ecosystems counts) of
            None \<Rightarrow> (rs1, None)
          | Some order \<Rightarrow>
              (case claim_ecos itf token now prio order (Suc k) rs1 of
                 (k2, rs2, Some row) \<Rightarrow> (rs2, Some (Some row))
               | (k2, rs2, None) \<Rightarrow> claim_prios cfg itf draw token now prios k2 rs2)))"

definition claim_next :: "queue_cfg \<Rightarrow> scan_row interference \<Rightarrow> (priority \<Rightarrow> nat \<Rightarrow> rat) \<Rightarrow> string \<Rightarrow> timestamp \<Rightarrow>
    scan_rows \<Rightarrow> scan_rows \<times> (scan_row \<times> string) option option" where
  "claim_next cfg itf draw token now rs =
    (case claim_prios cfg itf draw token now [High, Normal, Low] 0 rs of
       (rs', res) \<Rightarrow> (rs', map_option (map_option (\<lambda>row. (row, token))) res))"

section \<open>Finishing, pruning, sweeping\<close>

definition done_row :: "timestamp \<Rightarrow> scan_row \<Rightarrow> scan_row" where
  "done_row now r = r\<lparr>sq_status := Done, sq_finished_at := Some now\<rparr>"

definition failed_row :: "timestamp \<Rightarrow> string \<Rightarrow> scan_row \<Rightarrow> scan_row" where
  "failed_row now err r = r\<lparr>sq_status := Failed, sq_last_error := Some (strip_nul err), sq_finished_at := Some now\<rparr>"

text \<open>\<^verbatim>\<open>mark_done\<close> and \<^verbatim>\<open>mark_failed\<close> of the row with identifier \<open>i\<close>; a row that is gone is not marked.\<close>

definition owns :: "string option \<Rightarrow> scan_row \<Rightarrow> bool" where
  "owns token r \<longleftrightarrow> token = None \<or> sq_claim_token r = token"

definition mark_row :: "(scan_row \<Rightarrow> scan_row) \<Rightarrow> nat \<Rightarrow> string option \<Rightarrow> scan_rows \<Rightarrow> scan_rows \<times> bool" where
  "mark_row f i token rs =
    (case find (\<lambda>r. sq_id r = i) rs of
       None \<Rightarrow> (rs, False)
     | Some row \<Rightarrow> (if owns token row then (upd_row i f rs, True) else (rs, False)))"

definition mark_done :: "timestamp \<Rightarrow> nat \<Rightarrow> string option \<Rightarrow> scan_rows \<Rightarrow> scan_rows \<times> bool" where
  "mark_done now i token rs = mark_row (done_row now) i token rs"

definition mark_failed :: "timestamp \<Rightarrow> string \<Rightarrow> nat \<Rightarrow> string option \<Rightarrow> scan_rows \<Rightarrow> scan_rows \<times> bool" where
  "mark_failed now err i token rs = mark_row (failed_row now err) i token rs"

definition prunable :: "timestamp \<Rightarrow> scan_row \<Rightarrow> bool" where
  "prunable cutoff r \<longleftrightarrow> sq_status r \<in> {Done, Failed} \<and>
     (case sq_finished_at r of None \<Rightarrow> False | Some t \<Rightarrow> t < cutoff)"

definition prune_terminal :: "queue_cfg \<Rightarrow> int option \<Rightarrow> timestamp \<Rightarrow> scan_rows \<Rightarrow> scan_rows \<times> nat" where
  "prune_terminal cfg older_than_days now rs =
    (let cutoff = now - days (get_or (qc_retention_days cfg) older_than_days)
     in (delete_where (prunable cutoff) rs, count_where (prunable cutoff) rs))"

definition stale :: "timestamp \<Rightarrow> scan_row \<Rightarrow> bool" where
  "stale now r \<longleftrightarrow> sq_status r = Claimed \<and>
     (case sq_claimed_at r of None \<Rightarrow> False | Some t \<Rightarrow> t < now - seconds stale_claim_timeout_seconds)"

definition sweep_row :: "timestamp \<Rightarrow> scan_row \<Rightarrow> scan_row" where
  "sweep_row now r =
    (if max_auto_attempts \<le> sq_attempts r
     then r\<lparr>sq_status := Failed, sq_last_error := Some ''claim_timeout'', sq_finished_at := Some now\<rparr>
     else r\<lparr>sq_status := Pending, sq_claimed_at := None, sq_claim_token := None\<rparr>)"

definition sweep_stale_claims :: "timestamp \<Rightarrow> scan_rows \<Rightarrow> scan_rows \<times> nat" where
  "sweep_stale_claims now rs = (update_where (stale now) (sweep_row now) rs, count_where (stale now) rs)"

section \<open>workers.py\<close>

definition process_timeout_seconds :: int where
  "process_timeout_seconds = 900"

definition fail_row :: "timestamp \<Rightarrow> nat \<Rightarrow> string \<Rightarrow> string option \<Rightarrow> scan_rows \<Rightarrow> scan_rows" where
  "fail_row now i err token rs =
    (case find (\<lambda>r. sq_id r = i) rs of
       None \<Rightarrow> rs
     | Some row \<Rightarrow> (if sq_status row \<notin> {Done, Failed} then fst (mark_failed now err i token rs) else rs))"

text \<open>How \<^verbatim>\<open>process_one\<close> ends within the worker: it returns, times out, or raises.\<close>

datatype proc_outcome = Returned | TimedOut | RaisedExc string

definition after_process :: "timestamp \<Rightarrow> nat \<Rightarrow> string \<Rightarrow> proc_outcome \<Rightarrow> scan_rows \<Rightarrow> scan_rows" where
  "after_process now i token out rs =
    (case out of
       Returned \<Rightarrow> rs
     | TimedOut \<Rightarrow> fail_row now i (''timeout_after_'' @ int_str process_timeout_seconds @ ''s'') (Some token) rs
     | RaisedExc msg \<Rightarrow> fail_row now i (take 4000 msg) (Some token) rs)"

text \<open>One iteration of \<^verbatim>\<open>_worker_loop\<close>: an error while claiming counts as an empty poll; \<open>work\<close> is
  \<^verbatim>\<open>process_one\<close>, which gets the claimed identifier and token and returns the table, the time and how
  it ended.\<close>

definition worker_iteration :: "queue_cfg \<Rightarrow> scan_row interference \<Rightarrow> (priority \<Rightarrow> nat \<Rightarrow> rat) \<Rightarrow> string \<Rightarrow> timestamp \<Rightarrow>
    (nat \<Rightarrow> string \<Rightarrow> scan_rows \<Rightarrow> scan_rows \<times> timestamp \<times> proc_outcome) \<Rightarrow> scan_rows \<Rightarrow> scan_rows" where
  "worker_iteration cfg itf draw token now work rs =
    (case claim_next cfg itf draw token now rs of
       (rs1, Some (Some (row, t))) \<Rightarrow>
         (case work (sq_id row) t rs1 of (rs2, now2, out) \<Rightarrow> after_process now2 (sq_id row) t out rs2)
     | (rs1, _) \<Rightarrow> rs1)"

section \<open>Fairness of the ecosystem choice\<close>

definition reserved_share :: "queue_cfg \<Rightarrow> rat" where
  "reserved_share cfg = max 0 (min (qc_reserved_fraction cfg) 1)"

lemma length_eco_weights [simp]: "length (eco_weights cfg ecos counts) = length ecos"
  by (simp add: eco_weights_def Let_def)

lemma reserved_share_range: "0 \<le> reserved_share cfg \<and> reserved_share cfg \<le> 1"
  by (simp add: reserved_share_def)

lemma eco_weights_nth:
  assumes "2 \<le> length ecos" and "i < length ecos"
  shows "eco_weights cfg ecos counts ! i =
    min (reserved_share cfg / of_nat (length ecos) +
         (1 - reserved_share cfg) * of_nat (counts (ecos ! i)) /
           of_nat (if sum_list (map counts ecos) = 0 then 1 else sum_list (map counts ecos)))
        (max (reserved_share cfg / of_nat (length ecos)) (min (qc_max_eco_share cfg) 1))"
  using assms by (simp add: eco_weights_def Let_def reserved_share_def)

lemma eco_weight_floor:
  assumes "2 \<le> length ecos" and "i < length ecos"
  shows "reserved_share cfg / of_nat (length ecos) \<le> eco_weights cfg ecos counts ! i"
  using reserved_share_range [of cfg] unfolding eco_weights_nth [OF assms] by simp

lemma eco_weights_nonneg: "w \<in> set (eco_weights cfg ecos counts) \<Longrightarrow> 0 \<le> w"
proof -
  assume "w \<in> set (eco_weights cfg ecos counts)"
  then obtain i where i: "i < length ecos" "w = eco_weights cfg ecos counts ! i"
    by (auto simp: in_set_conv_nth)
  show "0 \<le> w"
  proof (cases "2 \<le> length ecos")
    case True
    have "0 \<le> reserved_share cfg / of_nat (length ecos)" using reserved_share_range by simp
    also have "\<dots> \<le> w" using eco_weight_floor [OF True i(1)] i(2) by simp
    finally show ?thesis .
  next
    case False
    with i show ?thesis by (simp add: eco_weights_def Let_def)
  qed
qed

lemma sum_shares:
  "sum_list (map (\<lambda>e. b + c * of_nat (counts e) / (d :: rat)) ecos) =
    of_nat (length ecos) * b + c * of_nat (sum_list (map counts ecos)) / d"
  by (induction ecos) (simp_all add: algebra_simps add_divide_distrib)

lemma eco_weights_sum_le_1:
  assumes "2 \<le> length ecos"
  shows "sum_list (eco_weights cfg ecos counts) \<le> 1"
proof -
  let ?r = "reserved_share cfg" and ?n = "of_nat (length ecos) :: rat"
  let ?cnt = "sum_list (map counts ecos)"
  let ?t = "(if ?cnt = 0 then 1 else ?cnt)"
  have "sum_list (eco_weights cfg ecos counts) \<le>
      sum_list (map (\<lambda>e. ?r / ?n + (1 - ?r) * of_nat (counts e) / of_nat ?t) ecos)"
    using assms unfolding eco_weights_def Let_def reserved_share_def [symmetric]
    by (simp add: sum_list_mono del: sum_list_eq_0_iff)
  also have "\<dots> = ?n * (?r / ?n) + (1 - ?r) * of_nat ?cnt / of_nat ?t"
    by (rule sum_shares)
  also have "?n * (?r / ?n) = ?r" using assms by (cases ecos) simp_all
  also have "?r + (1 - ?r) * of_nat ?cnt / of_nat ?t \<le> 1"
    using reserved_share_range [of cfg] by (cases "?cnt = 0") (simp_all del: sum_list_eq_0_iff)
  finally show ?thesis .
qed

lemma cum_weights_nth: "i < length ws \<Longrightarrow> cum_weights a ws ! i = a + sum_list (take (Suc i) ws)"
proof (induction ws arbitrary: a i)
  case Nil
  then show ?case by simp
next
  case (Cons w ws)
  then show ?case by (cases i) (simp_all add: add.assoc)
qed

lemma bisect_right_le: "bisect_right cs x hi \<le> hi"
  by (induction cs x hi rule: bisect_right.induct) auto

lemma sum_take_mono:
  "(\<And>w. w \<in> set ws \<Longrightarrow> 0 \<le> (w::rat)) \<Longrightarrow> i \<le> j \<Longrightarrow> sum_list (take i ws) \<le> sum_list (take j ws)"
proof -
  assume nn: "\<And>w. w \<in> set ws \<Longrightarrow> 0 \<le> w" and ij: "i \<le> j"
  have "take j ws = take i ws @ take (j - i) (drop i ws)"
    using ij by (metis le_add_diff_inverse take_add)
  moreover have "0 \<le> sum_list (take (j - i) (drop i ws))"
    by (rule sum_list_nonneg) (meson nn in_set_dropD in_set_takeD)
  ultimately show ?thesis by simp
qed

text \<open>Which index the bisection returns: the one whose cumulative interval holds the drawn value.\<close>

lemma bisect_right_iff:
  assumes "\<And>w. w \<in> set ws \<Longrightarrow> 0 \<le> (w::rat)" and "i < length ws" and "a \<le> x" and "x < a + sum_list ws"
  shows "bisect_right (cum_weights a ws) x (length ws - 1) = i \<longleftrightarrow>
     a + sum_list (take i ws) \<le> x \<and> x < a + sum_list (take (Suc i) ws)"
  using assms
proof (induction ws arbitrary: a i)
  case Nil
  then show ?case by simp
next
  case (Cons w ws)
  show ?case
  proof (cases "x < a + w")
    case True
    have "a + w \<le> a + sum_list (take i (w # ws))" if "0 < i"
      using that Cons.prems(1) sum_take_mono [of "w # ws" 1 i] by simp
    with True Cons.prems(1,3) show ?thesis by (cases i) auto
  next
    case False
    have ne: "ws \<noteq> []" using False Cons.prems(4) by auto
    show ?thesis
    proof (cases i)
      case 0
      with False ne show ?thesis by simp
    next
      case (Suc j)
      have "bisect_right (cum_weights (a + w) ws) x (length ws - 1) = j \<longleftrightarrow>
          a + w + sum_list (take j ws) \<le> x \<and> x < a + w + sum_list (take (Suc j) ws)"
        using Cons.prems False Suc by (intro Cons.IH) (auto simp: add.assoc)
      with Suc False ne show ?thesis by (simp add: add.assoc)
    qed
  qed
qed

lemma choice_index_less:
  assumes "0 < n" and "0 \<le> u" and "u < 1" and "weights = None \<or> weights = Some ws"
    and "choice_index u weights n = Some i"
  shows "i < n"
  using assms(4)
proof
  assume w: "weights = None"
  have "u * of_nat n < of_nat n" using assms by simp
  then have "\<lfloor>u * of_nat n\<rfloor> < int n" by (simp add: floor_less_iff)
  moreover have "0 \<le> \<lfloor>u * of_nat n\<rfloor>" using assms by simp
  ultimately show ?thesis using assms w by (simp add: choice_index_def nat_less_iff)
next
  assume "weights = Some ws"
  then show ?thesis
    using assms bisect_right_le [of "cum_weights 0 ws" "u * sum_list ws" "n - 1"]
    by (auto simp: choice_index_def split: if_splits)
qed

lemma sum_list_pos:
  assumes "\<And>w. w \<in> set ws \<Longrightarrow> 0 \<le> (w::rat)" and "list_ex (\<lambda>w. w \<noteq> 0) ws"
  shows "0 < sum_list ws"
proof -
  have "sum_list ws \<noteq> 0"
    using assms by (auto simp: list_ex_iff sum_list_nonneg_eq_0_iff)
  moreover have "0 \<le> sum_list ws" using assms(1) by (rule sum_list_nonneg)
  ultimately show ?thesis by simp
qed

lemma weighted_order_loop_perm:
  assumes "\<And>j. 0 \<le> draw j \<and> draw j < 1" and "distinct (map fst rem)" and "\<And>w. w \<in> snd ` set rem \<Longrightarrow> 0 \<le> w"
  shows "\<exists>out. weighted_order_loop draw k rem = Some out \<and> mset out = mset (map fst rem)"
  using assms(2,3)
proof (induction rem arbitrary: k rule: length_induct)
  case (1 rem)
  show ?case
  proof (cases "rem = []")
    case True
    then show ?thesis by (simp add: weighted_order_loop.simps)
  next
    case False
    let ?ws = "map snd rem"
    let ?c = "choice_index (draw k) (if list_ex (\<lambda>w. w \<noteq> 0) ?ws then Some ?ws else None) (length rem)"
    have "0 < sum_list ?ws" if "list_ex (\<lambda>w. w \<noteq> 0) ?ws"
      using that "1.prems"(2) by (rule sum_list_pos [rotated]) auto
    then obtain i where i: "?c = Some i"
      by (cases "list_ex (\<lambda>w. w \<noteq> 0) ?ws") (auto simp: choice_index_def)
    have il: "i < length rem"
      using False assms(1) [of k] by (intro choice_index_less [OF _ _ _ _ i]) auto
    let ?pick = "fst (rem ! i)" and ?rest = "filter (\<lambda>p. fst p \<noteq> fst (rem ! i)) rem"
    have "length ?rest < length rem"
      using il by (intro length_filter_less [where x = "rem ! i"]) auto
    moreover have "distinct (map fst ?rest)" using "1.prems"(1) by (rule distinct_map_filterI)
    moreover have "\<And>w. w \<in> snd ` set ?rest \<Longrightarrow> 0 \<le> w" using "1.prems"(2) by auto
    ultimately obtain out where out: "weighted_order_loop draw (Suc k) ?rest = Some out"
        "mset out = mset (map fst ?rest)"
      using "1.IH" by blast
    have "weighted_order_loop draw k rem = Some (?pick # out)"
      using False i il out(1) by (subst weighted_order_loop.simps) (simp add: Let_def)
    moreover have "mset (?pick # out) = mset (map fst rem)"
      using mset_remove_key [OF "1.prems"(1), of "rem ! i"] il out(2) by simp
    ultimately show ?thesis by blast
  qed
qed

lemma weighted_order_perm:
  assumes "\<And>j. 0 \<le> draw j \<and> draw j < 1" and "distinct ecos"
  shows "\<exists>out. weighted_order draw ecos (eco_weights cfg ecos counts) = Some out \<and> mset out = mset ecos"
  unfolding weighted_order_def
  using weighted_order_loop_perm [OF assms(1), where rem = "zip ecos (eco_weights cfg ecos counts)" and k = 0] assms(2)
  by (fastforce simp: dest: set_zip_rightD intro: eco_weights_nonneg)

section \<open>The claim contract\<close>

lemma sq_id_updates [simp]:
  "sq_id (claim_row t now r) = sq_id r" "sq_id (done_row now r) = sq_id r" "sq_id (failed_row now e r) = sq_id r"
  "sq_id (sweep_row now r) = sq_id r" "sq_id (bump_priority p r) = sq_id r" "sq_id (reset_row r) = sq_id r"
  "sq_id (requeue_row b p r) = sq_id r"
  by (simp_all add: claim_row_def done_row_def failed_row_def sweep_row_def bump_priority_def reset_row_def
      requeue_row_def)

lemma claim_row_simps [simp]:
  "sq_status (claim_row t now r) = Claimed" "sq_claim_token (claim_row t now r) = Some t"
  "sq_claimed_at (claim_row t now r) = Some now" "sq_attempts (claim_row t now r) = Suc (sq_attempts r)"
  "sq_priority (claim_row t now r) = sq_priority r" "sq_finished_at (claim_row t now r) = sq_finished_at r"
  "sq_key (claim_row t now r) = sq_key r" "sq_enqueued_at (claim_row t now r) = sq_enqueued_at r"
  by (simp_all add: claim_row_def sq_key_def)

lemma mark_row_ids: "(\<And>r. sq_id (f r) = sq_id r) \<Longrightarrow> map sq_id (fst (mark_row f i tk rs)) = map sq_id rs"
  by (auto simp: mark_row_def upd_row_def map_update_where split: option.splits)

lemma mark_row_foreign:
  assumes "\<And>r. r \<in> set rs \<Longrightarrow> sq_id r = i \<Longrightarrow> sq_claim_token r \<noteq> Some t"
  shows "mark_row f i (Some t) rs = (rs, False)"
  using assms by (auto simp: mark_row_def owns_def split: option.splits dest: find_SomeD)

interpretation scanq: claim_table sq_id sq_status sq_claim_token claim_cas mark_done
  "\<lambda>now rs. fst (sweep_stale_claims now rs)"
proof (unfold_locales, goal_cases)
  case (1 t now i rs)
  then show ?case by (simp add: claim_cas_def map_update_where)
next
  case (2 t now i rs)
  then show ?case by (simp add: claim_cas_def)
next
  case (3 r t now i rs)
  then obtain x where "x \<in> set rs"
      "r = (if sq_id x = i \<and> sq_status x = Pending then claim_row t now x else x)"
    by (auto simp: claim_cas_def in_update_where)
  then show ?case by (cases "sq_id x = i \<and> sq_status x = Pending") simp_all
next
  case (4 rs i t now)
  then show ?case by (simp add: mark_done_def mark_row_foreign)
next
  case (5 now rs)
  then show ?case by (simp add: sweep_stale_claims_def map_update_where)
next
  case (6 r now rs)
  then show ?case by (auto simp: sweep_stale_claims_def in_update_where sweep_row_def split: if_splits)
qed

lemma claim_cas_none: "snd (claim_cas t now i rs) = 0 \<Longrightarrow> fst (claim_cas t now i rs) = rs"
  by (auto simp: claim_cas_def count_where_0 intro: update_where_none)

lemma claim_cas_hit:
  assumes "distinct (map sq_id rs)" and "r \<in> set rs" and "sq_status r = Pending"
  shows "snd (claim_cas t now (sq_id r) rs) = 1"
    and "find (\<lambda>x. sq_id x = sq_id r) (fst (claim_cas t now (sq_id r) rs)) = Some (claim_row t now r)"
proof -
  have "snd (claim_cas t now (sq_id r) rs) \<noteq> 0"
    using assms(2,3) by (auto simp: claim_cas_def count_where_0)
  with scanq.cas_at_most_one [OF assms(1)] show "snd (claim_cas t now (sq_id r) rs) = 1"
    by (metis One_nat_def le_Suc_eq le_zero_eq)
  have "claim_row t now r \<in> set (fst (claim_cas t now (sq_id r) rs))"
    using assms(2,3) by (auto simp: claim_cas_def in_update_where)
  moreover have "distinct (map sq_id (fst (claim_cas t now (sq_id r) rs)))"
    by (simp add: scanq.cas_ids assms(1))
  ultimately show "find (\<lambda>x. sq_id x = sq_id r) (fst (claim_cas t now (sq_id r) rs)) = Some (claim_row t now r)"
    using find_distinct_key [of sq_id _ "claim_row t now r"] by simp
qed

section \<open>Claims among other transactions\<close>

lemma claim_tries_ok:
  assumes "keeps_ids sq_id itf"
  shows "distinct (map sq_id rs) \<Longrightarrow> claim_tries itf t now prio eco lost n k rs = (k', rs', res) \<Longrightarrow>
    claim_outcome sq_id claim_cas itf t now rs rs' res"
proof (induction n arbitrary: lost k rs)
  case 0
  then show ?case by (auto simp: claim_outcome_def intro: env_reach.intros)
next
  case (Suc n)
  let ?rs1 = "itf_env itf k rs" and ?rs2 = "itf_env itf (Suc k) (itf_env itf k rs)"
  have r1: "env_reach itf rs ?rs1" and r2: "env_reach itf rs ?rs2"
    by (intro env_reach.intros)+
  have d2: "distinct (map sq_id ?rs2)" using env_reach_distinct [OF r2 assms Suc.prems(1)] .
  let ?m = "min_by sq_enqueued_at (filter (\<lambda>r. claimable prio r \<and> sq_ecosystem r = eco \<and> sq_id r \<notin> lost)
              (itf_view itf k ?rs1))"
  show ?case
  proof (cases ?m)
    case None
    with Suc.prems(2) r1 show ?thesis by (simp add: claim_outcome_def Let_def)
  next
    case (Some row)
    show ?thesis
    proof (cases "snd (claim_cas t now (sq_id row) ?rs2) = 1")
      case True
      then have "res = find (\<lambda>x. sq_id x = sq_id row) (fst (claim_cas t now (sq_id row) ?rs2))"
          "rs' = fst (claim_cas t now (sq_id row) ?rs2)"
        using Suc.prems(2) Some by (auto simp: Let_def split: prod.splits)
      with scanq.claim_outcome_cas [OF r2 d2 True] show ?thesis by simp
    next
      case False
      then have "snd (claim_cas t now (sq_id row) ?rs2) = 0"
        using scanq.cas_rowcount [OF d2] by simp
      then have "fst (claim_cas t now (sq_id row) ?rs2) = ?rs2" by (rule claim_cas_none)
      then have "claim_tries itf t now prio eco (insert (sq_id row) lost) n (Suc (Suc k)) ?rs2 = (k', rs', res)"
        using Suc.prems(2) Some False by (auto simp: Let_def split: prod.splits)
      from claim_outcome_trans [OF r2 Suc.IH [OF d2 this]] show ?thesis .
    qed
  qed
qed

lemma claim_ecos_ok:
  assumes "keeps_ids sq_id itf"
  shows "distinct (map sq_id rs) \<Longrightarrow> claim_ecos itf t now prio ecos k rs = (k', rs', res) \<Longrightarrow>
    claim_outcome sq_id claim_cas itf t now rs rs' res"
proof (induction ecos arbitrary: k rs)
  case Nil
  then show ?case by (auto simp: claim_outcome_def intro: env_reach.intros)
next
  case (Cons eco ecos)
  obtain k1 rs1 res1 where c: "claim_tries itf t now prio eco {} claim_cas_retries k rs = (k1, rs1, res1)"
    by (metis prod_cases3)
  have ok: "claim_outcome sq_id claim_cas itf t now rs rs1 res1"
    by (rule claim_tries_ok [OF assms Cons.prems(1) c])
  show ?case
  proof (cases res1)
    case None
    with ok have r: "env_reach itf rs rs1" by (simp add: claim_outcome_def)
    from Cons.IH [OF env_reach_distinct [OF r assms Cons.prems(1)], of k1] Cons.prems(2) c None r
    show ?thesis by (auto intro: claim_outcome_trans)
  next
    case (Some row)
    with Cons.prems(2) c ok show ?thesis by auto
  qed
qed

lemma claim_prios_ok:
  assumes "keeps_ids sq_id itf"
  shows "distinct (map sq_id rs) \<Longrightarrow> claim_prios cfg itf draw t now prios k rs = (rs', Some res) \<Longrightarrow>
    claim_outcome sq_id claim_cas itf t now rs rs' res"
proof (induction prios arbitrary: k rs)
  case Nil
  then show ?case by (auto simp: claim_outcome_def intro: env_reach.intros)
next
  case (Cons prio prios)
  let ?rs1 = "itf_env itf k rs"
  let ?pend = "filter (claimable prio) (itf_view itf k ?rs1)"
  let ?ecos = "nub (map sq_ecosystem ?pend)"
  let ?wo = "weighted_order (draw prio) ?ecos
      (eco_weights cfg ?ecos (\<lambda>e. count_where (\<lambda>r. sq_ecosystem r = e) ?pend))"
  have r1: "env_reach itf rs ?rs1" by (rule env_reach_one)
  have d1: "distinct (map sq_id ?rs1)" by (rule env_reach_distinct [OF r1 assms Cons.prems(1)])
  show ?case
  proof (cases "?ecos = []")
    case True
    then have "claim_prios cfg itf draw t now prios (Suc k) ?rs1 = (rs', Some res)"
      using Cons.prems(2) by (simp add: Let_def)
    from claim_outcome_trans [OF r1 Cons.IH [OF d1 this]] show ?thesis .
  next
    case False
    with Cons.prems(2) obtain order where o: "?wo = Some order"
      by (cases ?wo) (auto simp: Let_def)
    obtain k2 rs2 res2 where c: "claim_ecos itf t now prio order (Suc k) ?rs1 = (k2, rs2, res2)"
      by (metis prod_cases3)
    have ok: "claim_outcome sq_id claim_cas itf t now rs rs2 res2"
      by (rule claim_outcome_trans [OF r1 claim_ecos_ok [OF assms d1 c]])
    show ?thesis
    proof (cases res2)
      case None
      with ok have r: "env_reach itf rs rs2" by (simp add: claim_outcome_def)
      have "claim_prios cfg itf draw t now prios k2 rs2 = (rs', Some res)"
        using Cons.prems(2) False o c None by (simp add: Let_def)
      from claim_outcome_trans [OF r Cons.IH [OF env_reach_distinct [OF r assms Cons.prems(1)] this]]
      show ?thesis .
    next
      case (Some row)
      with Cons.prems(2) False o c ok show ?thesis by (simp add: Let_def)
    qed
  qed
qed

text \<open>With draws in the unit interval the choice never raises.\<close>

lemma claim_prios_no_raise:
  assumes "\<And>p j. 0 \<le> draw p j \<and> draw p j < 1"
  shows "snd (claim_prios cfg itf draw t now prios k rs) \<noteq> None"
proof (induction prios arbitrary: k rs)
  case Nil
  then show ?case by simp
next
  case (Cons prio prios)
  let ?pend = "filter (claimable prio) (itf_view itf k (itf_env itf k rs))"
  obtain out where "weighted_order (draw prio) (nub (map sq_ecosystem ?pend))
      (eco_weights cfg (nub (map sq_ecosystem ?pend)) (\<lambda>e. count_where (\<lambda>r. sq_ecosystem r = e) ?pend)) = Some out"
    using weighted_order_perm [where draw = "draw prio", OF assms distinct_nub] by blast
  with Cons show ?case by (simp add: Let_def split: prod.splits option.splits)
qed

section \<open>Claims of an undisturbed worker\<close>

lemma claim_tries_quiet:
  assumes "distinct (map sq_id rs)"
    and "min_by sq_enqueued_at (filter (\<lambda>r. claimable prio r \<and> sq_ecosystem r = eco) rs) = Some r"
  shows "claim_tries quiet t now prio eco {} (Suc n) k rs =
    (Suc (Suc k), fst (claim_cas t now (sq_id r) rs), Some (claim_row t now r))"
proof -
  have r: "r \<in> set rs" "sq_status r = Pending"
    using min_by_Some [OF assms(2)] by (auto simp: claimable_def)
  show ?thesis
    using assms(2) claim_cas_hit [OF assms(1) r, of t now] by (simp add: Let_def case_prod_beta)
qed

lemma retries_Suc: "claim_cas_retries = Suc 4"
  by (simp add: claim_cas_retries_def)

lemma claim_prios_quiet:
  assumes "\<And>p j. 0 \<le> draw p j \<and> draw p j < 1" and "distinct (map sq_id rs)"
    and "r0 \<in> set rs" and "claimable prio r0"
  shows "\<exists>r \<in> set rs. claimable prio r \<and>
    (\<forall>s \<in> set rs. claimable prio s \<and> sq_ecosystem s = sq_ecosystem r \<longrightarrow> sq_enqueued_at r \<le> sq_enqueued_at s) \<and>
    claim_prios cfg quiet draw t now (prio # prios) k rs =
      (fst (claim_cas t now (sq_id r) rs), Some (Some (claim_row t now r)))"
proof -
  let ?pend = "filter (claimable prio) rs"
  let ?ecos = "nub (map sq_ecosystem ?pend)"
  let ?w = "eco_weights cfg ?ecos (\<lambda>e. count_where (\<lambda>r. sq_ecosystem r = e) ?pend)"
  have ne: "?ecos \<noteq> []" using assms(3,4) by (auto simp: filter_empty_conv)
  obtain order where o: "weighted_order (draw prio) ?ecos ?w = Some order" "mset order = mset ?ecos"
    using weighted_order_perm [where draw = "draw prio", OF assms(1) distinct_nub] by blast
  then obtain eco rest where eco: "order = eco # rest"
    using ne by (cases order) auto
  have "set order = set ?ecos" using o(2) by (rule mset_eq_setD)
  with eco have "eco \<in> sq_ecosystem ` set ?pend" by auto
  then have "filter (\<lambda>r. claimable prio r \<and> sq_ecosystem r = eco) rs \<noteq> []"
    by (auto simp: filter_empty_conv)
  then obtain r where r: "min_by sq_enqueued_at (filter (\<lambda>r. claimable prio r \<and> sq_ecosystem r = eco) rs) = Some r"
    by (metis min_by_None not_Some_eq)
  have c: "claim_ecos quiet t now prio order (Suc k) rs =
      (Suc (Suc (Suc k)), fst (claim_cas t now (sq_id r) rs), Some (claim_row t now r))"
    using claim_tries_quiet [OF assms(2) r, of t now 4] by (simp add: eco retries_Suc del: claim_tries.simps)
  have "claim_prios cfg quiet draw t now (prio # prios) k rs =
      (fst (claim_cas t now (sq_id r) rs), Some (Some (claim_row t now r)))"
    using ne o(1) c by (simp add: Let_def)
  with min_by_Some [OF r] show ?thesis by auto
qed

lemma claim_prios_skip:
  assumes "\<And>s. s \<in> set rs \<Longrightarrow> \<not> claimable prio s"
  shows "claim_prios cfg quiet draw t now (prio # prios) k rs = claim_prios cfg quiet draw t now prios (Suc k) rs"
  using assms by (simp add: Let_def)

section \<open>Properties of claiming\<close>

text \<open>C6. A claim is exclusive under any interleaving with other transactions, at READ COMMITTED and at
  snapshot isolation: if \<open>claim_next\<close> returns a row, then at the moment of its update exactly that row was
  pending in the table the others had left, the row returned is that one with status claimed, the
  caller's token and one more attempt, nothing else changed, any second claim of the row updates no row,
  and finishing it with another token is refused.\<close>

theorem claim_next_exclusive:
  assumes "keeps_ids sq_id itf" and "distinct (map sq_id rs)"
    and "claim_next cfg itf draw token now rs = (rs', Some (Some (row, t)))"
  shows "t = token \<and>
    (\<exists>rs0 r0. env_reach itf rs rs0 \<and> r0 \<in> set rs0 \<and> sq_status r0 = Pending \<and> row = claim_row token now r0 \<and>
       rs' = update_where (\<lambda>r. sq_id r = sq_id r0) (\<lambda>_. row) rs0) \<and>
    snd (claim_cas token' now' (sq_id row) rs') = 0 \<and>
    (token' \<noteq> token \<longrightarrow> mark_done now' (sq_id row) (Some token') rs' = (rs', False))"
proof -
  from assms(3) have t: "t = token" and c: "claim_prios cfg itf draw token now [High, Normal, Low] 0 rs = (rs', Some (Some row))"
    by (auto simp: claim_next_def split: prod.splits)
  from scanq.claimed_row [OF assms(1,2) claim_prios_ok [OF assms(1,2) c]] obtain rs0 r0 where
    r0: "env_reach itf rs rs0" "r0 \<in> set rs0" "sq_status r0 = Pending" "sq_id r0 = sq_id row"
      "rs' = fst (claim_cas token now (sq_id r0) rs0)" "row \<in> set rs'" and d: "distinct (map sq_id rs0)"
    by auto
  have row: "row = claim_row token now r0"
    using claim_cas_hit(2) [OF d r0(2,3), of token now] find_distinct_key [of sq_id rs' row] r0(4-6) d
    by (simp add: scanq.cas_ids)
  have n: "0 < snd (claim_cas token now (sq_id r0) rs0)" using claim_cas_hit(1) [OF d r0(2,3)] by simp
  have "update_where (\<lambda>r. sq_id r = sq_id r0 \<and> sq_status r = Pending) (claim_row token now) rs0 =
      update_where (\<lambda>r. sq_id r = sq_id r0) (\<lambda>_. row) rs0"
    unfolding update_where_def using r0(3) row scanq.same_row [OF d _ r0(2)] by (intro map_cong) force+
  then have u: "rs' = update_where (\<lambda>r. sq_id r = sq_id r0) (\<lambda>_. row) rs0"
    using r0(5) by (simp add: claim_cas_def)
  have "snd (claim_cas token' now' (sq_id row) rs') = 0"
    using scanq.cas_exclusive [OF d n] r0(4,5) by simp
  moreover have "token' \<noteq> token \<longrightarrow> mark_done now' (sq_id row) (Some token') rs' = (rs', False)"
    using scanq.cas_then_foreign_mark [OF d n] r0(4,5) by simp
  ultimately show ?thesis using t r0(1-3) row u by blast
qed

definition demo_rows :: scan_rows where
  "demo_rows = [new_row 1 50 (''npm'', ''a'', ''1.0'') Normal, new_row 2 10 (''npm'', ''b'', ''1.0'') Normal,
     new_row 3 5 (''pypi'', ''c'', ''2.0'') Low]"

text \<open>Another worker claims row 2 between the selection and the update.\<close>

definition rival :: "scan_row interference" where
  "rival = \<lparr>itf_env = (\<lambda>k rs. if k = 3 then fst (claim_cas ''rival'' 60 2 rs) else rs), itf_view = (\<lambda>_ rs. rs)\<rparr>"

definition half_draw :: "priority \<Rightarrow> nat \<Rightarrow> rat" where
  "half_draw p k = 1/2"

lemma rival_run: "claim_next default_queue_cfg rival half_draw ''me'' 70 demo_rows =
    (fst (claim_cas ''me'' 70 1 (fst (claim_cas ''rival'' 60 2 demo_rows))),
     Some (Some (claim_row ''me'' 70 (new_row 1 50 (''npm'', ''a'', ''1.0'') Normal), ''me'')))"
  by code_simp

lemma rival_keeps: "keeps_ids sq_id rival"
  by (simp add: keeps_ids_def rival_def scanq.cas_ids)

lemma demo_rows_distinct: "distinct (map sq_id demo_rows)"
  by (simp add: demo_rows_def new_row_def)

theorem claim_next_exclusive_witness:
  "snd (claim_cas ''late'' 80 1 (fst (claim_next default_queue_cfg rival half_draw ''me'' 70 demo_rows))) = 0"
  using claim_next_exclusive [OF rival_keeps demo_rows_distinct rival_run, of "''late''" 80]
  by (simp add: rival_run new_row_def claim_row_def)

text \<open>C39. Claiming follows priority and age: for draws in the unit interval an undisturbed \<open>claim_next\<close>
  never raises; it returns nothing exactly when no row is pending, leaving the table unchanged, and
  otherwise claims a pending row of the best priority present, the oldest of its ecosystem there.\<close>

theorem claim_next_order:
  assumes "\<And>p j. 0 \<le> draw p j \<and> draw p j < 1" and "distinct (map sq_id rs)"
  shows "if \<exists>r \<in> set rs. sq_status r = Pending
    then \<exists>r \<in> set rs. sq_status r = Pending \<and>
      (\<forall>s \<in> set rs. sq_status s = Pending \<longrightarrow> prio_order (sq_priority r) \<le> prio_order (sq_priority s)) \<and>
      (\<forall>s \<in> set rs. sq_status s = Pending \<and> sq_priority s = sq_priority r \<and> sq_ecosystem s = sq_ecosystem r
         \<longrightarrow> sq_enqueued_at r \<le> sq_enqueued_at s) \<and>
      claim_next cfg quiet draw token now rs =
        (fst (claim_cas token now (sq_id r) rs), Some (Some (claim_row token now r, token)))
    else claim_next cfg quiet draw token now rs = (rs, Some None)"
proof (cases "\<exists>r \<in> set rs. sq_status r = Pending")
  case False
  then have "\<And>p s. s \<in> set rs \<Longrightarrow> \<not> claimable p s" by (auto simp: claimable_def)
  then show ?thesis using False by (simp add: claim_next_def Let_def)
next
  case True
  let ?has = "\<lambda>p. \<exists>r \<in> set rs. claimable p r"
  from True obtain r1 where "r1 \<in> set rs" "claimable (sq_priority r1) r1" by (auto simp: claimable_def)
  moreover have "sq_priority r1 \<in> set [High, Normal, Low]" by (cases "sq_priority r1") simp_all
  ultimately have ex: "\<exists>p \<in> set [High, Normal, Low]. ?has p" by blast
  obtain prio pre post where p: "[High, Normal, Low] = pre @ prio # post" "?has prio" "\<forall>q \<in> set pre. \<not> ?has q"
    using split_list_first_prop [OF ex] by blast
  have skip: "claim_prios cfg quiet draw token now (pre @ prio # post) k rs =
      claim_prios cfg quiet draw token now (prio # post) (k + length pre) rs" for k
    using p(3) by (induction pre arbitrary: k) (simp_all add: claim_prios_skip del: claim_prios.simps(2))
  from p(2) obtain r0 where "r0 \<in> set rs" "claimable prio r0" by auto
  from claim_prios_quiet [where draw = draw and cfg = cfg and t = token and now = now and prios = post
      and k = "length pre", OF assms this] obtain r where
    r: "r \<in> set rs" "claimable prio r"
      "\<forall>s \<in> set rs. claimable prio s \<and> sq_ecosystem s = sq_ecosystem r \<longrightarrow> sq_enqueued_at r \<le> sq_enqueued_at s"
      "claim_prios cfg quiet draw token now (prio # post) (length pre) rs =
        (fst (claim_cas token now (sq_id r) rs), Some (Some (claim_row token now r)))"
    by blast
  have low: "prio_order prio \<le> prio_order q" if "?has q" for q
    using p(1,3) that by (cases prio; cases q) (auto simp: Cons_eq_append_conv)
  have "\<forall>s \<in> set rs. sq_status s = Pending \<longrightarrow> prio_order (sq_priority r) \<le> prio_order (sq_priority s)"
    using low r(2) by (auto simp: claimable_def)
  with True r skip [of 0] p(1) show ?thesis
    by (auto simp: claim_next_def claimable_def intro!: bexI [of _ r] simp del: claim_prios.simps(2))
qed

lemma half_draw_unit: "0 \<le> half_draw p j \<and> half_draw p j < 1"
  by (simp add: half_draw_def)

lemma demo_pending: "(\<exists>r \<in> set demo_rows. sq_status r = Pending) \<longleftrightarrow> True"
  by (simp add: demo_rows_def new_row_def)

theorem claim_next_order_witness:
  "\<exists>r \<in> set demo_rows. sq_status r = Pending \<and> claim_next default_queue_cfg quiet half_draw ''t'' 0 demo_rows =
     (fst (claim_cas ''t'' 0 (sq_id r) demo_rows), Some (Some (claim_row ''t'' 0 r, ''t'')))"
  using claim_next_order [where draw = half_draw, OF half_draw_unit demo_rows_distinct,
      where cfg = default_queue_cfg and token = "''t''" and now = 0]
  unfolding demo_pending if_True by blast


definition npm_flood :: "ecosystem \<Rightarrow> nat" where
  "npm_flood e = (if e = ''npm'' then 100000 else 1)"


text \<open>The cap on one ecosystem's share is applied before the weights are normalised, so it does not
  bound the share of the claims: with the default settings and backlogs 99 and 1 the first ecosystem
  is picked for every draw below 350/453, about 77 percent, above its maximum of 70 percent.\<close>

theorem eco_share_exceeds_max:
  "qc_max_eco_share default_queue_cfg < 350/453 \<and>
   (choice_index u (Some (eco_weights default_queue_cfg [''npm'', ''pypi''] (\<lambda>e. if e = ''npm'' then 99 else 1))) 2 = Some 0
     \<longleftrightarrow> u < 350/453)"
proof -
  have w: "eco_weights default_queue_cfg [''npm'', ''pypi''] (\<lambda>e. if e = ''npm'' then 99 else 1) = [7/10, 206/1000]"
    by (simp add: eco_weights_def Let_def default_queue_cfg_def)
  show ?thesis unfolding w by (simp add: choice_index_def default_queue_cfg_def)
qed

section \<open>Life cycle of a row\<close>

text \<open>What the columns of a row say in each state. The bound on the attempts is that of automated
  ingest (\<open>auto\<close>); an operator's rescan may exceed it.\<close>

definition row_ok :: "bool \<Rightarrow> scan_row \<Rightarrow> bool" where
  "row_ok auto r \<longleftrightarrow>
    (case sq_status r of
       Pending \<Rightarrow> sq_claim_token r = None \<and> sq_claimed_at r = None \<and> sq_finished_at r = None
     | Claimed \<Rightarrow> sq_claim_token r \<noteq> None \<and> sq_claimed_at r \<noteq> None \<and> sq_finished_at r = None
     | Done \<Rightarrow> sq_finished_at r \<noteq> None
     | Failed \<Rightarrow> sq_finished_at r \<noteq> None
     | Expired \<Rightarrow> False) \<and>
    (auto \<longrightarrow> sq_attempts r \<le> max_auto_attempts \<and> (sq_status r = Pending \<longrightarrow> sq_attempts r < max_auto_attempts))"

definition tokens_unique :: "scan_rows \<Rightarrow> bool" where
  "tokens_unique rs \<longleftrightarrow> (\<forall>r \<in> set rs. \<forall>s \<in> set rs.
     sq_claim_token r \<noteq> None \<and> sq_claim_token r = sq_claim_token s \<longrightarrow> sq_id r = sq_id s)"

definition scanq_inv :: "bool \<Rightarrow> scan_rows \<Rightarrow> bool" where
  "scanq_inv auto rs \<longleftrightarrow> distinct (map sq_id rs) \<and> distinct (map sq_key rs) \<and>
     (\<forall>r \<in> set rs. row_ok auto r) \<and> tokens_unique rs"

text \<open>One committed statement of any of the queue's users. A claim's token is fresh (\<^verbatim>\<open>uuid4\<close>).\<close>

inductive sq_step :: "bool \<Rightarrow> scan_rows \<Rightarrow> scan_rows \<Rightarrow> bool" for auto where
  st_requeue: "auto \<longrightarrow> \<not> rescan \<Longrightarrow> sq_step auto rs (upd_row i (requeue_row rescan prio) rs)"
| st_insert: "k \<notin> sq_key ` set rs \<Longrightarrow> sq_step auto rs (rs @ [new_row (next_id rs) now k prio])"
| st_claim: "Some t \<notin> sq_claim_token ` set rs \<Longrightarrow> sq_step auto rs (fst (claim_cas t now i rs))"
| st_done: "sq_step auto rs (fst (mark_done now i tk rs))"
| st_failed: "sq_step auto rs (fst (mark_failed now err i tk rs))"
| st_sweep: "sq_step auto rs (fst (sweep_stale_claims now rs))"
| st_prune: "sq_step auto rs (fst (prune_terminal cfg older now rs))"

inductive sq_reach :: "bool \<Rightarrow> scan_rows \<Rightarrow> scan_rows \<Rightarrow> bool" for auto where
  sqr_refl: "sq_reach auto rs rs"
| sqr_step: "sq_reach auto rs rs' \<Longrightarrow> sq_step auto rs' rs'' \<Longrightarrow> sq_reach auto rs rs''"

lemma next_id_fresh: "r \<in> set rs \<Longrightarrow> sq_id r < next_id rs"
proof -
  have "r \<in> set rs \<Longrightarrow> sq_id r \<le> foldr max (map sq_id rs) 0"
    by (induction rs) (auto simp: le_max_iff_disj)
  then show "r \<in> set rs \<Longrightarrow> sq_id r < next_id rs" by (simp add: next_id_def)
qed

lemma scanq_inv_update:
  assumes "scanq_inv auto rs"
    and "\<And>r. r \<in> set rs \<Longrightarrow> p r \<Longrightarrow> row_ok auto (f r)"
    and "\<And>r. sq_id (f r) = sq_id r" and "\<And>r. sq_key (f r) = sq_key r"
    and "\<And>r. sq_claim_token (f r) = None \<or> sq_claim_token (f r) = sq_claim_token r"
  shows "scanq_inv auto (update_where p f rs)"
proof -
  have "tokens_unique (update_where p f rs)"
    unfolding tokens_unique_def
  proof (intro ballI impI, elim conjE)
    fix x y assume xy: "x \<in> set (update_where p f rs)" "y \<in> set (update_where p f rs)"
      "sq_claim_token x \<noteq> None" "sq_claim_token x = sq_claim_token y"
    have src: "\<exists>r \<in> set rs. sq_id r = sq_id z \<and> sq_claim_token r = sq_claim_token z"
      if "z \<in> set (update_where p f rs)" "sq_claim_token z \<noteq> None" for z
      using that assms(3,5) unfolding in_update_where by (metis (full_types))
    obtain r s where "r \<in> set rs" "s \<in> set rs" "sq_id r = sq_id x" "sq_id s = sq_id y"
      "sq_claim_token r = sq_claim_token x" "sq_claim_token s = sq_claim_token y"
      using src [OF xy(1)] src [OF xy(2)] xy(3,4) by metis
    with assms(1) xy(3,4) show "sq_id x = sq_id y" unfolding scanq_inv_def tokens_unique_def by metis
  qed
  with assms show ?thesis
    unfolding scanq_inv_def by (auto simp: map_update_where in_update_where)
qed

lemma sq_key_updates [simp]:
  "sq_key (done_row now r) = sq_key r" "sq_key (failed_row now e r) = sq_key r" "sq_key (sweep_row now r) = sq_key r"
  "sq_key (requeue_row b p r) = sq_key r" "sq_key (new_row i now k p) = k"
  by (simp_all add: sq_key_def done_row_def failed_row_def sweep_row_def requeue_row_def bump_priority_def
      reset_row_def new_row_def)

lemma new_row_simps [simp]:
  "sq_id (new_row i now k p) = i" "sq_claim_token (new_row i now k p) = None" "sq_status (new_row i now k p) = Pending"
  by (simp_all add: new_row_def)

lemma tokens_unique_subset: "tokens_unique rs \<Longrightarrow> set ts \<subseteq> set rs \<Longrightarrow> tokens_unique ts"
  unfolding tokens_unique_def by blast

lemma token_updates:
  "sq_claim_token (done_row now r) = sq_claim_token r" "sq_claim_token (failed_row now e r) = sq_claim_token r"
  "sq_claim_token (sweep_row now r) \<in> {None, sq_claim_token r}"
  "sq_claim_token (requeue_row b p r) \<in> {None, sq_claim_token r}"
  by (simp_all add: done_row_def failed_row_def sweep_row_def requeue_row_def bump_priority_def reset_row_def)

lemma row_ok_requeue: "auto \<longrightarrow> \<not> rescan \<Longrightarrow> row_ok auto r \<Longrightarrow> row_ok auto (requeue_row rescan prio r)"
  by (cases "sq_status r") (auto simp: row_ok_def requeue_row_def bump_priority_def reset_row_def)

lemma row_ok_finish: "row_ok auto r \<Longrightarrow> row_ok auto (done_row now r)" "row_ok auto r \<Longrightarrow> row_ok auto (failed_row now e r)"
  by (auto simp: row_ok_def done_row_def failed_row_def)

lemma row_ok_sweep: "stale now r \<Longrightarrow> row_ok auto r \<Longrightarrow> row_ok auto (sweep_row now r)"
  by (auto simp: row_ok_def sweep_row_def stale_def)

lemma row_ok_claim: "sq_status r = Pending \<Longrightarrow> row_ok auto r \<Longrightarrow> row_ok auto (claim_row t now r)"
  by (auto simp: row_ok_def)

lemma scanq_inv_mark:
  assumes "scanq_inv auto rs" and "\<And>r. row_ok auto r \<Longrightarrow> row_ok auto (f r)" and "\<And>r. sq_id (f r) = sq_id r"
    and "\<And>r. sq_key (f r) = sq_key r" and "\<And>r. sq_claim_token (f r) = sq_claim_token r"
  shows "scanq_inv auto (fst (mark_row f i tk rs))"
proof -
  have "scanq_inv auto (upd_row i f rs)"
    unfolding upd_row_def using assms by (intro scanq_inv_update) (auto simp: scanq_inv_def)
  with assms(1) show ?thesis by (auto simp: mark_row_def split: option.splits)
qed

lemma scanq_inv_claim:
  assumes "scanq_inv auto rs" and "Some t \<notin> sq_claim_token ` set rs"
  shows "scanq_inv auto (fst (claim_cas t now i rs))"
proof -
  let ?rs = "fst (claim_cas t now i rs)"
  have inv: "distinct (map sq_id rs)" "distinct (map sq_key rs)" "\<forall>r \<in> set rs. row_ok auto r" "tokens_unique rs"
    using assms(1) by (auto simp: scanq_inv_def)
  have "map sq_key ?rs = map sq_key rs" by (simp add: claim_cas_def map_update_where)
  moreover have "\<forall>r \<in> set ?rs. row_ok auto r"
  proof
    fix x assume "x \<in> set ?rs"
    then obtain r where r: "r \<in> set rs" "x = (if sq_id r = i \<and> sq_status r = Pending then claim_row t now r else r)"
      by (auto simp: claim_cas_def in_update_where)
    then show "row_ok auto x"
      using inv(3) row_ok_claim [of r auto t now] by (cases "sq_id r = i \<and> sq_status r = Pending") simp_all
  qed
  moreover have "tokens_unique ?rs"
    unfolding tokens_unique_def
  proof (intro ballI impI, elim conjE)
    fix x y assume xy: "x \<in> set ?rs" "y \<in> set ?rs" "sq_claim_token x \<noteq> None" "sq_claim_token x = sq_claim_token y"
    have new: "sq_id z = i" if "z \<in> set ?rs" "sq_claim_token z = Some t" for z
      using scanq.cas_rows [OF that(1)] that(2) assms(2) by force
    show "sq_id x = sq_id y"
    proof (cases "sq_claim_token x = Some t")
      case True
      then show ?thesis using new [OF xy(1)] new [OF xy(2)] xy(4) by simp
    next
      case False
      then have "x \<in> set rs" "y \<in> set rs"
        using scanq.cas_rows [OF xy(1)] scanq.cas_rows [OF xy(2)] xy(4) by auto
      with inv(4) xy(3,4) show ?thesis unfolding tokens_unique_def by blast
    qed
  qed
  ultimately show ?thesis using inv(1,2) by (simp add: scanq_inv_def scanq.cas_ids)
qed

lemma scanq_inv_insert:
  assumes "scanq_inv auto rs" and "k \<notin> sq_key ` set rs"
  shows "scanq_inv auto (rs @ [new_row (next_id rs) now k prio])"
proof -
  have "row_ok auto (new_row (next_id rs) now k prio)" by (simp add: row_ok_def new_row_def max_auto_attempts_def)
  moreover have "next_id rs \<notin> sq_id ` set rs" using next_id_fresh by fastforce
  moreover have "tokens_unique (rs @ [new_row (next_id rs) now k prio])"
    using assms(1) unfolding scanq_inv_def tokens_unique_def by (metis Un_iff empty_iff insert_iff list.simps(15)
        list.set(1) new_row_simps(2) set_append)
  ultimately show ?thesis using assms by (simp add: scanq_inv_def)
qed

lemma scanq_inv_delete: "scanq_inv auto rs \<Longrightarrow> scanq_inv auto (delete_where p rs)"
  unfolding scanq_inv_def by (auto simp: distinct_map_delete_where elim: tokens_unique_subset)

lemma scanq_inv_step: "sq_step auto rs rs' \<Longrightarrow> scanq_inv auto rs \<Longrightarrow> scanq_inv auto rs'"
proof (induction rule: sq_step.induct)
  case (st_requeue rescan rs i prio)
  have "row_ok auto (requeue_row rescan prio r)" if "r \<in> set rs" for r
    using st_requeue that by (intro row_ok_requeue) (auto simp: scanq_inv_def)
  with st_requeue token_updates(4) [of rescan prio] show ?case
    unfolding upd_row_def by (intro scanq_inv_update) auto
next
  case (st_insert k rs now prio)
  then show ?case by (intro scanq_inv_insert)
next
  case (st_claim t rs now i)
  then show ?case by (intro scanq_inv_claim)
next
  case (st_done rs now i tk)
  then show ?case unfolding mark_done_def by (intro scanq_inv_mark) (simp_all add: row_ok_finish token_updates)
next
  case (st_failed rs now err i tk)
  then show ?case unfolding mark_failed_def by (intro scanq_inv_mark) (simp_all add: row_ok_finish token_updates)
next
  case (st_sweep rs now)
  have "row_ok auto (sweep_row now r)" if "r \<in> set rs" "stale now r" for r
    using st_sweep that by (intro row_ok_sweep) (auto simp: scanq_inv_def)
  with st_sweep token_updates(3) [of now] show ?case
    unfolding sweep_stale_claims_def fst_conv by (intro scanq_inv_update) auto
next
  case (st_prune rs cfg older now)
  then show ?case by (simp add: prune_terminal_def Let_def scanq_inv_delete)
qed

lemma sq_reach_trans: "sq_reach auto b c \<Longrightarrow> sq_reach auto a b \<Longrightarrow> sq_reach auto a c"
  by (induction rule: sq_reach.induct) (auto intro: sqr_step)

lemma sq_reach_one: "sq_step auto a b \<Longrightarrow> sq_reach auto a b"
  by (rule sqr_step [OF sqr_refl])

lemma scanq_inv_reach: "sq_reach auto rs rs' \<Longrightarrow> scanq_inv auto rs \<Longrightarrow> scanq_inv auto rs'"
  by (induction rule: sq_reach.induct) (auto intro: scanq_inv_step)

lemma scanq_inv_Nil: "scanq_inv auto []"
  by (simp add: scanq_inv_def tokens_unique_def)

definition env_steps :: "bool \<Rightarrow> (nat \<Rightarrow> scan_rows \<Rightarrow> scan_rows) \<Rightarrow> bool" where
  "env_steps auto env \<longleftrightarrow> (\<forall>k rs. sq_reach auto rs (env k rs))"

lemma enqueue_insert_steps:
  assumes "env_steps auto env"
  shows "sq_reach auto rs (fst (enqueue_insert retries env fault now key prio attempt rs))"
proof (induction "Suc retries - attempt" arbitrary: attempt rs rule: less_induct)
  case less
  let ?rs1 = "env attempt rs"
  have e: "sq_reach auto rs ?rs1" using assms by (simp add: env_steps_def)
  have ins: "sq_reach auto rs (?rs1 @ [new_row (next_id ?rs1) now key prio])" if "key \<notin> sq_key ` set ?rs1"
    by (rule sqr_step [OF e st_insert [OF that]])
  have again: "sq_reach auto rs (fst (enqueue_insert retries env fault now key prio (Suc attempt) ?rs1))"
    if "attempt < retries"
    using that by (intro sq_reach_trans [OF less.hyps e]) auto
  show ?case
    using e ins again sqr_refl [of auto rs]
    by (subst enqueue_insert.simps) (auto simp: Let_def split: option.splits)
qed

lemma enqueue_steps:
  assumes "env_steps auto env" and "auto \<longrightarrow> \<not> rescan"
  shows "sq_reach auto rs (fst (enqueue cfg env fault now eco name ver prio rescan rs))"
  using enqueue_insert_steps [OF assms(1)] sq_reach_one [OF st_requeue [OF assms(2)]]
  by (auto simp: enqueue_def split: option.splits)

lemma env_reach_steps: "env_reach itf rs rs' \<Longrightarrow> env_steps auto (itf_env itf) \<Longrightarrow> sq_reach auto rs rs'"
  by (induction rule: env_reach.induct) (auto simp: env_steps_def intro: sqr_refl sq_reach_trans)

lemma sq_step_ids: "sq_step auto rs rs' \<Longrightarrow> distinct (map sq_id rs) \<Longrightarrow> distinct (map sq_id rs')"
proof (induction rule: sq_step.induct)
  case (st_insert k rs now prio)
  have "next_id rs \<notin> sq_id ` set rs" using next_id_fresh by fastforce
  with st_insert show ?case by simp
qed (simp_all add: upd_row_def map_update_where scanq.cas_ids mark_done_def mark_failed_def mark_row_ids
    scanq.sweep_ids prune_terminal_def Let_def distinct_map_delete_where)

lemma sq_reach_ids: "sq_reach auto rs rs' \<Longrightarrow> distinct (map sq_id rs) \<Longrightarrow> distinct (map sq_id rs')"
  by (induction rule: sq_reach.induct) (auto intro: sq_step_ids)

lemma claim_next_steps:
  assumes "env_steps auto (itf_env itf)" and "distinct (map sq_id rs)"
    and "\<And>rs'. env_reach itf rs rs' \<Longrightarrow> Some token \<notin> sq_claim_token ` set rs'"
    and "\<And>p j. 0 \<le> draw p j \<and> draw p j < 1"
  shows "sq_reach auto rs (fst (claim_next cfg itf draw token now rs))"
proof -
  have keep: "keeps_ids sq_id itf"
    using assms(1) unfolding keeps_ids_def env_steps_def by (meson sq_reach_ids)
  obtain rs' res where c: "claim_prios cfg itf draw token now [High, Normal, Low] 0 rs = (rs', Some res)"
    using claim_prios_no_raise [where draw = draw, OF assms(4)] by (metis option.exhaust prod.collapse)
  have "claim_outcome sq_id claim_cas itf token now rs rs' res" by (rule claim_prios_ok [OF keep assms(2) c])
  then have "sq_reach auto rs rs'"
    using assms(1,3) by (cases res) (auto simp: claim_outcome_def
        intro: env_reach_steps sqr_step [OF env_reach_steps st_claim])
  with c show ?thesis by (simp add: claim_next_def)
qed

section \<open>Properties of the life cycle\<close>


lemma demo_reach: "sq_reach True [] (fst (claim_cas ''t'' 9 1 [new_row 1 5 (''npm'', ''a'', ''1'') Low]))"
proof -
  have "sq_step True [] [new_row 1 5 (''npm'', ''a'', ''1'') Low]"
    using st_insert [of "(''npm'', ''a'', ''1'')" "[]" True 5 Low] by (simp add: next_id_def)
  then show ?thesis
    by (intro sqr_step [OF sq_reach_one st_claim]) simp_all
qed





definition stale_demo :: scan_row where
  "stale_demo = claim_row ''old'' 0 (new_row 1 0 (''npm'', ''a'', ''1'') Low)"


lemma enqueue_insert_retry:
  assumes "i \<le> j" and "j \<le> retries" and "fault j = None" and "\<forall>i < j. \<exists>m. fault i = Some m \<and> is_deadlock m"
    and "k \<notin> sq_key ` set rs"
  shows "enqueue_insert retries (\<lambda>_ x. x) fault now k prio i rs =
    (rs @ [new_row (next_id rs) now k prio], Inr (Some (new_row (next_id rs) now k prio)))"
  using assms(1)
proof (induction "j - i" arbitrary: i)
  case 0
  then have "i = j" by simp
  with assms show ?case by (subst enqueue_insert.simps) (simp add: Let_def)
next
  case (Suc n)
  then have "i < j" by simp
  then obtain m where "fault i = Some m" "is_deadlock m" using assms(4) by blast
  moreover have "i < retries" using \<open>i < j\<close> assms(2) by simp
  moreover have "n = j - Suc i" "Suc i \<le> j" using Suc.hyps(2) \<open>i < j\<close> by simp_all
  ultimately show ?case using Suc.hyps(1) by (subst enqueue_insert.simps) (simp add: Let_def)
qed

lemma enqueue_insert_giveup:
  assumes "\<forall>i. \<exists>m. fault i = Some m \<and> is_deadlock m"
  shows "enqueue_insert retries (\<lambda>_ x. x) fault now k prio i rs = (rs, Inr None)"
proof (induction "Suc retries - i" arbitrary: i)
  case 0
  then show ?case by (subst enqueue_insert.simps) simp
next
  case (Suc n)
  obtain m where m: "fault i = Some m" "is_deadlock m" using assms by blast
  have "n = Suc retries - Suc i" using Suc.hyps(2) by simp
  from Suc.hyps(1) [OF this] m show ?case by (subst enqueue_insert.simps) (simp add: Let_def)
qed

lemma enqueue_absent:
  "(eco, name, ver) \<notin> sq_key ` set rs \<Longrightarrow> enqueue cfg env fault now eco name ver prio rescan rs =
     enqueue_insert (qc_deadlock_retries cfg) env fault now (eco, name, ver) prio 0 rs"
  unfolding enqueue_def find_None_key [symmetric] by simp

text \<open>Automated ingest deduplicates: when a row for the package version exists, \<open>enqueue\<close> adds no row
  and changes no other, returns the row, never lowers its priority, leaves a done row and one that has
  failed three times alone, and makes a row that failed less often pending again; when there is none, it
  survives as many deadlocks as it may retry and then appends one pending row, and gives up without an
  error, the table unchanged, when every attempt deadlocks.\<close>

theorem enqueue_dedup:
  assumes "scanq_inv a rs"
  shows "(\<forall>r \<in> set rs. sq_key r = (eco, name, ver) \<longrightarrow>
     (\<exists>r'. enqueue cfg env fault now eco name ver prio False rs =
        (update_where (\<lambda>x. sq_id x = sq_id r) (\<lambda>_. r') rs, Inr (Some r')) \<and>
        sq_key r' = sq_key r \<and> prio_order (sq_priority r') \<le> prio_order (sq_priority r) \<and>
        (sq_status r = Done \<or> sq_status r = Failed \<and> 3 \<le> sq_attempts r \<longrightarrow> r' = r) \<and>
        (sq_status r = Failed \<and> sq_attempts r < 3 \<longrightarrow> sq_status r' = Pending \<and> sq_attempts r' = sq_attempts r) \<and>
        (sq_status r \<in> {Pending, Claimed} \<longrightarrow> sq_status r' = sq_status r \<and>
           prio_order (sq_priority r') = min (prio_order prio) (prio_order (sq_priority r))))) \<and>
   ((eco, name, ver) \<notin> sq_key ` set rs \<longrightarrow>
     (\<forall>j \<le> qc_deadlock_retries cfg. fault j = None \<and> (\<forall>i < j. \<exists>m. fault i = Some m \<and> is_deadlock m) \<longrightarrow>
        enqueue cfg (\<lambda>_ x. x) fault now eco name ver prio False rs =
          (rs @ [new_row (next_id rs) now (eco, name, ver) prio],
           Inr (Some (new_row (next_id rs) now (eco, name, ver) prio)))) \<and>
     ((\<forall>i. \<exists>m. fault i = Some m \<and> is_deadlock m) \<longrightarrow>
        enqueue cfg (\<lambda>_ x. x) fault now eco name ver prio False rs = (rs, Inr None)))"
proof (intro conjI ballI impI allI)
  fix r assume r: "r \<in> set rs" and k: "sq_key r = (eco, name, ver)"
  have inv: "distinct (map sq_key rs)" "distinct (map sq_id rs)" "row_ok a r"
    using assms r by (auto simp: scanq_inv_def)
  have fd: "find (\<lambda>x. sq_key x = (eco, name, ver)) rs = Some r"
    using find_distinct_key [OF inv(1) r] k by simp
  have st: "sq_status r \<in> {Pending, Claimed, Done, Failed}"
    using inv(3) by (cases "sq_status r") (auto simp: row_ok_def)
  have upd: "upd_row (sq_id r) (requeue_row False prio) rs = update_where (\<lambda>x. sq_id x = sq_id r) (\<lambda>_. requeue_row False prio r) rs"
    unfolding upd_row_def update_where_def using scanq.same_row [OF inv(2) _ r] by (intro map_cong) force+
  have eq: "enqueue cfg env fault now eco name ver prio False rs =
      (update_where (\<lambda>x. sq_id x = sq_id r) (\<lambda>_. requeue_row False prio r) rs, Inr (Some (requeue_row False prio r)))"
    using st by (simp add: enqueue_def fd upd)
  show "\<exists>r'. enqueue cfg env fault now eco name ver prio False rs =
        (update_where (\<lambda>x. sq_id x = sq_id r) (\<lambda>_. r') rs, Inr (Some r')) \<and>
        sq_key r' = sq_key r \<and> prio_order (sq_priority r') \<le> prio_order (sq_priority r) \<and>
        (sq_status r = Done \<or> sq_status r = Failed \<and> 3 \<le> sq_attempts r \<longrightarrow> r' = r) \<and>
        (sq_status r = Failed \<and> sq_attempts r < 3 \<longrightarrow> sq_status r' = Pending \<and> sq_attempts r' = sq_attempts r) \<and>
        (sq_status r \<in> {Pending, Claimed} \<longrightarrow> sq_status r' = sq_status r \<and>
           prio_order (sq_priority r') = min (prio_order prio) (prio_order (sq_priority r)))"
    by (rule exI [of _ "requeue_row False prio r"], intro conjI eq)
      (auto simp: requeue_row_def bump_priority_def reset_row_def max_auto_attempts_def sq_key_def)
next
  fix j assume n: "(eco, name, ver) \<notin> sq_key ` set rs" and j: "j \<le> qc_deadlock_retries cfg"
    and f: "fault j = None \<and> (\<forall>i < j. \<exists>m. fault i = Some m \<and> is_deadlock m)"
  show "enqueue cfg (\<lambda>_ x. x) fault now eco name ver prio False rs =
          (rs @ [new_row (next_id rs) now (eco, name, ver) prio],
           Inr (Some (new_row (next_id rs) now (eco, name, ver) prio)))"
    unfolding enqueue_absent [OF n] using f n by (intro enqueue_insert_retry [OF _ j]) simp_all
next
  assume n: "(eco, name, ver) \<notin> sq_key ` set rs" and f: "\<forall>i. \<exists>m. fault i = Some m \<and> is_deadlock m"
  show "enqueue cfg (\<lambda>_ x. x) fault now eco name ver prio False rs = (rs, Inr None)"
    unfolding enqueue_absent [OF n] by (rule enqueue_insert_giveup [OF f])
qed

theorem enqueue_dedup_witness:
  "enqueue default_queue_cfg (\<lambda>_ x. x) (\<lambda>i. if i < 2 then Some ''deadlock detected'' else None) 7
     ''npm'' ''a'' ''1'' High False [] =
   ([new_row 1 7 (''npm'', ''a'', ''1'') High], Inr (Some (new_row 1 7 (''npm'', ''a'', ''1'') High)))"
proof -
  have d: "is_deadlock ''deadlock detected''" by code_simp
  show ?thesis
    using enqueue_dedup [OF scanq_inv_Nil [of True], where cfg = default_queue_cfg and eco = "''npm''" and name = "''a''"
        and ver = "''1''" and prio = High and now = 7
        and fault = "\<lambda>i. if i < 2 then Some ''deadlock detected'' else None", THEN conjunct2]
      d by (auto simp: default_queue_cfg_def next_id_def dest: spec [of _ 2])
qed

end
