(* ===== verification/DetonationQueue.thy ===== *)
theory DetonationQueue
  imports JobQueue Score
begin

text \<open>
  The detonation queue: \<^verbatim>\<open>store/models.py\<close> (class \<^verbatim>\<open>DetonationQueue\<close>),
  \<^verbatim>\<open>detonation_queue.py\<close> and the failure handling of \<^verbatim>\<open>detonation_worker.py\<close>. The shuffled order
  of the ecosystems is an argument. The second interpretation of \<open>claim_table\<close> is here.
\<close>

record det_row =
  dq_id :: nat
  dq_scan_id :: nat
  dq_version_id :: nat
  dq_ecosystem :: ecosystem
  dq_name :: string
  dq_version :: string
  dq_archive_kind :: string
  dq_priority :: priority
  dq_status :: job_status
  dq_static_verdict :: verdict
  dq_attempts :: nat
  dq_claim_token :: "string option"
  dq_last_error :: "string option"
  dq_enqueued_at :: timestamp
  dq_claimed_at :: "timestamp option"
  dq_finished_at :: "timestamp option"

type_synonym det_rows = "det_row list"

definition det_max_auto_attempts :: nat where
  "det_max_auto_attempts = 3"

definition det_stale_claim_timeout_seconds :: int where
  "det_stale_claim_timeout_seconds = 900"

definition clean_ttl_hours :: int where
  "clean_ttl_hours = 24"

definition clean_backlog_cap :: nat where
  "clean_backlog_cap = 50000"

section \<open>detonation_queue.py\<close>

definition det_next_id :: "det_rows \<Rightarrow> nat" where
  "det_next_id rs = Suc (foldr max (map dq_id rs) 0)"

record det_spec =
  ds_scan_id :: nat
  ds_version_id :: nat
  ds_ecosystem :: ecosystem
  ds_name :: string
  ds_version :: string
  ds_archive_kind :: string
  ds_priority :: priority
  ds_static_verdict :: verdict

definition det_new_row :: "nat \<Rightarrow> timestamp \<Rightarrow> det_spec \<Rightarrow> det_row" where
  "det_new_row i now j = \<lparr>dq_id = i, dq_scan_id = ds_scan_id j, dq_version_id = ds_version_id j,
     dq_ecosystem = ds_ecosystem j, dq_name = ds_name j, dq_version = ds_version j,
     dq_archive_kind = ds_archive_kind j, dq_priority = ds_priority j, dq_status = Pending,
     dq_static_verdict = ds_static_verdict j, dq_attempts = 0, dq_claim_token = None, dq_last_error = None,
     dq_enqueued_at = now, dq_claimed_at = None, dq_finished_at = None\<rparr>"

text \<open>The unique constraint on \<^verbatim>\<open>scan_id\<close> makes the insert raise \<^verbatim>\<open>IntegrityError\<close>.\<close>

definition det_enqueue :: "timestamp \<Rightarrow> det_spec \<Rightarrow> det_rows \<Rightarrow> det_rows \<times> det_row option" where
  "det_enqueue now j rs =
    (if ds_scan_id j \<in> dq_scan_id ` set rs then (rs, None)
     else (let row = det_new_row (det_next_id rs) now j in (rs @ [row], Some row)))"

definition det_claimable :: "priority \<Rightarrow> det_row \<Rightarrow> bool" where
  "det_claimable prio r \<longleftrightarrow> dq_status r = Pending \<and> dq_priority r = prio"

definition det_claim_row :: "string \<Rightarrow> timestamp \<Rightarrow> det_row \<Rightarrow> det_row" where
  "det_claim_row token now r = r\<lparr>dq_status := Claimed, dq_claim_token := Some token, dq_claimed_at := Some now\<rparr>"

definition det_claim_cas :: "string \<Rightarrow> timestamp \<Rightarrow> nat \<Rightarrow> det_rows \<Rightarrow> det_rows \<times> nat" where
  "det_claim_cas token now i rs =
    (update_where (\<lambda>r. dq_id r = i \<and> dq_status r = Pending) (det_claim_row token now) rs,
     count_where (\<lambda>r. dq_id r = i \<and> dq_status r = Pending) rs)"

text \<open>The row a tier selects in one ecosystem: the newest in the best-effort tier, the oldest otherwise.\<close>

definition det_select :: "priority \<Rightarrow> ecosystem \<Rightarrow> det_rows \<Rightarrow> det_row option" where
  "det_select prio eco rs =
    (let cand = filter (\<lambda>r. det_claimable prio r \<and> dq_ecosystem r = eco) rs
     in if prio = Low then max_by dq_enqueued_at cand else min_by dq_enqueued_at cand)"

fun det_claim_ecos :: "det_row interference \<Rightarrow> string \<Rightarrow> timestamp \<Rightarrow> priority \<Rightarrow> ecosystem list \<Rightarrow>
    nat \<Rightarrow> det_rows \<Rightarrow> nat \<times> det_rows \<times> det_row option" where
  "det_claim_ecos itf token now prio [] k rs = (k, rs, None)"
| "det_claim_ecos itf token now prio (eco # ecos) k rs =
    (let rs1 = itf_env itf k rs in
     case det_select prio eco (itf_view itf k rs1) of
       None \<Rightarrow> det_claim_ecos itf token now prio ecos (Suc k) rs1
     | Some row \<Rightarrow>
         (let rs2 = itf_env itf (Suc k) rs1;
              (rs3, rowcount) = det_claim_cas token now (dq_id row) rs2
          in if rowcount = 1 then (Suc (Suc k), rs3, find (\<lambda>r. dq_id r = dq_id row) rs3)
             else det_claim_ecos itf token now prio ecos (Suc (Suc k)) rs3))"

text \<open>\<open>shuffle\<close> is what \<^verbatim>\<open>random.shuffle\<close> makes of the list of ecosystems.\<close>

fun det_claim_prios :: "det_row interference \<Rightarrow> (ecosystem list \<Rightarrow> ecosystem list) \<Rightarrow> string \<Rightarrow> timestamp \<Rightarrow>
    priority list \<Rightarrow> nat \<Rightarrow> det_rows \<Rightarrow> det_rows \<times> det_row option" where
  "det_claim_prios itf shuffle token now [] k rs = (rs, None)"
| "det_claim_prios itf shuffle token now (prio # prios) k rs =
    (let rs1 = itf_env itf k rs;
         ecosystems = nub (map dq_ecosystem (filter (det_claimable prio) (itf_view itf k rs1)))
     in if ecosystems = [] then det_claim_prios itf shuffle token now prios (Suc k) rs1
        else (case det_claim_ecos itf token now prio (shuffle ecosystems) (Suc k) rs1 of
            (k2, rs2, Some row) \<Rightarrow> (rs2, Some row)
          | (k2, rs2, None) \<Rightarrow> det_claim_prios itf shuffle token now prios k2 rs2))"

definition det_claim_next :: "det_row interference \<Rightarrow> (ecosystem list \<Rightarrow> ecosystem list) \<Rightarrow> string \<Rightarrow> timestamp \<Rightarrow>
    det_rows \<Rightarrow> det_rows \<times> (det_row \<times> string) option" where
  "det_claim_next itf shuffle token now rs =
    (case det_claim_prios itf shuffle token now [High, Normal, Low] 0 rs of
       (rs', res) \<Rightarrow> (rs', map_option (\<lambda>row. (row, token)) res))"

definition det_upd_row :: "nat \<Rightarrow> (det_row \<Rightarrow> det_row) \<Rightarrow> det_rows \<Rightarrow> det_rows" where
  "det_upd_row i f rs = update_where (\<lambda>r. dq_id r = i) f rs"

definition det_mark_row :: "(det_row \<Rightarrow> det_row) \<Rightarrow> nat \<Rightarrow> string option \<Rightarrow> det_rows \<Rightarrow> det_rows \<times> bool" where
  "det_mark_row f i token rs =
    (case find (\<lambda>r. dq_id r = i) rs of
       None \<Rightarrow> (rs, False)
     | Some row \<Rightarrow> (if token = None \<or> dq_claim_token row = token then (det_upd_row i f rs, True) else (rs, False)))"

definition det_done_row :: "timestamp \<Rightarrow> det_row \<Rightarrow> det_row" where
  "det_done_row now r = r\<lparr>dq_status := Done, dq_finished_at := Some now\<rparr>"

definition det_failed_row :: "timestamp \<Rightarrow> string \<Rightarrow> det_row \<Rightarrow> det_row" where
  "det_failed_row now err r = r\<lparr>dq_status := Failed, dq_last_error := Some err, dq_finished_at := Some now\<rparr>"

definition det_mark_done :: "timestamp \<Rightarrow> nat \<Rightarrow> string option \<Rightarrow> det_rows \<Rightarrow> det_rows \<times> bool" where
  "det_mark_done now i token rs = det_mark_row (det_done_row now) i token rs"

definition det_mark_failed :: "timestamp \<Rightarrow> string \<Rightarrow> nat \<Rightarrow> string option \<Rightarrow> det_rows \<Rightarrow> det_rows \<times> bool" where
  "det_mark_failed now err i token rs = det_mark_row (det_failed_row now err) i token rs"

definition det_stale :: "timestamp \<Rightarrow> det_row \<Rightarrow> bool" where
  "det_stale now r \<longleftrightarrow> dq_status r = Claimed \<and>
     (case dq_claimed_at r of None \<Rightarrow> False | Some t \<Rightarrow> t < now - seconds det_stale_claim_timeout_seconds)"

definition det_sweep_row :: "timestamp \<Rightarrow> det_row \<Rightarrow> det_row" where
  "det_sweep_row now r =
    (if det_max_auto_attempts \<le> dq_attempts r
     then r\<lparr>dq_status := Failed, dq_last_error := Some ''claim_timeout'', dq_finished_at := Some now\<rparr>
     else r\<lparr>dq_status := Pending, dq_claimed_at := None, dq_claim_token := None\<rparr>)"

definition det_sweep_stale_claims :: "timestamp \<Rightarrow> det_rows \<Rightarrow> det_rows \<times> nat" where
  "det_sweep_stale_claims now rs =
    (update_where (det_stale now) (det_sweep_row now) rs, count_where (det_stale now) rs)"

definition pending_low :: "det_row \<Rightarrow> bool" where
  "pending_low r \<longleftrightarrow> dq_status r = Pending \<and> dq_priority r = Low"

definition expire_row :: "timestamp \<Rightarrow> det_row \<Rightarrow> det_row" where
  "expire_row now r = r\<lparr>dq_status := Expired, dq_finished_at := Some now\<rparr>"

definition expire_stale_clean :: "timestamp \<Rightarrow> int \<Rightarrow> nat \<Rightarrow> det_rows \<Rightarrow> det_rows \<times> nat" where
  "expire_stale_clean now ttl_hours cap rs =
    (let cutoff = now - hours ttl_hours;
         old = (\<lambda>r. pending_low r \<and> dq_enqueued_at r < cutoff);
         expired = count_where old rs;
         rs1 = update_where old (expire_row now) rs;
         remaining = count_where pending_low rs1
     in if cap < remaining then
          (let ids = map dq_id (take (remaining - cap) (sort_key dq_enqueued_at (filter pending_low rs1)))
           in (update_where (\<lambda>r. dq_id r \<in> set ids) (expire_row now) rs1,
               expired + count_where (\<lambda>r. dq_id r \<in> set ids) rs1))
        else (rs1, expired))"

section \<open>Failure handling in detonation_worker.py\<close>

definition detonation_process_timeout :: int where
  "detonation_process_timeout = 300"

text \<open>\<^verbatim>\<open>_mark_failed(job, reason)\<close>.\<close>

definition worker_mark_failed :: "timestamp \<Rightarrow> nat \<Rightarrow> string \<Rightarrow> string \<Rightarrow> det_rows \<Rightarrow> det_rows" where
  "worker_mark_failed now i token reason rs = fst (det_mark_failed now (take 4000 reason) i (Some token) rs)"

definition retry_row :: "timestamp \<Rightarrow> string \<Rightarrow> det_row \<Rightarrow> det_row" where
  "retry_row now reason r =
    (let r1 = r\<lparr>dq_attempts := dq_attempts r + 1\<rparr> in
     if det_max_auto_attempts \<le> dq_attempts r1
     then r1\<lparr>dq_status := Failed, dq_last_error := Some (take 4000 reason), dq_finished_at := Some now\<rparr>
     else r1\<lparr>dq_status := Pending, dq_claim_token := None, dq_claimed_at := None\<rparr>)"

definition requeue_or_fail :: "timestamp \<Rightarrow> nat \<Rightarrow> string \<Rightarrow> string \<Rightarrow> det_rows \<Rightarrow> det_rows" where
  "requeue_or_fail now i token reason rs =
    (case find (\<lambda>r. dq_id r = i) rs of
       None \<Rightarrow> rs
     | Some q \<Rightarrow>
         (if dq_status q \<noteq> Claimed \<or> dq_claim_token q \<noteq> Some token then rs
          else det_upd_row i (retry_row now reason) rs))"

section \<open>The claim contract\<close>

lemma dq_id_updates [simp]:
  "dq_id (det_claim_row t now r) = dq_id r" "dq_id (det_done_row now r) = dq_id r"
  "dq_id (det_failed_row now e r) = dq_id r" "dq_id (det_sweep_row now r) = dq_id r"
  "dq_id (expire_row now r) = dq_id r" "dq_id (retry_row now e r) = dq_id r"
  by (simp_all add: det_claim_row_def det_done_row_def det_failed_row_def det_sweep_row_def expire_row_def
      retry_row_def Let_def)

lemma dq_scan_id_updates [simp]:
  "dq_scan_id (det_claim_row t now r) = dq_scan_id r" "dq_scan_id (det_done_row now r) = dq_scan_id r"
  "dq_scan_id (det_failed_row now e r) = dq_scan_id r" "dq_scan_id (det_sweep_row now r) = dq_scan_id r"
  "dq_scan_id (expire_row now r) = dq_scan_id r" "dq_scan_id (retry_row now e r) = dq_scan_id r"
  by (simp_all add: det_claim_row_def det_done_row_def det_failed_row_def det_sweep_row_def expire_row_def
      retry_row_def Let_def)

lemma det_claim_row_simps [simp]:
  "dq_status (det_claim_row t now r) = Claimed" "dq_claim_token (det_claim_row t now r) = Some t"
  by (simp_all add: det_claim_row_def)

lemma det_mark_row_foreign:
  assumes "\<And>r. r \<in> set rs \<Longrightarrow> dq_id r = i \<Longrightarrow> dq_claim_token r \<noteq> Some t"
  shows "det_mark_row f i (Some t) rs = (rs, False)"
  using assms by (auto simp: det_mark_row_def split: option.splits dest: find_SomeD)

interpretation detq: claim_table dq_id dq_status dq_claim_token det_claim_cas det_mark_done
  "\<lambda>now rs. fst (det_sweep_stale_claims now rs)"
proof (unfold_locales, goal_cases)
  case (1 t now i rs)
  then show ?case by (simp add: det_claim_cas_def map_update_where)
next
  case (2 t now i rs)
  then show ?case by (simp add: det_claim_cas_def)
next
  case (3 r t now i rs)
  then obtain x where "x \<in> set rs"
      "r = (if dq_id x = i \<and> dq_status x = Pending then det_claim_row t now x else x)"
    by (auto simp: det_claim_cas_def in_update_where)
  then show ?case by (cases "dq_id x = i \<and> dq_status x = Pending") simp_all
next
  case (4 rs i t now)
  then show ?case by (simp add: det_mark_done_def det_mark_row_foreign)
next
  case (5 now rs)
  then show ?case by (simp add: det_sweep_stale_claims_def map_update_where)
next
  case (6 r now rs)
  then show ?case by (auto simp: det_sweep_stale_claims_def in_update_where det_sweep_row_def split: if_splits)
qed

lemma det_claim_cas_none: "snd (det_claim_cas t now i rs) = 0 \<Longrightarrow> fst (det_claim_cas t now i rs) = rs"
  by (auto simp: det_claim_cas_def count_where_0 intro: update_where_none)

lemma det_claim_ecos_ok:
  assumes "keeps_ids dq_id itf"
  shows "distinct (map dq_id rs) \<Longrightarrow> det_claim_ecos itf t now prio ecos k rs = (k', rs', res) \<Longrightarrow>
    claim_outcome dq_id det_claim_cas itf t now rs rs' res"
proof (induction ecos arbitrary: k rs)
  case Nil
  then show ?case by (auto intro: claim_outcome_NoneI env_reach.intros)
next
  case (Cons eco ecos)
  let ?rs1 = "itf_env itf k rs" and ?rs2 = "itf_env itf (Suc k) (itf_env itf k rs)"
  have r1: "env_reach itf rs ?rs1" and r2: "env_reach itf rs ?rs2"
    by (intro env_reach.intros)+
  have d1: "distinct (map dq_id ?rs1)" and d2: "distinct (map dq_id ?rs2)"
    using env_reach_distinct [OF r1 assms Cons.prems(1)] env_reach_distinct [OF r2 assms Cons.prems(1)] .
  show ?case
  proof (cases "det_select prio eco (itf_view itf k ?rs1)")
    case None
    then have "det_claim_ecos itf t now prio ecos (Suc k) ?rs1 = (k', rs', res)"
      using Cons.prems(2) by (simp add: Let_def)
    from claim_outcome_trans [OF r1 Cons.IH [OF d1 this]] show ?thesis .
  next
    case (Some row)
    show ?thesis
    proof (cases "snd (det_claim_cas t now (dq_id row) ?rs2) = 1")
      case True
      then have "res = find (\<lambda>x. dq_id x = dq_id row) (fst (det_claim_cas t now (dq_id row) ?rs2))"
          "rs' = fst (det_claim_cas t now (dq_id row) ?rs2)"
        using Cons.prems(2) Some by (auto simp: Let_def split: prod.splits)
      with detq.claim_outcome_cas [OF r2 d2 True] show ?thesis by simp
    next
      case False
      then have "fst (det_claim_cas t now (dq_id row) ?rs2) = ?rs2"
        using detq.cas_rowcount [OF d2] by (intro det_claim_cas_none) simp
      then have "det_claim_ecos itf t now prio ecos (Suc (Suc k)) ?rs2 = (k', rs', res)"
        using Cons.prems(2) Some False by (auto simp: Let_def split: prod.splits)
      from claim_outcome_trans [OF r2 Cons.IH [OF d2 this]] show ?thesis .
    qed
  qed
qed

lemma det_claim_prios_ok:
  assumes "keeps_ids dq_id itf"
  shows "distinct (map dq_id rs) \<Longrightarrow> det_claim_prios itf shuffle t now prios k rs = (rs', res) \<Longrightarrow>
    claim_outcome dq_id det_claim_cas itf t now rs rs' res"
proof (induction prios arbitrary: k rs)
  case Nil
  then show ?case by (auto intro: claim_outcome_NoneI env_reach.intros)
next
  case (Cons prio prios)
  let ?rs1 = "itf_env itf k rs"
  let ?ecos = "nub (map dq_ecosystem (filter (det_claimable prio) (itf_view itf k ?rs1)))"
  have r1: "env_reach itf rs ?rs1" by (rule env_reach_one)
  have d1: "distinct (map dq_id ?rs1)" by (rule env_reach_distinct [OF r1 assms Cons.prems(1)])
  show ?case
  proof (cases "?ecos = []")
    case True
    then have "det_claim_prios itf shuffle t now prios (Suc k) ?rs1 = (rs', res)"
      using Cons.prems(2) by (simp add: Let_def)
    from claim_outcome_trans [OF r1 Cons.IH [OF d1 this]] show ?thesis .
  next
    case False
    obtain k2 rs2 res2 where c: "det_claim_ecos itf t now prio (shuffle ?ecos) (Suc k) ?rs1 = (k2, rs2, res2)"
      by (metis prod_cases3)
    have ok: "claim_outcome dq_id det_claim_cas itf t now rs rs2 res2"
      by (rule claim_outcome_trans [OF r1 det_claim_ecos_ok [OF assms d1 c]])
    show ?thesis
    proof (cases res2)
      case None
      with ok have r: "env_reach itf rs rs2" by (simp add: claim_outcome_def)
      have "det_claim_prios itf shuffle t now prios k2 rs2 = (rs', res)"
        using Cons.prems(2) False c None by (simp add: Let_def)
      from claim_outcome_trans [OF r Cons.IH [OF env_reach_distinct [OF r assms Cons.prems(1)] this]]
      show ?thesis .
    next
      case (Some row)
      with Cons.prems(2) False c ok show ?thesis by (simp add: Let_def)
    qed
  qed
qed

section \<open>Life cycle of a job\<close>

definition det_row_ok :: "det_row \<Rightarrow> bool" where
  "det_row_ok r \<longleftrightarrow>
    (case dq_status r of
       Pending \<Rightarrow> dq_claim_token r = None \<and> dq_claimed_at r = None \<and> dq_attempts r < det_max_auto_attempts
     | Claimed \<Rightarrow> dq_claim_token r \<noteq> None \<and> dq_claimed_at r \<noteq> None \<and> dq_attempts r < det_max_auto_attempts
     | Done \<Rightarrow> dq_finished_at r \<noteq> None
     | Failed \<Rightarrow> dq_finished_at r \<noteq> None
     | Expired \<Rightarrow> dq_finished_at r \<noteq> None) \<and>
    dq_attempts r \<le> det_max_auto_attempts"

definition detq_inv :: "det_rows \<Rightarrow> bool" where
  "detq_inv rs \<longleftrightarrow> distinct (map dq_id rs) \<and> distinct (map dq_scan_id rs) \<and> (\<forall>r \<in> set rs. det_row_ok r)"

inductive det_step :: "det_rows \<Rightarrow> det_rows \<Rightarrow> bool" where
  dst_enqueue: "det_step rs (fst (det_enqueue now j rs))"
| dst_claim: "det_step rs (fst (det_claim_cas t now i rs))"
| dst_done: "det_step rs (fst (det_mark_done now i tk rs))"
| dst_failed: "det_step rs (fst (det_mark_failed now err i tk rs))"
| dst_requeue: "det_step rs (requeue_or_fail now i t reason rs)"
| dst_sweep: "det_step rs (fst (det_sweep_stale_claims now rs))"
| dst_expire: "det_step rs (fst (expire_stale_clean now ttl cap rs))"

inductive det_reach :: "det_rows \<Rightarrow> bool" where
  det_init: "det_reach []"
| det_next: "det_reach rs \<Longrightarrow> det_step rs rs' \<Longrightarrow> det_reach rs'"

lemma det_next_id_fresh: "det_next_id rs \<notin> dq_id ` set rs"
proof
  assume "det_next_id rs \<in> dq_id ` set rs"
  moreover have "r \<in> set rs \<Longrightarrow> dq_id r \<le> foldr max (map dq_id rs) 0" for r
    by (induction rs) (auto simp: le_max_iff_disj)
  ultimately show False by (fastforce simp: det_next_id_def)
qed

lemma detq_inv_update:
  assumes "detq_inv rs" and "\<And>r. r \<in> set rs \<Longrightarrow> p r \<Longrightarrow> det_row_ok (f r)"
    and "\<And>r. dq_id (f r) = dq_id r" and "\<And>r. dq_scan_id (f r) = dq_scan_id r"
  shows "detq_inv (update_where p f rs)"
  using assms unfolding detq_inv_def by (auto simp: map_update_where in_update_where)

lemma det_row_ok_attempts: "det_row_ok r \<Longrightarrow> dq_attempts r \<le> det_max_auto_attempts"
  by (simp add: det_row_ok_def)

lemma det_row_ok_terminal:
  "dq_attempts r \<le> det_max_auto_attempts \<Longrightarrow> dq_status r \<in> {Done, Failed, Expired} \<Longrightarrow> dq_finished_at r \<noteq> None \<Longrightarrow> det_row_ok r"
  by (auto simp: det_row_ok_def)

lemma det_row_ok_finish:
  assumes "det_row_ok r"
  shows "det_row_ok (det_done_row now r)" "det_row_ok (det_failed_row now e r)" "det_row_ok (expire_row now r)"
  using det_row_ok_attempts [OF assms]
  by (auto intro!: det_row_ok_terminal simp: det_done_row_def det_failed_row_def expire_row_def)

lemma det_row_ok_claim: "dq_status r = Pending \<Longrightarrow> det_row_ok r \<Longrightarrow> det_row_ok (det_claim_row t now r)"
  by (auto simp: det_row_ok_def det_claim_row_def)

lemma det_row_ok_sweep: "det_stale now r \<Longrightarrow> det_row_ok r \<Longrightarrow> det_row_ok (det_sweep_row now r)"
  by (auto simp: det_row_ok_def det_sweep_row_def det_stale_def)

lemma det_row_ok_retry: "dq_status r = Claimed \<Longrightarrow> det_row_ok r \<Longrightarrow> det_row_ok (retry_row now e r)"
  by (auto simp: det_row_ok_def retry_row_def Let_def)

lemma detq_inv_mark:
  assumes "detq_inv rs" and "\<And>r. det_row_ok r \<Longrightarrow> det_row_ok (f r)"
    and "\<And>r. dq_id (f r) = dq_id r" and "\<And>r. dq_scan_id (f r) = dq_scan_id r"
  shows "detq_inv (fst (det_mark_row f i tk rs))"
proof -
  have "detq_inv (det_upd_row i f rs)"
    unfolding det_upd_row_def using assms by (intro detq_inv_update) (auto simp: detq_inv_def)
  with assms(1) show ?thesis by (auto simp: det_mark_row_def split: option.splits)
qed

lemma detq_inv_expire:
  assumes "detq_inv rs"
  shows "detq_inv (fst (expire_stale_clean now ttl cap rs))"
proof -
  have u: "detq_inv (update_where p (expire_row now) ts)" if "detq_inv ts" for p ts
    using that by (intro detq_inv_update) (auto simp: detq_inv_def det_row_ok_finish)
  show ?thesis using assms by (auto simp: expire_stale_clean_def Let_def intro!: u)
qed

lemma detq_inv_requeue:
  assumes "detq_inv rs"
  shows "detq_inv (requeue_or_fail now i t reason rs)"
proof (cases "find (\<lambda>r. dq_id r = i) rs")
  case None
  then show ?thesis using assms by (simp add: requeue_or_fail_def)
next
  case (Some q)
  have q: "q \<in> set rs" "dq_id q = i" using find_SomeD [OF Some] by auto
  have "detq_inv (det_upd_row i (retry_row now reason) rs)" if "dq_status q = Claimed"
    unfolding det_upd_row_def
  proof (rule detq_inv_update [OF assms])
    fix r assume "r \<in> set rs" "dq_id r = i"
    moreover have "distinct (map dq_id rs)" using assms by (simp add: detq_inv_def)
    ultimately have "r = q" using detq.same_row q by blast
    with that assms q(1) show "det_row_ok (retry_row now reason r)"
      by (intro det_row_ok_retry) (auto simp: detq_inv_def)
  qed simp_all
  then show ?thesis using assms Some by (simp add: requeue_or_fail_def)
qed

lemma detq_inv_step: "det_step rs rs' \<Longrightarrow> detq_inv rs \<Longrightarrow> detq_inv rs'"
proof (induction rule: det_step.induct)
  case (dst_enqueue rs now j)
  have "det_row_ok (det_new_row (det_next_id rs) now j)"
    by (simp add: det_row_ok_def det_new_row_def det_max_auto_attempts_def)
  with dst_enqueue det_next_id_fresh [of rs] show ?case
    by (auto simp: det_enqueue_def Let_def detq_inv_def det_new_row_def)
next
  case (dst_claim rs t now i)
  have "det_row_ok (det_claim_row t now r)" if "r \<in> set rs" "dq_id r = i \<and> dq_status r = Pending" for r
    using dst_claim that by (intro det_row_ok_claim) (auto simp: detq_inv_def)
  with dst_claim show ?case unfolding det_claim_cas_def fst_conv by (intro detq_inv_update) auto
next
  case (dst_done rs now i tk)
  then show ?case unfolding det_mark_done_def by (intro detq_inv_mark) (simp_all add: det_row_ok_finish)
next
  case (dst_failed rs now err i tk)
  then show ?case unfolding det_mark_failed_def by (intro detq_inv_mark) (simp_all add: det_row_ok_finish)
next
  case (dst_requeue rs now i t reason)
  then show ?case by (rule detq_inv_requeue)
next
  case (dst_sweep rs now)
  have "det_row_ok (det_sweep_row now r)" if "r \<in> set rs" "det_stale now r" for r
    using dst_sweep that by (intro det_row_ok_sweep) (auto simp: detq_inv_def)
  with dst_sweep show ?case unfolding det_sweep_stale_claims_def fst_conv by (intro detq_inv_update) auto
next
  case (dst_expire rs now ttl cap)
  then show ?case by (rule detq_inv_expire)
qed

lemma detq_inv_Nil: "detq_inv []"
  by (simp add: detq_inv_def)

lemma detq_inv_reach: "det_reach rs \<Longrightarrow> detq_inv rs"
  by (induction rule: det_reach.induct) (auto intro: detq_inv_step detq_inv_Nil)

section \<open>The clean backlog\<close>

lemma count_pending_low_expire:
  "filter pending_low (update_where p (expire_row now) rs) = filter (\<lambda>r. pending_low r \<and> \<not> p r) rs"
  by (induction rs) (auto simp: pending_low_def expire_row_def)

lemma expire_keeps_row:
  "r \<in> set rs \<Longrightarrow> \<not> p r \<Longrightarrow> r \<in> set (update_where p (expire_row now) rs)"
  by (auto simp: in_update_where)

text \<open>The rows the second, capping update leaves pending: the newest \<open>cap\<close> of the pending clean rows.\<close>

lemma capped_survivors:
  assumes "distinct (map dq_id rs)" and "cap < count_where pending_low rs"
  shows "mset (filter pending_low (update_where (\<lambda>r. dq_id r \<in> dq_id ` set (take (count_where pending_low rs - cap)
            (sort_key dq_enqueued_at (filter pending_low rs)))) (expire_row now) rs)) =
         mset (drop (count_where pending_low rs - cap) (sort_key dq_enqueued_at (filter pending_low rs)))"
proof -
  have d: "distinct (map dq_id (filter pending_low rs))" using assms(1) by (rule distinct_map_filterI)
  show ?thesis
    unfolding count_pending_low_expire
    using filter_kept_sort [OF d, of "count_where pending_low rs - cap" dq_enqueued_at]
    by (simp add: conj_commute)
qed

lemma capped_table:
  fixes rs :: det_rows and now :: timestamp and cap :: nat
  defines "n \<equiv> count_where pending_low rs - cap"
  defines "S \<equiv> sort_key dq_enqueued_at (filter pending_low rs)"
  defines "ts \<equiv> update_where (\<lambda>r. dq_id r \<in> dq_id ` set (take n S)) (expire_row now) rs"
  assumes "distinct (map dq_id rs)" and "cap < count_where pending_low rs"
  shows "count_where pending_low ts = cap"
    and "\<And>r. r \<in> set rs \<Longrightarrow> \<not> pending_low r \<Longrightarrow> r \<in> set ts"
    and "\<And>r. r \<in> set ts \<Longrightarrow> pending_low r \<Longrightarrow> r \<in> set rs"
    and "\<And>r s. r \<in> set rs \<Longrightarrow> pending_low r \<Longrightarrow> r \<notin> set ts \<Longrightarrow> s \<in> set ts \<Longrightarrow> pending_low s \<Longrightarrow>
      dq_enqueued_at r \<le> dq_enqueued_at s"
proof -
  have surv: "mset (filter pending_low ts) = mset (drop n S)"
    unfolding n_def S_def ts_def by (rule capped_survivors [OF assms(4,5)])
  have len: "length S = count_where pending_low rs" by (simp add: S_def count_where_def)
  have "count_where pending_low ts = length (drop n S)"
    using arg_cong [OF surv, of size] unfolding size_mset count_where_def .
  then show "count_where pending_low ts = cap" using assms(5) by (simp add: n_def len)
  have setS: "set S = {r \<in> set rs. pending_low r}" by (auto simp: S_def)
  have low: "r \<in> set ts \<and> pending_low r \<longleftrightarrow> r \<in> set (drop n S)" for r
    using mset_eq_setD [OF surv] by auto
  show "r \<in> set ts" if r: "r \<in> set rs" "\<not> pending_low r" for r
  proof -
    have "dq_id r \<notin> dq_id ` set (take n S)"
      using detq.same_row [OF assms(4) r(1)] r(2) set_take_subset [of n S] setS by blast
    then show ?thesis unfolding ts_def by (rule expire_keeps_row [OF r(1)])
  qed
  show "r \<in> set rs" if "r \<in> set ts" "pending_low r" for r
    using low [of r] that set_drop_subset [of n S] setS by blast
  show "dq_enqueued_at r \<le> dq_enqueued_at s"
    if r: "r \<in> set rs" "pending_low r" "r \<notin> set ts" and s: "s \<in> set ts" "pending_low s" for r s
  proof -
    have "r \<in> set (take n S @ drop n S)" using r setS by simp
    then have t: "r \<in> set (take n S)" using low [of r] r(3) by (simp del: append_take_drop_id)
    have "sorted (map dq_enqueued_at (take n S @ drop n S))" by (simp add: S_def)
    with t low [of s] s show ?thesis by (simp add: sorted_append del: append_take_drop_id)
  qed
qed

section \<open>Properties\<close>

text \<open>C32. Detonation jobs are claimed exclusively under any interleaving with other transactions: if
  \<open>det_claim_next\<close> returns a job, a pending row was turned into it by one update of the table the others
  had left; it is claimed with the caller's token, a second claim of it updates nothing, and it cannot be
  finished with another token.\<close>

theorem det_claim_next_exclusive:
  assumes "keeps_ids dq_id itf" and "distinct (map dq_id rs)"
    and "det_claim_next itf shuffle token now rs = (rs', Some (row, t))"
  shows "t = token \<and> dq_status row = Claimed \<and> dq_claim_token row = Some token \<and>
    (\<exists>rs0 r0. env_reach itf rs rs0 \<and> r0 \<in> set rs0 \<and> dq_status r0 = Pending \<and> dq_id r0 = dq_id row \<and>
       rs' = fst (det_claim_cas token now (dq_id row) rs0)) \<and>
    snd (det_claim_cas token' now' (dq_id row) rs') = 0 \<and>
    (token' \<noteq> token \<longrightarrow> det_mark_done now' (dq_id row) (Some token') rs' = (rs', False))"
proof -
  from assms(3) have t: "t = token" and c: "det_claim_prios itf shuffle token now [High, Normal, Low] 0 rs = (rs', Some row)"
    by (auto simp: det_claim_next_def split: prod.splits)
  from detq.claimed_row [OF assms(1,2) det_claim_prios_ok [OF assms(1,2) c]] obtain rs0 r0 where
    r0: "env_reach itf rs rs0" "r0 \<in> set rs0" "dq_status r0 = Pending" "dq_id r0 = dq_id row"
      "rs' = fst (det_claim_cas token now (dq_id row) rs0)" "dq_status row = Claimed" "dq_claim_token row = Some token"
    and d: "distinct (map dq_id rs0)" "0 < snd (det_claim_cas token now (dq_id row) rs0)"
    by auto
  have "snd (det_claim_cas token' now' (dq_id row) rs') = 0"
    unfolding r0(5) by (rule detq.cas_exclusive [OF d])
  moreover have "token' \<noteq> token \<longrightarrow> det_mark_done now' (dq_id row) (Some token') rs' = (rs', False)"
    unfolding r0(5) using detq.cas_then_foreign_mark [OF d] by simp
  moreover have "\<exists>rs0 r0. env_reach itf rs rs0 \<and> r0 \<in> set rs0 \<and> dq_status r0 = Pending \<and> dq_id r0 = dq_id row \<and>
       rs' = fst (det_claim_cas token now (dq_id row) rs0)"
    by (intro exI [of _ rs0] exI [of _ r0] conjI r0(1-5))
  ultimately show ?thesis using t r0(6,7) by simp
qed

definition demo_spec :: det_spec where
  "demo_spec = \<lparr>ds_scan_id = 1, ds_version_id = 1, ds_ecosystem = ''npm'', ds_name = ''a'', ds_version = ''1'',
     ds_archive_kind = ''tgz'', ds_priority = Low, ds_static_verdict = Clean\<rparr>"

definition demo_job :: "nat \<Rightarrow> timestamp \<Rightarrow> det_row" where
  "demo_job i tm = det_new_row i tm (demo_spec\<lparr>ds_scan_id := i\<rparr>)"

lemma det_demo_run: "det_claim_next quiet rev ''me'' 9 [demo_job 1 3, demo_job 2 5] =
    (fst (det_claim_cas ''me'' 9 2 [demo_job 1 3, demo_job 2 5]), Some (det_claim_row ''me'' 9 (demo_job 2 5), ''me''))"
  by code_simp

theorem det_claim_next_exclusive_witness:
  "snd (det_claim_cas ''late'' 10 2 (fst (det_claim_next quiet rev ''me'' 9 [demo_job 1 3, demo_job 2 5]))) = 0"
proof -
  have k: "keeps_ids dq_id quiet" by (simp add: keeps_ids_def)
  have d: "distinct (map dq_id [demo_job 1 3, demo_job 2 5])" by (simp add: demo_job_def det_new_row_def)
  have i: "dq_id (det_claim_row ''me'' 9 (demo_job 2 5)) = 2" by (simp add: demo_job_def det_new_row_def)
  show ?thesis
    using det_claim_next_exclusive [OF k d det_demo_run, of "''late''" 10]
    unfolding i det_demo_run fst_conv by blast
qed

text \<open>C33. In every state the detonation queue's users can reach from an empty table there is one row per
  scan, a job fails at most three times, and a job that may still run has failed less than three times.
  So the branch of the stale-claim sweep that fails a job is never taken: the sweep only returns
  claims to pending, and the retry budget is spent by failures alone.\<close>

theorem det_retry_budget:
  assumes "det_reach rs"
  shows "distinct (map dq_scan_id rs) \<and>
    (\<forall>r \<in> set rs. dq_attempts r \<le> 3 \<and> (dq_status r \<in> {Pending, Claimed} \<longrightarrow> dq_attempts r < 3)) \<and>
    fst (det_sweep_stale_claims now rs) =
      update_where (det_stale now) (\<lambda>r. r\<lparr>dq_status := Pending, dq_claimed_at := None, dq_claim_token := None\<rparr>) rs"
proof -
  have inv: "detq_inv rs" by (rule detq_inv_reach [OF assms])
  then have b: "dq_attempts r \<le> 3 \<and> (dq_status r \<in> {Pending, Claimed} \<longrightarrow> dq_attempts r < 3)" if "r \<in> set rs" for r
    using that by (auto simp: detq_inv_def det_row_ok_def det_max_auto_attempts_def split: job_status.splits)
  have "det_sweep_row now r = r\<lparr>dq_status := Pending, dq_claimed_at := None, dq_claim_token := None\<rparr>"
    if "r \<in> set rs" "det_stale now r" for r
    using b [OF that(1)] that(2) by (auto simp: det_sweep_row_def det_stale_def det_max_auto_attempts_def)
  then have "fst (det_sweep_stale_claims now rs) =
      update_where (det_stale now) (\<lambda>r. r\<lparr>dq_status := Pending, dq_claimed_at := None, dq_claim_token := None\<rparr>) rs"
    unfolding det_sweep_stale_claims_def fst_conv update_where_def by (intro map_cong) auto
  with b inv show ?thesis by (simp add: detq_inv_def)
qed

lemma det_demo_reach: "det_reach (fst (det_claim_cas ''t'' 5 1 (fst (det_enqueue 3 demo_spec []))))"
  by (intro det_next [OF det_next [OF det_init dst_enqueue] dst_claim])

theorem det_retry_budget_witness:
  "dq_attempts (det_claim_row ''t'' 5 (det_new_row 1 3 demo_spec)) \<le> 3"
proof -
  have "det_claim_row ''t'' 5 (det_new_row 1 3 demo_spec) \<in>
      set (fst (det_claim_cas ''t'' 5 1 (fst (det_enqueue 3 demo_spec []))))"
    by (simp add: det_claim_cas_def det_enqueue_def det_next_id_def det_new_row_def Let_def)
  then show ?thesis using det_retry_budget [OF det_demo_reach] by blast
qed

text \<open>The clean backlog is bounded and nothing else pays for it: after \<open>expire_stale_clean\<close> at most
  \<open>cap\<close> clean jobs are pending, every row that was not a pending clean job is unchanged, no surviving
  clean job is older than the time to live, and each job dropped by the cap is at least as old as every
  survivor.\<close>

theorem expire_bounds_clean_backlog:
  assumes "distinct (map dq_id rs)"
  shows "let rs' = fst (expire_stale_clean now ttl cap rs) in
    count_where pending_low rs' \<le> cap \<and>
    (\<forall>r \<in> set rs. \<not> pending_low r \<longrightarrow> r \<in> set rs') \<and>
    (\<forall>r \<in> set rs'. pending_low r \<longrightarrow> r \<in> set rs \<and> now - hours ttl \<le> dq_enqueued_at r) \<and>
    (\<forall>r \<in> set rs. \<forall>s \<in> set rs'. pending_low r \<and> pending_low s \<and> r \<notin> set rs' \<longrightarrow>
       dq_enqueued_at r \<le> dq_enqueued_at s)"
proof -
  let ?old = "\<lambda>r. pending_low r \<and> dq_enqueued_at r < now - hours ttl"
  let ?rs1 = "update_where ?old (expire_row now) rs"
  let ?n = "count_where pending_low ?rs1"
  let ?S = "sort_key dq_enqueued_at (filter pending_low ?rs1)"
  let ?cut = "\<lambda>r. dq_id r \<in> dq_id ` set (take (?n - cap) ?S)"
  let ?rs2 = "update_where ?cut (expire_row now) ?rs1"
  have d1: "distinct (map dq_id ?rs1)" using assms by (simp add: map_update_where)
  have l1: "filter pending_low ?rs1 = filter (\<lambda>r. pending_low r \<and> now - hours ttl \<le> dq_enqueued_at r) rs"
    unfolding count_pending_low_expire by (rule filter_cong) auto
  have keep: "r \<in> set ?rs1" if "r \<in> set rs" "\<not> ?old r" for r
    using expire_keeps_row [of r rs ?old now] that by simp
  have low1: "r \<in> set rs \<and> now - hours ttl \<le> dq_enqueued_at r" if "r \<in> set ?rs1" "pending_low r" for r
  proof -
    have "r \<in> set (filter pending_low ?rs1)" using that by simp
    then show ?thesis unfolding l1 by simp
  qed
  show ?thesis
  proof (cases "cap < ?n")
    case False
    then have e: "fst (expire_stale_clean now ttl cap rs) = ?rs1"
      by (simp add: expire_stale_clean_def Let_def)
    have age: "dq_enqueued_at r \<le> dq_enqueued_at s"
      if "r \<in> set rs" "s \<in> set ?rs1" "pending_low s" "r \<notin> set ?rs1" for r s
      using keep [OF that(1)] low1 [OF that(2,3)] that(4) by force
    show ?thesis
      unfolding Let_def e using False keep low1 age by simp
  next
    case True
    then have e: "fst (expire_stale_clean now ttl cap rs) = ?rs2"
      by (simp add: expire_stale_clean_def Let_def)
    note c = capped_table [where now = now, OF d1 True]
    have age: "dq_enqueued_at r \<le> dq_enqueued_at s"
      if "r \<in> set rs" "s \<in> set ?rs2" "pending_low r" "pending_low s" "r \<notin> set ?rs2" for r s
    proof (cases "?old r")
      case True
      then show ?thesis using low1 [OF c(3) [OF that(2,4)] that(4)] by simp
    next
      case False
      then show ?thesis using c(4) [OF keep [OF that(1)]] that by blast
    qed
    show ?thesis
      unfolding Let_def e using c(1) c(2) [OF keep] low1 [OF c(3)] age by simp
  qed
qed

theorem expire_bounds_clean_backlog_witness:
  "count_where pending_low (fst (expire_stale_clean 10 24 1 [demo_job 1 3, demo_job 2 5])) \<le> 1"
  using expire_bounds_clean_backlog [of "[demo_job 1 3, demo_job 2 5]" 10 24 1]
  unfolding Let_def by (simp add: demo_job_def det_new_row_def)

text \<open>A failed detonation is counted once and by its owner only: \<open>requeue_or_fail\<close> leaves the table
  unchanged unless the job is still claimed with the caller's token; then the job has one failure more
  and is pending again without a token or, at the third failure, failed, and no other row changes. A
  claim younger than the detonation timeout is never taken away by the sweep.\<close>

theorem requeue_or_fail_owned:
  assumes "distinct (map dq_id rs)" and "q \<in> set rs"
  shows "requeue_or_fail now (dq_id q) token reason rs =
    (if dq_status q = Claimed \<and> dq_claim_token q = Some token
     then update_where (\<lambda>r. dq_id r = dq_id q)
       (\<lambda>_. if dq_attempts q < 2
            then q\<lparr>dq_attempts := dq_attempts q + 1, dq_status := Pending, dq_claim_token := None, dq_claimed_at := None\<rparr>
            else q\<lparr>dq_attempts := dq_attempts q + 1, dq_status := Failed, dq_last_error := Some (take 4000 reason),
                  dq_finished_at := Some now\<rparr>) rs
     else rs) \<and>
   (\<forall>c. dq_claimed_at q = Some c \<and> now - c \<le> seconds detonation_process_timeout \<longrightarrow>
      q \<in> set (fst (det_sweep_stale_claims now rs)))"
proof (intro conjI allI impI)
  have f: "find (\<lambda>r. dq_id r = dq_id q) rs = Some q" by (rule find_distinct_key [OF assms])
  have same: "r = q" if "r \<in> set rs" "dq_id r = dq_id q" for r
    using detq.same_row [OF assms(1) that(1) assms(2)] that(2) by blast
  have "det_upd_row (dq_id q) (retry_row now reason) rs =
      update_where (\<lambda>r. dq_id r = dq_id q) (\<lambda>_. retry_row now reason q) rs"
    unfolding det_upd_row_def update_where_def using same by (intro map_cong) auto
  then show "requeue_or_fail now (dq_id q) token reason rs =
    (if dq_status q = Claimed \<and> dq_claim_token q = Some token
     then update_where (\<lambda>r. dq_id r = dq_id q)
       (\<lambda>_. if dq_attempts q < 2
            then q\<lparr>dq_attempts := dq_attempts q + 1, dq_status := Pending, dq_claim_token := None, dq_claimed_at := None\<rparr>
            else q\<lparr>dq_attempts := dq_attempts q + 1, dq_status := Failed, dq_last_error := Some (take 4000 reason),
                  dq_finished_at := Some now\<rparr>) rs
     else rs)"
    by (auto simp: requeue_or_fail_def f retry_row_def Let_def det_max_auto_attempts_def)
next
  fix c assume "dq_claimed_at q = Some c \<and> now - c \<le> seconds detonation_process_timeout"
  then have "\<not> det_stale now q"
    by (simp add: det_stale_def detonation_process_timeout_def det_stale_claim_timeout_seconds_def)
  then show "q \<in> set (fst (det_sweep_stale_claims now rs))"
    using assms(2) by (auto simp: det_sweep_stale_claims_def in_update_where)
qed

theorem requeue_or_fail_owned_witness:
  "requeue_or_fail 9 1 ''me'' ''boom'' [demo_job 1 3] = [demo_job 1 3]"
  using requeue_or_fail_owned [of "[demo_job 1 3]" "demo_job 1 3" 9 "''me''" "''boom''"]
  by (simp add: demo_job_def det_new_row_def)

end
