(* ===== verification/ScopeWatchlist.thy ===== *)
theory ScopeWatchlist
  imports Prelude
begin

text \<open>
  The scope watchlist: \<^verbatim>\<open>scope_watchlist.py\<close> on the table of class \<^verbatim>\<open>WatchlistScope\<close>. The setting
  \<^verbatim>\<open>PKGWARD_SCOPE_WATCHLIST\<close> is the argument \<open>on\<close>; the curated baseline scopes are the constants of
  the source.
\<close>

record scope_row =
  sc_ecosystem :: ecosystem
  sc_scope :: string
  sc_source :: string
  sc_added_at :: timestamp
  sc_refreshed_at :: timestamp

type_synonym scope_rows = "scope_row list"

definition scope_supported :: "ecosystem \<Rightarrow> bool" where
  "scope_supported eco \<longleftrightarrow> eco \<in> {''npm'', ''gomod'', ''pypi''}"

definition scope_enabled :: "string \<Rightarrow> bool" where
  "scope_enabled on \<longleftrightarrow> on \<noteq> ''0''"

definition baseline_scopes :: "ecosystem \<Rightarrow> string list" where
  "baseline_scopes eco =
    (if eco = ''npm'' then
       [''@aws-sdk'', ''@aws-amplify'', ''@azure'', ''@google-cloud'', ''@cloudflare'',
        ''@vercel'', ''@netlify'', ''@supabase'', ''@firebase'', ''@datadog'', ''@sentry'',
        ''@elastic'', ''@grafana'', ''@newrelic'',
        ''@angular'', ''@vue'', ''@nestjs'', ''@remix-run'', ''@sveltejs'', ''@nuxt'',
        ''@astrojs'', ''@apollo'', ''@prisma'',
        ''@octokit'', ''@actions'', ''@npmcli'', ''@yarnpkg'', ''@nrwl'', ''@nx'',
        ''@changesets'', ''@vitejs'', ''@swc'', ''@typescript-eslint'', ''@storybook'',
        ''@okta'', ''@auth0'', ''@clerk'', ''@stripe'', ''@paypal'', ''@snyk'',
        ''@redhat-cloud-services'', ''@redhat'', ''@microsoft'', ''@ibm'']
     else if eco = ''gomod'' then
       [''golang.org/x'', ''google.golang.org'', ''k8s.io'', ''sigs.k8s.io'',
        ''go.uber.org'', ''cloud.google.com/go'',
        ''github.com/aws'', ''github.com/Azure'', ''github.com/googleapis'',
        ''github.com/google'', ''github.com/kubernetes'', ''github.com/hashicorp'',
        ''github.com/grafana'', ''github.com/prometheus'', ''github.com/open-telemetry'',
        ''github.com/cloudflare'', ''github.com/docker'', ''github.com/sigstore'',
        ''github.com/gohugoio'', ''github.com/spf13'']
     else if eco = ''pypi'' then
       [''azure'', ''google-cloud'', ''aws-cdk'', ''opentelemetry'', ''apache-airflow'',
        ''snowflake'', ''databricks'', ''msrest'', ''boto3'', ''botocore'']
     else [])"

definition prolific_scopes :: "ecosystem \<Rightarrow> string list" where
  "prolific_scopes eco =
    (if eco = ''npm'' then [''@types'', ''@babel''] else if eco = ''pypi'' then [''types''] else [])"

definition pypi_seps :: "char list" where
  "pypi_seps = [CHR ''-'', CHR ''_'', CHR ''.'']"

definition scope_matches :: "ecosystem \<Rightarrow> string \<Rightarrow> string \<Rightarrow> bool" where
  "scope_matches eco scope name =
    (let s = lower scope; n = lower name in
     if eco = ''npm'' then n = s \<or> prefix (s @ ''/'') n
     else if eco = ''gomod'' then n = s \<or> prefix (s @ ''/'') n
     else if eco = ''pypi'' then (if n = s then True else list_ex (\<lambda>sep. prefix (s @ [sep]) n) pypi_seps)
     else False)"

text \<open>The loop over the separators of a PyPI name.\<close>

fun pypi_scope :: "char list \<Rightarrow> string \<Rightarrow> string option" where
  "pypi_scope [] low = None"
| "pypi_scope (sep # seps) low =
    (case find_char sep low of
       None \<Rightarrow> pypi_scope seps low
     | Some i \<Rightarrow> (if 1 < i then Some (take i low) else pypi_scope seps low))"

definition scope_of :: "ecosystem \<Rightarrow> string \<Rightarrow> string option" where
  "scope_of eco name =
    (if eco = ''npm'' then
       (if \<not> prefix ''@'' name then None
        else (case find_char (CHR ''/'') name of
            None \<Rightarrow> None
          | Some slash \<Rightarrow> (if 1 < slash then Some (lower (take slash name)) else None)))
     else if eco = ''gomod'' then
       (let parts = split_on (CHR ''/'') name
        in if 2 \<le> length parts then Some (lower (join ''/'' (take 2 parts))) else None)
     else if eco = ''pypi'' then pypi_scope pypi_seps (lower name)
     else None)"

definition load_scopes :: "ecosystem \<Rightarrow> scope_rows \<Rightarrow> string set" where
  "load_scopes eco rs = (\<lambda>r. lower (sc_scope r)) ` set (filter (\<lambda>r. sc_ecosystem r = eco) rs)"

definition is_scope_watchlisted :: "string \<Rightarrow> ecosystem \<Rightarrow> string \<Rightarrow> string set option \<Rightarrow> scope_rows \<Rightarrow> bool" where
  "is_scope_watchlisted on eco name scopes rs =
    (if \<not> scope_enabled on \<or> \<not> scope_supported eco \<or> name = [] then False
     else (let ss = (case scopes of None \<Rightarrow> load_scopes eco rs | Some ss \<Rightarrow> ss)
           in if ss = {} then False else \<exists>s \<in> ss. scope_matches eco s name))"

text \<open>\<^verbatim>\<open>scope.strip().lower().rstrip("/")\<close>, and the sign npm scopes start with.\<close>

definition norm_scope :: "ecosystem \<Rightarrow> string \<Rightarrow> string" where
  "norm_scope eco scope =
    (let s = rstrip_by (\<lambda>c. c = CHR ''/'') (lower (strip scope))
     in if eco = ''npm'' \<and> \<not> prefix ''@'' s then CHR ''@'' # s else s)"

datatype scope_status = ScopeAdded | ScopeRefreshed | ScopeUnsupported

definition scope_is :: "ecosystem \<Rightarrow> string \<Rightarrow> scope_row \<Rightarrow> bool" where
  "scope_is eco s r \<longleftrightarrow> sc_ecosystem r = eco \<and> lower (sc_scope r) = s"

text \<open>The first row with the key, refreshed in place or removed.\<close>

fun refresh_first :: "(scope_row \<Rightarrow> bool) \<Rightarrow> timestamp \<Rightarrow> scope_rows \<Rightarrow> scope_rows" where
  "refresh_first p now [] = []"
| "refresh_first p now (r # rs) = (if p r then r\<lparr>sc_refreshed_at := now\<rparr> # rs else r # refresh_first p now rs)"

definition add_scope :: "timestamp \<Rightarrow> ecosystem \<Rightarrow> string \<Rightarrow> string \<Rightarrow> scope_rows \<Rightarrow> scope_rows \<times> scope_status" where
  "add_scope now eco scope source rs =
    (if \<not> scope_supported eco then (rs, ScopeUnsupported)
     else (let s = norm_scope eco scope in
       if find (scope_is eco s) rs \<noteq> None then (refresh_first (scope_is eco s) now rs, ScopeRefreshed)
       else (rs @ [\<lparr>sc_ecosystem = eco, sc_scope = s, sc_source = source, sc_added_at = now, sc_refreshed_at = now\<rparr>],
             ScopeAdded)))"

fun remove_first :: "(scope_row \<Rightarrow> bool) \<Rightarrow> scope_rows \<Rightarrow> scope_rows" where
  "remove_first p [] = []"
| "remove_first p (r # rs) = (if p r then rs else r # remove_first p rs)"

definition remove_scope :: "ecosystem \<Rightarrow> string \<Rightarrow> scope_rows \<Rightarrow> scope_rows \<times> nat" where
  "remove_scope eco scope rs =
    (let s = norm_scope eco scope in
     if find (scope_is eco s) rs = None then (rs, 0) else (remove_first (scope_is eco s) rs, 1))"

definition auto_watch_on_malicious :: "string \<Rightarrow> timestamp \<Rightarrow> ecosystem \<Rightarrow> string \<Rightarrow> scope_rows \<Rightarrow> scope_rows \<times> string option" where
  "auto_watch_on_malicious on now eco name rs =
    (if \<not> scope_enabled on \<or> eco \<notin> {''npm'', ''gomod''} then (rs, None)
     else (case scope_of eco name of
         None \<Rightarrow> (rs, None)
       | Some sc \<Rightarrow> (if sc = [] then (rs, None)
                    else (fst (add_scope now eco sc ''auto_malicious'' rs), Some sc))))"

text \<open>\<^verbatim>\<open>seed_baseline\<close>: the inner loop with the set \<^verbatim>\<open>have\<close>, then the loop over the ecosystems.\<close>

fun seed_loop :: "timestamp \<Rightarrow> ecosystem \<Rightarrow> string list \<Rightarrow> string set \<Rightarrow> scope_rows \<Rightarrow> scope_rows" where
  "seed_loop now eco [] known rs = rs"
| "seed_loop now eco (sc # scs) known rs =
    (let s = rstrip_by (\<lambda>c. c = CHR ''/'') (lower (strip sc)) in
     if s \<notin> known
     then seed_loop now eco scs (insert s known)
       (rs @ [\<lparr>sc_ecosystem = eco, sc_scope = s, sc_source = ''baseline'', sc_added_at = now, sc_refreshed_at = now\<rparr>])
     else seed_loop now eco scs known rs)"

definition seed_eco :: "bool \<Rightarrow> timestamp \<Rightarrow> ecosystem \<Rightarrow> scope_rows \<Rightarrow> scope_rows" where
  "seed_eco want_prolific now eco rs =
    seed_loop now eco (baseline_scopes eco @ (if want_prolific then prolific_scopes eco else [])) (load_scopes eco rs) rs"

definition seed_baseline :: "bool \<Rightarrow> timestamp \<Rightarrow> scope_rows \<Rightarrow> scope_rows \<times> nat" where
  "seed_baseline want_prolific now rs =
    (let rs' = fold (seed_eco want_prolific now) [''npm'', ''gomod'', ''pypi''] rs in (rs', length rs' - length rs))"

section \<open>Matching and extraction agree\<close>

lemma scope_of_npm:
  "scope_of ''npm'' name = Some sc \<longleftrightarrow>
     prefix ''@'' name \<and> CHR ''/'' \<in> set name \<and> 1 < length (takeWhile (\<lambda>x. x \<noteq> CHR ''/'') name) \<and>
     sc = lower (takeWhile (\<lambda>x. x \<noteq> CHR ''/'') name)"
  by (auto simp: scope_of_def find_char_Some find_char_None take_find_char split: option.splits)

lemma prefix_at_lower: "prefix ''@'' (lower s) \<longleftrightarrow> prefix ''@'' s"
  by (cases s) (auto simp: lower_char_sep dest: sym)

lemma scope_matches_npm:
  assumes "scope_of ''npm'' name = Some sc"
  shows "scope_matches ''npm'' sc other \<longleftrightarrow> lower other = sc \<or> scope_of ''npm'' other = Some sc"
proof -
  let ?seg = "takeWhile (\<lambda>x. x \<noteq> CHR ''/'')"
  have sc: "prefix ''@'' name" "1 < length (?seg name)" "sc = lower (?seg name)"
    using assms by (auto simp: scope_of_npm)
  have ns: "CHR ''/'' \<notin> set sc" unfolding sc(3) slash_in_lower by (auto dest: set_takeWhileD)
  have "prefix ''@'' sc" using sc by (cases name) (auto simp: lower_char_def prefix_at_lower)
  have "prefix (sc @ ''/'') (lower other) \<longleftrightarrow> scope_of ''npm'' other = Some sc"
  proof -
    have "prefix (sc @ ''/'') (lower other) \<longleftrightarrow> CHR ''/'' \<in> set other \<and> lower (?seg other) = sc"
      unfolding prefix_before_sep [OF ns] slash_in_lower lower_takeWhile_slash ..
    also have "\<dots> \<longleftrightarrow> scope_of ''npm'' other = Some sc"
    proof -
      have "1 < length (?seg other) \<and> prefix ''@'' other" if "lower (?seg other) = sc"
      proof
        show "1 < length (?seg other)" using that sc(2,3) by (metis length_lower)
        have "prefix ''@'' (?seg other)" using that \<open>prefix ''@'' sc\<close> prefix_at_lower by metis
        then show "prefix ''@'' other" using prefix_order.trans takeWhile_is_prefix by blast
      qed
      then show ?thesis by (auto simp: scope_of_npm)
    qed
    finally show ?thesis .
  qed
  moreover have "lower sc = sc" using sc(3) by simp
  ultimately show ?thesis by (auto simp: scope_matches_def)
qed

lemma scope_of_gomod:
  "scope_of ''gomod'' name = Some sc \<longleftrightarrow>
     (\<exists>a b ps. split_on (CHR ''/'') name = a # b # ps \<and> sc = lower a @ ''/'' @ lower b)"
  by (cases "split_on (CHR ''/'') name"; cases "tl (split_on (CHR ''/'') name)")
    (auto simp: scope_of_def lower_char_def)

lemma scope_matches_gomod:
  assumes "scope_of ''gomod'' name = Some sc"
  shows "scope_matches ''gomod'' sc other \<longleftrightarrow> scope_of ''gomod'' other = Some sc"
proof -
  obtain a b ps where ab: "split_on (CHR ''/'') name = a # b # ps" "sc = lower a @ ''/'' @ lower b"
    using assms by (auto simp: scope_of_gomod)
  have ns: "CHR ''/'' \<notin> set (lower a)" "CHR ''/'' \<notin> set (lower b)"
    using split_on_no_sep [of "CHR ''/''" name] ab(1) by auto
  have sl: "lower sc = sc" using ab(2) by (simp add: lower_char_def)
  have "scope_matches ''gomod'' sc other \<longleftrightarrow>
      lower other = lower a @ CHR ''/'' # lower b \<or> prefix (lower a @ CHR ''/'' # lower b @ [CHR ''/'']) (lower other)"
    unfolding scope_matches_def Let_def sl by (simp add: ab(2))
  also have "\<dots> \<longleftrightarrow> take 2 (map lower (split_on (CHR ''/'') other)) = [lower a, lower b]"
    unfolding split_on_two [OF ns, symmetric] split_on_lower_slash ..
  also have "\<dots> \<longleftrightarrow> scope_of ''gomod'' other = Some sc"
  proof
    assume "take 2 (map lower (split_on (CHR ''/'') other)) = [lower a, lower b]"
    then show "scope_of ''gomod'' other = Some sc"
      unfolding scope_of_gomod ab(2)
      by (cases "split_on (CHR ''/'') other"; cases "tl (split_on (CHR ''/'') other)") auto
  next
    assume "scope_of ''gomod'' other = Some sc"
    then obtain c d qs where cd: "split_on (CHR ''/'') other = c # d # qs" "sc = lower c @ ''/'' @ lower d"
      by (auto simp: scope_of_gomod)
    have nc: "CHR ''/'' \<notin> set (lower c)" using split_on_no_sep [of "CHR ''/''" other] cd(1) by auto
    have "prefix (lower a @ [CHR ''/'']) sc" "prefix (lower c @ [CHR ''/'']) sc"
      by (simp add: ab(2)) (simp add: cd(2))
    then have "lower a = lower c"
      unfolding prefix_before_sep [OF ns(1)] prefix_before_sep [OF nc] by simp
    with ab(2) cd show "take 2 (map lower (split_on (CHR ''/'') other)) = [lower a, lower b]" by simp
  qed
  finally show ?thesis .
qed

lemma find_scope_None: "find (scope_is eco s) rs = None \<longleftrightarrow> s \<notin> load_scopes eco rs"
  by (auto simp: find_None_iff scope_is_def load_scopes_def)

lemma load_scopes_Cons:
  "load_scopes eco (r # rs) = (if sc_ecosystem r = eco then {lower (sc_scope r)} else {}) \<union> load_scopes eco rs"
  by (auto simp: load_scopes_def)

lemma load_scopes_refresh: "load_scopes eco (refresh_first p now rs) = load_scopes eco rs"
  by (induction p now rs rule: refresh_first.induct) (auto simp: load_scopes_Cons)

lemma load_scopes_append: "load_scopes eco (rs @ ts) = load_scopes eco rs \<union> load_scopes eco ts"
  by (auto simp: load_scopes_def)

lemma load_scopes_add:
  assumes "scope_supported eco" and "lower (norm_scope eco sc) = norm_scope eco sc"
  shows "load_scopes eco (fst (add_scope now eco sc src rs)) = insert (norm_scope eco sc) (load_scopes eco rs)"
proof (cases "norm_scope eco sc \<in> load_scopes eco rs")
  case True
  then have "find (scope_is eco (norm_scope eco sc)) rs \<noteq> None" by (simp add: find_scope_None)
  with True assms(1) show ?thesis by (auto simp: add_scope_def Let_def load_scopes_refresh)
next
  case False
  then have "find (scope_is eco (norm_scope eco sc)) rs = None" by (simp add: find_scope_None)
  with assms show ?thesis by (simp add: add_scope_def Let_def load_scopes_append) (simp add: load_scopes_def)
qed

lemma seed_loop_load:
  "known = load_scopes eco rs \<Longrightarrow> load_scopes eco (seed_loop now eco scs known rs) =
     known \<union> (\<lambda>sc. rstrip_by (\<lambda>c. c = CHR ''/'') (lower (strip sc))) ` set scs"
proof (induction now eco scs known rs rule: seed_loop.induct)
  case (1 now eco known rs)
  then show ?case by simp
next
  case (2 now eco sc scs known rs)
  let ?s = "rstrip_by (\<lambda>c. c = CHR ''/'') (lower (strip sc))"
  have l: "lower ?s = ?s" by (rule lower_rstrip_lower)
  show ?case
  proof (cases "?s \<in> known")
    case True
    then show ?thesis using 2 by (auto simp: Let_def)
  next
    case False
    then show ?thesis using 2 l by (auto simp: Let_def load_scopes_append load_scopes_def)
  qed
qed

lemma seed_loop_idle:
  "(\<lambda>sc. rstrip_by (\<lambda>c. c = CHR ''/'') (lower (strip sc))) ` set scs \<subseteq> known \<Longrightarrow> seed_loop now eco scs known rs = rs"
  by (induction now eco scs known rs rule: seed_loop.induct) (auto simp: Let_def)

lemma seed_loop_prefix: "prefix rs (seed_loop now eco scs known rs)"
  by (induction now eco scs known rs rule: seed_loop.induct) (auto simp: Let_def dest: append_prefixD)

lemma seed_loop_other: "eco' \<noteq> eco \<Longrightarrow> load_scopes eco' (seed_loop now eco scs known rs) = load_scopes eco' rs"
  by (induction now eco scs known rs rule: seed_loop.induct) (auto simp: Let_def load_scopes_append load_scopes_def)

section \<open>Properties\<close>

text \<open>Sibling-worm defence watches exactly the offender's scope: when an npm or Go package is caught and
  its scope is in normal form, the watched scopes of the ecosystem grow by that scope alone, and a
  package counts as watched afterwards iff it did before, is named like the scope itself, or has the same
  scope as the offender, the offender included; there is no match across the boundary
  (\<open>@org\<close> does not cover \<open>@organic\<close>).\<close>

theorem scope_autowatch_siblings:
  assumes "scope_enabled on" and "eco \<in> {''npm'', ''gomod''}" and "scope_of eco name = Some sc"
    and "norm_scope eco sc = sc" and "sc \<noteq> []" and "other \<noteq> []"
  shows "load_scopes eco (fst (auto_watch_on_malicious on now eco name rs)) = insert sc (load_scopes eco rs) \<and>
    (is_scope_watchlisted on eco other None (fst (auto_watch_on_malicious on now eco name rs)) \<longleftrightarrow>
      is_scope_watchlisted on eco other None rs \<or> lower other = sc \<or> scope_of eco other = Some sc)"
proof -
  have sup: "scope_supported eco" using assms(2) by (auto simp: scope_supported_def)
  have low: "lower sc = sc"
    using assms(2,3) by (auto simp: scope_of_npm scope_of_gomod)
  have add: "load_scopes eco (fst (auto_watch_on_malicious on now eco name rs)) = insert sc (load_scopes eco rs)"
    using load_scopes_add [OF sup, of sc now "''auto_malicious''" rs] assms low
    by (simp add: auto_watch_on_malicious_def)
  have m: "scope_matches eco sc other \<longleftrightarrow> lower other = sc \<or> scope_of eco other = Some sc"
  proof (cases "eco = ''npm''")
    case True
    then show ?thesis using scope_matches_npm assms(3) by simp
  next
    case False
    then have g: "eco = ''gomod''" using assms(2) by simp
    have "scope_matches ''gomod'' sc other" if "lower other = sc"
      using that low by (simp add: scope_matches_def)
    then show ?thesis using scope_matches_gomod [of name sc other] assms(3) g by blast
  qed
  have "is_scope_watchlisted on eco other None (fst (auto_watch_on_malicious on now eco name rs)) \<longleftrightarrow>
      is_scope_watchlisted on eco other None rs \<or> scope_matches eco sc other"
    using assms(1,6) sup add by (auto simp: is_scope_watchlisted_def Let_def)
  with add m show ?thesis by simp
qed

lemma worm_scope: "scope_of ''npm'' ''@redhat/evil'' = Some ''@redhat''" "norm_scope ''npm'' ''@redhat'' = ''@redhat''"
  "scope_of ''npm'' ''@redhatter/x'' = Some ''@redhatter''" "lower ''@redhatter/x'' = ''@redhatter/x''"
  by code_simp+

theorem scope_autowatch_siblings_witness:
  "is_scope_watchlisted ''1'' ''npm'' ''@redhat/evil'' None (fst (auto_watch_on_malicious ''1'' 5 ''npm'' ''@redhat/evil'' [])) \<and>
   \<not> is_scope_watchlisted ''1'' ''npm'' ''@redhatter/x'' None (fst (auto_watch_on_malicious ''1'' 5 ''npm'' ''@redhat/evil'' []))"
proof -
  have e: "scope_enabled ''1''" by (simp add: scope_enabled_def)
  have n: "\<not> is_scope_watchlisted ''1'' ''npm'' ''@redhatter/x'' None []"
    by (simp add: is_scope_watchlisted_def load_scopes_def)
  show ?thesis
    using scope_autowatch_siblings [OF e _ worm_scope(1,2), of "''@redhat/evil''" 5 "[]"]
      scope_autowatch_siblings [OF e _ worm_scope(1,2), of "''@redhatter/x''" 5 "[]"] n worm_scope
    by simp
qed

text \<open>Seeding the baseline is idempotent and only adds: existing rows stay in place, afterwards every
  baseline scope of each supported ecosystem (and each prolific one if opted in) is watched, in
  normalised form, and a second seeding inserts nothing.\<close>

theorem scope_seed_idempotent:
  "prefix rs (fst (seed_baseline w now rs)) \<and>
   (eco \<in> {''npm'', ''gomod'', ''pypi''} \<longrightarrow>
     (\<lambda>sc. rstrip_by (\<lambda>c. c = CHR ''/'') (lower (strip sc))) `
       set (baseline_scopes eco @ (if w then prolific_scopes eco else [])) \<subseteq> load_scopes eco (fst (seed_baseline w now rs))) \<and>
   seed_baseline w now' (fst (seed_baseline w now rs)) = (fst (seed_baseline w now rs), 0)"
proof -
  let ?norm = "\<lambda>sc. rstrip_by (\<lambda>c. c = CHR ''/'') (lower (strip sc))"
  let ?want = "\<lambda>e. baseline_scopes e @ (if w then prolific_scopes e else [])"
  let ?a = "seed_eco w now ''npm'' rs"
  let ?b = "seed_eco w now ''gomod'' ?a"
  let ?c = "seed_eco w now ''pypi'' ?b"
  have c: "fst (seed_baseline w now rs) = ?c" by (simp add: seed_baseline_def Let_def)
  have own: "?norm ` set (?want e) \<subseteq> load_scopes e (seed_eco w now e ts)" for e ts
    unfolding seed_eco_def using seed_loop_load [OF refl, where eco = e and rs = ts and now = now and scs = "?want e"] by simp
  have oth: "load_scopes e' (seed_eco w now e ts) = load_scopes e' ts" if "e' \<noteq> e" for e e' ts
    unfolding seed_eco_def by (rule seed_loop_other [OF that])
  have all: "?norm ` set (?want e) \<subseteq> load_scopes e ?c" if "e \<in> {''npm'', ''gomod'', ''pypi''}" for e
  proof -
    have ln: "load_scopes ''npm'' ?c = load_scopes ''npm'' ?a" and lg: "load_scopes ''gomod'' ?c = load_scopes ''gomod'' ?b"
      by (simp_all add: oth)
    from that consider (n) "e = ''npm''" | (g) "e = ''gomod''" | (p) "e = ''pypi''" by blast
    then show ?thesis
    proof cases
      case n
      show ?thesis unfolding n ln by (rule own)
    next
      case g
      show ?thesis unfolding g lg by (rule own)
    next
      case p
      show ?thesis unfolding p by (rule own)
    qed
  qed
  have idle: "seed_eco w now' e ?c = ?c" if "e \<in> {''npm'', ''gomod'', ''pypi''}" for e
    unfolding seed_eco_def [of w now' e] by (rule seed_loop_idle [OF all [OF that]])
  have pre: "prefix ts (seed_eco w now e ts)" for e ts
    unfolding seed_eco_def by (rule seed_loop_prefix)
  have "prefix rs ?c"
    by (rule prefix_order.trans [OF pre prefix_order.trans [OF pre pre]])
  moreover have "seed_baseline w now' ?c = (?c, 0)"
    unfolding seed_baseline_def Let_def by (simp add: idle)
  ultimately show ?thesis unfolding c using all by blast
qed

theorem scope_seed_idempotent_witness:
  "''@aws-sdk'' \<in> load_scopes ''npm'' (fst (seed_baseline False 0 []))"
proof -
  have n: "rstrip_by (\<lambda>c. c = CHR ''/'') (lower (strip ''@aws-sdk'')) = ''@aws-sdk''" by code_simp
  have m: "''@aws-sdk'' \<in> set (baseline_scopes ''npm'' @ (if False then prolific_scopes ''npm'' else []))"
    by (simp add: baseline_scopes_def)
  show ?thesis
    using scope_seed_idempotent [of "[]" False 0 "''npm''" 0] imageI [OF m, of "\<lambda>sc. rstrip_by (\<lambda>c. c = CHR ''/'') (lower (strip sc))"]
    unfolding n by blast
qed

end
