(* ===== verification/KnownBad.thy ===== *)
theory KnownBad
  imports Store WatchlistAuto
begin

text \<open>
  Dependencies on confirmed-malicious packages: \<^verbatim>\<open>known_bad_deps.py\<close> and \<^verbatim>\<open>analyze/dep_intel.py\<close>. The
  cache of the module is state passed explicitly; its clock is monotonic. A database error of the query
  is the outcome \<^const>\<open>None\<close> of the argument.
\<close>

section \<open>Names\<close>

definition kb_is_enabled :: "string \<Rightarrow> bool" where
  "kb_is_enabled v \<longleftrightarrow> lower v \<notin> {''0'', ''false'', ''off'', ''no''}"

definition pypi_sep :: "char \<Rightarrow> bool" where
  "pypi_sep c \<longleftrightarrow> c \<in> {CHR ''-'', CHR ''_'', CHR ''.''}"

text \<open>\<^verbatim>\<open>_PYPI_NORM.sub("-", n)\<close>.\<close>

function collapse_seps :: "string \<Rightarrow> string" where
  "collapse_seps [] = []"
| "collapse_seps (c # cs) =
    (if pypi_sep c then CHR ''-'' # collapse_seps (dropWhile pypi_sep cs) else c # collapse_seps cs)"
  by pat_completeness auto
termination
  by (relation "measure length") (auto simp: le_imp_less_Suc length_dropWhile_le)

definition kb_normalize :: "ecosystem \<Rightarrow> string \<Rightarrow> string" where
  "kb_normalize eco name =
    (let n = lower (strip name)
     in if eco = ''pypi'' then strip_by (\<lambda>c. c = CHR ''-'') (collapse_seps n) else n)"

definition is_alnum :: "char \<Rightarrow> bool" where
  "is_alnum c = (let n = (of_char c :: nat) in (48 \<le> n \<and> n \<le> 57) \<or> (65 \<le> n \<and> n \<le> 90) \<or> (97 \<le> n \<and> n \<le> 122))"

definition pep508_name :: "string \<Rightarrow> string option" where
  "pep508_name entry =
    (case dropWhile is_space entry of
       [] \<Rightarrow> None
     | c # cs \<Rightarrow> (if is_alnum c then Some (c # takeWhile (\<lambda>x. is_alnum x \<or> pypi_sep x) cs) else None))"

definition extract_dep_name :: "ecosystem \<Rightarrow> string \<Rightarrow> string option" where
  "extract_dep_name eco entry =
    (if entry = [] then None else if eco = ''pypi'' then pep508_name entry else Some (strip entry))"

section \<open>The confirmed-bad set\<close>

definition query_known_bad :: "wla_cfg \<Rightarrow> ecosystem \<Rightarrow> watch_rows \<Rightarrow> string set" where
  "query_known_bad cfg eco rs =
    (\<lambda>(e, name, ts). kb_normalize eco name) `
      set (filter (\<lambda>(e, name, ts). (eco, lower name) \<notin> set (blocklist cfg)) (list_auto_entries (Some eco) rs))"

type_synonym kb_cache = "ecosystem \<Rightarrow> (timestamp \<times> string set) option"

definition load_known_bad :: "int \<Rightarrow> timestamp \<Rightarrow> string set option \<Rightarrow> ecosystem \<Rightarrow> kb_cache \<Rightarrow> string set \<times> kb_cache" where
  "load_known_bad ttl now query eco cache =
    (case cache eco of
       Some (t, names) \<Rightarrow>
         (if now - t < ttl then (names, cache)
          else (case query of None \<Rightarrow> ({}, cache) | Some ns \<Rightarrow> (ns, cache(eco := Some (now, ns)))))
     | None \<Rightarrow> (case query of None \<Rightarrow> ({}, cache) | Some ns \<Rightarrow> (ns, cache(eco := Some (now, ns)))))"

section \<open>Matching\<close>

fun match_loop :: "ecosystem \<Rightarrow> string set \<Rightarrow> string list \<Rightarrow> (string \<times> string) list \<Rightarrow> (string \<times> string) list" where
  "match_loop eco bad [] hits = hits"
| "match_loop eco bad (entry # es) hits =
    (case extract_dep_name eco entry of
       None \<Rightarrow> match_loop eco bad es hits
     | Some name \<Rightarrow>
         (if name = [] then match_loop eco bad es hits
          else (let norm = kb_normalize eco name in
            if norm \<in> bad then match_loop eco bad es (dict_put entry norm hits) else match_loop eco bad es hits)))"

definition match_known_bad :: "ecosystem \<Rightarrow> string list \<Rightarrow> string set \<Rightarrow> (string \<times> string) list" where
  "match_known_bad eco requires bad = match_loop eco bad requires []"

definition dep_intel_evidence :: "ecosystem \<Rightarrow> string \<Rightarrow> string \<Rightarrow> string" where
  "dep_intel_evidence eco orig note = ''declares a dependency on confirmed-malicious '' @ eco @ '' package '' @ repr orig @
     '' ('' @ note @ '') '' @ [CHR 0xE2, CHR 0x80, CHR 0x94] @ '' supply-chain propagation signal''"

definition dep_intel_finding :: "ecosystem \<Rightarrow> bool \<Rightarrow> string \<Rightarrow> finding" where
  "dep_intel_finding eco newly orig =
    mk_finding ''dep_intel.depends_on_known_malicious'' ''dep_intel'' (if newly then ''critical'' else ''high'') ''high''
      (dep_intel_evidence eco orig (if newly then ''newly added in this version'' else ''present in this version''))"

definition check_known_bad_deps :: "ecosystem \<Rightarrow> string list \<Rightarrow> string list \<Rightarrow> string set \<Rightarrow> finding list" where
  "check_known_bad_deps eco requires prev_requires bad =
    (let hits = match_known_bad eco requires bad;
         prev_norm = (\<lambda>e. kb_normalize eco (or_empty (extract_dep_name eco e))) ` set prev_requires
     in map (\<lambda>(orig, norm). dep_intel_finding eco (prev_requires \<noteq> [] \<and> norm \<notin> prev_norm) orig) (sort_key fst hits))"

section \<open>Lemmas\<close>

text \<open>The requirement strings that count, and the name each stands for.\<close>

definition dep_norm :: "ecosystem \<Rightarrow> string \<Rightarrow> string option" where
  "dep_norm eco entry =
    (case extract_dep_name eco entry of None \<Rightarrow> None | Some n \<Rightarrow> (if n = [] then None else Some (kb_normalize eco n)))"

lemma match_loop_get:
  "dict_get (match_loop eco bad es hits) k =
     (if k \<in> set es \<and> (\<exists>n\<in>bad. dep_norm eco k = Some n) then dep_norm eco k else dict_get hits k)"
  by (induction es arbitrary: hits) (auto simp: dep_norm_def Let_def split: option.splits if_splits)

lemma match_loop_distinct: "distinct (map fst hits) \<Longrightarrow> distinct (map fst (match_loop eco bad es hits))"
  by (induction es arbitrary: hits) (auto simp: Let_def distinct_dict_put split: option.splits)

lemma match_known_bad_spec:
  "distinct (map fst (match_known_bad eco req bad))"
  "(k, n) \<in> set (match_known_bad eco req bad) \<longleftrightarrow> k \<in> set req \<and> n \<in> bad \<and> dep_norm eco k = Some n"
proof -
  show d: "distinct (map fst (match_known_bad eco req bad))" by (simp add: match_known_bad_def match_loop_distinct)
  have "(k, n) \<in> set (match_known_bad eco req bad) \<longleftrightarrow> dict_get (match_known_bad eco req bad) k = Some n"
    using d by (simp add: dict_get_def)
  also have "\<dots> \<longleftrightarrow> k \<in> set req \<and> n \<in> bad \<and> dep_norm eco k = Some n"
    by (auto simp: match_known_bad_def match_loop_get split: if_splits)
  finally show "(k, n) \<in> set (match_known_bad eco req bad) \<longleftrightarrow> k \<in> set req \<and> n \<in> bad \<and> dep_norm eco k = Some n" .
qed

lemma in_list_auto_entries:
  "(e, n, ts) \<in> set (list_auto_entries (Some eco) rs) \<longleftrightarrow>
     (\<exists>r\<in>set rs. is_auto r \<and> (eco \<noteq> [] \<longrightarrow> wl_ecosystem r = eco) \<and> e = wl_ecosystem r \<and> n = wl_name r \<and> ts = wl_refreshed_at r)"
  by (auto simp: list_auto_entries_def image_iff)

lemma query_known_bad_member:
  "r \<in> set rs \<Longrightarrow> is_auto r \<Longrightarrow> wl_ecosystem r = eco \<Longrightarrow> (eco, lower (wl_name r)) \<notin> set (blocklist cfg) \<Longrightarrow>
     kb_normalize eco (wl_name r) \<in> query_known_bad cfg eco rs"
  by (force simp: query_known_bad_def in_list_auto_entries image_iff)

lemma added_row:
  assumes "add_confirmed_malicious cfg env now tick eco name rate rs = (Added, rate', rs')"
  shows "(eco, lower name) \<notin> set (blocklist cfg) \<and> (\<exists>r\<in>set rs'. is_auto r \<and> wl_ecosystem r = eco \<and> wl_name r = name)"
  using assms
  by (auto simp: add_confirmed_malicious_def auto_row_def is_auto_def Let_def split: if_splits option.splits prod.splits bool.splits)


definition demo_added :: watch_rows where
  "demo_added = [auto_row 1 ''pypi'' ''Evil_Pkg'' 0]"

lemma demo_add: "add_confirmed_malicious default_wla_cfg (\<lambda>r. r) 0 0 ''pypi'' ''Evil_Pkg'' (\<lambda>_. []) []
    = (Added, (\<lambda>_. [])(''pypi'' := [0]), demo_added)"
  by (simp add: add_confirmed_malicious_def default_wla_cfg_def wla_is_enabled_def blocklist_def strip_def strip_by_def
      rstrip_by_def lstrip_by_def rate_limited_def demo_added_def wl_next_id_def lower_def lower_char_def)


end
