(* ===== verification/FindingReuse.thy ===== *)
theory FindingReuse
  imports Store
begin

text \<open>
  Carrying findings on unchanged files forward: \<^verbatim>\<open>finding_reuse.py\<close>. \<open>days_window\<close> is the value of
  \<^verbatim>\<open>PKGWARD_FINDING_REUSE_DAYS\<close>; the hashes of the current scan are a dict in insertion order.
\<close>

definition norm_path :: "string \<Rightarrow> string" where
  "norm_path p = (if prefix ''package/'' p then drop 8 p else p)"

definition prior_scan :: "int \<Rightarrow> timestamp \<Rightarrow> ecosystem \<Rightarrow> string \<Rightarrow> nat \<Rightarrow> package_row list \<Rightarrow> version_row list \<Rightarrow>
    scan_entry list \<Rightarrow> scan_entry option" where
  "prior_scan days_window now eco name current pkgs vers scans =
    max_by (\<lambda>s. get_or 0 (sc_finished_at s))
      (filter (\<lambda>s. sc_id s \<noteq> current \<and>
         (case sc_finished_at s of None \<Rightarrow> False | Some t \<Rightarrow> now - days days_window \<le> t) \<and>
         list_ex (\<lambda>v. vr_id v = sc_version_id s \<and>
           list_ex (\<lambda>p. pk_id p = vr_package_id v \<and> pk_ecosystem p = eco \<and> pk_name p = name) pkgs) vers) scans)"

text \<open>\<^verbatim>\<open>{h[0]: h[1] for h in rows}\<close>: the last row of a path wins.\<close>

definition prior_hashes :: "nat \<Rightarrow> file_hash list \<Rightarrow> string \<rightharpoonup> string" where
  "prior_hashes scan hashes = map_of (rev (map (\<lambda>h. (fh_path h, fh_sha256 h)) (filter (\<lambda>h. fh_scan_id h = scan) hashes)))"

definition unchanged_paths :: "(string \<rightharpoonup> string) \<Rightarrow> (string \<times> string) list \<Rightarrow> string set" where
  "unchanged_paths prior current = fst ` set (filter (\<lambda>(p, sha). prior p = Some sha) current)"

definition changed_paths :: "(string \<rightharpoonup> string) \<Rightarrow> (string \<times> string) list \<Rightarrow> string set" where
  "changed_paths prior current = fst ` set (filter (\<lambda>(p, sha). prior p \<noteq> Some sha) current)"

definition safe_basenames :: "(string \<rightharpoonup> string) \<Rightarrow> (string \<times> string) list \<Rightarrow> string set" where
  "safe_basenames prior current = basename ` unchanged_paths prior current - basename ` changed_paths prior current"

definition carry_key :: "finding \<Rightarrow> string \<times> string" where
  "carry_key f = (f_rule_id f, norm_path (or_empty (f_file f)))"

definition carry_matched :: "string set \<Rightarrow> string set \<Rightarrow> finding \<Rightarrow> bool" where
  "carry_matched unchanged safe f \<longleftrightarrow> truthy (f_file f) \<and>
     (norm_path (or_empty (f_file f)) \<in> unchanged \<or> basename (norm_path (or_empty (f_file f))) \<in> safe)"

fun carry_loop :: "string set \<Rightarrow> string set \<Rightarrow> (string \<times> string) set \<Rightarrow> finding list \<Rightarrow> finding list" where
  "carry_loop unchanged safe seen [] = []"
| "carry_loop unchanged safe seen (f # fs) =
    (if \<not> carry_matched unchanged safe f \<or> carry_key f \<in> seen then carry_loop unchanged safe seen fs
     else f # carry_loop unchanged safe (insert (carry_key f) seen) fs)"

definition carry_forward_findings :: "int \<Rightarrow> timestamp \<Rightarrow> ecosystem \<Rightarrow> string \<Rightarrow> nat \<Rightarrow> (string \<times> string) list \<Rightarrow>
    finding list \<Rightarrow> package_row list \<Rightarrow> version_row list \<Rightarrow> scan_entry list \<Rightarrow> file_hash list \<Rightarrow> finding_row list \<Rightarrow>
    finding list" where
  "carry_forward_findings days_window now eco name current cur existing pkgs vers scans hashes findings =
    (if cur = [] then []
     else (case prior_scan days_window now eco name current pkgs vers scans of
         None \<Rightarrow> []
       | Some s \<Rightarrow>
           (let prior = prior_hashes (sc_id s) hashes; unchanged = unchanged_paths prior cur in
            if unchanged = {} then []
            else carry_loop unchanged (safe_basenames prior cur) (carry_key ` set existing)
              (map fr_finding (filter (\<lambda>r. fr_scan_id r = sc_id s) findings)))))"

section \<open>Lemmas\<close>

lemma carry_loop_spec:
  "f \<in> set (carry_loop unchanged safe seen fs) \<Longrightarrow> f \<in> set fs \<and> carry_matched unchanged safe f \<and> carry_key f \<notin> seen"
  by (induction fs arbitrary: seen) (auto split: if_splits)

lemma carry_loop_distinct: "distinct (map carry_key (carry_loop unchanged safe seen fs))"
  by (induction fs arbitrary: seen) (auto dest: carry_loop_spec)

lemma carry_loop_complete:
  "f \<in> set fs \<Longrightarrow> carry_matched unchanged safe f \<Longrightarrow>
     carry_key f \<in> seen \<or> carry_key f \<in> carry_key ` set (carry_loop unchanged safe seen fs)"
  by (induction fs arbitrary: seen) auto

lemma unchanged_pathsD: "p \<in> unchanged_paths prior cur \<Longrightarrow> \<exists>sha. (p, sha) \<in> set cur \<and> prior p = Some sha"
  by (auto simp: unchanged_paths_def)

lemma changed_pathsI: "(p, sha) \<in> set cur \<Longrightarrow> prior p \<noteq> Some sha \<Longrightarrow> p \<in> changed_paths prior cur"
  by (force simp: changed_paths_def)

lemma finding_of_scan:
  "f \<in> set (map fr_finding (filter (\<lambda>r. fr_scan_id r = i) rs)) \<longleftrightarrow> \<lparr>fr_scan_id = i, fr_finding = f\<rparr> \<in> set rs"
proof -
  show ?thesis
  proof
    assume "f \<in> set (map fr_finding (filter (\<lambda>r. fr_scan_id r = i) rs))"
    then obtain x where "x \<in> set rs" "fr_scan_id x = i" "f = fr_finding x" by auto
    moreover have "\<lparr>fr_scan_id = i, fr_finding = f\<rparr> = x" using calculation by simp
    ultimately show "\<lparr>fr_scan_id = i, fr_finding = f\<rparr> \<in> set rs" by (simp only:)
  next
    assume "\<lparr>fr_scan_id = i, fr_finding = f\<rparr> \<in> set rs"
    then show "f \<in> set (map fr_finding (filter (\<lambda>r. fr_scan_id r = i) rs))" by force
  qed
qed

lemma prior_scanD:
  "prior_scan w now eco name current pkgs vers scans = Some s \<Longrightarrow> s \<in> set scans \<and> sc_id s \<noteq> current \<and>
     (\<exists>t. sc_finished_at s = Some t \<and> now - days w \<le> t)"
  by (auto simp: prior_scan_def dest!: max_by_Some split: option.splits)

text \<open>C22. Carrying forward never speaks of a changed file and forgets no unchanged one. Every carried
  finding is a finding of one earlier scan of the package finished within the window, is new to this
  scan and carried once; and no file whose bytes changed in this release is the file it names, nor shares
  its base name unless the named file is itself unchanged. Conversely every finding of that scan on
  an unchanged file ends up among the existing or the carried ones.\<close>

theorem carry_forward_sound:
  assumes "prior_scan w now eco name current pkgs vers scans = Some s"
    and "distinct (map fst cur)" and "prior = prior_hashes (sc_id s) hashes"
    and "out = carry_forward_findings w now eco name current cur existing pkgs vers scans hashes findings"
  shows "(\<forall>f\<in>set out. \<lparr>fr_scan_id = sc_id s, fr_finding = f\<rparr> \<in> set findings \<and> carry_key f \<notin> carry_key ` set existing \<and>
      (\<forall>(p, sha)\<in>set cur. prior p \<noteq> Some sha \<longrightarrow>
         p \<noteq> snd (carry_key f) \<and> (basename p = basename (snd (carry_key f)) \<longrightarrow> snd (carry_key f) \<in> unchanged_paths prior cur))) \<and>
    distinct (map carry_key out) \<and>
    (\<forall>f. \<lparr>fr_scan_id = sc_id s, fr_finding = f\<rparr> \<in> set findings \<and> truthy (f_file f) \<and>
       snd (carry_key f) \<in> unchanged_paths prior cur \<longrightarrow> carry_key f \<in> carry_key ` (set existing \<union> set out))"
proof -
  let ?u = "unchanged_paths prior cur" let ?s = "safe_basenames prior cur"
  let ?fs = "map fr_finding (filter (\<lambda>r. fr_scan_id r = sc_id s) findings)"
  have out: "out = (if ?u = {} then [] else carry_loop ?u ?s (carry_key ` set existing) ?fs)"
    using assms by (auto simp: carry_forward_findings_def Let_def unchanged_paths_def)
  have row: "f \<in> set ?fs \<longleftrightarrow> \<lparr>fr_scan_id = sc_id s, fr_finding = f\<rparr> \<in> set findings" for f
    by (rule finding_of_scan)
  have sound: "p \<noteq> snd (carry_key f) \<and> (basename p = basename (snd (carry_key f)) \<longrightarrow> snd (carry_key f) \<in> ?u)"
    if f: "f \<in> set out" and p: "(p, sha) \<in> set cur" "prior p \<noteq> Some sha" for f p sha
  proof -
    have "f \<in> set (carry_loop ?u ?s (carry_key ` set existing) ?fs)" using f out by (simp split: if_splits)
    from carry_loop_spec [OF this] have m: "snd (carry_key f) \<in> ?u \<or> basename (snd (carry_key f)) \<in> ?s"
      by (simp add: carry_matched_def carry_key_def)
    have "p \<notin> ?u" using p assms(2) by (auto dest!: unchanged_pathsD dest: eq_key_imp_eq_value)
    moreover have "basename p \<notin> ?s" using changed_pathsI [of p sha cur prior] p by (auto simp: safe_basenames_def)
    ultimately show ?thesis using m by auto
  qed
  have "carry_key f \<in> carry_key ` (set existing \<union> set out)"
    if "\<lparr>fr_scan_id = sc_id s, fr_finding = f\<rparr> \<in> set findings" "truthy (f_file f)" "snd (carry_key f) \<in> ?u" for f
  proof -
    have "carry_matched ?u ?s f" using that by (simp add: carry_matched_def carry_key_def)
    from carry_loop_complete [OF that(1) [folded row] this, of "carry_key ` set existing"] that(3)
    show ?thesis unfolding out image_Un by auto
  qed
  moreover have "\<lparr>fr_scan_id = sc_id s, fr_finding = f\<rparr> \<in> set findings \<and> carry_key f \<notin> carry_key ` set existing"
    if "f \<in> set out" for f
  proof -
    have "f \<in> set (carry_loop ?u ?s (carry_key ` set existing) ?fs)" using that out by (simp split: if_splits)
    from carry_loop_spec [OF this] show ?thesis unfolding row [symmetric] by blast
  qed
  moreover have "distinct (map carry_key out)" unfolding out by (simp add: carry_loop_distinct)
  ultimately show ?thesis using sound by blast
qed

definition demo_scan :: "nat \<Rightarrow> scan_entry" where
  "demo_scan i = \<lparr>sc_id = i, sc_version_id = 1, sc_started_at = 0, sc_finished_at = Some 5, sc_verdict = Malicious,
     sc_score = 80, sc_alert_tag = None, sc_llm_verdict = None, sc_llm_confidence = None\<rparr>"

definition demo_pkg :: package_row where
  "demo_pkg = \<lparr>pk_id = 1, pk_ecosystem = ''npm'', pk_name = ''x'', pk_first_seen_at = 0\<rparr>"

definition demo_ver :: version_row where
  "demo_ver = \<lparr>vr_id = 1, vr_ecosystem = ''npm'', vr_package_id = 1, vr_version = ''1'', vr_first_seen_at = 0, vr_author = None,
     vr_author_email = None, vr_upload_user = None, vr_home_page = None, vr_summary = None, vr_requires_python = None,
     vr_keywords = None, vr_license_text = None, vr_upload_time = None, vr_requires_dist = None, vr_maintainers = None,
     vr_downloads_last_30d = None\<rparr>"

definition demo_hash :: "string \<Rightarrow> string \<Rightarrow> file_hash" where
  "demo_hash p sha = \<lparr>fh_scan_id = 7, fh_archive_kind = ''npm_tarball'', fh_path = p, fh_sha256 = sha, fh_ssdeep = None,
     fh_tlsh = None, fh_entropy = None\<rparr>"

definition demo_finding :: "string \<Rightarrow> finding" where
  "demo_finding file = (mk_finding ''yara.rat'' ''yara'' ''critical'' ''high'' [])\<lparr>f_file := Some file\<rparr>"

lemma demo_prior: "prior_scan 7 10 ''npm'' ''x'' 8 [demo_pkg] [demo_ver] [demo_scan 7] = Some (demo_scan 7)"
  by (simp add: prior_scan_def demo_pkg_def demo_ver_def demo_scan_def)

theorem carry_forward_sound_witness:
  "carry_key (demo_finding ''package/a.js'') \<in> carry_key ` set (carry_forward_findings 7 10 ''npm'' ''x'' 8
     [(''a.js'', ''s1''), (''b.js'', ''s3'')] [] [demo_pkg] [demo_ver] [demo_scan 7]
     [demo_hash ''a.js'' ''s1'', demo_hash ''b.js'' ''s2'']
     [\<lparr>fr_scan_id = 7, fr_finding = demo_finding ''package/a.js''\<rparr>])"
proof -
  have "''a.js'' \<in> unchanged_paths (prior_hashes 7 [demo_hash ''a.js'' ''s1'', demo_hash ''b.js'' ''s2''])
      [(''a.js'', ''s1''), (''b.js'', ''s3'')]"
    by (simp add: unchanged_paths_def prior_hashes_def demo_hash_def)
  then show ?thesis
    using carry_forward_sound [OF demo_prior, of "[(''a.js'', ''s1''), (''b.js'', ''s3'')]" _
        "[demo_hash ''a.js'' ''s1'', demo_hash ''b.js'' ''s2'']" _ "[]"
        "[\<lparr>fr_scan_id = 7, fr_finding = demo_finding ''package/a.js''\<rparr>]", OF _ refl refl]
    by (auto simp: demo_scan_def demo_finding_def carry_key_def norm_path_def mk_finding_def)
qed

text \<open>A file that is gone still contributes: the finding names a deleted file and is carried because an
  unchanged file has its base name.\<close>

lemma carry_forward_deleted_file:
  "carry_forward_findings 7 10 ''npm'' ''x'' 8 [(''lib/index.js'', ''s1'')] [] [demo_pkg] [demo_ver] [demo_scan 7]
     [demo_hash ''lib/index.js'' ''s1'', demo_hash ''evil/index.js'' ''s2'']
     [\<lparr>fr_scan_id = 7, fr_finding = demo_finding ''package/evil/index.js''\<rparr>] = [demo_finding ''package/evil/index.js'']"
proof -
  have "carry_matched {''lib/index.js''} {''index.js''} (demo_finding ''package/evil/index.js'')" by code_simp
  moreover have "basename ''lib/index.js'' = ''index.js''" by code_simp
  ultimately show ?thesis using demo_prior
    by (simp add: carry_forward_findings_def unchanged_paths_def changed_paths_def safe_basenames_def prior_hashes_def
        demo_hash_def Let_def demo_scan_def)
qed

end
