(* ===== verification/EditDistance.thy ===== *)
theory EditDistance
  imports Prelude
begin

text \<open>
  The edit distance of \<^verbatim>\<open>analyze/metadata.py\<close>: \<^verbatim>\<open>_levenshtein\<close> fills one row of the table after the other.
  The specification is the metric itself: the least number of single insertions, deletions and
  replacements that turn one string into the other.
\<close>

section \<open>The code\<close>

text \<open>The inner loop: \<open>prev\<close> is the previous row from \<^verbatim>\<open>prev[j-1]\<close> on and \<open>left\<close> is \<^verbatim>\<open>cur[j-1]\<close>.\<close>

fun lev_cells :: "char \<Rightarrow> string \<Rightarrow> nat list \<Rightarrow> nat \<Rightarrow> nat list" where
  "lev_cells ca (cb # bs) (diag # up # prev) left =
    (let cost = (if ca = cb then 0 else 1); v = min (up + 1) (min (left + 1) (diag + cost))
     in v # lev_cells ca bs (up # prev) v)"
| "lev_cells ca _ _ left = []"

fun lev_rows :: "nat \<Rightarrow> string \<Rightarrow> string \<Rightarrow> nat list \<Rightarrow> nat list" where
  "lev_rows i [] b prev = prev"
| "lev_rows i (ca # a) b prev = lev_rows (Suc i) a b (i # lev_cells ca b prev i)"

definition levenshtein :: "string \<Rightarrow> string \<Rightarrow> nat" where
  "levenshtein a b =
    (if a = b then 0 else if a = [] then length b else if b = [] then length a
     else last (lev_rows 1 a b [0..<Suc (length b)]))"

section \<open>The metric\<close>

definition edit_step :: "'a list \<Rightarrow> 'a list \<Rightarrow> bool" where
  "edit_step x y \<longleftrightarrow> (\<exists>u v c d. (x = u @ c # v \<and> y = u @ v) \<or> (x = u @ v \<and> y = u @ c # v) \<or>
     (x = u @ c # v \<and> y = u @ d # v))"

fun ed :: "'a list \<Rightarrow> 'a list \<Rightarrow> nat" where
  "ed [] ys = length ys"
| "ed xs [] = length xs"
| "ed (x # xs) (y # ys) =
    min (Suc (ed xs (y # ys))) (min (Suc (ed (x # xs) ys)) (ed xs ys + (if x = y then 0 else 1)))"

lemma ed_Nil2 [simp]: "ed xs [] = length xs"
  by (cases xs) simp_all

lemma ed_self [simp]: "ed xs xs = 0"
  by (induction xs) simp_all

lemma ed_Cons1: "ed (x # xs) ys \<le> Suc (ed xs ys)"
  by (cases ys) simp_all

lemma ed_Cons2: "ed xs (y # ys) \<le> Suc (ed xs ys)"
  by (cases xs) simp_all

lemma ed_drop1: "ed xs ys \<le> Suc (ed (x # xs) ys)"
proof (induction ys)
  case Nil
  then show ?case by simp
next
  case (Cons y ys)
  have "ed xs (y # ys) \<le> Suc (ed xs ys)" by (rule ed_Cons2)
  with Cons show ?case by simp
qed

lemma ed_replace1: "ed (c # xs) ys \<le> Suc (ed (d # xs) ys)"
  by (induction ys) auto

lemma ed_context:
  assumes "\<And>z. ed v z \<le> Suc (ed v' z)"
  shows "ed (a # v) z \<le> Suc (ed (a # v') z)"
proof (induction z)
  case Nil
  then show ?case using assms [of "[]"] by simp
next
  case (Cons y z)
  then show ?case using assms [of "y # z"] assms [of z] by auto
qed

lemma ed_contexts:
  assumes "\<And>z. ed v z \<le> Suc (ed v' z)"
  shows "ed (u @ v) z \<le> Suc (ed (u @ v') z)"
  using assms by (induction u arbitrary: z) (simp_all only: append_Nil append_Cons ed_context)

lemma ed_step: "edit_step x y \<Longrightarrow> ed x z \<le> Suc (ed y z)"
  unfolding edit_step_def by (elim exE disjE conjE) (simp_all only: ed_contexts ed_Cons1 ed_drop1 ed_replace1)

lemma ed_lower: "(edit_step ^^ n) a b \<Longrightarrow> ed a b \<le> n"
proof (induction n arbitrary: a)
  case 0
  then show ?case by simp
next
  case (Suc n)
  then obtain c where "edit_step a c" "(edit_step ^^ n) c b" by (metis relpowp_Suc_E2)
  with Suc.IH ed_step [of a c b] show ?case by fastforce
qed

lemma edit_step_Cons: "edit_step x y \<Longrightarrow> edit_step (a # x) (a # y)"
  unfolding edit_step_def
proof (elim exE)
  fix u v c d
  assume "x = u @ c # v \<and> y = u @ v \<or> x = u @ v \<and> y = u @ c # v \<or> x = u @ c # v \<and> y = u @ d # v"
  then show "\<exists>u v c d. a # x = u @ c # v \<and> a # y = u @ v \<or> a # x = u @ v \<and> a # y = u @ c # v \<or>
      a # x = u @ c # v \<and> a # y = u @ d # v"
    by (intro exI [of _ "a # u"] exI [of _ v] exI [of _ c] exI [of _ d]) auto
qed

lemma edit_steps_Cons: "(edit_step ^^ n) x y \<Longrightarrow> (edit_step ^^ n) (a # x) (a # y)"
proof (induction n arbitrary: y)
  case 0
  then show ?case by simp
next
  case (Suc n)
  then show ?case by (auto intro: edit_step_Cons)
qed

lemma edit_step_first:
  "edit_step (c # v) v" "edit_step v (c # v)" "edit_step (c # v) (d # v)"
  unfolding edit_step_def by (rule exI [of _ "[]"], fastforce)+

lemma ed_upper: "(edit_step ^^ (ed a b)) a b"
proof (induction a b rule: ed.induct)
  case (1 ys)
  show ?case
  proof (induction ys)
    case Nil
    then show ?case by simp
  next
    case (Cons y ys)
    then show ?case using edit_step_first(2) [of ys y] by (auto intro: relpowp_Suc_I)
  qed
next
  case (2 x xs)
  have "(edit_step ^^ length zs) zs []" for zs :: "'a list"
  proof (induction zs)
    case (Cons z zs)
    show ?case unfolding length_Cons by (rule relpowp_Suc_I2 [OF edit_step_first(1) Cons])
  qed simp
  then show ?case by (metis ed.simps(2))
next
  case (3 x xs y ys)
  have d: "(edit_step ^^ Suc (ed xs (y # ys))) (x # xs) (y # ys)"
    by (rule relpowp_Suc_I2 [OF edit_step_first(1) 3(1)])
  have i: "(edit_step ^^ Suc (ed (x # xs) ys)) (x # xs) (y # ys)"
    by (rule relpowp_Suc_I [OF 3(2) edit_step_first(2)])
  have r: "(edit_step ^^ (ed xs ys + (if x = y then 0 else 1))) (x # xs) (y # ys)"
    using edit_steps_Cons [OF 3(3), of x] relpowp_Suc_I2 [OF edit_step_first(3) edit_steps_Cons [OF 3(3)], of x y]
    by auto
  show ?case using d i r by (simp add: min_def)
qed

lemma ed_least: "ed a b = (LEAST n. (edit_step ^^ n) a b)"
  by (rule Least_equality [symmetric]) (auto intro: ed_upper ed_lower)

lemma edit_step_rev: "edit_step x y \<Longrightarrow> edit_step (rev x) (rev y)"
  unfolding edit_step_def
proof (elim exE)
  fix u v c d
  assume "x = u @ c # v \<and> y = u @ v \<or> x = u @ v \<and> y = u @ c # v \<or> x = u @ c # v \<and> y = u @ d # v"
  then show "\<exists>u v c d. rev x = u @ c # v \<and> rev y = u @ v \<or> rev x = u @ v \<and> rev y = u @ c # v \<or>
      rev x = u @ c # v \<and> rev y = u @ d # v"
    by (intro exI [of _ "rev v"] exI [of _ "rev u"] exI [of _ c] exI [of _ d]) auto
qed

lemma edit_steps_rev: "(edit_step ^^ n) x y \<Longrightarrow> (edit_step ^^ n) (rev x) (rev y)"
proof (induction n arbitrary: y)
  case 0
  then show ?case by simp
next
  case (Suc n)
  then show ?case by (auto intro: edit_step_rev)
qed

lemma ed_rev: "ed (rev a) (rev b) = ed a b"
  by (rule antisym)
    (use ed_lower [OF edit_steps_rev [OF ed_upper [of a b]]] ed_lower [OF edit_steps_rev [OF ed_upper [of "rev a" "rev b"]]] in simp_all)

lemma ed_snoc: "ed (xs @ [x]) (ys @ [y]) =
    min (Suc (ed xs (ys @ [y]))) (min (Suc (ed (xs @ [x]) ys)) (ed xs ys + (if x = y then 0 else 1)))"
  using ed_rev [of "xs @ [x]" "ys @ [y]"] ed_rev [of xs "ys @ [y]"] ed_rev [of "xs @ [x]" ys] ed_rev [of xs ys]
  by simp

section \<open>The rows of the table\<close>

lemma lev_cells_correct:
  "lev_cells c rest (map (\<lambda>j. ed p (d @ take j rest)) [0..<Suc (length rest)]) (ed (p @ [c]) d)
     = map (\<lambda>j. ed (p @ [c]) (d @ take (Suc j) rest)) [0..<length rest]"
proof (induction rest arbitrary: d)
  case Nil
  then show ?case by simp
next
  case (Cons r rest)
  let ?f = "\<lambda>j. ed p (d @ take j (r # rest))"
  have m: "map ?f [0..<Suc (length (r # rest))] = ed p d # ed p (d @ [r]) # map (\<lambda>j. ?f (Suc (Suc j))) [0..<length rest]"
    by (simp add: upt_conv_Cons map_Suc_upt [symmetric] comp_def del: upt_Suc map_Suc_upt)
  have t: "ed p (d @ [r]) # map (\<lambda>j. ?f (Suc (Suc j))) [0..<length rest]
      = map (\<lambda>j. ed p ((d @ [r]) @ take j rest)) [0..<Suc (length rest)]"
    by (simp add: map_upt_Suc del: upt_Suc)
  have v: "min (ed p (d @ [r]) + 1) (min (ed (p @ [c]) d + 1) (ed p d + (if c = r then 0 else 1))) = ed (p @ [c]) (d @ [r])"
    by (simp add: ed_snoc)
  have "lev_cells c (r # rest) (map ?f [0..<Suc (length (r # rest))]) (ed (p @ [c]) d)
      = ed (p @ [c]) (d @ [r]) # lev_cells c rest (map (\<lambda>j. ed p ((d @ [r]) @ take j rest)) [0..<Suc (length rest)]) (ed (p @ [c]) (d @ [r]))"
    by (simp only: m lev_cells.simps Let_def v) (simp only: t)
  also have "\<dots> = map (\<lambda>j. ed (p @ [c]) (d @ take (Suc j) (r # rest))) [0..<length (r # rest)]"
    unfolding Cons.IH by (simp add: map_upt_Suc del: upt_Suc)
  finally show ?case .
qed

lemma lev_rows_correct:
  "lev_rows (Suc (length p)) a b (map (\<lambda>j. ed p (take j b)) [0..<Suc (length b)])
     = map (\<lambda>j. ed (p @ a) (take j b)) [0..<Suc (length b)]"
proof (induction a arbitrary: p)
  case Nil
  then show ?case by simp
next
  case (Cons c a)
  have "Suc (length p) # lev_cells c b (map (\<lambda>j. ed p (take j b)) [0..<Suc (length b)]) (Suc (length p))
      = map (\<lambda>j. ed (p @ [c]) (take j b)) [0..<Suc (length b)]"
    using lev_cells_correct [of c b p "[]"] by (simp add: map_upt_Suc del: upt_Suc)
  then show ?case using Cons.IH [of "p @ [c]"] by simp
qed

lemma levenshtein_ed: "levenshtein a b = ed a b"
proof -
  have "[0..<Suc (length b)] = map (\<lambda>j. ed [] (take j b)) [0..<Suc (length b)]"
    by (rule nth_equalityI) (simp_all del: upt_Suc)
  then have "lev_rows 1 a b [0..<Suc (length b)] = map (\<lambda>j. ed a (take j b)) [0..<Suc (length b)]"
    using lev_rows_correct [of "[]" a b] by simp
  then show ?thesis by (cases "a = b") (auto simp: levenshtein_def last_map)
qed

lemma levenshtein_metric: "(edit_step ^^ levenshtein a b) a b" "(edit_step ^^ n) a b \<Longrightarrow> levenshtein a b \<le> n"
  by (simp_all add: levenshtein_ed ed_upper ed_lower)

lemma levenshtein_one: "a \<noteq> b \<Longrightarrow> levenshtein a b = 1 \<longleftrightarrow> edit_step a b"
  using levenshtein_metric(1) [of a b] levenshtein_metric(2) [of 1 a b] levenshtein_metric(1) [of a b]
  by (cases "levenshtein a b") (auto simp: relpowp_1)

end
