(* ===== verification/Metadata.thy ===== *)
theory Metadata
  imports EditDistance Store
begin

text \<open>
  The metadata analyzers: \<^verbatim>\<open>analyze/metadata.py\<close>, \<^verbatim>\<open>analyze/lure_names.py\<close> and
  \<^verbatim>\<open>analyze/version_diff.py\<close>. \<open>isof\<close> prints a time; regular expressions are the functions on strings they
  denote. Lure keywords are not empty.
\<close>

section \<open>Typosquats\<close>

definition normalize_pkg_name :: "string \<Rightarrow> string" where
  "normalize_pkg_name name = filter (\<lambda>c. c \<notin> {CHR ''-'', CHR ''_'', CHR ''.''}) (lower name)"

definition wrapper_prefixes :: "string list" where
  "wrapper_prefixes = [''python-'', ''py-'', ''python3-'', ''py3-'', ''lib'']"

definition wrapper_suffixes :: "string list" where
  "wrapper_suffixes = [''-python'', ''-py'', ''-python3'', ''-py3'', ''-lib'', ''-sdk'', ''-api'', ''-client'']"

definition meta_finding :: "string \<Rightarrow> string \<Rightarrow> string \<Rightarrow> string \<Rightarrow> finding" where
  "meta_finding rule sev conf ev = mk_finding (''metadata.'' @ rule) ''metadata'' sev conf ev"

text \<open>The first top package within \<open>max_distance\<close> edits, with the distance.\<close>

definition near_top :: "nat \<Rightarrow> string \<Rightarrow> string list \<Rightarrow> string option" where
  "near_top max_distance name_l tops =
    find (\<lambda>t. lower t \<noteq> name_l \<and> 0 < levenshtein name_l (lower t) \<and> levenshtein name_l (lower t) \<le> max_distance) tops"

text \<open>\<^verbatim>\<open>top_norms\<close>: of the top packages with the same normal form, the last.\<close>

definition top_norms :: "string list \<Rightarrow> string \<rightharpoonup> string" where
  "top_norms tops = map_of (rev (map (\<lambda>t. (normalize_pkg_name t, t)) tops))"

definition wraps_prefix :: "string \<Rightarrow> string list \<Rightarrow> string \<Rightarrow> bool" where
  "wraps_prefix name_l tops p \<longleftrightarrow> prefix p name_l \<and> drop (length p) name_l \<noteq> [] \<and> drop (length p) name_l \<in> lower ` set tops"

definition wraps_suffix :: "string \<Rightarrow> string list \<Rightarrow> string \<Rightarrow> bool" where
  "wraps_suffix name_l tops s \<longleftrightarrow> suffix s name_l \<and> take (length name_l - length s) name_l \<noteq> [] \<and>
     take (length name_l - length s) name_l \<in> lower ` set tops"

definition wrapper_squat :: "string \<Rightarrow> string list \<Rightarrow> finding list" where
  "wrapper_squat name tops =
    (let name_l = lower name in
     case find (wraps_prefix name_l tops) wrapper_prefixes of
       Some p \<Rightarrow> [meta_finding ''typosquat_prefix'' ''medium'' ''medium''
         (repr name @ '' wraps popular package '' @ repr (drop (length p) name_l) @ '' with prefix '' @ repr p)]
     | None \<Rightarrow>
         (case find (wraps_suffix name_l tops) wrapper_suffixes of
            Some s \<Rightarrow> [meta_finding ''typosquat_suffix'' ''medium'' ''medium''
              (repr name @ '' wraps popular package '' @ repr (take (length name_l - length s) name_l) @
               '' with suffix '' @ repr s)]
          | None \<Rightarrow> []))"

definition separator_squat :: "string \<Rightarrow> string list \<Rightarrow> string option" where
  "separator_squat name tops =
    (case top_norms tops (normalize_pkg_name (lower name)) of
       Some t \<Rightarrow> (if lower t \<noteq> lower name then Some t else None)
     | None \<Rightarrow> None)"

definition typosquat_distance :: "nat \<Rightarrow> string \<Rightarrow> string list \<Rightarrow> finding list" where
  "typosquat_distance max_distance name tops =
    (let name_l = lower name in
     if list_ex (\<lambda>t. lower t = name_l) tops then []
     else (case near_top max_distance name_l tops of
         Some t \<Rightarrow> [meta_finding ''typosquat_candidate'' ''high'' ''medium''
            (''name '' @ repr name @ '' within '' @ nat_str (levenshtein name_l (lower t)) @ '' edit(s) of top package '' @ repr t)]
       | None \<Rightarrow>
           (case separator_squat name tops of
              Some t \<Rightarrow> [meta_finding ''typosquat_separator'' ''high'' ''high''
                (repr name @ '' matches '' @ repr t @ '' after normalizing separators'')]
            | None \<Rightarrow> wrapper_squat name tops)))"

section \<open>Files, versions, releases, maintainers\<close>

definition code_file :: "string \<Rightarrow> bool" where
  "code_file f \<longleftrightarrow> suffix ''.py'' f \<or> suffix ''.so'' f \<or> suffix ''.pyd'' f \<or> suffix ''.pyz'' f"

definition strip_wheel_meta :: "string list \<Rightarrow> string list" where
  "strip_wheel_meta files = filter (\<lambda>f. \<not> (suffix ''.dist-info'' (fst (split1 (CHR ''/'') f)) \<or>
     suffix ''.data'' (fst (split1 (CHR ''/'') f)))) files"

definition code_basenames :: "string list \<Rightarrow> string list" where
  "code_basenames files = nub (map basename (filter code_file (strip_wheel_meta files)))"

definition file_list_mismatch :: "string list \<Rightarrow> string list \<Rightarrow> finding list" where
  "file_list_mismatch sdist_files wheel_files =
    (if sdist_files = [] \<or> wheel_files = [] then []
     else (let wheel_only = filter (\<lambda>f. f \<notin> set (code_basenames sdist_files) \<and> f \<notin> {''_version.py'', ''setup.py''})
                 (code_basenames wheel_files)
       in if wheel_only \<noteq> [] then [meta_finding ''sdist_wheel_mismatch'' ''low'' ''low''
            (''wheel contains files absent from sdist: '' @ repr_list (take 5 (sort wheel_only)))] else []))"

definition py_digits :: "string \<Rightarrow> bool" where
  "py_digits s \<longleftrightarrow> s \<noteq> [] \<and> list_all is_digit s"

definition digits_value :: "string \<Rightarrow> nat" where
  "digits_value s = foldl (\<lambda>n c. n * 10 + (of_char c - 48)) 0 s"

definition version_core :: "string \<Rightarrow> string" where
  "version_core v = fst (split1 (CHR ''+'') (fst (split1 (CHR ''-'') (lstrip_by (\<lambda>c. c = CHR ''v'') (strip v)))))"

definition dependency_confusion_version :: "string \<Rightarrow> bool" where
  "dependency_confusion_version version =
    (let parts = split_on (CHR ''.'') (version_core version) in
     if length parts < 2 \<or> \<not> list_all py_digits parts then False
     else if list_all (\<lambda>p. set p = {CHR ''9''}) parts then True
     else (let nums = map digits_value parts in
       if card (set nums) = 1 \<and> 9 \<le> hd nums then True else 99 \<le> hd nums \<and> hd nums < 1900))"

definition dep_confusion_finding :: "string \<Rightarrow> finding option" where
  "dep_confusion_finding version =
    (if version = [] \<or> \<not> dependency_confusion_version version then None
     else Some (meta_finding ''dependency_confusion_version'' ''low'' ''medium''
       (''version '' @ repr version @ '' fits dependency-confusion version inflation (absurd/patterned semver to win a resolution race)'')))"

definition rapid_release :: "(timestamp \<Rightarrow> string) \<Rightarrow> timestamp \<Rightarrow> timestamp option \<Rightarrow> finding option" where
  "rapid_release isof now prev =
    (case prev of None \<Rightarrow> None
     | Some t \<Rightarrow> (if now - t < hours 24 then Some (meta_finding ''rapid_release'' ''medium'' ''medium''
         (''new release < 24h after previous (prev='' @ isof t @ '')'')) else None))"

definition maintainer_change :: "string list \<Rightarrow> string list \<Rightarrow> finding option" where
  "maintainer_change now_list prev_list =
    (if prev_list = [] \<or> now_list = [] then None
     else (let now_set = nub (map lower now_list); prev_set = nub (map lower prev_list);
               added = filter (\<lambda>m. m \<notin> set prev_set) now_set; removed = filter (\<lambda>m. m \<notin> set now_set) prev_set
       in if added \<noteq> [] \<or> removed \<noteq> [] then Some (meta_finding ''maintainer_change'' ''medium'' ''high''
            (''maintainers changed (+'' @ repr_list (sort added) @ '', -'' @ repr_list (sort removed) @ '')'')) else None))"

section \<open>Forge hosts\<close>

definition legit_forge_hosts :: "string set" where
  "legit_forge_hosts = {''github.com'', ''gitlab.com'', ''bitbucket.org'', ''gitea.com'', ''codeberg.org'', ''gitee.com'',
     ''git.sr.ht'', ''code.gitea.io'', ''code.forgejo.org'', ''git.kernel.org'', ''android.googlesource.com''}"

definition numeric_after :: "string \<Rightarrow> bool" where
  "numeric_after s \<longleftrightarrow> 3 \<le> length (takeWhile is_digit s) \<and>
     (case dropWhile is_digit s of [] \<Rightarrow> False | c # _ \<Rightarrow> c = CHR ''.'')"

definition numeric_forge :: "string \<Rightarrow> bool" where
  "numeric_forge host \<longleftrightarrow> list_ex (\<lambda>p. prefix (p @ ''.'') (lower host) \<and> numeric_after (drop (Suc (length p)) host))
     [''gh'', ''git'', ''github'', ''gitlab'', ''hub'', ''go'']"

definition ephemeral_host :: "string \<Rightarrow> bool" where
  "ephemeral_host host \<longleftrightarrow> suffix ''.workers.dev'' (lower host) \<or> suffix ''.pages.dev'' (lower host)"

definition gomod_impersonating_host :: "string \<Rightarrow> finding option" where
  "gomod_impersonating_host name =
    (if CHR ''/'' \<notin> set name then None
     else (let host = strip (lower (fst (split1 (CHR ''/'') name))) in
       if host = [] \<or> CHR ''.'' \<notin> set host \<or> host \<in> legit_forge_hosts then None
       else if list_ex (\<lambda>s. suffix s host) [''.github.com'', ''.gitlab.com'', ''.bitbucket.org'', ''.googlesource.com''] then None
       else (let reason =
           (if ephemeral_host host \<and> list_ex (contains host) [''github'', ''gitlab'', ''gh'', ''git'']
            then Some ''code-forge name on a Cloudflare ephemeral host (workers.dev/pages.dev)''
            else if numeric_forge host then Some ''git-prefix on a numeric throwaway domain'' else None)
         in map_option (\<lambda>r. (meta_finding ''gomod_impersonating_forge_host'' ''high'' ''high''
              (''Go module host '' @ [CHR 0x27] @ host @ [CHR 0x27] @ '' impersonates a code forge ('' @ r @ '') '' @
               [CHR 0xE2, CHR 0x80, CHR 0x94] @ '' namespace-hijack / dependency-confusion republishing a module under attacker infra''))
              \<lparr>f_file := None\<rparr>) reason)))"

section \<open>Lure names\<close>

text \<open>\<^verbatim>\<open>re.compile("|".join(escaped), re.IGNORECASE).findall(s)\<close>.\<close>

function find_keywords :: "string list \<Rightarrow> string \<Rightarrow> string list" where
  "find_keywords kws [] = []"
| "find_keywords kws (c # s) =
    (case find (\<lambda>k. k \<noteq> [] \<and> prefix (lower k) (lower (c # s))) kws of
       None \<Rightarrow> find_keywords kws s
     | Some k \<Rightarrow> take (length k) (c # s) # find_keywords kws (drop (length k) (c # s)))"
  by pat_completeness auto
termination
  by (relation "measure (length \<circ> snd)") (auto dest!: find_SomeD simp: neq_Nil_conv)

definition score_name :: "intel_pack \<Rightarrow> string \<Rightarrow> (string \<times> string list) list" where
  "score_name p name =
    filter (\<lambda>(cat, ms). ms \<noteq> []) (map (\<lambda>(cat, kws). (cat, find_keywords kws (lower name)))
      (filter (\<lambda>(cat, kws). kws \<noteq> []) (ip_lure_keywords p)))"

definition analyze_lure_name :: "intel_pack \<Rightarrow> string \<Rightarrow> finding list" where
  "analyze_lure_name p name =
    (let hits = sort_key fst (score_name p name); n = length hits in
     if n < 2 then []
     else (let ev = ''name '' @ repr name @ '' matches '' @ nat_str n @ '' lure categories: '' @ join '', '' (map fst hits) @
                '' (keywords: '' @ join '', '' (concat (map snd hits)) @ '')''
       in if 3 \<le> n then [meta_finding ''lure_name_combo'' ''high'' ''medium'' ev]
          else [meta_finding ''lure_name'' ''medium'' ''medium'' ev]))"

section \<open>The composition\<close>

record metadata_context =
  mc_name :: string
  mc_version :: string
  mc_previous_release_at :: "timestamp option"
  mc_maintainers_now :: "string list"
  mc_maintainers_prev :: "string list"
  mc_watchlist_top_names :: "string list"
  mc_sdist_files :: "string list"
  mc_wheel_files :: "string list"

definition opt_list :: "'a option \<Rightarrow> 'a list" where
  "opt_list x = (case x of None \<Rightarrow> [] | Some y \<Rightarrow> [y])"

definition analyze_metadata :: "intel_pack \<Rightarrow> (timestamp \<Rightarrow> string) \<Rightarrow> timestamp \<Rightarrow> metadata_context \<Rightarrow> finding list" where
  "analyze_metadata p isof now c =
    opt_list (rapid_release isof now (mc_previous_release_at c)) @
    opt_list (maintainer_change (mc_maintainers_now c) (mc_maintainers_prev c)) @
    typosquat_distance 1 (mc_name c) (mc_watchlist_top_names c) @
    file_list_mismatch (mc_sdist_files c) (mc_wheel_files c) @
    analyze_lure_name p (mc_name c) @
    opt_list (dep_confusion_finding (mc_version c)) @
    opt_list (gomod_impersonating_host (mc_name c))"

section \<open>Version difference\<close>

record previous_version =
  pv_version :: string
  pv_verdict :: verdict
  pv_score :: int
  pv_rule_ids :: "string set"
  pv_finding_count :: nat
  pv_author :: "string option"
  pv_author_email :: "string option"
  pv_upload_time :: "timestamp option"
  pv_requires_dist :: "string list"

fun verdict_name :: "verdict \<Rightarrow> string" where
  "verdict_name Clean = ''clean''"
| "verdict_name Suspicious = ''suspicious''"
| "verdict_name Malicious = ''malicious''"
| "verdict_name Benign = ''benign''"
| "verdict_name Inconclusive = ''inconclusive''"
| "verdict_name Errored = ''error''"
| "verdict_name Skipped = ''skipped''"
| "verdict_name Unverified = ''unverified''"

definition vd_finding :: "string \<Rightarrow> string \<Rightarrow> string \<Rightarrow> string \<Rightarrow> finding" where
  "vd_finding rule sev conf ev = mk_finding (''version_diff.'' @ rule) ''version_diff'' sev conf ev"

definition or_text :: "string option \<Rightarrow> string option \<Rightarrow> string option" where
  "or_text a b = (if truthy a then a else b)"

definition new_rules :: "finding list \<Rightarrow> previous_version \<Rightarrow> string list" where
  "new_rules fs prev = sort (filter (\<lambda>r. r \<notin> pv_rule_ids prev) (nub (map f_rule_id fs)))"

definition new_critical_rules :: "finding list \<Rightarrow> previous_version \<Rightarrow> string list" where
  "new_critical_rules fs prev =
    filter (\<lambda>r. list_ex (\<lambda>f. f_rule_id f = r \<and> f_severity f = ''critical'') fs) (new_rules fs prev)"

definition rules_diff :: "finding list \<Rightarrow> previous_version \<Rightarrow> finding list" where
  "rules_diff fs prev =
    (if new_critical_rules fs prev \<noteq> [] \<and> pv_verdict prev = Clean then
       [vd_finding ''clean_to_critical'' ''critical'' ''high''
         (''previous version '' @ pv_version prev @ '' was clean, new version introduces critical rules: '' @
          repr_list (new_critical_rules fs prev))]
     else if pv_verdict prev = Clean \<and> new_rules fs prev \<noteq> [] then
       [vd_finding ''new_rules_fired'' ''medium'' ''medium''
         (''previous version '' @ pv_version prev @ '' (verdict='' @ verdict_name (pv_verdict prev) @ '') did not trigger: '' @
          repr_list (take 10 (new_rules fs prev)))]
     else [])"

definition author_diff :: "(string \<times> json) list \<Rightarrow> previous_version \<Rightarrow> finding list" where
  "author_diff meta prev =
    (let cur = or_text (jtext meta ''author_email'') (jtext meta ''author'');
         old = or_text (pv_author_email prev) (pv_author prev)
     in if truthy cur \<and> truthy old \<and> lower (or_empty cur) \<noteq> lower (or_empty old)
        then [vd_finding ''author_changed'' ''high'' ''high''
          (''author changed: '' @ repr (or_empty old) @ '' -> '' @ repr (or_empty cur) @ '' (possible account takeover)'')]
        else [])"

definition deps_diff :: "(string \<times> json) list \<Rightarrow> previous_version \<Rightarrow> finding list" where
  "deps_diff meta prev =
    (let cur = nub (get_or [] (jtexts meta ''requires_dist'')); old = nub (pv_requires_dist prev);
         new = filter (\<lambda>d. d \<notin> set old) cur
     in if new \<noteq> [] \<and> length old < 2 * length new \<and> 3 \<le> length new
        then [vd_finding ''dependency_spike'' ''medium'' ''medium''
          (''added '' @ nat_str (length new) @ '' new dependencies vs '' @ nat_str (length old) @ '' previous: '' @
           repr_list (take 8 (sort new)))]
        else [])"

definition analyze_version_diff :: "finding list \<Rightarrow> (string \<times> json) list \<Rightarrow> previous_version \<Rightarrow> finding list" where
  "analyze_version_diff fs meta prev = rules_diff fs prev @ author_diff meta prev @ deps_diff meta prev"

section \<open>Lemmas\<close>

lemma near_top_iff:
  "(near_top 1 a tops \<noteq> None) \<longleftrightarrow> (\<exists>t\<in>set tops. lower t \<noteq> a \<and> edit_step a (lower t))"
proof -
  have "(0 < levenshtein a b \<and> levenshtein a b \<le> 1) \<longleftrightarrow> edit_step a b" if "b \<noteq> a" for b
    using levenshtein_one [of a b] that by (cases "levenshtein a b") auto
  then show ?thesis by (auto simp: near_top_def find_None_iff)
qed

lemma wrapper_squat_rules:
  "f \<in> set (wrapper_squat name tops) \<Longrightarrow> f_rule_id f \<in> {''metadata.typosquat_prefix'', ''metadata.typosquat_suffix''}"
  by (auto simp: wrapper_squat_def meta_finding_def mk_finding_def Let_def split: option.splits)

lemma wrapper_squat_no_candidate:
  "f \<in> set (wrapper_squat name tops) \<Longrightarrow> f_rule_id f \<noteq> ''metadata.typosquat_candidate''"
  using wrapper_squat_rules [of f name tops] by auto

lemma wrapper_squat_one: "length (wrapper_squat name tops) \<le> 1"
  by (auto simp: wrapper_squat_def Let_def split: option.splits)

text \<open>C23. Typosquatting is one edit from a popular name. The row-by-row loop computes the edit distance:
  that many single-character edits lead from one string to the other, and no fewer. Hence the high
  finding of the first check fires exactly for names that are no top package themselves, ignoring case,
  and that a single insertion, deletion or replacement turns into one; and there is at most one finding.\<close>

theorem typosquat_one_edit:
  "(edit_step ^^ levenshtein a b) a b \<and> (\<forall>n. (edit_step ^^ n) a b \<longrightarrow> levenshtein a b \<le> n) \<and>
   ((\<exists>f\<in>set (typosquat_distance 1 name tops). f_rule_id f = ''metadata.typosquat_candidate'') \<longleftrightarrow>
      (\<forall>t\<in>set tops. lower t \<noteq> lower name) \<and> (\<exists>t\<in>set tops. edit_step (lower name) (lower t))) \<and>
   length (typosquat_distance 1 name tops) \<le> 1"
proof -
  have "(\<exists>f\<in>set (typosquat_distance 1 name tops). f_rule_id f = ''metadata.typosquat_candidate'') \<longleftrightarrow>
      \<not> list_ex (\<lambda>t. lower t = lower name) tops \<and> near_top 1 (lower name) tops \<noteq> None"
    by (auto simp: typosquat_distance_def Let_def meta_finding_def mk_finding_def
        dest: wrapper_squat_no_candidate split: option.splits)
  moreover have "length (typosquat_distance 1 name tops) \<le> 1"
    using wrapper_squat_one [of name tops] by (auto simp: typosquat_distance_def Let_def split: option.splits)
  ultimately show ?thesis
    using levenshtein_metric(1) [of a b] levenshtein_metric(2) [of _ a b] unfolding near_top_iff
    by (auto simp: list_ex_iff)
qed

theorem typosquat_one_edit_witness:
  "\<exists>f\<in>set (typosquat_distance 1 ''Reqests'' [''numpy'', ''requests'']). f_rule_id f = ''metadata.typosquat_candidate''"
proof -
  have "edit_step ''reqests'' ''requests''"
    using edit_step_def [of "''reqests''" "''requests''"]
    by (metis (no_types, opaque_lifting) append_Cons append_Nil)
  moreover have "lower ''Reqests'' = ''reqests''" "lower ''numpy'' = ''numpy''" "lower ''requests'' = ''requests''"
    by code_simp+
  ultimately show ?thesis
    using typosquat_one_edit [of "[]" "[]" "''Reqests''" "[''numpy'', ''requests'']"] by simp
qed

end
