(* ===== verification/Pipeline.thy ===== *)
theory Pipeline
  imports Adjudication ScanQueue DetonationQueue ScopeWatchlist KnownBad FindingReuse Metadata
begin

text \<open>
  The scan pipeline: \<^verbatim>\<open>pipeline.py\<close>. The database is the record \<open>db\<close> of the tables the pipeline touches, each
  list in the order of its primary key; the process's own state (rate limiter, dependency cache) and the
  log of what left the process (alerts, vaulted archives) stand beside the tables. Static analyzers, the
  walk over the extracted tree and the model behind the triage are arguments.
\<close>

record file_meta =
  fm_real :: string
  fm_parts :: "string list"
  fm_size :: "int option"
  fm_data :: "string option"

section \<open>Changed files, giants, ecosystem filters\<close>

text \<open>The info and the path of a file under its normalized path: of files with the same normalized path the
  last one walked wins.\<close>

definition strips_root :: "string \<Rightarrow> bool" where
  "strips_root kind \<longleftrightarrow> kind \<in> {''sdist'', ''crate'', ''gomod_zip'', ''npm_tarball''}"

definition normalized_path :: "string \<Rightarrow> file_meta \<Rightarrow> string" where
  "normalized_path kind m =
    (if strips_root kind \<and> 1 < length (fm_parts m) then join ''/'' (tl (fm_parts m)) else fm_real m)"

record hash_caps =
  hc_sha :: "string \<Rightarrow> string"
  hc_entropy :: "string \<Rightarrow> rat"
  hc_ssdeep :: "(string \<Rightarrow> string) option"
  hc_tlsh :: "(string \<Rightarrow> string) option"
  hc_full_max :: int

definition file_info_of :: "hash_caps \<Rightarrow> bool \<Rightarrow> file_meta \<Rightarrow> file_info option" where
  "file_info_of hc lite m =
    (case fm_size m of
       None \<Rightarrow> None
     | Some sz \<Rightarrow>
         (case fm_data m of
            None \<Rightarrow> None
          | Some d \<Rightarrow>
              (if hc_full_max hc < sz
               then Some \<lparr>fi_sha256 = hc_sha hc d, fi_entropy = 0, fi_ssdeep = [], fi_tlsh = []\<rparr>
               else (let big = 64 \<le> length d;
                         fuzzy = (\<lambda>f. case f of None \<Rightarrow> [] | Some h \<Rightarrow> (if \<not> lite \<and> big then h d else [])) in
                 Some \<lparr>fi_sha256 = hc_sha hc d, fi_entropy = (if big then hc_entropy hc d else 0),
                   fi_ssdeep = fuzzy (hc_ssdeep hc), fi_tlsh = fuzzy (hc_tlsh hc)\<rparr>))))"

fun compute_file_hashes :: "hash_caps \<Rightarrow> string \<Rightarrow> bool \<Rightarrow> file_meta list \<Rightarrow>
    (string \<times> file_info) list \<times> (string \<times> string) list \<Rightarrow> (string \<times> file_info) list \<times> (string \<times> string) list" where
  "compute_file_hashes hc kind lite [] acc = acc"
| "compute_file_hashes hc kind lite (m # ms) (infos, reals) =
    (case file_info_of hc lite m of
       None \<Rightarrow> compute_file_hashes hc kind lite ms (infos, reals)
     | Some fi \<Rightarrow> compute_file_hashes hc kind lite ms
         (dict_put (normalized_path kind m) fi infos, dict_put (normalized_path kind m) (fm_real m) reals))"

fun giant_loop :: "nat \<Rightarrow> int \<Rightarrow> nat \<Rightarrow> int \<Rightarrow> file_meta list \<Rightarrow> bool" where
  "giant_loop max_files max_bytes n bytes [] = False"
| "giant_loop max_files max_bytes n bytes (m # ms) =
    (let n1 = Suc n; b1 = bytes + get_or 0 (fm_size m) in
     if max_files < n1 \<or> max_bytes < b1 then True else giant_loop max_files max_bytes n1 b1 ms)"

definition giant_lite :: "bool \<Rightarrow> nat \<Rightarrow> int \<Rightarrow> file_meta list \<Rightarrow> bool" where
  "giant_lite fastpath max_files max_bytes ms \<longleftrightarrow> fastpath \<and> giant_loop max_files max_bytes 0 0 ms"

definition find_changed_files :: "(string \<times> file_info) list \<Rightarrow> (string \<times> file_info) list \<Rightarrow> (string \<times> string) list \<Rightarrow> string list" where
  "find_changed_files cur prev reals =
    nub (map (\<lambda>(p, fi). or_empty (dict_get reals p))
      (filter (\<lambda>(p, fi). map_option fi_sha256 (dict_get prev p) \<noteq> Some (fi_sha256 fi)) cur))"

definition gomod_non_go_suppress :: "string set" where
  "gomod_non_go_suppress = {''yara.cross_ecosystem_python_in_go'', ''yara.pyarmor_suspicious_deps'', ''yara.pyarmor_obfuscation''}"

definition gomod_has_go :: "file_meta list \<Rightarrow> bool" where
  "gomod_has_go ms = list_ex (\<lambda>m. (case fm_parts m of [] \<Rightarrow> False
     | ps \<Rightarrow> last ps = ''go.mod'' \<or> (suffix ''.go'' (last ps) \<and> last ps \<noteq> ''.go''))) ms"

definition filter_gomod_non_go :: "file_meta list \<Rightarrow> finding list \<Rightarrow> finding list" where
  "filter_gomod_non_go ms fs =
    (if gomod_has_go ms then fs else filter (\<lambda>f. f_rule_id f \<notin> gomod_non_go_suppress) fs)"

section \<open>Static analyzers\<close>

text \<open>The analyzers as arguments: the set of changed files, if any, to findings.\<close>

record analyzers =
  an_imports :: "string list option \<Rightarrow> finding list"
  an_malware_patterns :: "string list option \<Rightarrow> finding list"
  an_iocs :: "string list option \<Rightarrow> finding list"
  an_secret_access :: "string list option \<Rightarrow> finding list"
  an_entropy :: "string list option \<Rightarrow> finding list"
  an_obfuscation :: "string list option \<Rightarrow> finding list"
  an_entropy_delta :: "(string \<times> file_info) list \<Rightarrow> (string \<times> file_info) list \<Rightarrow> (string \<times> string) list \<Rightarrow> finding list"
  an_binary :: "string list option \<Rightarrow> finding list"
  an_yara :: "string list option \<Rightarrow> finding list"
  an_opengrep :: "string list option \<Rightarrow> ecosystem \<Rightarrow> finding list"
  an_install :: "string list option \<Rightarrow> finding list"
  an_url_deps :: "finding list option"
  an_replaces_install :: "ecosystem \<Rightarrow> bool"
  an_webcrack :: "string list option"

definition run_analyzers :: "analyzers \<Rightarrow> string list option \<Rightarrow> (string \<times> file_info) list \<Rightarrow> (string \<times> file_info) list \<Rightarrow>
    (string \<times> string) list \<Rightarrow> ecosystem \<Rightarrow> bool \<Rightarrow> finding list" where
  "run_analyzers an changed cur prev reals eco lite =
    (if eco = ''pypi'' then an_imports an changed @ an_malware_patterns an changed else []) @
    an_iocs an changed @ an_secret_access an changed @
    (if lite then [] else an_entropy an changed @ an_obfuscation an changed) @
    an_entropy_delta an cur prev reals @ an_binary an changed @ an_yara an changed @ an_opengrep an changed eco"

definition run_static_analyzers :: "analyzers \<Rightarrow> string \<Rightarrow> file_meta list \<Rightarrow> ecosystem \<Rightarrow> string \<Rightarrow> string list option \<Rightarrow>
    (string \<times> file_info) list \<Rightarrow> (string \<times> file_info) list \<Rightarrow> (string \<times> string) list \<Rightarrow> bool \<Rightarrow> finding list" where
  "run_static_analyzers an install_kind ms eco kind changed cur prev reals lite =
    (let fs = (if kind = install_kind \<and> \<not> an_replaces_install an eco then an_install an changed else []) @
              (if eco = ''npm'' \<and> kind = install_kind then get_or [] (an_url_deps an) else []) @
              run_analyzers an changed cur prev reals eco lite
     in if eco = ''gomod'' then filter_gomod_non_go ms fs else fs)"

record archive =
  ar_kind :: string
  ar_files :: "file_meta list"
  ar_members :: "string list"
  ar_analyzers :: analyzers

text \<open>One round of the loop over the archives in \<^verbatim>\<open>process_one\<close>: the findings and the hashes.\<close>

definition analyze_archive :: "hash_caps \<Rightarrow> bool \<times> nat \<times> int \<Rightarrow> string \<Rightarrow> ecosystem \<Rightarrow> (string \<Rightarrow> (string \<times> file_info) list) \<Rightarrow>
    archive \<Rightarrow> finding list \<times> (string \<times> (string \<times> file_info) list)" where
  "analyze_archive hc giant install_kind eco prev_by_kind a =
    (let (fast, max_files, max_bytes) = giant;
         lite = giant_lite fast max_files max_bytes (ar_files a);
         (cur, reals) = compute_file_hashes hc (ar_kind a) lite (ar_files a) ([], []);
         prev = prev_by_kind (ar_kind a);
         changed = (if prev \<noteq> [] then Some (find_changed_files cur prev reals) else None);
         changed1 = (case changed of None \<Rightarrow> None
           | Some ch \<Rightarrow> Some (if eco = ''npm'' \<and> \<not> lite then nub (ch @ get_or [] (an_webcrack (ar_analyzers a))) else ch));
         fs = (if changed = Some [] then []
               else run_static_analyzers (ar_analyzers a) install_kind (ar_files a) eco (ar_kind a) changed1 cur prev reals lite)
     in (fs, (ar_kind a, cur)))"

section \<open>Tables\<close>

record db =
  db_queue :: scan_rows
  db_packages :: "package_row list"
  db_versions :: "version_row list"
  db_scans :: "scan_entry list"
  db_findings :: "finding_row list"
  db_hashes :: "file_hash list"
  db_watch :: watch_rows
  db_scopes :: scope_rows
  db_detq :: det_rows
  db_intel :: "intel_row list"
  db_rule_hits :: "(string \<times> nat) list"

definition fresh_id :: "('r \<Rightarrow> nat) \<Rightarrow> 'r list \<Rightarrow> nat" where
  "fresh_id k rs = Suc (foldr max (map k rs) 0)"

definition is_watchlist :: "string \<Rightarrow> ecosystem \<Rightarrow> watch_rows \<Rightarrow> int option" where
  "is_watchlist name eco rs = map_option wl_rank (find (\<lambda>r. wl_ecosystem r = eco \<and> wl_name r = name) rs)"

definition watchlist_top_names :: "ecosystem \<Rightarrow> watch_rows \<Rightarrow> string list" where
  "watchlist_top_names eco rs = map wl_name (take 5000 (sort_key wl_rank (filter (\<lambda>r. wl_ecosystem r = eco) rs)))"

text \<open>\<^verbatim>\<open>_upsert_package_and_version\<close>; a row another transaction inserts first is found by the second query.\<close>

definition empty_version :: "nat \<Rightarrow> ecosystem \<Rightarrow> nat \<Rightarrow> string \<Rightarrow> timestamp \<Rightarrow> version_row" where
  "empty_version i eco pkg v now = \<lparr>vr_id = i, vr_ecosystem = eco, vr_package_id = pkg, vr_version = v,
     vr_first_seen_at = now, vr_author = None, vr_author_email = None, vr_upload_user = None, vr_home_page = None,
     vr_summary = None, vr_requires_python = None, vr_keywords = None, vr_license_text = None, vr_upload_time = None,
     vr_requires_dist = None, vr_maintainers = None, vr_downloads_last_30d = None\<rparr>"

definition find_package :: "ecosystem \<Rightarrow> string \<Rightarrow> package_row list \<Rightarrow> package_row option" where
  "find_package eco name ps = find (\<lambda>p. pk_ecosystem p = eco \<and> pk_name p = name) ps"

definition upsert_package :: "timestamp \<Rightarrow> ecosystem \<Rightarrow> string \<Rightarrow> package_row list \<Rightarrow> package_row list \<times> package_row" where
  "upsert_package now eco name ps =
    (case find_package eco name ps of
       Some p \<Rightarrow> (ps, p)
     | None \<Rightarrow>
         (let p = \<lparr>pk_id = fresh_id pk_id ps, pk_ecosystem = eco, pk_name = name, pk_first_seen_at = now\<rparr>
          in (ps @ [p], p)))"

definition upsert_version :: "timestamp \<Rightarrow> ecosystem \<Rightarrow> nat \<Rightarrow> string \<Rightarrow> version_row list \<Rightarrow> version_row list \<times> version_row" where
  "upsert_version now eco pkg v vs =
    (case find (\<lambda>r. vr_ecosystem r = eco \<and> vr_package_id r = pkg \<and> vr_version r = v) vs of
       Some r \<Rightarrow> (vs, r)
     | None \<Rightarrow> (let r = empty_version (fresh_id vr_id vs) eco pkg v now in (vs @ [r], r)))"

definition upsert_package_and_version :: "timestamp \<Rightarrow> ecosystem \<Rightarrow> string \<Rightarrow> string \<Rightarrow> db \<Rightarrow> db \<times> version_row" where
  "upsert_package_and_version now eco name v d =
    (let (ps, p) = upsert_package now eco name (db_packages d);
         (vs, r) = upsert_version now eco (pk_id p) v (db_versions d)
     in (d\<lparr>db_packages := ps, db_versions := vs\<rparr>, r))"

definition latest_scan :: "nat \<Rightarrow> scan_entry list \<Rightarrow> scan_entry option" where
  "latest_scan ver scans = max_by sc_started_at (filter (\<lambda>s. sc_version_id s = ver) scans)"

definition get_previous_version :: "ecosystem \<Rightarrow> nat \<Rightarrow> nat \<Rightarrow> db \<Rightarrow> previous_version option" where
  "get_previous_version eco pkg excl d =
    (case max_by vr_first_seen_at (filter (\<lambda>r. vr_ecosystem r = eco \<and> vr_package_id r = pkg \<and> vr_id r \<noteq> excl) (db_versions d)) of
       None \<Rightarrow> None
     | Some v \<Rightarrow>
         (case latest_scan (vr_id v) (db_scans d) of
            None \<Rightarrow> None
          | Some sc \<Rightarrow>
              (let rules = map (f_rule_id \<circ> fr_finding) (filter (\<lambda>r. fr_scan_id r = sc_id sc) (db_findings d)) in
               Some \<lparr>pv_version = vr_version v, pv_verdict = sc_verdict sc, pv_score = sc_score sc, pv_rule_ids = set rules,
                 pv_finding_count = length rules, pv_author = vr_author v, pv_author_email = vr_author_email v,
                 pv_upload_time = vr_upload_time v, pv_requires_dist = get_or [] (vr_requires_dist v)\<rparr>)))"

text \<open>The hashes of the newest scan of the newest other version, of one archive kind.\<close>

definition info_of_hash :: "file_hash \<Rightarrow> file_info" where
  "info_of_hash h = \<lparr>fi_sha256 = fh_sha256 h, fi_entropy = get_or 0 (fh_entropy h), fi_ssdeep = or_empty (fh_ssdeep h), fi_tlsh = []\<rparr>"

definition prev_scan_hashes :: "ecosystem \<Rightarrow> string \<Rightarrow> string \<Rightarrow> db \<Rightarrow> string \<Rightarrow> (string \<times> file_info) list" where
  "prev_scan_hashes eco name current d kind =
    (case find_package eco name (db_packages d) of
       None \<Rightarrow> []
     | Some p \<Rightarrow>
         (case max_by vr_first_seen_at (filter (\<lambda>r. vr_ecosystem r = eco \<and> vr_package_id r = pk_id p \<and> vr_version r \<noteq> current)
              (db_versions d)) of
            None \<Rightarrow> []
          | Some v \<Rightarrow>
              (case latest_scan (vr_id v) (db_scans d) of
                 None \<Rightarrow> []
               | Some sc \<Rightarrow> fold (\<lambda>h acc. dict_put (fh_path h) (info_of_hash h) acc)
                   (filter (\<lambda>h. fh_scan_id h = sc_id sc \<and> fh_archive_kind h = kind) (db_hashes d)) [])))"

definition persist_findings :: "nat \<Rightarrow> finding list \<Rightarrow> db \<Rightarrow> db" where
  "persist_findings scan fs d = d\<lparr>db_findings := db_findings d @
     map (\<lambda>f. \<lparr>fr_scan_id = scan, fr_finding = f\<lparr>f_file := Some (strip_nul (or_empty (f_file f))),
       f_evidence := strip_nul (f_evidence f)\<rparr>\<rparr>) fs\<rparr>"

definition non_empty :: "string \<Rightarrow> string option" where
  "non_empty s = (if s = [] then None else Some s)"

definition persist_file_hashes :: "nat \<Rightarrow> (string \<times> (string \<times> file_info) list) list \<Rightarrow> db \<Rightarrow> db" where
  "persist_file_hashes scan by_kind d = d\<lparr>db_hashes := db_hashes d @
     concat (map (\<lambda>(kind, infos). map (\<lambda>(path, fi). \<lparr>fh_scan_id = scan, fh_archive_kind = kind, fh_path = strip_nul path,
       fh_sha256 = fi_sha256 fi, fh_ssdeep = non_empty (fi_ssdeep fi), fh_tlsh = non_empty (fi_tlsh fi),
       fh_entropy = Some (fi_entropy fi)\<rparr>) infos) by_kind)\<rparr>"

fun bump_rulehits :: "finding list \<Rightarrow> (string \<times> nat) list \<Rightarrow> (string \<times> nat) list" where
  "bump_rulehits [] hits = hits"
| "bump_rulehits (f # fs) hits = bump_rulehits fs (dict_put (f_rule_id f) (get_or 0 (dict_get hits (f_rule_id f)) + 1) hits)"

fun strip_nul_json :: "json \<Rightarrow> json" where
  "strip_nul_json (JStr s) = JStr (strip_nul s)"
| "strip_nul_json (JList xs) = JList (map strip_nul_json xs)"
| "strip_nul_json (JObj kvs) = JObj (map (\<lambda>(k, v). (k, strip_nul_json v)) kvs)"
| "strip_nul_json j = j"

definition or_else :: "string option \<Rightarrow> string option \<Rightarrow> string option" where
  "or_else a b = (case a of None \<Rightarrow> b | Some x \<Rightarrow> Some x)"

text \<open>\<^verbatim>\<open>_apply_metadata\<close>; \<open>parse_time\<close> is \<^verbatim>\<open>datetime.fromisoformat\<close>, \<open>downloads\<close> those of the watchlist row.\<close>

definition apply_metadata :: "(string \<Rightarrow> timestamp option) \<Rightarrow> (string \<times> json) list \<Rightarrow> int option \<Rightarrow> version_row \<Rightarrow> version_row" where
  "apply_metadata parse_time m downloads v =
    (if m = [] then v
     else v\<lparr>vr_author := or_else (jtext m ''author'') (jtext m ''maintainer''),
       vr_author_email := or_else (jtext m ''author_email'') (jtext m ''maintainer_email''),
       vr_upload_user := or_else (map_option (take 128) (jtext m ''upload_user'')) (vr_upload_user v),
       vr_home_page := jtext m ''home_page'',
       vr_summary := or_else (map_option (take 1024) (jtext m ''summary'')) (vr_summary v),
       vr_requires_python := jtext m ''requires_python'',
       vr_keywords := jtext m ''keywords'',
       vr_license_text := or_else (map_option (take 256) (jtext m ''license'')) (vr_license_text v),
       vr_requires_dist := (case jtexts m ''requires_dist'' of None \<Rightarrow> vr_requires_dist v | Some ds \<Rightarrow> Some ds),
       vr_upload_time := (case Option.bind (jtext m ''upload_time'') parse_time of None \<Rightarrow> vr_upload_time v | Some t \<Rightarrow> Some t),
       vr_maintainers := (case get_or [] (jtexts m ''maintainers'') of
           [] \<Rightarrow> (case jtext m ''maintainer'' of None \<Rightarrow> vr_maintainers v | Some x \<Rightarrow> Some [x])
         | ms \<Rightarrow> Some ms),
       vr_downloads_last_30d := (case downloads of None \<Rightarrow> vr_downloads_last_30d v | Some n \<Rightarrow> Some n)\<rparr>)"

section \<open>Persist and finalize\<close>

definition detonation_ecosystems :: "string set" where
  "detonation_ecosystems = {''pypi'', ''crates'', ''gomod'', ''npm''}"

definition preferred_archive :: "ecosystem \<Rightarrow> string" where
  "preferred_archive eco = (if eco = ''pypi'' then ''sdist'' else if eco = ''crates'' then ''crate''
     else if eco = ''gomod'' then ''gomod_zip'' else if eco = ''npm'' then ''npm_tarball'' else ''sdist'')"

definition detonation_priority :: "verdict \<Rightarrow> int option \<Rightarrow> priority" where
  "detonation_priority v rank = (if v \<in> {Suspicious, Malicious} \<or> rank \<noteq> None then High else Low)"

definition detonation_cluster_enabled :: "bool \<Rightarrow> string \<Rightarrow> bool" where
  "detonation_cluster_enabled client_enabled env_value \<longleftrightarrow> client_enabled \<or> env_value \<noteq> ''0''"

datatype fetch_error = No_files string | Sha_mismatch string

record scan_job =
  sj_queue_id :: nat
  sj_token :: "string option"
  sj_ecosystem :: ecosystem
  sj_name :: string
  sj_version :: string
  sj_started_at :: timestamp
  sj_metadata :: "(string \<times> json) list"
  sj_archive_kinds :: "string list"
  sj_findings :: "finding list"
  sj_hashes :: "(string \<times> (string \<times> file_info) list) list"
  sj_fetch_error :: "fetch_error option"
  sj_sdist_files :: "string list"
  sj_wheel_files :: "string list"

record pipe_env =
  pe_pack :: intel_pack
  pe_wla :: wla_cfg
  pe_scope_on :: string
  pe_kb_gate :: string
  pe_kb_ttl :: int
  pe_caps :: fuzzy_caps
  pe_iso :: "timestamp \<Rightarrow> string"
  pe_parse_time :: "string \<Rightarrow> timestamp option"
  pe_reuse_days :: int
  pe_seed_cap :: nat
  pe_discord :: bool
  pe_vault :: bool
  pe_llm :: bool
  pe_det_client :: bool
  pe_det_env :: string
  pe_triage :: "verdict \<Rightarrow> finding list \<Rightarrow> triage_error + triage_result"

datatype effect = Sent notification | Vaulted | Swept_maintainer

definition strip_metadata :: "(string \<times> json) list \<Rightarrow> (string \<times> json) list" where
  "strip_metadata m = map (\<lambda>(k, v). (k, strip_nul_json v)) m"

definition metadata_findings :: "pipe_env \<Rightarrow> timestamp \<Rightarrow> scan_job \<Rightarrow> previous_version option \<Rightarrow> db \<Rightarrow> finding list" where
  "metadata_findings e now j prev d =
    (let m = strip_metadata (sj_metadata j) in
     analyze_metadata (pe_pack e) (pe_iso e) now
       \<lparr>mc_name = sj_name j, mc_version = sj_version j, mc_previous_release_at = Option.bind prev pv_upload_time,
        mc_maintainers_now = opt_list (or_text (jtext m ''maintainer'') (jtext m ''author'')),
        mc_maintainers_prev = (case Option.bind prev pv_author of None \<Rightarrow> [] | Some a \<Rightarrow> (if a = [] then [] else [a])),
        mc_watchlist_top_names = watchlist_top_names (sj_ecosystem j) (db_watch d),
        mc_sdist_files = sj_sdist_files j, mc_wheel_files = sj_wheel_files j\<rparr>)"

definition dep_findings :: "pipe_env \<Rightarrow> timestamp \<Rightarrow> scan_job \<Rightarrow> previous_version option \<Rightarrow> kb_cache \<Rightarrow> db \<Rightarrow> finding list \<times> kb_cache" where
  "dep_findings e tick j prev kb d =
    (if \<not> kb_is_enabled (pe_kb_gate e) then ([], kb)
     else (case load_known_bad (pe_kb_ttl e) tick (Some (query_known_bad (pe_wla e) (sj_ecosystem j) (db_watch d))) (sj_ecosystem j) kb of
         (bad, kb1) \<Rightarrow>
           (if bad = {} then ([], kb1)
            else (check_known_bad_deps (sj_ecosystem j)
                (get_or [] (jtexts (strip_metadata (sj_metadata j)) ''requires_dist''))
                (case prev of None \<Rightarrow> [] | Some p \<Rightarrow> pv_requires_dist p) bad, kb1))))"

definition current_hashes :: "scan_job \<Rightarrow> (string \<times> string) list" where
  "current_hashes j = fold (\<lambda>(kind, infos) acc. fold (\<lambda>(path, fi) acc. dict_put path (fi_sha256 fi) acc) infos acc) (sj_hashes j) []"

text \<open>All findings of the scan in the order in which they are added, and the dependency cache.\<close>

definition collect_findings :: "pipe_env \<Rightarrow> timestamp \<Rightarrow> timestamp \<Rightarrow> scan_job \<Rightarrow> nat \<Rightarrow> previous_version option \<Rightarrow> kb_cache \<Rightarrow> db \<Rightarrow>
    finding list \<times> kb_cache" where
  "collect_findings e now tick j scan prev kb d =
    (let f1 = sj_findings j @ metadata_findings e now j prev d;
         f2 = f1 @ (case prev of None \<Rightarrow> [] | Some p \<Rightarrow> analyze_version_diff f1 (strip_metadata (sj_metadata j)) p);
         (deps, kb1) = dep_findings e tick j prev kb d;
         f3 = f2 @ deps @ concat (map (\<lambda>(kind, infos). check_files_batch (pe_caps e) (db_intel d) infos) (sj_hashes j));
         f4 = f3 @ (if is_watchlist_auto_only (sj_ecosystem j) (sj_name j) (db_watch d)
                    then carry_forward_findings (pe_reuse_days e) now (sj_ecosystem j) (sj_name j) scan (current_hashes j) f3
                      (db_packages d) (db_versions d) (db_scans d) (db_hashes d) (db_findings d)
                    else [])
     in (f4, kb1))"

definition set_result :: "timestamp \<Rightarrow> score_result \<Rightarrow> scan_entry \<Rightarrow> scan_entry" where
  "set_result now r s = s\<lparr>sc_verdict := sr_verdict r, sc_score := sr_score r, sc_alert_tag := sr_alert_tag r,
     sc_finished_at := Some now\<rparr>"

definition upd_scan :: "nat \<Rightarrow> (scan_entry \<Rightarrow> scan_entry) \<Rightarrow> db \<Rightarrow> db" where
  "upd_scan i f d = d\<lparr>db_scans := update_where (\<lambda>s. sc_id s = i) f (db_scans d)\<rparr>"

definition add_scan :: "scan_job \<Rightarrow> nat \<Rightarrow> db \<Rightarrow> db \<times> nat" where
  "add_scan j ver d =
    (let i = fresh_id sc_id (db_scans d) in
     (d\<lparr>db_scans := db_scans d @ [\<lparr>sc_id = i, sc_version_id = ver, sc_started_at = sj_started_at j, sc_finished_at = None,
        sc_verdict = Clean, sc_score = 0, sc_alert_tag = None, sc_llm_verdict = None, sc_llm_confidence = None\<rparr>]\<rparr>, i))"

definition enqueue_detonation :: "pipe_env \<Rightarrow> timestamp \<Rightarrow> scan_job \<Rightarrow> nat \<Rightarrow> nat \<Rightarrow> bool \<Rightarrow> finding list \<Rightarrow> score_result \<Rightarrow>
    int option \<Rightarrow> db \<Rightarrow> db" where
  "enqueue_detonation e now j scan ver is_first fs r rank d =
    (if sj_ecosystem j \<in> detonation_ecosystems \<and> detonation_cluster_enabled (pe_det_client e) (pe_det_env e) \<and>
        should_detonate (behavioral_chain_rules (pe_pack e)) (sr_verdict r) (sr_score r) fs rank is_first
     then d\<lparr>db_detq := fst (det_enqueue now
        \<lparr>ds_scan_id = scan, ds_version_id = ver, ds_ecosystem = sj_ecosystem j, ds_name = sj_name j, ds_version = sj_version j,
         ds_archive_kind = preferred_archive (sj_ecosystem j), ds_priority = detonation_priority (sr_verdict r) rank,
         ds_static_verdict = sr_verdict r\<rparr> (db_detq d))\<rparr>
     else d)"

definition finish_queue :: "timestamp \<Rightarrow> scan_job \<Rightarrow> db \<Rightarrow> db" where
  "finish_queue now j d = d\<lparr>db_queue := fst (mark_done now (sj_queue_id j) (sj_token j) (db_queue d))\<rparr>"

text \<open>The first transaction when the fetch failed.\<close>

definition persist_fetch_error :: "pipe_env \<Rightarrow> timestamp \<Rightarrow> scan_job \<Rightarrow> fetch_error \<Rightarrow> nat \<Rightarrow> db \<Rightarrow> db" where
  "persist_fetch_error e now j err scan d =
    (let r = score_and_verdict (pe_pack e) (sj_findings j) (is_watchlist (sj_name j) (sj_ecosystem j) (db_watch d));
         d1 = persist_findings scan (sj_findings j) (upd_scan scan (set_result now r) d);
         d2 = (case err of
             No_files msg \<Rightarrow> d1\<lparr>db_queue := fst (mark_failed now msg (sj_queue_id j) (sj_token j) (db_queue d1))\<rparr>
           | Sha_mismatch msg \<Rightarrow> finish_queue now j d1)
     in d2\<lparr>db_rule_hits := bump_rulehits (sj_findings j) (db_rule_hits d2)\<rparr>)"

text \<open>The first transaction otherwise: the scan with its static verdict; the queue row is done at once unless
  the verdict calls for triage.\<close>

record tx1 =
  t1_db :: db
  t1_kb :: kb_cache
  t1_findings :: "finding list"
  t1_result :: score_result

definition apply_version :: "pipe_env \<Rightarrow> scan_job \<Rightarrow> nat \<Rightarrow> int option \<Rightarrow> db \<Rightarrow> db" where
  "apply_version e j ver rank d =
    (let downloads = (if rank = None then None else map_option wl_downloads_last_30d
           (find (\<lambda>w. wl_ecosystem w = sj_ecosystem j \<and> wl_name w = sj_name j) (db_watch d)))
     in d\<lparr>db_versions := update_where (\<lambda>v. vr_id v = ver)
          (apply_metadata (pe_parse_time e) (strip_metadata (sj_metadata j)) downloads) (db_versions d)\<rparr>)"

definition persist_scan :: "pipe_env \<Rightarrow> timestamp \<Rightarrow> timestamp \<Rightarrow> scan_job \<Rightarrow> nat \<Rightarrow> version_row \<Rightarrow> kb_cache \<Rightarrow> db \<Rightarrow> tx1" where
  "persist_scan e now tick j scan ver kb d =
    (let prev = get_previous_version (sj_ecosystem j) (vr_package_id ver) (vr_id ver) d;
         (fs, kb1) = collect_findings e now tick j scan prev kb d;
         rank = is_watchlist (sj_name j) (sj_ecosystem j) (db_watch d);
         r = score_and_verdict (pe_pack e) fs rank;
         d1 = upd_scan scan (set_result now r) d;
         d2 = persist_file_hashes scan (sj_hashes j) (persist_findings scan fs (apply_version e j (vr_id ver) rank d1));
         d3 = enqueue_detonation e now j scan (vr_id ver) (prev = None) fs r rank d2
     in \<lparr>t1_db = (if do_triage (sr_verdict r) then d3 else finish_queue now j d3), t1_kb = kb1, t1_findings = fs, t1_result = r\<rparr>)"

text \<open>The second transaction: the model's fields, the final verdict, promotion and the tag. \<open>rate\<close> is the
  rate limiter of the automatic watchlist.\<close>

definition store_llm :: "verdict \<Rightarrow> triage_result option \<Rightarrow> scan_entry \<Rightarrow> scan_entry" where
  "store_llm rv tri s =
    (case tri of
       None \<Rightarrow> s
     | Some t \<Rightarrow> (let s1 = s\<lparr>sc_llm_verdict := Some (tr_verdict t), sc_llm_confidence := Some (tr_confidence t)\<rparr> in
         if tr_verdict t = adjudicate rv tri True
         then s1\<lparr>sc_verdict := adjudicate rv tri True\<rparr> else s1))"

definition promote_package :: "pipe_env \<Rightarrow> timestamp \<Rightarrow> timestamp \<Rightarrow> scan_job \<Rightarrow> nat \<Rightarrow> rate_state \<Rightarrow> db \<Rightarrow> db \<times> rate_state" where
  "promote_package e now tick j scan rate d =
    (case add_confirmed_malicious (pe_wla e) (\<lambda>rs. rs) now tick (sj_ecosystem j) (sj_name j) rate (db_watch d) of
       (status, rate1, watch) \<Rightarrow>
         (d\<lparr>db_watch := watch,
            db_scopes := fst (auto_watch_on_malicious (pe_scope_on e) now (sj_ecosystem j) (sj_name j) (db_scopes d)),
            db_intel := fst (seed_from_scan (pe_wla e) (pe_seed_cap e) scan (sj_ecosystem j) (sj_name j) (db_findings d)
              (db_hashes d) (db_intel d))\<rparr>, rate1))"

definition persist_triage :: "pipe_env \<Rightarrow> timestamp \<Rightarrow> timestamp \<Rightarrow> scan_job \<Rightarrow> nat \<Rightarrow> verdict \<Rightarrow> triage_result option \<Rightarrow>
    finding list \<Rightarrow> rate_state \<Rightarrow> db \<Rightarrow> db \<times> rate_state \<times> verdict \<times> bool" where
  "persist_triage e now tick j scan rv tri fs rate d =
    (let present = scan \<in> sc_id ` set (db_scans d);
         final = adjudicate rv tri present;
         d1 = upd_scan scan (store_llm rv tri) d;
         promote = fst (auto_watchlist_qualifies rv tri fs);
         (d2, rate1) = (if promote then promote_package e now tick j scan rate d1 else (d1, rate));
         d3 = upd_scan scan (\<lambda>s. s\<lparr>sc_alert_tag := adjudication_tag final tri True (sc_alert_tag s)\<rparr>) d2
     in (d3, rate1, final, promote))"

text \<open>What leaves the process after the second transaction and before the queue row is finished.\<close>

definition outgoing :: "pipe_env \<Rightarrow> verdict \<Rightarrow> verdict \<Rightarrow> triage_result option \<Rightarrow> bool \<Rightarrow> effect list" where
  "outgoing e rv final tri has_archives =
    (if vault_keep rv tri (pe_llm e) \<and> pe_vault e \<and> has_archives then [Vaulted] else []) @
    (case notify_choice (pe_discord e) rv final tri of No_notification \<Rightarrow> [] | n \<Rightarrow> [Sent n])"

record world =
  w_db :: db
  w_rate :: rate_state
  w_kb :: kb_cache
  w_log :: "effect list"

text \<open>The steps of \<^verbatim>\<open>_persist_and_finalize\<close> with what other transactions do between them: \<open>between 1\<close> runs while the
  model is asked, \<open>between 2\<close> while the alert is sent.\<close>

definition after_triage :: "pipe_env \<Rightarrow> (nat \<Rightarrow> db \<Rightarrow> db) \<Rightarrow> timestamp \<Rightarrow> timestamp \<Rightarrow> scan_job \<Rightarrow> nat \<Rightarrow> score_result \<Rightarrow>
    finding list \<Rightarrow> world \<Rightarrow> world" where
  "after_triage e between now tick j scan r fs w =
    (let rv = sr_verdict r;
         tri = triage_or_none (pe_llm e \<and> sj_archive_kinds j \<noteq> []) (pe_triage e rv fs);
         (d1, rate1, final, promoted) = persist_triage e now tick j scan rv tri fs (w_rate w) (between 1 (w_db w));
         out = outgoing e rv final tri (sj_archive_kinds j \<noteq> []);
         d2 = finish_queue now j (between 2 d1)
     in w\<lparr>w_db := d2, w_rate := rate1, w_log := w_log w @ out @ (if promoted then [Swept_maintainer] else [])\<rparr>)"

definition persist_and_finalize :: "pipe_env \<Rightarrow> (nat \<Rightarrow> db \<Rightarrow> db) \<Rightarrow> timestamp \<Rightarrow> timestamp \<Rightarrow> scan_job \<Rightarrow> world \<Rightarrow> world" where
  "persist_and_finalize e between now tick j w =
    (if sj_queue_id j \<notin> sq_id ` set (db_queue (w_db w)) then w
     else (let (d0, ver) = upsert_package_and_version now (sj_ecosystem j) (sj_name j) (sj_version j) (w_db w);
               (d1, scan) = add_scan j (vr_id ver) d0
       in case sj_fetch_error j of
            Some err \<Rightarrow> w\<lparr>w_db := persist_fetch_error e now j err scan d1\<rparr>
          | None \<Rightarrow>
              (let t = persist_scan e now tick j scan ver (w_kb w) d1;
                   w1 = w\<lparr>w_db := t1_db t, w_kb := t1_kb t\<rparr>;
                   w2 = (if do_triage (sr_verdict (t1_result t))
                         then after_triage e between now tick j scan (t1_result t) (t1_findings t) w1 else w1)
               in w2\<lparr>w_db := (w_db w2)\<lparr>db_rule_hits := bump_rulehits (t1_findings t) (db_rule_hits (w_db w2))\<rparr>\<rparr>)))"

section \<open>process_one\<close>

definition load_claimed :: "nat \<Rightarrow> string option \<Rightarrow> scan_rows \<Rightarrow> (ecosystem \<times> string \<times> string) option" where
  "load_claimed i token rs =
    (case find (\<lambda>r. sq_id r = i) rs of
       None \<Rightarrow> None
     | Some r \<Rightarrow> (if sq_status r \<noteq> Claimed \<or> (token \<noteq> None \<and> sq_claim_token r \<noteq> token) then None
                 else Some (sq_ecosystem r, sq_name r, sq_version r)))"

definition mark_queue_failed :: "timestamp \<Rightarrow> string \<Rightarrow> nat \<Rightarrow> string option \<Rightarrow> scan_rows \<Rightarrow> scan_rows" where
  "mark_queue_failed now err i token rs =
    (case find (\<lambda>r. sq_id r = i) rs of
       None \<Rightarrow> rs
     | Some r \<Rightarrow> (if sq_status r = Done then rs else fst (mark_failed now err i token rs)))"

text \<open>What the fetch gives: archives with metadata, one of the two expected errors, or another exception.\<close>

datatype fetched = Fetched "archive list" "(string \<times> json) list" | Fetch_failed fetch_error | Raised string

definition fetch_finding :: "fetch_error \<Rightarrow> finding" where
  "fetch_finding err =
    (case err of
       Sha_mismatch msg \<Rightarrow> mk_finding ''fetch.sha256_mismatch'' ''fetch'' ''critical'' ''high'' msg
     | No_files msg \<Rightarrow> mk_finding ''fetch.no_release_files'' ''fetch'' ''medium'' ''high'' msg)"

definition job_of_fetch :: "hash_caps \<Rightarrow> bool \<times> nat \<times> int \<Rightarrow> string \<Rightarrow> timestamp \<Rightarrow> nat \<Rightarrow> string option \<Rightarrow>
    ecosystem \<times> string \<times> string \<Rightarrow> fetched \<Rightarrow> db \<Rightarrow> string + scan_job" where
  "job_of_fetch hc giant install_kind now i token key f d =
    (let (eco, name, v) = key;
         base = \<lparr>sj_queue_id = i, sj_token = token, sj_ecosystem = eco, sj_name = name, sj_version = v, sj_started_at = now,
           sj_metadata = [], sj_archive_kinds = [], sj_findings = [], sj_hashes = [], sj_fetch_error = None,
           sj_sdist_files = [], sj_wheel_files = []\<rparr>
     in case f of
          Raised msg \<Rightarrow> Inl msg
        | Fetch_failed err \<Rightarrow> Inr (base\<lparr>sj_fetch_error := Some err, sj_findings := [fetch_finding err]\<rparr>)
        | Fetched as m \<Rightarrow>
            (let rs = map (analyze_archive hc giant install_kind eco (prev_scan_hashes eco name v d)) as;
                 last_of = (\<lambda>p. case filter p as of [] \<Rightarrow> [] | xs \<Rightarrow> ar_members (last xs))
             in Inr (base\<lparr>sj_metadata := m, sj_archive_kinds := map ar_kind as, sj_findings := concat (map fst rs),
                  sj_hashes := map snd rs, sj_sdist_files := last_of (\<lambda>a. ar_kind a = ''sdist''),
                  sj_wheel_files := last_of (\<lambda>a. ar_kind a \<noteq> ''sdist'')\<rparr>)))"

text \<open>\<open>adapter\<close> is the registry: the archive kind an ecosystem installs.\<close>

definition process_one :: "pipe_env \<Rightarrow> hash_caps \<Rightarrow> bool \<times> nat \<times> int \<Rightarrow> (ecosystem \<Rightarrow> string option) \<Rightarrow> (nat \<Rightarrow> db \<Rightarrow> db) \<Rightarrow>
    (ecosystem \<Rightarrow> string \<Rightarrow> string \<Rightarrow> fetched) \<Rightarrow> timestamp \<Rightarrow> timestamp \<Rightarrow> nat \<Rightarrow> string option \<Rightarrow> world \<Rightarrow> world" where
  "process_one e hc giant adapter between fetch now tick i token w =
    (case load_claimed i token (db_queue (w_db w)) of
       None \<Rightarrow> w
     | Some (eco, name, v) \<Rightarrow>
         (let fail = (\<lambda>msg d. d\<lparr>db_queue := mark_queue_failed now msg i token (db_queue d)\<rparr>) in
          case adapter eco of
            None \<Rightarrow> w\<lparr>w_db := fail (''no_adapter_for_ecosystem:'' @ eco) (w_db w)\<rparr>
          | Some install_kind \<Rightarrow>
              (let d = between 0 (w_db w) in
               case job_of_fetch hc giant install_kind now i token (eco, name, v) (fetch eco name v) d of
                 Inl msg \<Rightarrow> w\<lparr>w_db := fail (take 4000 msg) d\<rparr>
               | Inr j \<Rightarrow> persist_and_finalize e between now tick j (w\<lparr>w_db := d\<rparr>))))"

section \<open>Lemmas\<close>

definition scan_of :: "nat \<Rightarrow> db \<Rightarrow> scan_entry option" where
  "scan_of i d = find (\<lambda>s. sc_id s = i) (db_scans d)"

lemma fresh_id_new: "fresh_id k rs \<notin> k ` set rs"
proof -
  have "k r \<le> foldr max (map k rs) 0" if "r \<in> set rs" for r
    using that by (induction rs) (auto simp: max_def intro: le_trans)
  then show ?thesis by (fastforce simp: fresh_id_def)
qed

lemma scans_frame [simp]:
  "db_scans (persist_findings i fs d) = db_scans d"
  "db_scans (persist_file_hashes i hs d) = db_scans d"
  "db_scans (apply_version e j ver rank d) = db_scans d"
  "db_scans (enqueue_detonation e now j i ver first fs r rank d) = db_scans d"
  "db_scans (finish_queue now j d) = db_scans d"
  "db_scans (fst (promote_package e now tick j i rate d)) = db_scans d"
  "db_scans (fst (upsert_package_and_version now eco name v d)) = db_scans d"
  by (simp_all add: persist_findings_def persist_file_hashes_def apply_version_def enqueue_detonation_def finish_queue_def
      promote_package_def upsert_package_and_version_def Let_def split: prod.splits)

lemma scan_of_frame [simp]:
  "scan_of i (persist_findings i' fs d) = scan_of i d"
  "scan_of i (persist_file_hashes i' hs d) = scan_of i d"
  "scan_of i (apply_version e j ver rank d) = scan_of i d"
  "scan_of i (enqueue_detonation e now j i' ver first fs r rank d) = scan_of i d"
  "scan_of i (finish_queue now j d) = scan_of i d"
  "scan_of i (fst (promote_package e now tick j i' rate d)) = scan_of i d"
  "scan_of i (d\<lparr>db_rule_hits := h\<rparr>) = scan_of i d"
  "scan_of i (d\<lparr>db_queue := q\<rparr>) = scan_of i d"
  by (simp_all add: scan_of_def)

lemma find_update_where:
  "(\<And>s. k (f s) = k s) \<Longrightarrow> find (\<lambda>s. k s = i) (update_where (\<lambda>s. k s = i) f rs) = map_option f (find (\<lambda>s. k s = i) rs)"
  by (induction rs) (auto simp: update_where_def)

lemma scan_of_upd: "(\<And>s. sc_id (f s) = sc_id s) \<Longrightarrow> scan_of i (upd_scan i f d) = map_option f (scan_of i d)"
  by (simp add: scan_of_def upd_scan_def find_update_where)

lemma scan_of_add:
  "add_scan j ver d = (d1, i) \<Longrightarrow> \<exists>s. scan_of i d1 = Some s \<and> sc_id s = i"
  using fresh_id_new [of sc_id "db_scans d"]
  by (auto simp: add_scan_def scan_of_def Let_def find_append find_None_iff image_iff dest: find_SomeD split: option.splits)

lemma scan_of_present: "scan_of i d = Some s \<Longrightarrow> i \<in> sc_id ` set (db_scans d)"
  by (auto simp: scan_of_def dest: find_SomeD)

lemma persist_scan_stored:
  assumes "scan_of i d = Some s"
  shows "scan_of i (t1_db (persist_scan e now tick j i ver kb d))
    = Some (set_result now (t1_result (persist_scan e now tick j i ver kb d)) s)"
  using assms scan_of_upd [of "set_result now r" i d for r]
  by (auto simp: persist_scan_def Let_def set_result_def split: prod.splits)

lemma persist_scan_verdict: "sr_verdict (t1_result (persist_scan e now tick j i ver kb d)) \<in> {Clean, Suspicious, Malicious}"
  using score_and_verdict_range by (auto simp: persist_scan_def Let_def split: prod.splits)

lemma store_llm_verdict: "sc_verdict s = rv \<Longrightarrow> sc_verdict (store_llm rv tri s) = adjudicate rv tri True"
  by (cases tri) (auto simp: store_llm_def adjudicate_def Let_def)

lemma store_llm_id: "sc_id (store_llm rv tri s) = sc_id s"
  by (cases tri) (auto simp: store_llm_def Let_def)

lemma persist_triage_stored:
  assumes "scan_of i d = Some s" and "sc_verdict s = rv"
    and "persist_triage e now tick j i rv tri fs rate d = (d', rate', final, promoted)"
  shows "final = adjudicate rv tri True \<and> (\<exists>s'. scan_of i d' = Some s' \<and> sc_verdict s' = final)"
proof -
  let ?d1 = "upd_scan i (store_llm rv tri) d"
  let ?d2 = "if fst (auto_watchlist_qualifies rv tri fs) then fst (promote_package e now tick j i rate ?d1) else ?d1"
  let ?tag = "\<lambda>s. s\<lparr>sc_alert_tag := adjudication_tag final tri True (sc_alert_tag s)\<rparr>"
  have final: "final = adjudicate rv tri True" and d': "d' = upd_scan i ?tag ?d2"
    using assms(3) scan_of_present [OF assms(1)]
    by (auto simp: persist_triage_def Let_def split: prod.splits if_splits)
  have "scan_of i ?d1 = Some (store_llm rv tri s)" using assms(1) by (simp add: scan_of_upd store_llm_id)
  then have "scan_of i ?d2 = Some (store_llm rv tri s)" by simp
  then have "scan_of i d' = Some (?tag (store_llm rv tri s))" unfolding d' by (simp add: scan_of_upd)
  then show ?thesis using final store_llm_verdict [OF assms(2)] by simp
qed

lemma outgoing_alert: "Sent Alert \<in> set (outgoing e rv final tri has) \<longleftrightarrow> should_alert rv tri \<and> pe_discord e"
  by (auto simp: outgoing_def notify_choice_def split: notification.splits)

lemma after_triage_outcome:
  assumes "scan_of i (w_db w) = Some s" and "sc_verdict s = sr_verdict r" and "do_triage (sr_verdict r)" and "pe_discord e"
  shows "\<exists>s' new. scan_of i (w_db (after_triage e (\<lambda>_ d. d) now tick j i r fs w)) = Some s' \<and>
    w_log (after_triage e (\<lambda>_ d. d) now tick j i r fs w) = w_log w @ new \<and> (Sent Alert \<in> set new \<longleftrightarrow> sc_verdict s' = Malicious)"
proof -
  let ?tri = "triage_or_none (pe_llm e \<and> sj_archive_kinds j \<noteq> []) (pe_triage e (sr_verdict r) fs)"
  obtain d' rate' final promoted where p: "persist_triage e now tick j i (sr_verdict r) ?tri fs (w_rate w) (w_db w)
      = (d', rate', final, promoted)"
    by (metis prod_cases4)
  obtain s' where s': "scan_of i d' = Some s'" "sc_verdict s' = final" and final: "final = adjudicate (sr_verdict r) ?tri True"
    using persist_triage_stored [OF assms(1,2) p] by auto
  have "Sent Alert \<in> set (outgoing e (sr_verdict r) final ?tri has @ (if promoted then [Swept_maintainer] else []))
      \<longleftrightarrow> sc_verdict s' = Malicious" for has
    using alert_iff_triaged [OF assms(3)] assms(4) s' final by (auto simp: outgoing_alert)
  with p s' show ?thesis unfolding after_triage_def Let_def
    by (intro exI [of _ s'] exI [of _ "outgoing e (sr_verdict r) final ?tri (sj_archive_kinds j \<noteq> []) @
      (if promoted then [Swept_maintainer] else [])"]) simp
qed

section \<open>Properties\<close>

text \<open>C1. End to end, an alert is sent exactly for what is stored as malicious, with one exception. When a scan whose
  archives were fetched is finalized without interference and with notifications on, its new scan row
  holds the final verdict and an alert leaves the process if and only if that verdict is malicious,
  whatever the findings, the metadata, the state of the database and the answer of the model. An
  artifact whose checksum does not match its registry's is the exception: it is stored as malicious and
  no notification, vaulting or promotion follows.\<close>

theorem alert_iff_stored_malicious:
  assumes "sj_queue_id j \<in> sq_id ` set (db_queue (w_db w))" and "pe_discord e"
    and "w' = persist_and_finalize e (\<lambda>_ d. d) now tick j w" and "i = fresh_id sc_id (db_scans (w_db w))"
  shows "(sj_fetch_error j = None \<longrightarrow>
      (\<exists>s new. scan_of i (w_db w') = Some s \<and> w_log w' = w_log w @ new \<and> (Sent Alert \<in> set new \<longleftrightarrow> sc_verdict s = Malicious))) \<and>
    (\<forall>msg. sj_fetch_error j = Some (Sha_mismatch msg) \<and> fetch_finding (Sha_mismatch msg) \<in> set (sj_findings j) \<longrightarrow>
      (\<exists>s. scan_of i (w_db w') = Some s \<and> sc_verdict s = Malicious) \<and> w_log w' = w_log w)"
proof -
  obtain d0 ver where u: "upsert_package_and_version now (sj_ecosystem j) (sj_name j) (sj_version j) (w_db w) = (d0, ver)"
    by fastforce
  have d0: "db_scans d0 = db_scans (w_db w)"
    using scans_frame(7) [of now "sj_ecosystem j" "sj_name j" "sj_version j" "w_db w"] u by simp
  obtain d1 where a: "add_scan j (vr_id ver) d0 = (d1, i)" using d0 assms(4) by (simp add: add_scan_def Let_def)
  obtain s where s: "scan_of i d1 = Some s" using scan_of_add [OF a] by auto
  show ?thesis
  proof (intro conjI allI impI)
    assume n: "sj_fetch_error j = None"
    let ?t = "persist_scan e now tick j i ver (w_kb w) d1"
    let ?w1 = "w\<lparr>w_db := t1_db ?t, w_kb := t1_kb ?t\<rparr>"
    have st: "scan_of i (w_db ?w1) = Some (set_result now (t1_result ?t) s)" using persist_scan_stored [OF s] by simp
    have v: "sc_verdict (set_result now (t1_result ?t) s) = sr_verdict (t1_result ?t)" by (simp add: set_result_def)
    have w': "w' = (let w2 = (if do_triage (sr_verdict (t1_result ?t))
        then after_triage e (\<lambda>_ d. d) now tick j i (t1_result ?t) (t1_findings ?t) ?w1 else ?w1)
        in w2\<lparr>w_db := (w_db w2)\<lparr>db_rule_hits := bump_rulehits (t1_findings ?t) (db_rule_hits (w_db w2))\<rparr>\<rparr>)"
      using assms(1,3) u a n by (simp add: persist_and_finalize_def Let_def)
    show "\<exists>s new. scan_of i (w_db w') = Some s \<and> w_log w' = w_log w @ new \<and> (Sent Alert \<in> set new \<longleftrightarrow> sc_verdict s = Malicious)"
    proof (cases "do_triage (sr_verdict (t1_result ?t))")
      case True
      then show ?thesis using after_triage_outcome [OF st v True assms(2), of now tick j "t1_findings ?t"] w'
        by (simp add: Let_def)
    next
      case False
      then have "sr_verdict (t1_result ?t) \<noteq> Malicious" by (auto simp: do_triage_def)
      with False st v w' show ?thesis by (simp add: Let_def)
    qed
  next
    fix msg
    assume m: "sj_fetch_error j = Some (Sha_mismatch msg) \<and> fetch_finding (Sha_mismatch msg) \<in> set (sj_findings j)"
    let ?r = "score_and_verdict (pe_pack e) (sj_findings j) (is_watchlist (sj_name j) (sj_ecosystem j) (db_watch d1))"
    have w': "w' = w\<lparr>w_db := persist_fetch_error e now j (Sha_mismatch msg) i d1\<rparr>"
      using assms(1,3) u a m by (simp add: persist_and_finalize_def Let_def)
    have "\<not> is_shadow_finding (fetch_finding (Sha_mismatch msg)) \<and> f_severity (fetch_finding (Sha_mismatch msg)) = ''critical''"
      by (simp add: fetch_finding_def mk_finding_def is_shadow_finding_def)
    then have "sr_verdict ?r = Malicious"
      using m by (auto simp: score_and_verdict_malicious_iff has_any_iff Let_def)
    moreover have "scan_of i (w_db w') = Some (set_result now ?r s)"
      using s w' by (simp add: persist_fetch_error_def Let_def scan_of_upd set_result_def)
    ultimately show "\<exists>s. scan_of i (w_db w') = Some s \<and> sc_verdict s = Malicious" by (simp add: set_result_def)
    show "w_log w' = w_log w" using w' by simp
  qed
qed

definition demo_db :: db where
  "demo_db = \<lparr>db_queue = [\<lparr>sq_id = 1, sq_ecosystem = ''npm'', sq_name = ''x'', sq_version = ''1'', sq_priority = Normal,
      sq_status = Claimed, sq_attempts = 1, sq_claim_token = Some ''t'', sq_last_error = None, sq_enqueued_at = 0,
      sq_claimed_at = Some 0, sq_finished_at = None\<rparr>],
     db_packages = [], db_versions = [], db_scans = [], db_findings = [], db_hashes = [], db_watch = [], db_scopes = [],
     db_detq = [], db_intel = [], db_rule_hits = []\<rparr>"

definition demo_world :: world where
  "demo_world = \<lparr>w_db = demo_db, w_rate = (\<lambda>_. []), w_kb = (\<lambda>_. None), w_log = []\<rparr>"

definition demo_env :: pipe_env where
  "demo_env = \<lparr>pe_pack = scoring_baseline, pe_wla = default_wla_cfg, pe_scope_on = ''1'', pe_kb_gate = ''1'', pe_kb_ttl = 300,
     pe_caps = demo_caps, pe_iso = (\<lambda>_. []), pe_parse_time = (\<lambda>_. None), pe_reuse_days = 7, pe_seed_cap = 25,
     pe_discord = True, pe_vault = True, pe_llm = True, pe_det_client = True, pe_det_env = ''1'',
     pe_triage = (\<lambda>_ _. Inr (demo_result Errored 0))\<rparr>"

definition demo_job :: "fetch_error option \<Rightarrow> finding list \<Rightarrow> scan_job" where
  "demo_job err fs = \<lparr>sj_queue_id = 1, sj_token = Some ''t'', sj_ecosystem = ''npm'', sj_name = ''x'', sj_version = ''1'',
     sj_started_at = 0, sj_metadata = [], sj_archive_kinds = [''npm_tarball''], sj_findings = fs, sj_hashes = [],
     sj_fetch_error = err, sj_sdist_files = [], sj_wheel_files = []\<rparr>"

theorem alert_iff_stored_malicious_witness:
  "w_log (persist_and_finalize demo_env (\<lambda>_ d. d) 0 0
     (demo_job (Some (Sha_mismatch ''bad'')) [fetch_finding (Sha_mismatch ''bad'')]) demo_world) = []"
proof -
  let ?j = "demo_job (Some (Sha_mismatch ''bad'')) [fetch_finding (Sha_mismatch ''bad'')]"
  have q: "sj_queue_id ?j \<in> sq_id ` set (db_queue (w_db demo_world))"
    by (simp add: demo_job_def demo_world_def demo_db_def)
  have d: "pe_discord demo_env" by (simp add: demo_env_def)
  have f: "sj_fetch_error ?j = Some (Sha_mismatch ''bad'') \<and> fetch_finding (Sha_mismatch ''bad'') \<in> set (sj_findings ?j)"
    by (simp add: demo_job_def)
  have l: "w_log demo_world = []" by (simp add: demo_world_def)
  note t = alert_iff_stored_malicious [OF q d refl refl, of 0 0, THEN conjunct2, rule_format, OF f]
  show ?thesis using t [THEN conjunct2] l by (simp only:)
qed

text \<open>An archive whose files all have the bytes of the previous version is not analyzed.\<close>

lemma unchanged_not_analyzed:
  assumes "compute_file_hashes hc (ar_kind a) (giant_lite fast mf mb (ar_files a)) (ar_files a) ([], []) = (cur, reals)"
    and "prev (ar_kind a) \<noteq> []"
    and "\<forall>(p, fi)\<in>set cur. map_option fi_sha256 (dict_get (prev (ar_kind a)) p) = Some (fi_sha256 fi)"
  shows "analyze_archive hc (fast, mf, mb) install_kind eco prev a = ([], (ar_kind a, cur))"
proof -
  have "filter (\<lambda>(p, fi). map_option fi_sha256 (dict_get (prev (ar_kind a)) p) \<noteq> Some (fi_sha256 fi)) cur = []"
    using assms(3) by (auto simp: filter_empty_conv)
  then have "find_changed_files cur (prev (ar_kind a)) reals = []"
    unfolding find_changed_files_def by simp
  then show ?thesis unfolding analyze_archive_def Let_def prod.case assms(1)
    using assms(2) by (simp only: not_False_eq_True if_True option.simps simp_thms)
qed

end
