(* ===== verification/DetonationWorker.thy ===== *)
theory DetonationWorker
  imports Pipeline
begin

text \<open>
  The detonation worker (\<^verbatim>\<open>detonation_worker.py\<close>) and what it reads of the service's reply
  (\<^verbatim>\<open>detonate/client.py\<close>). The sandbox service, the staging of the archive and the fetch are the argument
  that gives the outcome of one detonation. Trace events and phase timings are only displayed and are left out.
\<close>

section \<open>Replies of the service\<close>

record det_result =
  dr_id :: string
  dr_status :: string
  dr_findings :: "json list"
  dr_total_events :: int

definition jtext_or :: "string \<Rightarrow> (string \<times> json) list \<Rightarrow> string \<Rightarrow> string" where
  "jtext_or dflt d k = (case jget d k of Some (JStr s) \<Rightarrow> s | _ \<Rightarrow> dflt)"

definition parse_result :: "(string \<times> json) list \<Rightarrow> det_result" where
  "parse_result d = \<lparr>dr_id = jtext_or [] d ''id'', dr_status = jtext_or ''error'' d ''status'',
     dr_findings = (case jget d ''findings'' of Some (JList xs) \<Rightarrow> xs | _ \<Rightarrow> []),
     dr_total_events = (case jget d ''trace_summary'' of
         Some (JObj s) \<Rightarrow> (case jget s ''total_events'' of Some (JInt n) \<Rightarrow> n | _ \<Rightarrow> 0) | _ \<Rightarrow> 0)\<rparr>"

text \<open>\<^verbatim>\<open>to_findings\<close>: an entry without \<^verbatim>\<open>rule_id\<close> raises \<^verbatim>\<open>KeyError\<close>.\<close>

fun finding_of_json :: "json \<Rightarrow> finding option" where
  "finding_of_json (JObj d) =
    (case jget d ''rule_id'' of
       Some (JStr rid) \<Rightarrow> Some \<lparr>f_rule_id = rid, f_category = jtext_or ''dynamic'' d ''category'',
         f_severity = jtext_or ''medium'' d ''severity'', f_confidence = jtext_or ''medium'' d ''confidence'',
         f_file = Some (jtext_or [] d ''file''), f_line = (case jget d ''line'' of Some (JInt n) \<Rightarrow> Some n | _ \<Rightarrow> None),
         f_evidence = jtext_or [] d ''evidence''\<rparr>
     | _ \<Rightarrow> None)"
| "finding_of_json _ = None"

fun to_findings :: "json list \<Rightarrow> finding list option" where
  "to_findings [] = Some []"
| "to_findings (x # xs) =
    (case finding_of_json x of None \<Rightarrow> None | Some f \<Rightarrow> map_option (Cons f) (to_findings xs))"

section \<open>Vendor downloads\<close>

definition host_char :: "char \<Rightarrow> bool" where
  "host_char c \<longleftrightarrow> is_alnum c \<or> c = CHR ''.'' \<or> c = CHR ''-''"

text \<open>\<^verbatim>\<open>_EXFIL_HOST_RE.search\<close>: the host after the first \<^verbatim>\<open>phase:\<close> that has one.\<close>

fun exfil_host :: "string \<Rightarrow> string option" where
  "exfil_host [] = None"
| "exfil_host (c # s) =
    (let h = takeWhile host_char (dropWhile is_space (drop 6 (c # s))) in
     if prefix ''phase:'' (c # s) \<and> h \<noteq> [] then Some h else exfil_host s)"

definition registrable :: "string \<Rightarrow> string" where
  "registrable host =
    (let p = split_on (CHR ''.'') (strip_by (\<lambda>c. c = CHR ''.'' \<or> c = CHR '' '') (lower host)) in
     if 2 \<le> length p then join ''.'' (drop (length p - 2) p) else lower host)"

fun after_first :: "string \<Rightarrow> string \<Rightarrow> string" where
  "after_first needle [] = []"
| "after_first needle (c # s) = (if prefix needle (c # s) then drop (length needle) (c # s) else after_first needle s)"

definition hosts_of_evidence :: "string \<Rightarrow> string list" where
  "hosts_of_evidence ev = map registrable (filter (\<lambda>h. h \<noteq> []) (map strip (split_on (CHR '','') (after_first ''hosts:'' ev))))"

definition verified_download_hosts :: "finding list \<Rightarrow> string set" where
  "verified_download_hosts fs =
    set (concat (map (\<lambda>f. hosts_of_evidence (f_evidence f))
      (filter (\<lambda>f. f_rule_id f = ''installer.npm_install_remote_binary_drop'' \<and>
         contains (f_evidence f) ''checksum-verified'' \<and> contains (f_evidence f) ''hosts:'') fs)))"

definition is_self_download_exfil :: "string set \<Rightarrow> finding \<Rightarrow> bool" where
  "is_self_download_exfil vhosts f \<longleftrightarrow> f_rule_id f = ''dyn_install_exfil'' \<and>
     (case exfil_host (f_evidence f) of None \<Rightarrow> False | Some h \<Rightarrow> registrable h \<in> vhosts)"

section \<open>Finalizing\<close>

record det_job =
  dj_id :: nat
  dj_token :: string
  dj_scan_id :: nat
  dj_ecosystem :: ecosystem
  dj_name :: string
  dj_version :: string
  dj_archive_kind :: string
  dj_static_verdict :: verdict

definition job_of_row :: "string \<Rightarrow> det_row \<Rightarrow> det_job" where
  "job_of_row token r = \<lparr>dj_id = dq_id r, dj_token = token, dj_scan_id = dq_scan_id r, dj_ecosystem = dq_ecosystem r,
     dj_name = dq_name r, dj_version = dq_version r, dj_archive_kind = dq_archive_kind r,
     dj_static_verdict = dq_static_verdict r\<rparr>"

definition owns_job :: "det_job \<Rightarrow> det_rows \<Rightarrow> bool" where
  "owns_job j rs = (case find (\<lambda>r. dq_id r = dj_id j) rs of None \<Rightarrow> False
     | Some q \<Rightarrow> dq_status q = Claimed \<and> dq_claim_token q = Some (dj_token j))"

record detonation_row =
  dt_scan_id :: nat
  dt_sandbox_id :: string
  dt_status :: string
  dt_total_events :: int

record flip_alert =
  fa_name :: string
  fa_new_score :: int
  fa_findings :: "finding list"

record det_world =
  dw_db :: db
  dw_detonations :: "detonation_row list"

definition static_findings :: "nat \<Rightarrow> db \<Rightarrow> finding list" where
  "static_findings scan d = map fr_finding (filter (\<lambda>r. fr_scan_id r = scan) (db_findings d))"

definition kept_dynamic :: "finding list \<Rightarrow> finding list \<Rightarrow> finding list" where
  "kept_dynamic stat dyn =
    (let vhosts = verified_download_hosts stat in
     if vhosts = {} then dyn else filter (\<lambda>f. \<not> is_self_download_exfil vhosts f) dyn)"

definition set_verdict :: "score_result \<Rightarrow> scan_entry \<Rightarrow> scan_entry" where
  "set_verdict r s = s\<lparr>sc_verdict := sr_verdict r, sc_score := sr_score r, sc_alert_tag := sr_alert_tag r\<rparr>"

definition finish_det :: "timestamp \<Rightarrow> det_job \<Rightarrow> db \<Rightarrow> db" where
  "finish_det now j d = d\<lparr>db_detq := fst (det_mark_done now (dj_id j) (Some (dj_token j)) (db_detq d))\<rparr>"

text \<open>Re-scoring with the dynamic findings, which are not empty, and the alert when the verdict flipped.\<close>

definition rescore :: "intel_pack \<Rightarrow> det_job \<Rightarrow> finding list \<Rightarrow> db \<Rightarrow> db \<times> flip_alert option" where
  "rescore p j dyn0 d =
    (let stat = static_findings (dj_scan_id j) d;
         dyn = kept_dynamic stat dyn0;
         r = score_and_verdict p (stat @ dyn) (is_watchlist (dj_name j) (dj_ecosystem j) (db_watch d));
         d1 = upd_scan (dj_scan_id j) (set_verdict r) (persist_findings (dj_scan_id j) dyn d);
         alert = (if sr_verdict r = Malicious \<and> dj_static_verdict j \<noteq> Malicious
           then Some \<lparr>fa_name = dj_name j, fa_new_score = sr_score r,
             fa_findings = filter (\<lambda>f. \<not> is_shadow_finding f) (stat @ dyn)\<rparr> else None)
     in (d1\<lparr>db_rule_hits := bump_rulehits dyn (db_rule_hits d1)\<rparr>, alert))"

text \<open>\<open>Inl\<close> when a finding without a rule identifier raises; the transaction is rolled back.\<close>

definition finalize_detonation :: "intel_pack \<Rightarrow> timestamp \<Rightarrow> det_job \<Rightarrow> det_result \<Rightarrow> det_world \<Rightarrow>
    string + (det_world \<times> flip_alert option)" where
  "finalize_detonation p now j res w =
    (if \<not> owns_job j (db_detq (dw_db w)) then Inr (w, None)
     else if dj_scan_id j \<notin> sc_id ` set (db_scans (dw_db w)) then Inr (w\<lparr>dw_db := finish_det now j (dw_db w)\<rparr>, None)
     else (case to_findings (dr_findings res) of
         None \<Rightarrow> Inl ''rule_id''
       | Some dyn \<Rightarrow>
           (let (d1, alert) = (if dyn = [] then (dw_db w, None) else rescore p j dyn (dw_db w)) in
            Inr (w\<lparr>dw_db := finish_det now j d1, dw_detonations := dw_detonations w @
                [\<lparr>dt_scan_id = dj_scan_id j, dt_sandbox_id = dr_id res, dt_status = dr_status res,
                  dt_total_events = dr_total_events res\<rparr>]\<rparr>, alert))))"

section \<open>Processing one job\<close>

datatype det_outcome = Timed_out | No_archive string | Fetch_raised string | Unavailable | Detonated det_result

definition fail_reason :: "det_outcome \<Rightarrow> string option" where
  "fail_reason outcome =
    (case outcome of
       Timed_out \<Rightarrow> Some (''timeout_after_'' @ int_str detonation_process_timeout @ ''s'')
     | No_archive msg \<Rightarrow> Some (''no_files: '' @ msg)
     | Fetch_raised msg \<Rightarrow> Some (''fetch_failed: '' @ msg)
     | Unavailable \<Rightarrow> Some ''detonation_unavailable''
     | Detonated res \<Rightarrow> (if dr_status res = ''error'' then Some ''detonation_service_error'' else None))"

definition requeue_job :: "timestamp \<Rightarrow> det_job \<Rightarrow> string \<Rightarrow> det_world \<Rightarrow> det_world" where
  "requeue_job now j reason w =
    w\<lparr>dw_db := (dw_db w)\<lparr>db_detq := requeue_or_fail now (dj_id j) (dj_token j) reason (db_detq (dw_db w))\<rparr>\<rparr>"

definition process_detonation :: "intel_pack \<Rightarrow> bool \<Rightarrow> timestamp \<Rightarrow> det_job \<Rightarrow> det_outcome \<Rightarrow> det_world \<Rightarrow>
    det_world \<times> flip_alert option" where
  "process_detonation p has_adapter now j outcome w =
    (if \<not> has_adapter
     then (w\<lparr>dw_db := (dw_db w)\<lparr>db_detq := worker_mark_failed now (dj_id j) (dj_token j)
         (''no adapter for '' @ dj_ecosystem j) (db_detq (dw_db w))\<rparr>\<rparr>, None)
     else (case fail_reason outcome of
         Some reason \<Rightarrow> (requeue_job now j reason w, None)
       | None \<Rightarrow>
           (case outcome of
              Detonated res \<Rightarrow>
                (case finalize_detonation p now j res w of
                   Inl msg \<Rightarrow> (requeue_job now j (take 4000 msg) w, None)
                 | Inr out \<Rightarrow> out)
            | _ \<Rightarrow> (w, None))))"

section \<open>Lemmas\<close>

lemma requeue_not_owner: "\<not> owns_job j rs \<Longrightarrow> requeue_or_fail now (dj_id j) (dj_token j) reason rs = rs"
  by (auto simp: owns_job_def requeue_or_fail_def split: option.splits)

lemma requeue_job_not_owner: "\<not> owns_job j (db_detq (dw_db w)) \<Longrightarrow> requeue_job now j reason w = w"
  by (simp add: requeue_job_def requeue_not_owner)

lemma requeue_gives_up: "\<not> owns_job j (requeue_or_fail now (dj_id j) (dj_token j) reason rs)"
proof (cases "owns_job j rs")
  case False
  then show ?thesis by (simp add: requeue_not_owner)
next
  case True
  have id: "dq_id (retry_row now reason r) = dq_id r" for r by (simp add: retry_row_def Let_def)
  have "\<not> (dq_status (retry_row now reason r) = Claimed \<and> dq_claim_token (retry_row now reason r) = Some t)" for r t
    by (simp add: retry_row_def Let_def)
  then show ?thesis using True
    by (auto simp: owns_job_def requeue_or_fail_def det_upd_row_def find_update_where [of dq_id, OF id] split: option.splits)
qed

lemma done_gives_up: "\<not> owns_job j (fst (det_mark_done now (dj_id j) (Some (dj_token j)) rs))"
proof (cases "owns_job j rs")
  case False
  then show ?thesis
    by (auto simp: owns_job_def det_mark_done_def det_mark_row_def det_upd_row_def det_done_row_def
        find_update_where [of dq_id "det_done_row now"] split: option.splits)
next
  case True
  then show ?thesis
    by (auto simp: owns_job_def det_mark_done_def det_mark_row_def det_upd_row_def det_done_row_def
        find_update_where [of dq_id "det_done_row now"] split: option.splits)
qed

lemma process_not_owner:
  "\<not> owns_job j (db_detq (dw_db w)) \<Longrightarrow> process_detonation p True now j outcome w = (w, None)"
  by (auto simp: process_detonation_def requeue_job_not_owner finalize_detonation_def split: option.splits det_outcome.splits)

lemma rescore_detq [simp]: "db_detq (fst (rescore p j dyn d)) = db_detq d"
  by (simp add: rescore_def Let_def upd_scan_def persist_findings_def)

lemma finalize_gives_up:
  "finalize_detonation p now j res w = Inr (w', alert) \<Longrightarrow> \<not> owns_job j (db_detq (dw_db w'))"
  using done_gives_up [of j now "db_detq (dw_db w)"]
  by (auto simp: finalize_detonation_def finish_det_def Let_def split: if_splits option.splits prod.splits)
    (metis fst_conv rescore_detq)

lemma process_gives_up: "\<not> owns_job j (db_detq (dw_db (fst (process_detonation p True now j outcome w))))"
proof (cases "fail_reason outcome")
  case (Some reason)
  then show ?thesis using requeue_gives_up by (simp add: process_detonation_def requeue_job_def)
next
  case None
  then obtain res where "outcome = Detonated res" by (cases outcome) (auto simp: fail_reason_def)
  with None show ?thesis using requeue_gives_up finalize_gives_up [of p now j res w]
    by (auto simp: process_detonation_def requeue_job_def split: sum.splits prod.splits)
qed

lemma kept_dynamic_subset: "set (kept_dynamic stat dyn) \<subseteq> set dyn"
  by (auto simp: kept_dynamic_def Let_def)

section \<open>Properties\<close>

text \<open>C11. A detonation takes effect at most once, and dynamic evidence only adds. A worker that no longer owns the
  claim of its job changes nothing and alerts nobody, whatever the service answered; after one
  processing the claim is given up, so that processing the job again has no effect. When the owner
  finalizes a result with dynamic findings, the stored verdict is that of the static findings or a
  graver one, and an alert is raised exactly when it is malicious while the static one was not.\<close>

theorem detonation_once:
  "(\<not> owns_job j (db_detq (dw_db w)) \<longrightarrow> process_detonation p True now j outcome w = (w, None)) \<and>
   process_detonation p True now' j outcome' (fst (process_detonation p True now j outcome w))
     = (fst (process_detonation p True now j outcome w), None) \<and>
   (\<forall>res s dyn. sane_pack p \<and> owns_job j (db_detq (dw_db w)) \<and> outcome = Detonated res \<and> dr_status res \<noteq> ''error'' \<and>
      scan_of (dj_scan_id j) (dw_db w) = Some s \<and> to_findings (dr_findings res) = Some dyn \<and> dyn \<noteq> [] \<longrightarrow>
      (\<exists>s'. scan_of (dj_scan_id j) (dw_db (fst (process_detonation p True now j outcome w))) = Some s' \<and>
        rule_rank (sr_verdict (score_and_verdict p (static_findings (dj_scan_id j) (dw_db w))
            (is_watchlist (dj_name j) (dj_ecosystem j) (db_watch (dw_db w))))) \<le> rule_rank (sc_verdict s') \<and>
        (snd (process_detonation p True now j outcome w) \<noteq> None \<longleftrightarrow>
           sc_verdict s' = Malicious \<and> dj_static_verdict j \<noteq> Malicious)))"
proof -
  have "\<exists>s'. scan_of (dj_scan_id j) (dw_db (fst (process_detonation p True now j outcome w))) = Some s' \<and>
      rule_rank (sr_verdict (score_and_verdict p (static_findings (dj_scan_id j) (dw_db w))
            (is_watchlist (dj_name j) (dj_ecosystem j) (db_watch (dw_db w))))) \<le> rule_rank (sc_verdict s') \<and>
      (snd (process_detonation p True now j outcome w) \<noteq> None \<longleftrightarrow> sc_verdict s' = Malicious \<and> dj_static_verdict j \<noteq> Malicious)"
    if a: "sane_pack p" "owns_job j (db_detq (dw_db w))" "outcome = Detonated res" "dr_status res \<noteq> ''error''"
      "scan_of (dj_scan_id j) (dw_db w) = Some s" "to_findings (dr_findings res) = Some dyn" "dyn \<noteq> []" for res s dyn
  proof -
    let ?stat = "static_findings (dj_scan_id j) (dw_db w)"
    let ?rank = "is_watchlist (dj_name j) (dj_ecosystem j) (db_watch (dw_db w))"
    let ?r = "score_and_verdict p (?stat @ kept_dynamic ?stat dyn) ?rank"
    have "process_detonation p True now j outcome w =
        (w\<lparr>dw_db := finish_det now j (fst (rescore p j dyn (dw_db w))), dw_detonations := dw_detonations w @
            [\<lparr>dt_scan_id = dj_scan_id j, dt_sandbox_id = dr_id res, dt_status = dr_status res,
              dt_total_events = dr_total_events res\<rparr>]\<rparr>, snd (rescore p j dyn (dw_db w)))"
      using a scan_of_present [OF a(5)]
      by (simp add: process_detonation_def fail_reason_def finalize_detonation_def split: prod.splits)
    moreover have "scan_of (dj_scan_id j) (fst (rescore p j dyn (dw_db w))) = Some (set_verdict ?r s)"
      using a(5) by (simp add: rescore_def Let_def scan_of_upd set_verdict_def)
    moreover have "snd (rescore p j dyn (dw_db w)) \<noteq> None \<longleftrightarrow> sr_verdict ?r = Malicious \<and> dj_static_verdict j \<noteq> Malicious"
      by (simp add: rescore_def Let_def)
    moreover have "rule_rank (sr_verdict (score_and_verdict p ?stat ?rank)) \<le> rule_rank (sr_verdict ?r)"
      by (rule scoring.assess_grows [OF a(1)])
    ultimately show ?thesis by (simp add: set_verdict_def finish_det_def scan_of_def)
  qed
  then show ?thesis using process_not_owner process_gives_up by blast
qed

definition demo_det_job :: det_job where
  "demo_det_job = \<lparr>dj_id = 1, dj_token = ''t'', dj_scan_id = 7, dj_ecosystem = ''npm'', dj_name = ''x'', dj_version = ''1'',
     dj_archive_kind = ''npm_tarball'', dj_static_verdict = Suspicious\<rparr>"

definition demo_det_world :: det_world where
  "demo_det_world = \<lparr>dw_db = demo_db\<lparr>db_scans := [demo_scan 7],
      db_findings := [\<lparr>fr_scan_id = 7, fr_finding = mk_finding ''iocs.url'' ''iocs'' ''high'' ''low'' []\<rparr>],
      db_detq := [\<lparr>dq_id = 1, dq_scan_id = 7, dq_version_id = 1, dq_ecosystem = ''npm'', dq_name = ''x'', dq_version = ''1'',
        dq_archive_kind = ''npm_tarball'', dq_priority = High, dq_status = Claimed, dq_static_verdict = Suspicious,
        dq_attempts = 0, dq_claim_token = Some ''t'', dq_last_error = None, dq_enqueued_at = 0, dq_claimed_at = Some 0,
        dq_finished_at = None\<rparr>]\<rparr>, dw_detonations = []\<rparr>"

definition demo_det_result :: "string \<Rightarrow> string \<Rightarrow> det_result" where
  "demo_det_result rule sev = \<lparr>dr_id = ''d'', dr_status = ''completed'',
     dr_findings = [JObj [(''rule_id'', JStr rule), (''severity'', JStr sev)]], dr_total_events = 1\<rparr>"

lemma demo_to_findings: "to_findings (dr_findings (demo_det_result rule sev)) =
    Some [\<lparr>f_rule_id = rule, f_category = ''dynamic'', f_severity = sev, f_confidence = ''medium'', f_file = Some [],
      f_line = None, f_evidence = []\<rparr>]"
  by (simp add: demo_det_result_def jtext_or_def)

theorem detonation_once_witness:
  "\<exists>s'. scan_of 7 (dw_db (fst (process_detonation scoring_baseline True 9 demo_det_job
     (Detonated (demo_det_result ''dyn_dns'' ''low'')) demo_det_world))) = Some s' \<and> 1 \<le> rule_rank (sc_verdict s')"
proof -
  have o: "owns_job demo_det_job (db_detq (dw_db demo_det_world))"
    by (simp add: owns_job_def demo_det_job_def demo_det_world_def)
  have s: "scan_of (dj_scan_id demo_det_job) (dw_db demo_det_world) = Some (demo_scan 7)"
    by (simp add: scan_of_def demo_det_job_def demo_det_world_def demo_scan_def)
  have st: "dr_status (demo_det_result ''dyn_dns'' ''low'') \<noteq> ''error''" by (simp add: demo_det_result_def)
  have r: "rule_rank (sr_verdict (score_and_verdict scoring_baseline (static_findings (dj_scan_id demo_det_job) (dw_db demo_det_world))
      (is_watchlist (dj_name demo_det_job) (dj_ecosystem demo_det_job) (db_watch (dw_db demo_det_world))))) = 1"
    by code_simp
  have j: "dj_scan_id demo_det_job = 7" by (simp add: demo_det_job_def)
  show ?thesis
    using detonation_once [of demo_det_job demo_det_world scoring_baseline 9 "Detonated (demo_det_result ''dyn_dns'' ''low'')" 0 Unavailable,
        THEN conjunct2, THEN conjunct2, rule_format, OF conjI, OF sane_scoring_baseline]
      o s st r j demo_to_findings [of "''dyn_dns''" "''low''"] by fastforce
qed

text \<open>Three gaps: a static malicious verdict, cleared by the model or not, never raises a dynamic alert; the
  re-scored rule verdict replaces a malicious verdict the model had given; and two labels are taken for a
  registrable domain, so under a public suffix of two labels every host passes for the vendor's.\<close>

lemma static_malicious_no_dynamic_alert:
  "dj_static_verdict j = Malicious \<Longrightarrow> snd (process_detonation p has now j outcome w) = None"
  by (auto simp: process_detonation_def finalize_detonation_def rescore_def Let_def split: option.splits det_outcome.splits sum.splits)

lemma detonation_lowers_llm_verdict:
  "map_option sc_verdict (scan_of 7 (dw_db demo_det_world)) = Some Malicious \<and>
   map_option sc_verdict (scan_of 7 (dw_db (fst (process_detonation scoring_baseline True 9 demo_det_job
     (Detonated (demo_det_result ''dyn_dns'' ''low'')) demo_det_world)))) = Some Suspicious"
  by code_simp

lemma public_suffix_exempt: "registrable ''exfil.attacker.co.uk'' = registrable ''cdn.vendor.co.uk''"
  by code_simp

end
