(* ===== verification/Extract.thy ===== *)
theory Extract
  imports Prelude 
begin

text \<open>
  Unpacking an archive: \<^verbatim>\<open>util/extract.py\<close>. A path is the list of its components; the file system is a map
  from paths to nodes. Symbolic links never get into the tree, so \<^verbatim>\<open>Path.resolve\<close> is lexical. What \<^verbatim>\<open>tarfile\<close>
  and \<^verbatim>\<open>zipfile\<close> read from the archive, members with their names, sizes and data, is the argument.
\<close>

section \<open>Paths and the file system\<close>

type_synonym path = "string list"

datatype node = Dir | File string

type_synonym fs = "path \<Rightarrow> node option"

text \<open>\<^verbatim>\<open>Path(name).parts\<close> of a name that does not start with a slash, and \<^verbatim>\<open>resolve\<close>.\<close>

definition path_parts :: "string \<Rightarrow> path" where
  "path_parts name = filter (\<lambda>p. p \<noteq> [] \<and> p \<noteq> ''.'') (split_on (CHR ''/'') name)"

fun resolve_onto :: "path \<Rightarrow> path \<Rightarrow> path" where
  "resolve_onto acc [] = acc"
| "resolve_onto acc (p # ps) = resolve_onto (if p = ''..'' then butlast acc else acc @ [p]) ps"

definition is_within :: "path \<Rightarrow> path \<Rightarrow> bool" where
  "is_within base target \<longleftrightarrow> prefix (resolve_onto [] base) (resolve_onto [] target)"

definition safe_path :: "path \<Rightarrow> string \<Rightarrow> path option" where
  "safe_path out name =
    (if prefix ''/'' name \<or> prefix [CHR 0x5C] name then None
     else (let parts = path_parts name;
               normalized = (if ''..'' \<in> set parts then filter (\<lambda>p. p \<noteq> ''..'') parts else parts);
               dest = out @ normalized
           in if \<not> is_within out dest then None else Some dest))"

text \<open>\<^verbatim>\<open>mkdir(parents=True, exist_ok=True)\<close> and writing a file, \<^const>\<open>None\<close> for an \<^verbatim>\<open>OSError\<close>.\<close>

definition is_file :: "node option \<Rightarrow> bool" where
  "is_file n = (case n of Some (File d) \<Rightarrow> True | _ \<Rightarrow> False)"

definition mkdir_p :: "path \<Rightarrow> fs \<Rightarrow> fs option" where
  "mkdir_p p fs =
    (if list_ex (\<lambda>q. is_file (fs q)) (prefixes p) then None
     else Some (\<lambda>q. if q \<in> set (prefixes p) \<and> fs q = None then Some Dir else fs q))"

definition write_file :: "path \<Rightarrow> string \<Rightarrow> fs \<Rightarrow> fs option" where
  "write_file p d fs = (if fs p = Some Dir then None else Some (fs(p \<mapsto> File d)))"

section \<open>Archives\<close>

datatype extract_error = Too_many_files nat | Archive_too_large int int | Os_error | Insufficient_disk int int
  | Unknown_archive_type string

datatype member_kind = Symlink | Hardlink | Device | Fifo | Directory | Regular

text \<open>\<^verbatim>\<open>TarInfo\<close> with what \<^verbatim>\<open>extractfile\<close> gives for it, and \<^verbatim>\<open>ZipInfo\<close>.\<close>

record tar_member =
  tm_name :: string
  tm_kind :: member_kind
  tm_size :: int
  tm_data :: "string option"

record zip_member =
  zm_name :: string
  zm_size :: int
  zm_data :: string

text \<open>The loops give the tree as they leave it, also when they raise, and the error.\<close>

definition put_file :: "path \<Rightarrow> string \<Rightarrow> fs \<Rightarrow> fs option" where
  "put_file dest d fs = Option.bind (mkdir_p (butlast dest) fs) (write_file dest d)"

fun tar_loop :: "path \<Rightarrow> int \<Rightarrow> int \<Rightarrow> tar_member list \<Rightarrow> fs \<Rightarrow> fs \<times> extract_error option" where
  "tar_loop out cap tot [] fs = (fs, None)"
| "tar_loop out cap tot (m # ms) fs =
    (if tm_kind m \<in> {Symlink, Hardlink, Device, Fifo} then tar_loop out cap tot ms fs
     else (case safe_path out (tm_name m) of
         None \<Rightarrow> tar_loop out cap tot ms fs
       | Some dest \<Rightarrow>
           (if tm_kind m = Directory
            then (case mkdir_p dest fs of None \<Rightarrow> (fs, Some Os_error) | Some fs1 \<Rightarrow> tar_loop out cap tot ms fs1)
            else if cap < tot + tm_size m then (fs, Some (Archive_too_large (tot + tm_size m) cap))
            else (case mkdir_p (butlast dest) fs of
                None \<Rightarrow> (fs, Some Os_error)
              | Some fs1 \<Rightarrow>
                  (case tm_data m of
                     None \<Rightarrow> tar_loop out cap (tot + tm_size m) ms fs1
                   | Some d \<Rightarrow>
                       (case write_file dest d fs1 of
                          None \<Rightarrow> (fs1, Some Os_error)
                        | Some fs2 \<Rightarrow> tar_loop out cap (tot + tm_size m) ms fs2))))))"

definition extract_tar :: "path \<Rightarrow> nat \<Rightarrow> int \<Rightarrow> tar_member list \<Rightarrow> fs \<Rightarrow> fs \<times> extract_error option" where
  "extract_tar out max_files max_bytes ms fs =
    (if max_files < length ms then (fs, Some (Too_many_files (length ms))) else tar_loop out max_bytes 0 ms fs)"

fun zip_loop :: "path \<Rightarrow> int \<Rightarrow> int \<Rightarrow> zip_member list \<Rightarrow> fs \<Rightarrow> fs \<times> extract_error option" where
  "zip_loop out cap tot [] fs = (fs, None)"
| "zip_loop out cap tot (m # ms) fs =
    (case safe_path out (zm_name m) of
       None \<Rightarrow> zip_loop out cap tot ms fs
     | Some dest \<Rightarrow>
         (if suffix ''/'' (zm_name m)
          then (case mkdir_p dest fs of None \<Rightarrow> (fs, Some Os_error) | Some fs1 \<Rightarrow> zip_loop out cap tot ms fs1)
          else if cap < tot + zm_size m then (fs, Some (Archive_too_large (tot + zm_size m) cap))
          else (case mkdir_p (butlast dest) fs of
              None \<Rightarrow> (fs, Some Os_error)
            | Some fs1 \<Rightarrow>
                (case write_file dest (zm_data m) fs1 of
                   None \<Rightarrow> (fs1, Some Os_error)
                 | Some fs2 \<Rightarrow> zip_loop out cap (tot + zm_size m) ms fs2))))"

definition extract_zip :: "path \<Rightarrow> nat \<Rightarrow> int \<Rightarrow> zip_member list \<Rightarrow> fs \<Rightarrow> fs \<times> extract_error option" where
  "extract_zip out max_files max_bytes ms fs =
    (if max_files < length ms then (fs, Some (Too_many_files (length ms))) else zip_loop out max_bytes 0 ms fs)"

definition default_max_bytes :: int where
  "default_max_bytes = 500 * 1024 * 1024"

definition default_max_files :: nat where
  "default_max_files = 25000"

text \<open>\<open>free\<close> is the free space, \<^const>\<open>None\<close> when it cannot be told; \<open>as_tar\<close> and \<open>as_zip\<close> are what the libraries
  read from the file.\<close>

definition safe_extract :: "string \<Rightarrow> path \<Rightarrow> nat \<Rightarrow> int \<Rightarrow> int option \<Rightarrow> tar_member list \<Rightarrow> zip_member list \<Rightarrow> fs \<Rightarrow>
    fs \<times> extract_error option" where
  "safe_extract name out max_files max_bytes free as_tar as_zip fs =
    (case mkdir_p out fs of
       None \<Rightarrow> (fs, Some Os_error)
     | Some fs1 \<Rightarrow>
         (let low = (case free of None \<Rightarrow> False | Some n \<Rightarrow> n < max_bytes + 64 * 1024 * 1024);
              n = lower name in
          if low then (fs1, Some (Insufficient_disk (the free) max_bytes))
          else if list_ex (\<lambda>s. suffix s n) [''.tar.gz'', ''.tgz'', ''.tar.bz2'', ''.tar'', ''.crate'']
          then extract_tar out max_files max_bytes as_tar fs1
          else if list_ex (\<lambda>s. suffix s n) [''.whl'', ''.zip'', ''.egg'']
          then extract_zip out max_files max_bytes as_zip fs1
          else (fs1, Some (Unknown_archive_type name))))"

section \<open>Lemmas\<close>

text \<open>\<open>fs'\<close> differs from \<open>fs\<close> at \<open>out\<close> or below only, and nothing that was there is gone.\<close>

definition confined :: "path \<Rightarrow> fs \<Rightarrow> fs \<Rightarrow> bool" where
  "confined out fs fs' \<longleftrightarrow> (\<forall>p. fs' p \<noteq> fs p \<longrightarrow> prefix out p)"

definition has_dirs :: "path \<Rightarrow> fs \<Rightarrow> bool" where
  "has_dirs out fs \<longleftrightarrow> (\<forall>q \<in> set (prefixes out). fs q = Some Dir)"

lemma confined_refl [simp]: "confined out fs fs"
  by (simp add: confined_def)

lemma confined_trans: "confined out fs fs1 \<Longrightarrow> confined out fs1 fs2 \<Longrightarrow> confined out fs fs2"
  by (auto simp: confined_def) metis

lemma resolve_append: "''..'' \<notin> set ps \<Longrightarrow> resolve_onto acc ps = acc @ ps"
  by (induction acc ps rule: resolve_onto.induct) auto

lemma resolve_split: "resolve_onto acc (xs @ ys) = resolve_onto (resolve_onto acc xs) ys"
  by (induction acc xs rule: resolve_onto.induct) auto

text \<open>A safe path is the output directory with components none of which leads upwards; every name that does
  not start with a slash or a backslash has one.\<close>

lemma safe_path_iff:
  "safe_path out name = Some dest \<longleftrightarrow> \<not> prefix ''/'' name \<and> \<not> prefix [CHR 0x5C] name \<and>
     dest = out @ filter (\<lambda>p. p \<noteq> ''..'') (path_parts name)"
proof -
  have f: "(if ''..'' \<in> set ps then filter (\<lambda>p. p \<noteq> ''..'') ps else ps) = filter (\<lambda>p. p \<noteq> ''..'') ps" for ps :: path
    by (auto intro!: filter_True [symmetric])
  have "is_within out (out @ filter (\<lambda>p. p \<noteq> ''..'') (path_parts name))"
    unfolding is_within_def resolve_split by (subst (2) resolve_append) auto
  then show ?thesis unfolding safe_path_def Let_def f by auto
qed

lemma safe_path_below: "safe_path out name = Some dest \<Longrightarrow> prefix out dest"
  by (auto simp: safe_path_iff)

lemma prefix_butlast: "prefix out dest \<Longrightarrow> prefix q (butlast dest) \<Longrightarrow> prefix q dest"
  by (metis prefixeq_butlast prefix_order.trans)

lemma mkdir_p_frame:
  assumes "mkdir_p p fs = Some fs1" and "prefix out p \<or> p = butlast out" and "has_dirs out fs"
  shows "confined out fs fs1 \<and> has_dirs out fs1"
proof -
  have f: "fs1 = (\<lambda>q. if q \<in> set (prefixes p) \<and> fs q = None then Some Dir else fs q)"
    using assms(1) by (auto simp: mkdir_p_def split: if_splits)
  have "prefix out q" if "prefix q p" "fs q = None" for q
  proof (rule ccontr)
    assume n: "\<not> prefix out q"
    from assms(2) have "prefix q out"
    proof
      assume "prefix out p"
      then show ?thesis using that(1) n prefix_same_cases by blast
    next
      assume "p = butlast out"
      then show ?thesis using that(1) by (metis prefix_order.trans prefixeq_butlast)
    qed
    then show False using assms(3) that(2) by (simp add: has_dirs_def)
  qed
  then show ?thesis using assms(3) unfolding f by (auto simp: confined_def has_dirs_def split: if_splits)
qed

lemma write_file_frame:
  "write_file p d fs = Some fs1 \<Longrightarrow> prefix out p \<Longrightarrow> has_dirs out fs \<Longrightarrow> confined out fs fs1 \<and> has_dirs out fs1"
  by (auto simp: write_file_def confined_def has_dirs_def split: if_splits)

text \<open>At most \<open>n\<close> files of at most \<open>b\<close> bytes in all below \<open>out\<close>.\<close>

definition node_bytes :: "node option \<Rightarrow> int" where
  "node_bytes n = (case n of Some (File d) \<Rightarrow> int (length d) | _ \<Rightarrow> 0)"

definition tree_within :: "path \<Rightarrow> nat \<Rightarrow> int \<Rightarrow> fs \<Rightarrow> bool" where
  "tree_within out n b fs \<longleftrightarrow> (\<forall>P. finite P \<and> (\<forall>p\<in>P. prefix out p \<and> is_file (fs p)) \<longrightarrow>
     card P \<le> n \<and> (\<Sum>p\<in>P. node_bytes (fs p)) \<le> b)"

lemma tree_within_mono: "tree_within out n b fs \<Longrightarrow> n \<le> n' \<Longrightarrow> b \<le> b' \<Longrightarrow> tree_within out n' b' fs"
  by (fastforce simp: tree_within_def)

lemma tree_within_same_files:
  assumes "tree_within out n b fs" and "\<And>p. is_file (fs1 p) \<Longrightarrow> fs1 p = fs p"
  shows "tree_within out n b fs1"
  unfolding tree_within_def
proof (intro allI impI)
  fix P assume P: "finite P \<and> (\<forall>p\<in>P. prefix out p \<and> is_file (fs1 p))"
  then have "\<forall>p\<in>P. prefix out p \<and> is_file (fs p)" and "(\<Sum>p\<in>P. node_bytes (fs1 p)) = (\<Sum>p\<in>P. node_bytes (fs p))"
    using assms(2) by (metis, metis (mono_tags, lifting) sum.cong)
  then show "card P \<le> n \<and> (\<Sum>p\<in>P. node_bytes (fs1 p)) \<le> b" using assms(1) P by (simp add: tree_within_def)
qed

lemma tree_within_mkdir: "mkdir_p p fs = Some fs1 \<Longrightarrow> tree_within out n b fs \<Longrightarrow> tree_within out n b fs1"
  by (erule tree_within_same_files) (auto simp: mkdir_p_def is_file_def split: if_splits option.splits)

lemma tree_within_write:
  assumes "tree_within out n b fs" and "write_file p d fs = Some fs1" and "int (length d) \<le> k"
  shows "tree_within out (Suc n) (b + k) fs1"
  unfolding tree_within_def
proof (intro allI impI)
  fix P assume P: "finite P \<and> (\<forall>q\<in>P. prefix out q \<and> is_file (fs1 q))"
  have f: "fs1 = fs(p \<mapsto> File d)" using assms(2) by (auto simp: write_file_def split: if_splits)
  let ?Q = "P - {p}"
  have q: "finite ?Q \<and> (\<forall>q\<in>?Q. prefix out q \<and> is_file (fs q))" using P by (auto simp: f split: if_splits)
  then have Q: "card ?Q \<le> n" "(\<Sum>q\<in>?Q. node_bytes (fs q)) \<le> b" using assms(1) by (simp_all add: tree_within_def)
  have e: "(\<Sum>q\<in>?Q. node_bytes (fs1 q)) = (\<Sum>q\<in>?Q. node_bytes (fs q))" by (rule sum.cong) (auto simp: f)
  have "card P \<le> Suc n" using P Q(1) by (cases "p \<in> P") (auto simp: card_Diff_singleton)
  moreover have "(\<Sum>q\<in>P. node_bytes (fs1 q)) \<le> b + k"
  proof (cases "p \<in> P")
    case True
    then have "(\<Sum>q\<in>P. node_bytes (fs1 q)) = node_bytes (fs1 p) + (\<Sum>q\<in>?Q. node_bytes (fs1 q))" using P by (simp add: sum.remove)
    then show ?thesis using Q(2) e assms(3) by (simp add: f node_bytes_def)
  next
    case False
    then show ?thesis using Q(2) e assms(3) by simp
  qed
  ultimately show "card P \<le> Suc n \<and> (\<Sum>q\<in>P. node_bytes (fs1 q)) \<le> b + k" by simp
qed

lemma dest_parent: "prefix out dest \<Longrightarrow> prefix out (butlast dest) \<or> butlast dest = butlast out"
  by (cases dest rule: rev_cases) (auto simp: prefix_snoc)

text \<open>What one member does: both loops are folds of it.\<close>

lemma put_file_frame:
  assumes "mkdir_p (butlast dest) fs = Some fs1" and "prefix out dest" and "has_dirs out fs"
  shows "confined out fs fs1 \<and> has_dirs out fs1 \<and>
    (\<forall>d fs2. write_file dest d fs1 = Some fs2 \<longrightarrow> confined out fs fs2 \<and> has_dirs out fs2)"
proof -
  have m: "confined out fs fs1 \<and> has_dirs out fs1" using mkdir_p_frame [OF assms(1) dest_parent [OF assms(2)] assms(3)] .
  then show ?thesis using write_file_frame [OF _ assms(2)] confined_trans by blast
qed

lemma tar_loop_confined:
  "tar_loop out cap tot ms fs = (fs', err) \<Longrightarrow> has_dirs out fs \<Longrightarrow> confined out fs fs'"
proof (induction out cap tot ms fs rule: tar_loop.induct)
  case (1 out cap tot fs)
  then show ?case by simp
next
  case (2 out cap tot m ms fs)
  show ?case
  proof (cases "tm_kind m \<in> {Symlink, Hardlink, Device, Fifo} \<or> safe_path out (tm_name m) = None")
    case True
    then show ?thesis using 2 by (auto split: if_splits)
  next
    case False
    then obtain dest where k: "tm_kind m \<notin> {Symlink, Hardlink, Device, Fifo}" and d: "safe_path out (tm_name m) = Some dest" by auto
    note frames = put_file_frame [OF _ safe_path_below [OF d] 2(7)] mkdir_p_frame [OF _ disjI1 [OF safe_path_below [OF d]] 2(7)]
    show ?thesis using 2(6) k d frames 2(3-5) [OF k d] 2(7)
      by (auto split: if_splits option.splits intro: confined_trans) (metis confined_trans)
  qed
qed

lemma tar_loop_inv:
  assumes "tar_loop out cap tot ms fs = (fs', err)" and "has_dirs out fs" and "tree_within out n tot fs" and "tot \<le> cap"
    and "\<forall>m\<in>set ms. 0 \<le> tm_size m \<and> (case tm_data m of None \<Rightarrow> True | Some d \<Rightarrow> int (length d) \<le> tm_size m)"
  shows "tree_within out (n + length ms) cap fs'"
  using assms
proof (induction ms arbitrary: tot fs n)
  case Nil
  then show ?case by (auto intro: tree_within_mono)
next
  case (Cons m ms)
  note sz = Cons.prems(5)
  have skip: ?case if "tar_loop out cap tot ms fs = (fs', err)"
    using Cons.IH [OF that Cons.prems(2-4)] sz by (auto intro: tree_within_mono)
  have stop: ?case if "fs' = fs"
    using that Cons.prems(3,4) by (auto intro: tree_within_mono)
  show ?case
  proof (cases "tm_kind m \<in> {Symlink, Hardlink, Device, Fifo} \<or> safe_path out (tm_name m) = None")
    case True
    then show ?thesis using skip Cons.prems(1) by (auto split: if_splits)
  next
    case False
    then obtain dest where k: "tm_kind m \<notin> {Symlink, Hardlink, Device, Fifo}" and d: "safe_path out (tm_name m) = Some dest" by auto
    note below = safe_path_below [OF d]
    show ?thesis
    proof (cases "tm_kind m = Directory")
      case True
      show ?thesis
      proof (cases "mkdir_p dest fs")
        case None
        then show ?thesis using stop Cons.prems(1) k d True by simp
      next
        case (Some fs1)
        have f: "confined out fs fs1 \<and> has_dirs out fs1" using mkdir_p_frame [OF Some] below Cons.prems(2) by blast
        have "tree_within out (n + length ms) cap fs'"
          using Cons.IH [of tot fs1 n] Cons.prems(1,4) k d True Some f tree_within_mkdir [OF Some Cons.prems(3)] sz by simp
        then show ?thesis by (auto intro: tree_within_mono)
      qed
    next
      case False
      show ?thesis
      proof (cases "cap < tot + tm_size m \<or> mkdir_p (butlast dest) fs = None")
        case True
        then have "fs' = fs" using Cons.prems(1) k d False by (auto split: if_splits)
        then show ?thesis by (rule stop)
      next
        case c: False
        then obtain fs1 where fs1: "mkdir_p (butlast dest) fs = Some fs1" by auto
        note f = put_file_frame [OF fs1 below Cons.prems(2)]
        have t: "tree_within out n tot fs1" by (rule tree_within_mkdir [OF fs1 Cons.prems(3)])
        have z: "tot \<le> tot + tm_size m" "tot + tm_size m \<le> cap" using sz c by auto
        show ?thesis
        proof (cases "tm_data m")
          case None
          have "tree_within out (n + length ms) cap fs'"
            using Cons.IH [of "tot + tm_size m" fs1 n] Cons.prems(1) k d False c fs1 f None z sz tree_within_mono [OF t _ z(1)] by simp
          then show ?thesis by (auto intro: tree_within_mono)
        next
          case (Some x)
          show ?thesis
          proof (cases "write_file dest x fs1")
            case None
            then have "fs' = fs1" using Cons.prems(1) k d False c fs1 Some by auto
            then show ?thesis using t Cons.prems(4) by (auto intro: tree_within_mono)
          next
            case w: (Some fs2)
            have "tree_within out (Suc n) (tot + tm_size m) fs2" using tree_within_write [OF t w] sz Some by simp
            then have "tree_within out (Suc n + length ms) cap fs'"
              using Cons.IH [of "tot + tm_size m" fs2 "Suc n"] Cons.prems(1) k d False c fs1 f Some w z sz by simp
            then show ?thesis by simp
          qed
        qed
      qed
    qed
  qed
qed

text \<open>The loop over a zip archive is that over a tar archive with the same members.\<close>

definition tar_of_zip :: "zip_member \<Rightarrow> tar_member" where
  "tar_of_zip m = \<lparr>tm_name = zm_name m, tm_kind = (if suffix ''/'' (zm_name m) then Directory else Regular),
     tm_size = zm_size m, tm_data = Some (zm_data m)\<rparr>"

lemma zip_as_tar: "zip_loop out cap tot ms fs = tar_loop out cap tot (map tar_of_zip ms) fs"
  by (induction out cap tot ms fs rule: zip_loop.induct) (auto simp: tar_of_zip_def split: option.splits)

section \<open>Properties\<close>

text \<open>C8. Unpacking stays inside its directory and within its limits, whatever the archive holds: from an archive
  with arbitrary member names (absolute, with any number of parent components, of any kind) only paths
  at or below the output directory and its own missing parents change; if there was no file there before,
  then, also when the unpacking is abandoned halfway, there are at most as many files as the limit of
  members and at most as many bytes as the limit of bytes; an archive with more members than the limit
  unpacks nothing. The libraries give no member more data than its declared, non-negative size.\<close>

theorem extraction_confined:
  assumes "safe_extract name out max_files max_bytes free as_tar as_zip fs = (fs', err)" and "0 \<le> max_bytes"
    and "\<forall>m\<in>set as_tar \<union> tar_of_zip ` set as_zip. 0 \<le> tm_size m \<and>
      (case tm_data m of None \<Rightarrow> True | Some d \<Rightarrow> int (length d) \<le> tm_size m)"
  shows "(\<forall>p. fs' p \<noteq> fs p \<longrightarrow> prefix out p \<or> (prefix p out \<and> fs p = None \<and> fs' p = Some Dir)) \<and>
    ((\<forall>p. prefix out p \<longrightarrow> \<not> is_file (fs p)) \<longrightarrow>
      (\<forall>P. finite P \<and> (\<forall>p\<in>P. prefix out p \<and> is_file (fs' p)) \<longrightarrow>
        card P \<le> max_files \<and> (\<Sum>p\<in>P. node_bytes (fs' p)) \<le> max_bytes))"
proof (cases "mkdir_p out fs")
  case None
  have "card P \<le> max_files \<and> (\<Sum>p\<in>P. node_bytes (fs p)) \<le> max_bytes"
    if "\<forall>p. prefix out p \<longrightarrow> \<not> is_file (fs p)" "\<forall>p\<in>P. prefix out p \<and> is_file (fs p)" for P
  proof -
    have "P = {}" using that by auto
    then show ?thesis using assms(2) by simp
  qed
  moreover have "fs' = fs" using None assms(1) by (simp add: safe_extract_def)
  ultimately show ?thesis by blast
next
  case (Some fs1)
  have f1: "fs1 = (\<lambda>q. if q \<in> set (prefixes out) \<and> fs q = None then Some Dir else fs q)"
    and nf: "\<forall>q\<in>set (prefixes out). \<not> is_file (fs q)"
    using Some by (auto simp: mkdir_p_def list_ex_iff split: if_splits)
  have dirs: "has_dirs out fs1"
    using nf by (auto simp: has_dirs_def f1 is_file_def split: option.splits node.splits) (metis in_set_prefixes node.exhaust)
  have cases: "fs' = fs1 \<or> (\<exists>ms. tar_loop out max_bytes 0 ms fs1 = (fs', err) \<and> length ms \<le> max_files \<and>
      (\<forall>m\<in>set ms. 0 \<le> tm_size m \<and> (case tm_data m of None \<Rightarrow> True | Some d \<Rightarrow> int (length d) \<le> tm_size m)))"
    using assms(1,3) Some
    by (auto simp: safe_extract_def extract_tar_def extract_zip_def zip_as_tar Let_def split: if_splits intro!: exI) 
  then have "confined out fs1 fs'" using tar_loop_confined dirs by auto
  then have "fs' p = fs1 p" if "\<not> prefix out p" for p using that by (auto simp: confined_def)
  then have "\<forall>p. fs' p \<noteq> fs p \<longrightarrow> prefix out p \<or> (prefix p out \<and> fs p = None \<and> fs' p = Some Dir)"
    by (metis (mono_tags, lifting) f1 in_set_prefixes)
  moreover have "card P \<le> max_files \<and> (\<Sum>p\<in>P. node_bytes (fs' p)) \<le> max_bytes"
    if "\<forall>p. prefix out p \<longrightarrow> \<not> is_file (fs p)" "finite P \<and> (\<forall>p\<in>P. prefix out p \<and> is_file (fs' p))" for P
  proof -
    have "\<not> is_file (fs1 p)" if "prefix out p" for p
      using \<open>\<forall>p. prefix out p \<longrightarrow> \<not> is_file (fs p)\<close> that by (simp add: f1 is_file_def)
    then have "P = {}" if "\<forall>p\<in>P. prefix out p \<and> is_file (fs1 p)" for P using that by blast
    then have t: "tree_within out 0 0 fs1" by (fastforce simp: tree_within_def)
    have "tree_within out max_files max_bytes fs'"
      using cases
    proof
      assume "fs' = fs1"
      then show ?thesis using t tree_within_mono assms(2) by blast
    next
      assume "\<exists>ms. tar_loop out max_bytes 0 ms fs1 = (fs', err) \<and> length ms \<le> max_files \<and>
        (\<forall>m\<in>set ms. 0 \<le> tm_size m \<and> (case tm_data m of None \<Rightarrow> True | Some d \<Rightarrow> int (length d) \<le> tm_size m))"
      then obtain ms where ms: "tar_loop out max_bytes 0 ms fs1 = (fs', err)" "length ms \<le> max_files"
        "\<forall>m\<in>set ms. 0 \<le> tm_size m \<and> (case tm_data m of None \<Rightarrow> True | Some d \<Rightarrow> int (length d) \<le> tm_size m)" by blast
      have "tree_within out (0 + length ms) max_bytes fs'"
        by (rule tar_loop_inv [OF ms(1) dirs t assms(2) ms(3)])
      then show ?thesis using tree_within_mono ms(2) by simp
    qed
    then show ?thesis using that(2) by (simp add: tree_within_def)
  qed
  ultimately show ?thesis by blast
qed

definition demo_fs :: fs where
  "demo_fs p = (if p \<in> {[], [''tmp'']} then Some Dir else None)"

definition demo_member :: "string \<Rightarrow> tar_member" where
  "demo_member name = \<lparr>tm_name = name, tm_kind = Regular, tm_size = 2, tm_data = Some ''hi''\<rparr>"

theorem extraction_confined_witness:
  "card {[''tmp'', ''x'', ''etc'', ''passwd'']} \<le> (9::nat) \<and>
   fst (safe_extract ''a.tgz'' [''tmp'', ''x''] 9 100 None [demo_member ''../../etc/./passwd''] [] demo_fs)
     [''tmp'', ''x'', ''etc'', ''passwd''] = Some (File ''hi'')"
proof -
  let ?r = "safe_extract ''a.tgz'' [''tmp'', ''x''] 9 100 None [demo_member ''../../etc/./passwd''] [] demo_fs"
  have e: "fst ?r [''tmp'', ''x'', ''etc'', ''passwd''] = Some (File ''hi'')" by code_simp
  have n: "\<forall>p. prefix [''tmp'', ''x''] p \<longrightarrow> \<not> is_file (demo_fs p)"
    by (simp add: demo_fs_def is_file_def)
  have m: "\<forall>m\<in>set [demo_member ''../../etc/./passwd''] \<union> tar_of_zip ` set []. 0 \<le> tm_size m \<and>
      (case tm_data m of None \<Rightarrow> True | Some d \<Rightarrow> int (length d) \<le> tm_size m)"
    by (simp add: demo_member_def)
  have "card {[''tmp'', ''x'', ''etc'', ''passwd'']} \<le> (9::nat)"
    using extraction_confined [OF prod.collapse [symmetric] _ m, where name = "''a.tgz''" and out = "[''tmp'', ''x'']" and max_files = 9 and
          max_bytes = 100 and free = None and fs = demo_fs,
        THEN conjunct2, rule_format, OF _ n [rule_format], of "{[''tmp'', ''x'', ''etc'', ''passwd'']}"] e
    by (simp add: is_file_def)
  then show ?thesis using e by simp
qed

text \<open>One member named by a parent component, or a file where a later member needs a directory, makes the whole
  unpacking fail, and with it the scan.\<close>

lemma parent_member_aborts:
  assumes "tm_name m = ''..''" and "tm_kind m = Regular" and "tm_data m = Some d" and "0 \<le> tm_size m" and "tm_size m \<le> cap"
    and "has_dirs out fs"
  shows "snd (tar_loop out cap 0 (m # ms) fs) = Some Os_error"
proof -
  have p: "safe_path out ''..'' = Some out" by (simp add: safe_path_iff path_parts_def)
  have o: "fs out = Some Dir" "\<And>q. prefix q out \<Longrightarrow> fs q = Some Dir" using assms(6) by (auto simp: has_dirs_def)
  have "fs q = Some Dir" if "prefix q (butlast out)" for q
    using o(2) that prefix_order.trans prefixeq_butlast by blast
  then have "mkdir_p (butlast out) fs = Some fs" by (auto simp: mkdir_p_def list_ex_iff is_file_def)
  then show ?thesis using assms p o(1) by (simp add: write_file_def)
qed

end
