(* ===== verification/Focus.thy ===== *)
theory Focus
  imports JobQueue
begin

text \<open>
  Focus packages: \<^verbatim>\<open>focus.py\<close> on the table of class \<^verbatim>\<open>FocusList\<close>, with the central enqueue gate
  \<^verbatim>\<open>gate_decision\<close> and the parsers of focus files. \<^verbatim>\<open>ValueError\<close> is the left summand of the result of
  \<open>parse_combined_focus_file\<close>.
\<close>

record focus_row =
  fl_ecosystem :: ecosystem
  fl_name :: string
  fl_pinned_version :: "string option"

record focus_entry =
  fe_name :: string
  fe_pinned_version :: "string option"

definition focus_exclusive :: "string \<Rightarrow> bool" where
  "focus_exclusive env = (env = ''1'')"

definition focus_key :: "string \<Rightarrow> ecosystem \<Rightarrow> string" where
  "focus_key name eco = (if eco \<in> {''gomod'', ''npm''} then lower name else name)"

definition load_focus_names :: "ecosystem \<Rightarrow> focus_row list \<Rightarrow> string set" where
  "load_focus_names eco rs = (\<lambda>r. focus_key (fl_name r) eco) ` set (filter (\<lambda>r. fl_ecosystem r = eco) rs)"

definition on_focus :: "string \<Rightarrow> string set \<Rightarrow> ecosystem \<Rightarrow> bool" where
  "on_focus name names eco \<longleftrightarrow> focus_key name eco \<in> names"

definition is_focus :: "ecosystem \<Rightarrow> string \<Rightarrow> focus_row list \<Rightarrow> bool" where
  "is_focus eco name rs =
    (let cond = (if eco \<in> {''gomod'', ''npm''} then (\<lambda>r. lower (fl_name r) = lower name) else (\<lambda>r. fl_name r = name))
     in find (\<lambda>r. fl_ecosystem r = eco \<and> cond r) rs \<noteq> None)"

definition gate_decision :: "bool \<Rightarrow> bool \<Rightarrow> bool \<Rightarrow> bool \<Rightarrow> priority option" where
  "gate_decision focus watchlist brand_new exclusive =
    (if exclusive then (if focus then Some High else None)
     else if focus \<or> watchlist then Some High
     else if brand_new then Some Normal
     else None)"

section \<open>Parsing\<close>

definition spec_ops :: "char set" where
  "spec_ops = {CHR ''<'', CHR ''>'', CHR ''='', CHR ''~'', CHR ''!'', CHR ''^''}"

definition floor_version :: "string \<Rightarrow> string option" where
  "floor_version expr =
    (let e = strip (fst (split1 (CHR '','') expr));
         ver = strip_by (\<lambda>c. c \<in> spec_ops \<or> c = CHR '' '' \<or> c = CHR 0x09) e
     in if ver = [] \<or> CHR ''*'' \<in> set ver then None else Some ver)"

definition ends_name :: "char \<Rightarrow> bool" where
  "ends_name c \<longleftrightarrow> c \<in> spec_ops \<or> c = CHR '','' \<or> is_space c"

text \<open>One line of a focus file: the entry it stands for, if any.\<close>

definition parse_focus_line :: "ecosystem \<Rightarrow> string \<Rightarrow> focus_entry option" where
  "parse_focus_line eco raw =
    (let line = strip (fst (split1 (CHR ''#'') raw)) in
     if line = [] then None
     else (let (name, ver) =
         (if eco = ''gomod'' then
            (let rest = lstrip_by is_space (dropWhile (\<lambda>c. \<not> is_space c) line)
             in (takeWhile (\<lambda>c. \<not> is_space c) line, if rest = [] then None else floor_version rest))
          else (case dropWhile (\<lambda>c. \<not> ends_name c) line of
              [] \<Rightarrow> (line, None)
            | rest \<Rightarrow> (strip (takeWhile (\<lambda>c. \<not> ends_name c) line), floor_version rest)))
       in if name = [] then None else Some \<lparr>fe_name = name, fe_pinned_version = ver\<rparr>))"

definition parse_focus_file :: "string \<Rightarrow> ecosystem \<Rightarrow> focus_entry list" where
  "parse_focus_file txt eco = List.map_filter (parse_focus_line eco) (splitlines txt)"

datatype focus_error = UnknownSection string | ContentBeforeHeader

definition valid_ecosystems :: "string set" where
  "valid_ecosystems = {''pypi'', ''crates'', ''gomod'', ''npm''}"

text \<open>The loop over the lines of a combined file, with \<^verbatim>\<open>buckets\<close> and \<^verbatim>\<open>current\<close>.\<close>

fun combined_loop :: "(string \<times> string list) list \<Rightarrow> string option \<Rightarrow> string list \<Rightarrow>
    focus_error + (string \<times> string list) list" where
  "combined_loop b cur [] = Inr b"
| "combined_loop b cur (raw # raws) =
    (let s = strip raw in
     if prefix ''['' s \<and> suffix '']'' s then
       (let eco = lower (strip (butlast (tl s))) in
        if eco \<notin> valid_ecosystems then Inl (UnknownSection eco)
        else combined_loop (if eco \<in> fst ` set b then b else b @ [(eco, [])]) (Some eco) raws)
     else (case cur of
         None \<Rightarrow> (if strip (fst (split1 (CHR ''#'') raw)) \<noteq> [] then Inl ContentBeforeHeader
                  else combined_loop b cur raws)
       | Some eco \<Rightarrow> combined_loop (dict_put eco (get_or [] (dict_get b eco) @ [raw]) b) cur raws))"

definition parse_combined_focus_file :: "string \<Rightarrow> focus_error + (string \<times> focus_entry list) list" where
  "parse_combined_focus_file txt =
    (case combined_loop [] None (splitlines txt) of
       Inl e \<Rightarrow> Inl e
     | Inr b \<Rightarrow> Inr (map (\<lambda>(eco, lines). (eco, parse_focus_file (join [CHR 0x0A] lines) eco)) b))"

section \<open>The table\<close>

fun upsert_focus :: "ecosystem \<Rightarrow> focus_entry list \<Rightarrow> focus_row list \<Rightarrow> focus_row list" where
  "upsert_focus eco [] rs = rs"
| "upsert_focus eco (e # es) rs =
    (let hit = (\<lambda>r. fl_ecosystem r = eco \<and> fl_name r = fe_name e) in
     upsert_focus eco es
       (if find hit rs = None
        then rs @ [\<lparr>fl_ecosystem = eco, fl_name = fe_name e, fl_pinned_version = fe_pinned_version e\<rparr>]
        else update_where hit (\<lambda>r. r\<lparr>fl_pinned_version := fe_pinned_version e\<rparr>) rs))"

definition clear_focus :: "string option \<Rightarrow> focus_row list \<Rightarrow> focus_row list \<times> nat" where
  "clear_focus eco rs =
    (let hit = (\<lambda>r. truthy eco \<longrightarrow> Some (fl_ecosystem r) = eco) in (delete_where hit rs, count_where hit rs))"

definition sync_focus :: "ecosystem \<Rightarrow> focus_entry list \<Rightarrow> focus_row list \<Rightarrow> focus_row list \<times> nat" where
  "sync_focus eco entries rs = (upsert_focus eco entries (fst (clear_focus (Some eco) rs)), length entries)"

definition apply_focus_file :: "string \<Rightarrow> focus_row list \<Rightarrow>
    focus_error + (focus_row list \<times> (string \<times> focus_entry list) list)" where
  "apply_focus_file txt rs =
    (case parse_combined_focus_file txt of
       Inl e \<Rightarrow> Inl e
     | Inr sections \<Rightarrow> Inr (fold (\<lambda>(eco, entries) t. fst (sync_focus eco entries t)) sections rs, sections))"

section \<open>Lemmas\<close>

lemma in_load_focus: "k \<in> load_focus_names eco rs \<longleftrightarrow> (\<exists>r \<in> set rs. fl_ecosystem r = eco \<and> focus_key (fl_name r) eco = k)"
  by (auto simp: load_focus_names_def image_iff)

lemma load_focus_names_append:
  "load_focus_names eco (rs @ ts) = load_focus_names eco rs \<union> load_focus_names eco ts"
  by (auto simp: load_focus_names_def)

lemma load_focus_names_update:
  "(\<And>r. fl_ecosystem (f r) = fl_ecosystem r \<and> fl_name (f r) = fl_name r) \<Longrightarrow>
   load_focus_names eco (update_where p f rs) = load_focus_names eco rs"
  by (induction rs) (auto simp: load_focus_names_def)

lemma upsert_focus_names:
  "load_focus_names eco (upsert_focus eco es rs) = load_focus_names eco rs \<union> (\<lambda>e. focus_key (fe_name e) eco) ` set es"
proof (induction eco es rs rule: upsert_focus.induct)
  case (1 eco rs)
  then show ?case by simp
next
  case (2 eco e es rs)
  let ?hit = "\<lambda>r. fl_ecosystem r = eco \<and> fl_name r = fe_name e"
  show ?case
  proof (cases "find ?hit rs")
    case None
    then show ?thesis using 2 by (auto simp: Let_def load_focus_names_append) (auto simp: load_focus_names_def)
  next
    case (Some r)
    then have "r \<in> set rs" "?hit r" using find_SomeD [OF Some] by auto
    then have "focus_key (fe_name e) eco \<in> load_focus_names eco rs" unfolding in_load_focus by auto
    with 2 Some show ?thesis by (auto simp: Let_def load_focus_names_update)
  qed
qed

lemma upsert_focus_other:
  "filter (\<lambda>r. fl_ecosystem r \<noteq> eco) (upsert_focus eco es rs) = filter (\<lambda>r. fl_ecosystem r \<noteq> eco) rs"
proof (induction eco es rs rule: upsert_focus.induct)
  case (1 eco rs)
  then show ?case by simp
next
  case (2 eco e es rs)
  have "filter (\<lambda>r. fl_ecosystem r \<noteq> eco) (update_where (\<lambda>r. fl_ecosystem r = eco \<and> fl_name r = fe_name e)
      (\<lambda>r. r\<lparr>fl_pinned_version := fe_pinned_version e\<rparr>) ts) = filter (\<lambda>r. fl_ecosystem r \<noteq> eco) ts" for ts :: "focus_row list"
    by (induction ts) auto
  with 2 show ?case by (simp add: Let_def)
qed

lemma is_focus_iff: "is_focus eco name rs \<longleftrightarrow> on_focus name (load_focus_names eco rs) eco"
  by (auto simp: is_focus_def on_focus_def in_load_focus focus_key_def Let_def find_None_iff)

lemma upsert_focus_pin:
  assumes "r \<in> set (upsert_focus eco es rs)" and "fl_ecosystem r = eco"
    and "\<And>x. x \<in> set rs \<Longrightarrow> fl_ecosystem x = eco \<Longrightarrow>
      find (\<lambda>e. fe_name e = fl_name x) (rev pre) = Some \<lparr>fe_name = fl_name x, fe_pinned_version = fl_pinned_version x\<rparr>"
  shows "find (\<lambda>e. fe_name e = fl_name r) (rev (pre @ es)) = Some \<lparr>fe_name = fl_name r, fe_pinned_version = fl_pinned_version r\<rparr>"
  using assms
proof (induction eco es rs arbitrary: pre rule: upsert_focus.induct)
  case (1 eco rs)
  then show ?case by simp
next
  case (2 eco e es rs)
  let ?hit = "\<lambda>r. fl_ecosystem r = eco \<and> fl_name r = fe_name e"
  let ?rs = "if find ?hit rs = None
        then rs @ [\<lparr>fl_ecosystem = eco, fl_name = fe_name e, fl_pinned_version = fe_pinned_version e\<rparr>]
        else update_where ?hit (\<lambda>r. r\<lparr>fl_pinned_version := fe_pinned_version e\<rparr>) rs"
  have pin: "find (\<lambda>e. fe_name e = fl_name x) (rev (pre @ [e])) = Some \<lparr>fe_name = fl_name x, fe_pinned_version = fl_pinned_version x\<rparr>"
    if x: "x \<in> set ?rs" "fl_ecosystem x = eco" for x
  proof (cases "fl_name x = fe_name e")
    case True
    have "fl_pinned_version x = fe_pinned_version e"
    proof (cases "find ?hit rs = None")
      case none: True
      then have "x \<notin> set rs" using x(2) True by (auto simp: find_None_iff)
      with x(1) none show ?thesis by simp
    next
      case hit: False
      with x(1) obtain r where "x = (if ?hit r then r\<lparr>fl_pinned_version := fe_pinned_version e\<rparr> else r)"
        by (auto simp: in_update_where)
      with x(2) True show ?thesis by (cases "?hit r") simp_all
    qed
    with True show ?thesis by (cases e) simp
  next
    case False
    have "x \<in> set rs"
    proof (cases "find ?hit rs = None")
      case True
      with x(1) have "x \<in> set rs \<or> x = \<lparr>fl_ecosystem = eco, fl_name = fe_name e, fl_pinned_version = fe_pinned_version e\<rparr>"
        by auto
      then show ?thesis
      proof
        assume "x = \<lparr>fl_ecosystem = eco, fl_name = fe_name e, fl_pinned_version = fe_pinned_version e\<rparr>"
        then have "fl_name x = fe_name e" by (rule ssubst) simp
        with False show ?thesis ..
      qed
    next
      case hit: False
      with x(1) obtain r where "r \<in> set rs"
          "x = (if ?hit r then r\<lparr>fl_pinned_version := fe_pinned_version e\<rparr> else r)"
        by (auto simp: in_update_where)
      with False show ?thesis by (cases "?hit r") simp_all
    qed
    from 2(4) [OF this x(2)] False show ?thesis by auto
  qed
  have r: "r \<in> set (upsert_focus eco es ?rs)" using 2(2) by (simp add: Let_def)
  have "find (\<lambda>e. fe_name e = fl_name r) (rev ((pre @ [e]) @ es)) = Some \<lparr>fe_name = fl_name r, fe_pinned_version = fl_pinned_version r\<rparr>"
    by (rule 2(1) [OF refl r 2(3)]) (rule pin)
  then show ?case by simp
qed

section \<open>Rendering and parsing\<close>

text \<open>An entry as the line of a dependency file.\<close>

definition render_focus :: "ecosystem \<Rightarrow> focus_entry \<Rightarrow> string" where
  "render_focus eco e =
    (case fe_pinned_version e of
       None \<Rightarrow> fe_name e
     | Some v \<Rightarrow> fe_name e @ (if eco = ''gomod'' then '' '' else ''=='') @ v)"

definition plain_char :: "char \<Rightarrow> bool" where
  "plain_char c \<longleftrightarrow> \<not> ends_name c \<and> c \<noteq> CHR ''#''"

definition plain_entry :: "focus_entry \<Rightarrow> bool" where
  "plain_entry e \<longleftrightarrow> fe_name e \<noteq> [] \<and> (\<forall>c \<in> set (fe_name e). plain_char c) \<and>
     (case fe_pinned_version e of None \<Rightarrow> True
      | Some v \<Rightarrow> v \<noteq> [] \<and> (\<forall>c \<in> set v. plain_char c \<and> c \<noteq> CHR ''*''))"

lemma plain_not_space: "plain_char c \<Longrightarrow> \<not> is_space c"
  by (simp add: plain_char_def ends_name_def)

lemma plain_not_op: "plain_char c \<Longrightarrow> c \<notin> spec_ops"
  by (simp add: plain_char_def ends_name_def)

lemma space_chars: "is_space (CHR '' '')" "\<not> is_space (CHR ''='')" "is_space (CHR 0x09)"
  by code_simp+

lemma floor_version_plain:
  assumes "v \<noteq> []" and "\<forall>c \<in> set v. plain_char c \<and> c \<noteq> CHR ''*''"
  shows "floor_version v = Some v" and "floor_version (''=='' @ v) = Some v"
proof -
  let ?op = "\<lambda>c. c \<in> spec_ops \<or> c = CHR '' '' \<or> c = CHR 0x09"
  have nop: "\<forall>c \<in> set v. \<not> ?op c"
    using assms(2) space_chars(1,3) by (auto dest: plain_not_op plain_not_space)
  have com: "CHR '','' \<notin> set v" using assms(2) by (auto simp: plain_char_def ends_name_def)
  have nsp: "\<not> is_space (last v)" "\<not> is_space (hd v)"
    using assms(2) last_in_set [OF assms(1)] hd_in_set [OF assms(1)] plain_not_space by blast+
  have star: "CHR ''*'' \<notin> set v" using assms(2) by auto
  have "strip v = v" unfolding strip_def by (rule strip_by_ends [OF assms(1) nsp(2,1)])
  then show "floor_version v = Some v"
    using com star assms(1) strip_by_id [OF nop] by (simp add: floor_version_def split1_no_sep)
  have "strip (''=='' @ v) = ''=='' @ v"
    unfolding strip_def using assms(1) nsp space_chars(2) by (intro strip_by_ends) auto
  moreover have "strip_by ?op (''=='' @ v) = v"
  proof -
    have "lstrip_by ?op (''=='' @ v) = lstrip_by ?op v" by (simp add: lstrip_by_def spec_ops_def)
    then show ?thesis using strip_by_id [OF nop] unfolding strip_by_def by simp
  qed
  moreover have "fst (split1 (CHR '','') (''=='' @ v)) = ''=='' @ v" using com by (simp add: split1_no_sep)
  ultimately show "floor_version (''=='' @ v) = Some v"
    using star assms(1) by (simp add: floor_version_def)
qed

lemma parse_rendered_line:
  assumes "plain_entry e"
  shows "parse_focus_line eco (render_focus eco e) = Some e"
proof -
  obtain name ver where e: "e = \<lparr>fe_name = name, fe_pinned_version = ver\<rparr>" by (cases e)
  have n: "name \<noteq> []" "\<forall>c \<in> set name. plain_char c" using assms by (auto simp: plain_entry_def e)
  have nn: "\<forall>c \<in> set name. \<not> ends_name c" "\<forall>c \<in> set name. \<not> is_space c" "CHR ''#'' \<notin> set name"
    using n(2) by (auto simp: plain_char_def ends_name_def)
  have hd: "\<not> is_space (hd name)" "\<not> is_space (last name)" using n nn(2) by simp_all
  have sn: "strip name = name" unfolding strip_def by (rule strip_by_ends [OF n(1) hd])
  show ?thesis
  proof (cases ver)
    case None
    note tw = takeWhile_all [OF nn(2)] dropWhile_all [OF nn(2)] dropWhile_all [OF nn(1)]
    have s1: "fst (split1 (CHR ''#'') name) = name" using nn(3) by (simp add: split1_no_sep)
    have r: "render_focus eco e = name" by (simp add: e None render_focus_def)
    show ?thesis
      unfolding parse_focus_line_def r s1 sn Let_def tw lstrip_by_def using n(1) by (simp add: e None)
  next
    case (Some v)
    have v: "v \<noteq> []" "\<forall>c \<in> set v. plain_char c \<and> c \<noteq> CHR ''*''" using assms by (auto simp: plain_entry_def e Some)
    have pc: "plain_char (last v)" "plain_char (hd v)" using v(2) last_in_set [OF v(1)] hd_in_set [OF v(1)] by blast+
    have "CHR ''#'' \<notin> set v" using v(2) unfolding plain_char_def by blast
    with pc have vl: "\<not> is_space (last v)" "CHR ''#'' \<notin> set v" "\<not> is_space (hd v)"
      by (simp_all add: plain_not_space)
    note fv = floor_version_plain [OF v]
    show ?thesis
    proof (cases "eco = ''gomod''")
      case True
      let ?line = "name @ CHR '' '' # v"
      have "strip ?line = ?line"
        unfolding strip_def using n(1) v(1) hd(1) vl(1) by (intro strip_by_ends) auto
      moreover have "fst (split1 (CHR ''#'') ?line) = ?line" using nn(3) vl(2) by (simp add: split1_no_sep)
      moreover have "takeWhile (\<lambda>c. \<not> is_space c) ?line = name" "dropWhile (\<lambda>c. \<not> is_space c) ?line = CHR '' '' # v"
        using nn(2) space_chars(1) by (simp_all add: takeWhile_before dropWhile_before)
      moreover have "lstrip_by is_space (CHR '' '' # v) = v"
        using v(1) vl(3) space_chars(1) by (cases v) (simp_all add: lstrip_by_def)
      ultimately show ?thesis using True n(1) v(1) fv(1) by (simp add: e Some parse_focus_line_def render_focus_def)
    next
      case False
      let ?line = "name @ CHR ''='' # CHR ''='' # v"
      have eq: "ends_name (CHR ''='')" by (simp add: ends_name_def spec_ops_def)
      have "strip ?line = ?line"
        unfolding strip_def using n(1) v(1) hd(1) vl(1) by (intro strip_by_ends) auto
      moreover have "fst (split1 (CHR ''#'') ?line) = ?line" using nn(3) vl(2) by (simp add: split1_no_sep)
      moreover have "takeWhile (\<lambda>c. \<not> ends_name c) ?line = name"
        "dropWhile (\<lambda>c. \<not> ends_name c) ?line = CHR ''='' # CHR ''='' # v"
        using nn(1) eq by (simp_all add: takeWhile_before dropWhile_before)
      ultimately show ?thesis
        using False n(1) fv(2) sn by (simp add: e Some parse_focus_line_def render_focus_def)
    qed
  qed
qed

lemma render_chars:
  "plain_entry e \<Longrightarrow> render_focus eco e \<noteq> [] \<and> (\<forall>c \<in> set (render_focus eco e). \<not> is_break c)"
proof -
  assume e: "plain_entry e"
  have b: "\<not> is_break c" if "plain_char c" for c using that plain_not_space break_space by blast
  have s: "\<not> is_break (CHR '' '')" "\<not> is_break (CHR ''='')" by code_simp+
  show ?thesis using e b s by (auto simp: plain_entry_def render_focus_def split: option.splits)
qed

lemma map_filter_all: "(\<And>x. x \<in> set xs \<Longrightarrow> f (g x) = Some x) \<Longrightarrow> List.map_filter f (map g xs) = xs"
  by (induction xs) (simp_all add: List.map_filter_def)

section \<open>Properties\<close>

text \<open>C38. Focus files round-trip: for entries whose names and versions are free of operators, white
  space, commas, hashes and (versions) wildcards, writing one per line the way the ecosystem's
  dependency files do and parsing the text gives back the same entries in order.\<close>

theorem focus_file_roundtrip:
  assumes "\<forall>e \<in> set es. plain_entry e"
  shows "parse_focus_file (join [CHR 0x0A] (map (render_focus eco) es)) eco = es"
proof -
  have "splitlines (join [CHR 0x0A] (map (render_focus eco) es)) = map (render_focus eco) es"
    using assms render_chars by (intro splitlines_join) auto
  then show ?thesis
    unfolding parse_focus_file_def using assms parse_rendered_line by (simp add: map_filter_all)
qed

theorem focus_file_roundtrip_witness:
  "parse_focus_file (join [CHR 0x0A] (map (render_focus ''pypi'')
      [\<lparr>fe_name = ''requests'', fe_pinned_version = Some ''2.31.0''\<rparr>, \<lparr>fe_name = ''flask'', fe_pinned_version = None\<rparr>])) ''pypi'' =
   [\<lparr>fe_name = ''requests'', fe_pinned_version = Some ''2.31.0''\<rparr>, \<lparr>fe_name = ''flask'', fe_pinned_version = None\<rparr>]"
proof -
  have "plain_entry \<lparr>fe_name = ''requests'', fe_pinned_version = Some ''2.31.0''\<rparr>"
    "plain_entry \<lparr>fe_name = ''flask'', fe_pinned_version = None\<rparr>"
    by code_simp+
  then show ?thesis by (intro focus_file_roundtrip) simp
qed

text \<open>The focus file is authoritative for its ecosystem and for no other: after \<open>sync_focus\<close> the names
  in focus are exactly those of the entries, the preloaded set and the database check agree on every
  name, each row carries the version of the last entry with its name, and the rows of other ecosystems
  are untouched, in order.\<close>

theorem focus_sync_authoritative:
  assumes "eco \<noteq> []"
  shows "load_focus_names eco (fst (sync_focus eco es rs)) = (\<lambda>e. focus_key (fe_name e) eco) ` set es \<and>
    is_focus eco name (fst (sync_focus eco es rs)) = on_focus name (load_focus_names eco (fst (sync_focus eco es rs))) eco \<and>
    filter (\<lambda>r. fl_ecosystem r \<noteq> eco) (fst (sync_focus eco es rs)) = filter (\<lambda>r. fl_ecosystem r \<noteq> eco) rs \<and>
    (\<forall>r \<in> set (fst (sync_focus eco es rs)). fl_ecosystem r = eco \<longrightarrow>
       find (\<lambda>e. fe_name e = fl_name r) (rev es) = Some \<lparr>fe_name = fl_name r, fe_pinned_version = fl_pinned_version r\<rparr>)"
proof -
  let ?cl = "fst (clear_focus (Some eco) rs)"
  have cl: "?cl = filter (\<lambda>r. fl_ecosystem r \<noteq> eco) rs"
    using assms by (simp add: clear_focus_def Let_def delete_where_def)
  have none: "load_focus_names eco ?cl = {}" by (auto simp: cl load_focus_names_def)
  have pin: "find (\<lambda>e. fe_name e = fl_name r) (rev ([] @ es)) = Some \<lparr>fe_name = fl_name r, fe_pinned_version = fl_pinned_version r\<rparr>"
    if "r \<in> set (upsert_focus eco es ?cl)" "fl_ecosystem r = eco" for r
    by (rule upsert_focus_pin [OF that]) (simp add: cl)
  have oth: "filter (\<lambda>r. fl_ecosystem r \<noteq> eco) (upsert_focus eco es ?cl) = filter (\<lambda>r. fl_ecosystem r \<noteq> eco) rs"
    unfolding upsert_focus_other by (simp add: cl)
  show ?thesis
    unfolding sync_focus_def fst_conv using pin oth by (simp add: upsert_focus_names none is_focus_iff)
qed

theorem focus_sync_authoritative_witness:
  "load_focus_names ''npm'' (fst (sync_focus ''npm'' [\<lparr>fe_name = ''Left'', fe_pinned_version = None\<rparr>]
      [\<lparr>fl_ecosystem = ''npm'', fl_name = ''old'', fl_pinned_version = None\<rparr>])) = {lower ''Left''}"
proof -
  have ne: "''npm'' \<noteq> []" by simp
  show ?thesis using focus_sync_authoritative [OF ne] by (simp add: focus_key_def)
qed

text \<open>The parser does not take every line it promises to: an environment marker of a requirements file
  becomes the version to scan (\<open>requests ; python_version\<close> is read as version \<open>; python_version\<close>), and extras
  stay part of the name (\<open>uvicorn[standard]==0.30\<close> monitors a package called \<open>uvicorn[standard]\<close>).\<close>

theorem focus_markers_misread:
  "parse_focus_file ''requests ; python_version'' ''pypi'' =
     [\<lparr>fe_name = ''requests'', fe_pinned_version = Some ''; python_version''\<rparr>] \<and>
   parse_focus_file ''uvicorn[standard]==0.30'' ''pypi'' =
     [\<lparr>fe_name = ''uvicorn[standard]'', fe_pinned_version = Some ''0.30''\<rparr>]"
  by code_simp

end
