(* ===== verification/MaintainerWatch.thy ===== *)
theory MaintainerWatch
  imports Janitor
begin

text \<open>
  The bounded watch on a caught maintainer's packages: \<^verbatim>\<open>maintainer_watch.py\<close> on the table of class
  \<^verbatim>\<open>MaintainerWatch\<close>. The scan history is the join of \<^verbatim>\<open>Scan\<close>, \<^verbatim>\<open>Version\<close> and \<^verbatim>\<open>Package\<close> that
  \<^verbatim>\<open>_scans_since\<close> reads.
\<close>

record watch_entry =
  mw_id :: nat
  mw_ecosystem :: ecosystem
  mw_name :: string
  mw_maintainer :: "string option"
  mw_added_at :: timestamp

record scan_hist =
  sh_ecosystem :: ecosystem
  sh_name :: string
  sh_version :: string
  sh_finished_at :: "timestamp option"

record mw_cfg =
  mc_enabled :: string
  mc_releases :: int
  mc_ttl_days :: int
  mc_max_per_eco :: int

definition default_mw_cfg :: mw_cfg where
  "default_mw_cfg = \<lparr>mc_enabled = ''1'', mc_releases = 3, mc_ttl_days = 180, mc_max_per_eco = 10000\<rparr>"

definition mw_supported :: "ecosystem \<Rightarrow> bool" where
  "mw_supported eco \<longleftrightarrow> eco \<in> {''pypi'', ''npm''}"

definition mw_is_enabled :: "mw_cfg \<Rightarrow> bool" where
  "mw_is_enabled cfg \<longleftrightarrow> lower (mc_enabled cfg) \<notin> {''0'', ''false'', ''off'', ''no''}"

definition scans_since :: "scan_hist list \<Rightarrow> ecosystem \<Rightarrow> string \<Rightarrow> timestamp \<Rightarrow> nat" where
  "scans_since hist eco name since =
    length (nub (map sh_version (filter (\<lambda>h. sh_ecosystem h = eco \<and> lower (sh_name h) = lower name \<and>
       (case sh_finished_at h of None \<Rightarrow> False | Some t \<Rightarrow> since \<le> t)) hist)))"

definition mw_match :: "ecosystem \<Rightarrow> string \<Rightarrow> watch_entry \<Rightarrow> bool" where
  "mw_match eco name w \<longleftrightarrow> mw_ecosystem w = eco \<and> lower (mw_name w) = lower name"

datatype watch_status = WatchAdded | WatchRefreshed | WatchUnsupported

definition mw_next_id :: "watch_entry list \<Rightarrow> nat" where
  "mw_next_id ws = Suc (foldr max (map mw_id ws) 0)"

text \<open>\<open>env\<close> are the commits of others between the lookup and the insert; the unique constraint is on the
  ecosystem and the exact name.\<close>

definition add_watch :: "(watch_entry list \<Rightarrow> watch_entry list) \<Rightarrow> timestamp \<Rightarrow> ecosystem \<Rightarrow> string \<Rightarrow> string option \<Rightarrow>
    watch_entry list \<Rightarrow> watch_entry list \<times> watch_status" where
  "add_watch env now eco name maintainer ws =
    (if \<not> mw_supported eco then (ws, WatchUnsupported)
     else (case find (mw_match eco name) ws of
         Some w \<Rightarrow>
           (update_where (\<lambda>x. mw_id x = mw_id w)
              (\<lambda>x. x\<lparr>mw_added_at := now, mw_maintainer := (if truthy maintainer then maintainer else mw_maintainer x)\<rparr>) ws,
            WatchRefreshed)
       | None \<Rightarrow>
           (let ws1 = env ws in
            if list_ex (\<lambda>x. mw_ecosystem x = eco \<and> mw_name x = name) ws1 then (ws1, WatchRefreshed)
            else (ws1 @ [\<lparr>mw_id = mw_next_id ws1, mw_ecosystem = eco, mw_name = name, mw_maintainer = maintainer,
                          mw_added_at = now\<rparr>], WatchAdded))))"

definition load_watch_names :: "ecosystem \<Rightarrow> watch_entry list \<Rightarrow> string set" where
  "load_watch_names eco ws = (\<lambda>w. lower (mw_name w)) ` set (filter (\<lambda>w. mw_ecosystem w = eco) ws)"

definition expired_watch :: "mw_cfg \<Rightarrow> timestamp \<Rightarrow> watch_entry \<Rightarrow> bool" where
  "expired_watch cfg now w \<longleftrightarrow> 0 < mc_ttl_days cfg \<and> mw_added_at w < now - days (mc_ttl_days cfg)"

definition exhausted_watch :: "mw_cfg \<Rightarrow> scan_hist list \<Rightarrow> string \<Rightarrow> watch_entry \<Rightarrow> bool" where
  "exhausted_watch cfg hist name w \<longleftrightarrow> 0 < mc_releases cfg \<and>
     mc_releases cfg \<le> int (scans_since hist (mw_ecosystem w) name (mw_added_at w))"

definition is_maintainer_watched :: "mw_cfg \<Rightarrow> scan_hist list \<Rightarrow> timestamp \<Rightarrow> ecosystem \<Rightarrow> string \<Rightarrow> string set option \<Rightarrow>
    watch_entry list \<Rightarrow> bool" where
  "is_maintainer_watched cfg hist now eco name names ws =
    (if \<not> mw_is_enabled cfg \<or> \<not> mw_supported eco \<or> name = [] then False
     else (let ns = (case names of None \<Rightarrow> load_watch_names eco ws | Some ns \<Rightarrow> ns) in
       if lower name \<notin> ns then False
       else (case find (mw_match eco name) ws of
           None \<Rightarrow> False
         | Some w \<Rightarrow>
             (if expired_watch cfg now w then False
              else if exhausted_watch cfg hist name w then False else True))))"

text \<open>The body of the capping loop of \<^verbatim>\<open>prune\<close> for one ecosystem, and the whole of \<^verbatim>\<open>prune\<close>.\<close>

definition mw_prune_eco :: "nat \<Rightarrow> ecosystem \<Rightarrow> watch_entry list \<Rightarrow> watch_entry list" where
  "mw_prune_eco cap eco ws =
    (let rows = sort_key mw_added_at (filter (\<lambda>w. mw_ecosystem w = eco) ws);
         excess = int (length rows) - int cap
     in if 0 < excess
        then (let ids = map mw_id (take (nat excess) rows) in delete_where (\<lambda>w. mw_id w \<in> set ids) ws)
        else ws)"

definition mw_prune :: "mw_cfg \<Rightarrow> scan_hist list \<Rightarrow> timestamp \<Rightarrow> watch_entry list \<Rightarrow> watch_entry list \<times> nat" where
  "mw_prune cfg hist now ws =
    (let ws1 = delete_where (\<lambda>w. expired_watch cfg now w \<or> exhausted_watch cfg hist (mw_name w) w) ws;
         ws2 = (if 0 < mc_max_per_eco cfg
                then fold (mw_prune_eco (nat (mc_max_per_eco cfg))) [''pypi'', ''npm''] ws1 else ws1)
     in (ws2, length ws - length ws2))"

definition remove_watch :: "ecosystem \<Rightarrow> string \<Rightarrow> watch_entry list \<Rightarrow> watch_entry list \<times> nat" where
  "remove_watch eco name ws = (delete_where (mw_match eco name) ws, count_where (mw_match eco name) ws)"

definition list_watches :: "ecosystem option \<Rightarrow> watch_entry list \<Rightarrow> (string \<times> string \<times> string option \<times> timestamp) list" where
  "list_watches eco ws =
    map (\<lambda>w. (mw_ecosystem w, mw_name w, mw_maintainer w, mw_added_at w))
      (sort_desc mw_added_at (filter (\<lambda>w. truthy eco \<longrightarrow> Some (mw_ecosystem w) = eco) ws))"

section \<open>The cap\<close>

interpretation maint_janitor: janitor mw_id mw_added_at "\<lambda>eco w. mw_ecosystem w = eco" mw_prune_eco
proof (unfold_locales, goal_cases)
  case (1 cap eco ws)
  let ?n = "count_where (\<lambda>w. mw_ecosystem w = eco) ws"
  have n: "nat (int ?n - int cap) = ?n - cap" by simp
  show ?case
    unfolding mw_prune_eco_def Let_def length_sort count_where_def [symmetric] n
    by (auto simp: delete_where_def)
qed

lemma mw_prune_eco_idle: "count_where (\<lambda>w. mw_ecosystem w = eco) ws \<le> cap \<Longrightarrow> mw_prune_eco cap eco ws = ws"
  by (simp add: mw_prune_eco_def Let_def count_where_def)

lemma count_where_delete_le: "count_where q (delete_where p ws) \<le> count_where q ws"
  by (induction ws) (auto simp: delete_where_def)

lemma scans_since_lower: "lower a = lower b \<Longrightarrow> scans_since hist eco a since = scans_since hist eco b since"
  by (simp add: scans_since_def)

lemma exhausted_lower: "lower a = lower b \<Longrightarrow> exhausted_watch cfg hist a w = exhausted_watch cfg hist b w"
  by (simp add: exhausted_watch_def scans_since_lower [of a b])

lemma find_unique:
  assumes "\<And>x y. x \<in> set ws \<Longrightarrow> y \<in> set ws \<Longrightarrow> p x \<Longrightarrow> p y \<Longrightarrow> x = y" and "w \<in> set ws" and "p w"
  shows "find p ws = Some w"
proof (cases "find p ws")
  case None
  then show ?thesis using assms(2,3) by (simp add: find_None_iff)
next
  case (Some v)
  then show ?thesis using assms(1) [OF _ assms(2) _ assms(3)] find_SomeD [OF Some] by auto
qed

text \<open>A package is watched iff its row is there and is neither expired nor exhausted.\<close>

lemma watched_iff:
  assumes "\<And>x y. x \<in> set ws \<Longrightarrow> y \<in> set ws \<Longrightarrow> mw_match eco name x \<Longrightarrow> mw_match eco name y \<Longrightarrow> x = y"
  shows "is_maintainer_watched cfg hist now eco name None ws \<longleftrightarrow>
    mw_is_enabled cfg \<and> mw_supported eco \<and> name \<noteq> [] \<and>
    (\<exists>w \<in> set ws. mw_match eco name w \<and> \<not> expired_watch cfg now w \<and> \<not> exhausted_watch cfg hist name w)"
proof -
  have names: "lower name \<in> load_watch_names eco ws \<longleftrightarrow> (\<exists>w \<in> set ws. mw_match eco name w)"
    unfolding load_watch_names_def mw_match_def image_iff by (auto 4 3 dest: sym)
  show ?thesis
  proof (cases "\<exists>w \<in> set ws. mw_match eco name w")
    case True
    then obtain w where w: "w \<in> set ws" "mw_match eco name w" by blast
    have "find (mw_match eco name) ws = Some w" by (rule find_unique [of ws "mw_match eco name", OF _ w]) (rule assms)
    then show ?thesis using names True assms w by (auto simp: is_maintainer_watched_def Let_def)
  next
    case False
    then show ?thesis using names by (auto simp: is_maintainer_watched_def Let_def)
  qed
qed

section \<open>Properties\<close>

text \<open>A maintainer watch is bounded and its janitor invisible: a watched package has a row that is
  within the time to live and for which fewer than the configured number of distinct versions has been
  scanned since it was added; after \<open>prune\<close> each supported ecosystem has at most the cap of rows; and as
  long as the cap is not exceeded pruning changes no gate decision.\<close>

theorem maintainer_watch_bounded:
  assumes "distinct (map mw_id ws)" and "0 < mc_max_per_eco cfg"
    and "\<And>x y. x \<in> set ws \<Longrightarrow> y \<in> set ws \<Longrightarrow> mw_match eco name x \<Longrightarrow> mw_match eco name y \<Longrightarrow> x = y"
  shows "(is_maintainer_watched cfg hist now eco name None ws \<longrightarrow>
      (\<exists>w \<in> set ws. mw_match eco name w \<and> (0 < mc_ttl_days cfg \<longrightarrow> now \<le> mw_added_at w + days (mc_ttl_days cfg)) \<and>
         (0 < mc_releases cfg \<longrightarrow> int (scans_since hist eco name (mw_added_at w)) < mc_releases cfg))) \<and>
    (\<forall>e \<in> {''pypi'', ''npm''}. int (count_where (\<lambda>w. mw_ecosystem w = e) (fst (mw_prune cfg hist now ws))) \<le> mc_max_per_eco cfg) \<and>
    ((\<forall>e \<in> {''pypi'', ''npm''}. int (count_where (\<lambda>w. mw_ecosystem w = e) ws) \<le> mc_max_per_eco cfg) \<longrightarrow>
       is_maintainer_watched cfg hist now eco name None (fst (mw_prune cfg hist now ws)) =
       is_maintainer_watched cfg hist now eco name None ws)"
proof (intro conjI impI)
  let ?dead = "\<lambda>w. expired_watch cfg now w \<or> exhausted_watch cfg hist (mw_name w) w"
  let ?ws1 = "delete_where ?dead ws" and ?cap = "nat (mc_max_per_eco cfg)"
  have w3: "is_maintainer_watched cfg hist now eco name None ws \<longleftrightarrow>
      mw_is_enabled cfg \<and> mw_supported eco \<and> name \<noteq> [] \<and>
      (\<exists>w \<in> set ws. mw_match eco name w \<and> \<not> expired_watch cfg now w \<and> \<not> exhausted_watch cfg hist name w)"
    by (rule watched_iff) (rule assms(3))
  have pr: "fst (mw_prune cfg hist now ws) = fold (mw_prune_eco ?cap) [''pypi'', ''npm''] ?ws1"
    using assms(2) by (simp add: mw_prune_def Let_def)
  show "\<exists>w \<in> set ws. mw_match eco name w \<and> (0 < mc_ttl_days cfg \<longrightarrow> now \<le> mw_added_at w + days (mc_ttl_days cfg)) \<and>
         (0 < mc_releases cfg \<longrightarrow> int (scans_since hist eco name (mw_added_at w)) < mc_releases cfg)"
    if "is_maintainer_watched cfg hist now eco name None ws"
  proof -
    from that w3 obtain w where "w \<in> set ws" "mw_match eco name w" "\<not> expired_watch cfg now w"
        "\<not> exhausted_watch cfg hist name w" by blast
    then show ?thesis
      by (intro bexI [of _ w]) (auto simp: expired_watch_def exhausted_watch_def mw_match_def)
  qed
  show "\<forall>e \<in> {''pypi'', ''npm''}. int (count_where (\<lambda>w. mw_ecosystem w = e) (fst (mw_prune cfg hist now ws))) \<le> mc_max_per_eco cfg"
  proof
    fix e assume e: "e \<in> {''pypi'', ''npm''}"
    have "\<forall>e \<in> set [''pypi'', ''npm'']. count_where (\<lambda>w. mw_ecosystem w = e) (fold (mw_prune_eco ?cap) [''pypi'', ''npm''] ?ws1) \<le> ?cap"
      using maint_janitor.fold_evict [OF distinct_map_delete_where [OF assms(1), of ?dead], of ?cap "[''pypi'', ''npm'']"] by blast
    moreover have "e \<in> set [''pypi'', ''npm'']" using e by simp
    ultimately have "count_where (\<lambda>w. mw_ecosystem w = e) (fst (mw_prune cfg hist now ws)) \<le> ?cap"
      unfolding pr by (rule bspec)
    then show "int (count_where (\<lambda>w. mw_ecosystem w = e) (fst (mw_prune cfg hist now ws))) \<le> mc_max_per_eco cfg"
      using assms(2) by simp
  qed
  show "is_maintainer_watched cfg hist now eco name None (fst (mw_prune cfg hist now ws)) =
       is_maintainer_watched cfg hist now eco name None ws"
    if small: "\<forall>e \<in> {''pypi'', ''npm''}. int (count_where (\<lambda>w. mw_ecosystem w = e) ws) \<le> mc_max_per_eco cfg"
  proof -
    have "mw_prune_eco ?cap e ?ws1 = ?ws1" if "e \<in> {''pypi'', ''npm''}" for e
      using small that count_where_delete_le [of "\<lambda>w. mw_ecosystem w = e" ?dead ws] by (intro mw_prune_eco_idle) auto
    then have e: "fst (mw_prune cfg hist now ws) = ?ws1" by (simp add: pr)
    have u1: "x = y" if "x \<in> set ?ws1" "y \<in> set ?ws1" "mw_match eco name x" "mw_match eco name y" for x y
      using that assms(3) by auto
    have "?dead w \<longleftrightarrow> expired_watch cfg now w \<or> exhausted_watch cfg hist name w" if "mw_match eco name w" for w
      using that exhausted_lower [of "mw_name w" name] by (simp add: mw_match_def)
    moreover have "is_maintainer_watched cfg hist now eco name None ?ws1 \<longleftrightarrow>
        mw_is_enabled cfg \<and> mw_supported eco \<and> name \<noteq> [] \<and>
        (\<exists>w \<in> set ?ws1. mw_match eco name w \<and> \<not> expired_watch cfg now w \<and> \<not> exhausted_watch cfg hist name w)"
      by (rule watched_iff) (rule u1)
    ultimately show ?thesis unfolding e w3 Bex_def in_delete_where by blast
  qed
qed

definition demo_watch :: watch_entry where
  "demo_watch = \<lparr>mw_id = 1, mw_ecosystem = ''npm'', mw_name = ''left'', mw_maintainer = None, mw_added_at = 0\<rparr>"

theorem maintainer_watch_bounded_witness:
  "int (count_where (\<lambda>w. mw_ecosystem w = ''npm'') (fst (mw_prune default_mw_cfg [] 5 [demo_watch]))) \<le> mc_max_per_eco default_mw_cfg"
proof -
  have d: "distinct (map mw_id [demo_watch])" "0 < mc_max_per_eco default_mw_cfg" by (simp_all add: default_mw_cfg_def)
  have u: "\<And>x y. x \<in> set [demo_watch] \<Longrightarrow> y \<in> set [demo_watch] \<Longrightarrow> mw_match ''npm'' ''left'' x \<Longrightarrow>
      mw_match ''npm'' ''left'' y \<Longrightarrow> x = y" by simp
  show ?thesis using maintainer_watch_bounded [OF d u] by blast
qed

end
