(* ===== verification/Ingest.thy ===== *)
theory Ingest
  imports ScanQueue Focus ScopeWatchlist MaintainerWatch WatchlistAuto Store
begin

text \<open>
  What the pollers of the four ecosystems share: the tables an ingest gate reads, the watch predicates of
  \<^verbatim>\<open>ecosystems/*/ingest/watchlist.py\<close> and the enqueueing of a batch in one transaction. Reads of the tables see
  a snapshot that is an argument of each page.
\<close>

record gate_db =
  gd_queue :: scan_rows
  gd_packages :: "package_row list"
  gd_focus :: "focus_row list"
  gd_watch :: watch_rows
  gd_scopes :: scope_rows
  gd_maint :: "watch_entry list"
  gd_hist :: "scan_hist list"

record gate_env =
  ge_now :: timestamp
  ge_mw :: mw_cfg
  ge_scope_on :: string
  ge_focus_mode :: string

text \<open>\<^verbatim>\<open>is_watchlist\<close>: npm and gomod ignore the case of a name, PyPI and crates.io do not.\<close>

definition watch_rank_ci :: "ecosystem \<Rightarrow> string \<Rightarrow> watch_rows \<Rightarrow> int option" where
  "watch_rank_ci eco name rs =
    map_option wl_rank (find (\<lambda>r. wl_ecosystem r = eco \<and> lower (wl_name r) = lower name) rs)"

definition watch_rank :: "ecosystem \<Rightarrow> string \<Rightarrow> watch_rows \<Rightarrow> int option" where
  "watch_rank eco name rs = map_option wl_rank (find (\<lambda>r. wl_ecosystem r = eco \<and> wl_name r = name) rs)"

definition known_package :: "ecosystem \<Rightarrow> string \<Rightarrow> gate_db \<Rightarrow> bool" where
  "known_package eco name d \<longleftrightarrow>
     list_ex (\<lambda>p. pk_ecosystem p = eco \<and> lower (pk_name p) = lower name) (gd_packages d) \<or>
     list_ex (\<lambda>r. sq_ecosystem r = eco \<and> lower (sq_name r) = lower name) (gd_queue d)"

definition scope_watched :: "gate_env \<Rightarrow> ecosystem \<Rightarrow> gate_db \<Rightarrow> string \<Rightarrow> bool" where
  "scope_watched e eco d name =
    is_scope_watchlisted (ge_scope_on e) eco name (Some (load_scopes eco (gd_scopes d))) (gd_scopes d)"

definition maint_watched :: "gate_env \<Rightarrow> ecosystem \<Rightarrow> gate_db \<Rightarrow> string \<Rightarrow> bool" where
  "maint_watched e eco d name =
    is_maintainer_watched (ge_mw e) (gd_hist d) (ge_now e) eco name (Some (load_watch_names eco (gd_maint d))) (gd_maint d)"

definition focus_hit :: "ecosystem \<Rightarrow> gate_db \<Rightarrow> string \<Rightarrow> bool" where
  "focus_hit eco d name = on_focus name (load_focus_names eco (gd_focus d)) eco"

section \<open>Enqueueing a batch\<close>

text \<open>What the database does to the insert of each name: the commits of others and the errors it raises. An error
  that is raised again ends the batch; the row \<open>enqueue\<close> returns is not needed here.\<close>

record enq_env =
  ee_cfg :: queue_cfg
  ee_now :: timestamp
  ee_others :: "string \<Rightarrow> nat \<Rightarrow> scan_rows \<Rightarrow> scan_rows"
  ee_fault :: "string \<Rightarrow> nat \<Rightarrow> string option"

definition enqueue1 :: "enq_env \<Rightarrow> ecosystem \<Rightarrow> string \<Rightarrow> string \<Rightarrow> priority \<Rightarrow> scan_rows \<Rightarrow>
    scan_rows \<times> (string + scan_row option)" where
  "enqueue1 ee eco name ver prio rs =
    enqueue (ee_cfg ee) (ee_others ee name) (ee_fault ee name) (ee_now ee) eco name ver prio False rs"

fun enqueue_all :: "enq_env \<Rightarrow> ecosystem \<Rightarrow> (string \<times> string \<times> priority) list \<Rightarrow> scan_rows \<Rightarrow> string + scan_rows" where
  "enqueue_all ee eco [] rs = Inr rs"
| "enqueue_all ee eco ((name, ver, prio) # xs) rs =
    (case enqueue1 ee eco name ver prio rs of
       (rs1, Inl msg) \<Rightarrow> Inl msg
     | (rs1, Inr row) \<Rightarrow> enqueue_all ee eco xs rs1)"

text \<open>Where the code catches what \<^verbatim>\<open>enqueue\<close> raises and goes on.\<close>

fun enqueue_each :: "enq_env \<Rightarrow> ecosystem \<Rightarrow> (string \<times> string \<times> priority) list \<Rightarrow> scan_rows \<Rightarrow> scan_rows" where
  "enqueue_each ee eco [] rs = rs"
| "enqueue_each ee eco ((name, ver, prio) # xs) rs = enqueue_each ee eco xs (fst (enqueue1 ee eco name ver prio rs))"

section \<open>Lemmas\<close>

definition keys_grow :: "enq_env \<Rightarrow> bool" where
  "keys_grow ee \<longleftrightarrow> (\<forall>n i rs. sq_key ` set rs \<subseteq> sq_key ` set (ee_others ee n i rs))"

lemma requeue_row_key [simp]: "sq_key (requeue_row rescan prio r) = sq_key r"
  by (simp add: requeue_row_def bump_priority_def reset_row_def sq_key_def)

lemma keys_upd_row: "(\<And>r. sq_key (f r) = sq_key r) \<Longrightarrow> sq_key ` set (upd_row i f rs) = sq_key ` set rs"
  using map_update_where [of sq_key f] by (metis list.set_map upd_row_def)

lemma enqueue_insert_keys:
  "(\<And>i rs. sq_key ` set rs \<subseteq> sq_key ` set (others i rs)) \<Longrightarrow>
     sq_key ` set rs \<subseteq> sq_key ` set (fst (enqueue_insert retries others fault now k prio attempt rs))"
proof (induction retries others fault now k prio attempt rs rule: enqueue_insert.induct)
  case (1 retries others fault now k prio attempt rs)
  have "sq_key ` set rs \<subseteq> sq_key ` set (others attempt rs)" by (rule 1(2))
  then show ?case
    using 1 by (subst enqueue_insert.simps) (fastforce simp: Let_def split: option.splits)
qed

lemma enqueue_insert_present:
  assumes "fault attempt = None" and "attempt \<le> retries"
  shows "k \<in> sq_key ` set (fst (enqueue_insert retries others fault now k prio attempt rs)) \<and>
    (\<exists>row. snd (enqueue_insert retries others fault now k prio attempt rs) = Inr row)"
  using assms by (subst (1 2) enqueue_insert.simps) (auto simp: Let_def sq_key_def new_row_def)

lemma enqueue_insert_some:
  "enqueue_insert retries others fault now k prio attempt rs = (rs', Inr (Some row)) \<Longrightarrow> k \<in> sq_key ` set rs'"
proof (induction retries others fault now k prio attempt rs rule: enqueue_insert.induct)
  case (1 retries others fault now k prio attempt rs)
  have "sq_key (new_row i now k prio) = k" for i by (simp add: sq_key_def new_row_def)
  with 1(2) show ?case
    by (subst (asm) enqueue_insert.simps) (auto simp: Let_def intro!: 1(1) split: option.splits if_splits)
qed

text \<open>A row that \<^verbatim>\<open>enqueue\<close> returns is in the queue.\<close>

lemma enqueue1_some:
  assumes "enqueue1 ee eco name ver prio rs = (rs', Inr (Some row))"
  shows "(eco, name, ver) \<in> sq_key ` set rs'"
proof (cases "find (\<lambda>r. sq_key r = (eco, name, ver)) rs")
  case None
  then show ?thesis using assms enqueue_insert_some by (simp add: enqueue1_def enqueue_def)
next
  case (Some r)
  then have "(eco, name, ver) \<in> sq_key ` set rs" by (metis (mono_tags, lifting) find_SomeD image_eqI)
  then show ?thesis using Some assms enqueue_insert_some by (auto simp: enqueue1_def enqueue_def keys_upd_row split: if_splits)
qed

lemma enqueue1_keys: "keys_grow ee \<Longrightarrow> sq_key ` set rs \<subseteq> sq_key ` set (fst (enqueue1 ee eco name ver prio rs))"
  using enqueue_insert_keys [of "ee_others ee name"]
  by (auto simp: enqueue1_def enqueue_def keys_grow_def keys_upd_row split: option.splits)

text \<open>An insert the database does not disturb puts the package version into the queue.\<close>

lemma enqueue1_present:
  assumes "ee_fault ee name 0 = None"
  shows "(eco, name, ver) \<in> sq_key ` set (fst (enqueue1 ee eco name ver prio rs))"
proof (cases "find (\<lambda>r. sq_key r = (eco, name, ver)) rs")
  case None
  then show ?thesis using enqueue_insert_present [where fault = "ee_fault ee name" and attempt = 0 and retries = "qc_deadlock_retries (ee_cfg ee)"]
    using assms by (simp add: enqueue1_def enqueue_def)
next
  case (Some r)
  then have "(eco, name, ver) \<in> sq_key ` set rs" by (metis (mono_tags, lifting) find_SomeD image_eqI)
  then show ?thesis using Some enqueue_insert_present [where fault = "ee_fault ee name" and attempt = 0 and retries = "qc_deadlock_retries (ee_cfg ee)"]
    using assms by (simp add: enqueue1_def enqueue_def keys_upd_row)
qed

lemma enqueue_all_keys:
  "keys_grow ee \<Longrightarrow> enqueue_all ee eco xs rs = Inr rs' \<Longrightarrow> sq_key ` set rs \<subseteq> sq_key ` set rs'"
proof (induction ee eco xs rs rule: enqueue_all.induct)
  case (2 ee eco name ver prio xs rs)
  then show ?case using enqueue1_keys [of ee rs eco name ver prio] by (auto split: prod.splits sum.splits)
qed simp

lemma enqueue_all_present:
  "keys_grow ee \<Longrightarrow> enqueue_all ee eco xs rs = Inr rs' \<Longrightarrow> (name, ver, prio) \<in> set xs \<Longrightarrow> ee_fault ee name 0 = None \<Longrightarrow>
     (eco, name, ver) \<in> sq_key ` set rs'"
proof (induction xs arbitrary: rs)
  case (Cons x xs)
  obtain n v p where x: "x = (n, v, p)" by (cases x)
  obtain rs1 row where e: "enqueue1 ee eco n v p rs = (rs1, Inr row)" "enqueue_all ee eco xs rs1 = Inr rs'"
    using Cons.prems(2) by (auto simp: x split: prod.splits sum.splits)
  show ?case
  proof (cases "x = (name, ver, prio)")
    case True
    then show ?thesis
      using enqueue1_present [OF Cons.prems(4), of eco ver prio rs] e enqueue_all_keys [OF Cons.prems(1) e(2)] x by auto
  next
    case False
    then show ?thesis using Cons.IH [OF Cons.prems(1) e(2)] Cons.prems(3,4) by simp
  qed
qed simp

lemma quiet_enqueue_all: "(\<And>n. ee_fault ee n 0 = None) \<Longrightarrow> \<exists>rs'. enqueue_all ee eco xs rs = Inr rs'"
proof (induction ee eco xs rs rule: enqueue_all.induct)
  case (2 ee eco name ver prio xs rs)
  have "\<exists>row. snd (enqueue1 ee eco name ver prio rs) = Inr row"
    using enqueue_insert_present [where fault = "ee_fault ee name" and attempt = 0 and retries = "qc_deadlock_retries (ee_cfg ee)"]
    using 2(2) by (auto simp: enqueue1_def enqueue_def split: option.splits)
  then show ?case using 2 by (auto split: prod.splits sum.splits)
qed simp

lemma enqueue_each_keys: "keys_grow ee \<Longrightarrow> sq_key ` set rs \<subseteq> sq_key ` set (enqueue_each ee eco xs rs)"
proof (induction ee eco xs rs rule: enqueue_each.induct)
  case (2 ee eco name ver prio xs rs)
  then show ?case using enqueue1_keys [of ee rs eco name ver prio] by force
qed simp

lemma enqueue_each_present:
  "keys_grow ee \<Longrightarrow> (name, ver, prio) \<in> set xs \<Longrightarrow> ee_fault ee name 0 = None \<Longrightarrow>
     (eco, name, ver) \<in> sq_key ` set (enqueue_each ee eco xs rs)"
proof (induction xs arbitrary: rs)
  case (Cons x xs)
  obtain n v p where x: "x = (n, v, p)" by (cases x)
  show ?case
  proof (cases "x = (name, ver, prio)")
    case True
    then show ?thesis
      using enqueue1_present [OF Cons.prems(3), of eco ver prio rs] enqueue_each_keys [OF Cons.prems(1)] x by fastforce
  next
    case False
    then have "(name, ver, prio) \<in> set xs" using Cons.prems(2) by simp
    then show ?thesis using Cons.IH [OF Cons.prems(1) _ Cons.prems(3)] x by simp
  qed
qed simp

text \<open>An undisturbed database: nobody else writes and nothing fails. Then exactly the given keys are added.\<close>

definition undisturbed :: "enq_env \<Rightarrow> bool" where
  "undisturbed ee \<longleftrightarrow> (\<forall>n i rs. ee_others ee n i rs = rs) \<and> (\<forall>n i. ee_fault ee n i = None)"

lemma undisturbed_grow: "undisturbed ee \<Longrightarrow> keys_grow ee"
  by (simp add: undisturbed_def keys_grow_def)

lemma enqueue1_undisturbed:
  assumes "undisturbed ee"
  shows "sq_key ` set (fst (enqueue1 ee eco name ver prio rs)) = insert (eco, name, ver) (sq_key ` set rs) \<and>
    (\<exists>row. snd (enqueue1 ee eco name ver prio rs) = Inr row)"
proof -
  have e: "enqueue_insert r (ee_others ee name) (ee_fault ee name) now k p 0 rs =
      (if k \<in> sq_key ` set rs then (rs, Inr None) else (rs @ [new_row (next_id rs) now k p], Inr (Some (new_row (next_id rs) now k p))))" for r now k p
    using assms by (subst enqueue_insert.simps) (simp add: undisturbed_def Let_def)
  have n: "sq_key (new_row i now k p) = k" for i now k p by (simp add: sq_key_def new_row_def)
  have "(eco, name, ver) \<in> sq_key ` set rs" if "find (\<lambda>r. sq_key r = (eco, name, ver)) rs = Some r" for r
    using that by (metis (mono_tags, lifting) find_SomeD image_eqI)
  then show ?thesis by (auto simp: enqueue1_def enqueue_def e n keys_upd_row simp del: image_iff split: option.splits)
qed

lemma enqueue_all_undisturbed:
  "undisturbed ee \<Longrightarrow> \<exists>rs'. enqueue_all ee eco xs rs = Inr rs' \<and>
     sq_key ` set rs' = sq_key ` set rs \<union> (\<lambda>(n, v, p). (eco, n, v)) ` set xs"
proof (induction ee eco xs rs rule: enqueue_all.induct)
  case (2 ee eco name ver prio xs rs)
  obtain rs1 row where e: "enqueue1 ee eco name ver prio rs = (rs1, Inr row)" "sq_key ` set rs1 = insert (eco, name, ver) (sq_key ` set rs)"
    using enqueue1_undisturbed [OF 2(2), of eco name ver prio rs] by (metis prod.collapse)
  then show ?case using 2 by fastforce
qed simp

lemma enqueue_each_undisturbed:
  "undisturbed ee \<Longrightarrow> sq_key ` set (enqueue_each ee eco xs rs) = sq_key ` set rs \<union> (\<lambda>(n, v, p). (eco, n, v)) ` set xs"
proof (induction ee eco xs rs rule: enqueue_each.induct)
  case (2 ee eco name ver prio xs rs)
  then show ?case using enqueue1_undisturbed [OF 2(2), of eco name ver prio rs] by auto
qed simp

section \<open>An empty database, for examples\<close>

definition demo_gate_db :: gate_db where
  "demo_gate_db = \<lparr>gd_queue = [], gd_packages = [], gd_focus = [], gd_watch = [], gd_scopes = [], gd_maint = [], gd_hist = []\<rparr>"

definition demo_gate_env :: gate_env where
  "demo_gate_env = \<lparr>ge_now = 0, ge_mw = default_mw_cfg, ge_scope_on = ''1'', ge_focus_mode = ''0''\<rparr>"

definition demo_enq :: "(string \<Rightarrow> nat \<Rightarrow> string option) \<Rightarrow> enq_env" where
  "demo_enq fault = \<lparr>ee_cfg = default_queue_cfg, ee_now = 0, ee_others = (\<lambda>_ _ rs. rs), ee_fault = fault\<rparr>"

lemma demo_undisturbed: "undisturbed (demo_enq (\<lambda>_ _. None))"
  by (simp add: undisturbed_def demo_enq_def)

end
