(* ===== verification/Anomaly.thy ===== *)
theory Anomaly
  imports JobQueue KnownBad Store
begin

text \<open>
  Version-update anomalies: \<^verbatim>\<open>ecosystems/version_anomaly.py\<close> for PyPI and crates.io and
  \<^verbatim>\<open>ecosystems/npm/ingest/anomaly.py\<close> on npm packuments, decoded JSON objects. Size factors are rationals.
\<close>

section \<open>The shared core\<close>

record version_meta =
  vm_version :: string
  vm_published_at :: string
  vm_size :: "int option"
  vm_publisher :: "string option"
  vm_runs_bundled_hook :: bool

record anomaly_cfg =
  ac_factor :: rat
  ac_min_bytes :: int
  ac_abs_bytes :: int
  ac_abs_min_base :: int

definition default_anomaly_cfg :: anomaly_cfg where
  "default_anomaly_cfg = \<lparr>ac_factor = 3, ac_min_bytes = 256 * 1024, ac_abs_bytes = 51200, ac_abs_min_base = 256 * 1024\<rparr>"

datatype flag = Install_hook_bundled_exec | Size_jump | Publisher_change | Install_hook_added | Install_hook_changed
  | File_count_jump

record anomaly_result =
  an_version :: string
  an_flags :: "flag list"

definition high_priority :: "anomaly_result \<Rightarrow> bool" where
  "high_priority a \<longleftrightarrow> Install_hook_bundled_exec \<in> set (an_flags a)"

text \<open>\<^verbatim>\<open>new.size and prev.size\<close>: a size of zero is as good as none.\<close>

definition size_flag :: "anomaly_cfg \<Rightarrow> int option \<Rightarrow> int option \<Rightarrow> bool" where
  "size_flag cfg new_size prev_size =
    (case (new_size, prev_size) of
       (Some ns, Some ps) \<Rightarrow>
         (if ns = 0 \<or> ps = 0 then False
          else (let delta = ns - ps in
            (of_int ps * ac_factor cfg \<le> of_int ns \<and> ac_min_bytes cfg \<le> delta) \<or>
            (0 < ac_abs_bytes cfg \<and> ac_abs_bytes cfg \<le> delta \<and> ac_abs_min_base cfg \<le> ps)))
     | _ \<Rightarrow> False)"

definition detect_anomaly :: "anomaly_cfg \<Rightarrow> version_meta list \<Rightarrow> anomaly_result option" where
  "detect_anomaly cfg metas =
    (case sort_desc vm_published_at metas of
       new # prev # _ \<Rightarrow>
         (let flags =
            (if vm_runs_bundled_hook new \<and> \<not> vm_runs_bundled_hook prev then [Install_hook_bundled_exec] else []) @
            (if size_flag cfg (vm_size new) (vm_size prev) then [Size_jump] else []) @
            (if truthy (vm_publisher new) \<and> truthy (vm_publisher prev) \<and> vm_publisher new \<noteq> vm_publisher prev
             then [Publisher_change] else [])
          in if flags = [] then None else Some \<lparr>an_version = vm_version new, an_flags = flags\<rparr>)
     | _ \<Rightarrow> None)"

text \<open>\<^verbatim>\<open>check_candidates\<close>: \<open>names\<close> is the iteration order of the set of candidates, \<open>fetch\<close> what the registry
  gives (\<^const>\<open>None\<close> also when it raised); the hits are given in the order of the candidates.\<close>

definition check_candidates :: "anomaly_cfg \<Rightarrow> nat \<Rightarrow> (string \<Rightarrow> version_meta list option) \<Rightarrow> string list \<Rightarrow>
    (string \<times> string \<times> priority) list" where
  "check_candidates cfg max_checks fetch names =
    List.map_filter (\<lambda>n. case fetch n of
         None \<Rightarrow> None
       | Some metas \<Rightarrow> map_option (\<lambda>a. (n, an_version a, if high_priority a then High else Normal)) (detect_anomaly cfg metas))
      (take max_checks names)"

section \<open>npm\<close>

type_synonym json_dict = "(string \<times> json) list"

record npm_anomaly_cfg =
  na_factor :: rat
  na_min_bytes :: int
  na_established :: nat

definition default_npm_anomaly_cfg :: npm_anomaly_cfg where
  "default_npm_anomaly_cfg = \<lparr>na_factor = 3, na_min_bytes = 256 * 1024, na_established = 5\<rparr>"

definition install_hook_names :: "string list" where
  "install_hook_names = [''preinstall'', ''install'', ''postinstall'', ''prepare'']"

definition benign_hook_leads :: "string set" where
  "benign_hook_leads = {''node'', ''npm'', ''npx'', ''yarn'', ''pnpm'', ''tsc'', ''tsx'', ''ts-node'', ''node-gyp'',
    ''node-gyp-build'', ''prebuild-install'', ''prebuildify'', ''is-ci'', ''cross-env'', ''shx'', ''rimraf'', ''mkdirp'',
    ''cpy'', ''copyfiles'', ''echo'', ''true'', ''exit'', ''cd'', ''test'', ''husky'', ''patch-package'',
    ''electron-builder'', ''gulp'', ''webpack'', ''rollup'', ''vite'', ''esbuild'', ''babel'', ''nest'', ''ng'', ''prisma'',
    ''next''}"

definition shell_interps :: "string set" where
  "shell_interps = {''sh'', ''bash'', ''dash'', ''zsh'', ''ksh'', ''ash'', ''env''}"

definition anomaly_priority :: "npm_anomaly_cfg \<Rightarrow> flag set \<Rightarrow> nat \<Rightarrow> priority" where
  "anomaly_priority cfg flags n_versions =
    (let established = na_established cfg \<le> n_versions;
         hook_change = flags \<inter> {Install_hook_added, Install_hook_changed} \<noteq> {}
     in if Install_hook_bundled_exec \<in> flags then High
        else if Size_jump \<in> flags \<and> established then High
        else if Publisher_change \<in> flags \<and> (Size_jump \<in> flags \<or> hook_change) then High
        else Normal)"

definition jdict :: "json option \<Rightarrow> json_dict option" where
  "jdict j = (case j of Some (JObj d) \<Rightarrow> Some d | _ \<Rightarrow> None)"

definition install_hooks :: "json_dict \<Rightarrow> (string \<times> string) list" where
  "install_hooks manifest =
    (case jdict (jget manifest ''scripts'') of
       None \<Rightarrow> []
     | Some scripts \<Rightarrow> List.map_filter (\<lambda>h. case jget scripts h of
           Some (JStr c) \<Rightarrow> (if strip c = [] then None else Some (h, c)) | _ \<Rightarrow> None) install_hook_names)"

text \<open>\<^verbatim>\<open>re.split(r"&&|\|\||;|\|", cmd)\<close>; \<open>acc\<close> is the segment read so far, reversed.\<close>

fun split_commands :: "string \<Rightarrow> string \<Rightarrow> string list" where
  "split_commands acc [] = [rev acc]"
| "split_commands acc (c # s) =
    (if c = CHR '';'' then rev acc # split_commands [] s
     else (case s of
         [] \<Rightarrow> (if c = CHR ''|'' then rev acc # split_commands [] s else split_commands (c # acc) s)
       | d # s' \<Rightarrow>
           (if c = CHR ''&'' \<and> d = CHR ''&'' \<or> c = CHR ''|'' \<and> d = CHR ''|'' then rev acc # split_commands [] s'
            else if c = CHR ''|'' then rev acc # split_commands [] s
            else split_commands (c # acc) s)))"

text \<open>\<^verbatim>\<open>shlex.split\<close> on POSIX; \<^const>\<open>None\<close> is \<^verbatim>\<open>ValueError\<close> (no closing quotation, no escaped character). \<open>tok\<close> is
  the token read so far, reversed; an escape returns to the state it was met in.\<close>

datatype lex_state = Between | Word | Quote char | Escape "char option"

definition shlex_space :: "char \<Rightarrow> bool" where
  "shlex_space c \<longleftrightarrow> c \<in> {CHR '' '', CHR 0x09, CHR 0x0D, CHR 0x0A}"

fun shlex :: "lex_state \<Rightarrow> bool \<Rightarrow> string \<Rightarrow> string \<Rightarrow> string list option" where
  "shlex Between quoted tok [] = Some []"
| "shlex Between quoted tok (c # s) =
    (if shlex_space c then shlex Between False [] s
     else if c = CHR 0x5C then shlex (Escape None) False [] s
     else if c = CHR 0x27 \<or> c = CHR 0x22 then shlex (Quote c) False [] s
     else shlex Word False [c] s)"
| "shlex Word quoted tok [] = Some (if tok = [] \<and> \<not> quoted then [] else [rev tok])"
| "shlex Word quoted tok (c # s) =
    (if shlex_space c
     then (if tok = [] \<and> \<not> quoted then shlex Between False [] s else map_option (Cons (rev tok)) (shlex Between False [] s))
     else if c = CHR 0x27 \<or> c = CHR 0x22 then shlex (Quote c) quoted tok s
     else if c = CHR 0x5C then shlex (Escape None) quoted tok s
     else shlex Word quoted (c # tok) s)"
| "shlex (Quote q) quoted tok [] = None"
| "shlex (Quote q) quoted tok (c # s) =
    (if c = q then shlex Word True tok s
     else if c = CHR 0x5C \<and> q = CHR 0x22 then shlex (Escape (Some q)) True tok s
     else shlex (Quote q) True (c # tok) s)"
| "shlex (Escape ret) quoted tok [] = None"
| "shlex (Escape None) quoted tok (c # s) = shlex Word quoted (c # tok) s"
| "shlex (Escape (Some q)) quoted tok (c # s) =
    shlex (Quote q) quoted (if c \<noteq> CHR 0x5C \<and> c \<noteq> q then c # CHR 0x5C # tok else c # tok) s"

definition path_name :: "string \<Rightarrow> string" where
  "path_name p = (case filter (\<lambda>x. x \<noteq> [] \<and> x \<noteq> ''.'') (split_on (CHR ''/'') p) of [] \<Rightarrow> [] | xs \<Rightarrow> last xs)"

definition segment_runs_bundled :: "string \<Rightarrow> bool" where
  "segment_runs_bundled seg =
    (case shlex Between False [] (strip seg) of
       Some (t # ts) \<Rightarrow>
         (let base0 = lower (path_name t);
              lead = (if base0 \<in> shell_interps \<and> ts \<noteq> []
                then (case find (\<lambda>x. \<not> prefix ''-'' x) ts of None \<Rightarrow> t | Some x \<Rightarrow> x) else t);
              base = lower (path_name lead)
          in (CHR ''/'' \<in> set lead \<or> prefix ''.'' lead) \<and> base \<notin> benign_hook_leads)
     | _ \<Rightarrow> False)"

definition hook_runs_bundled_path :: "json option \<Rightarrow> bool" where
  "hook_runs_bundled_path scripts =
    (case jdict scripts of
       None \<Rightarrow> False
     | Some d \<Rightarrow> list_ex (\<lambda>h. case jget d h of
           Some (JStr cmd) \<Rightarrow> list_ex segment_runs_bundled (split_commands [] cmd) | _ \<Rightarrow> False) install_hook_names)"

definition npm_publisher :: "json_dict \<Rightarrow> json option" where
  "npm_publisher manifest = (case jdict (jget manifest ''_npmUser'') of None \<Rightarrow> None | Some u \<Rightarrow> jget u ''name'')"

definition declared_deps :: "json_dict \<Rightarrow> string list" where
  "declared_deps manifest = nub (concat (map (\<lambda>key. case jdict (jget manifest key) of None \<Rightarrow> [] | Some d \<Rightarrow> map fst d)
     [''dependencies'', ''optionalDependencies'', ''peerDependencies'']))"

text \<open>An integer of Python; \<^verbatim>\<open>bool\<close> is one.\<close>

definition jint :: "json option \<Rightarrow> int option" where
  "jint j = (case j of Some (JInt n) \<Rightarrow> Some n | Some (JBool b) \<Rightarrow> Some (if b then 1 else 0) | _ \<Rightarrow> None)"

definition dist_int :: "json_dict \<Rightarrow> string \<Rightarrow> int option" where
  "dist_int manifest key = (case jdict (jget manifest ''dist'') of None \<Rightarrow> None | Some d \<Rightarrow> jint (jget d key))"

definition versions_newest_first :: "json_dict \<Rightarrow> (string \<times> json_dict) list" where
  "versions_newest_first packument =
    (case (jdict (jget packument ''versions''), jdict (jget packument ''time'')) of
       (Some versions, Some dates) \<Rightarrow>
         map (\<lambda>(v, t, m). (v, m)) (sort_desc (\<lambda>(v, t, m). t)
           (List.map_filter (\<lambda>(v, m). case (m, jget dates v) of
              (JObj d, Some (JStr t)) \<Rightarrow> Some (v, t, d) | _ \<Rightarrow> None) versions))
     | _ \<Rightarrow> [])"

definition new_known_bad_dep_edge :: "json_dict \<Rightarrow> string set \<Rightarrow> (string \<times> string) option" where
  "new_known_bad_dep_edge packument known_bad =
    (if known_bad = {} then None
     else (case versions_newest_first packument of
         [] \<Rightarrow> None
       | (new_v, new_m) # rest \<Rightarrow>
           (let prev_deps = (case rest of [] \<Rightarrow> [] | (_, prev_m) # _ \<Rightarrow> map (kb_normalize ''npm'') (declared_deps prev_m)) in
            map_option (\<lambda>dep. (new_v, dep))
              (find (\<lambda>dep. kb_normalize ''npm'' dep \<in> known_bad \<and> kb_normalize ''npm'' dep \<notin> set prev_deps)
                (sort (declared_deps new_m))))))"

record npm_anomaly =
  nx_version :: string
  nx_flags :: "flag list"
  nx_priority :: priority

definition jtrue :: "json option \<Rightarrow> bool" where
  "jtrue j = (case j of None \<Rightarrow> False | Some x \<Rightarrow> jtruthy x)"

definition update_flags :: "npm_anomaly_cfg \<Rightarrow> json_dict \<Rightarrow> json_dict \<Rightarrow> flag list" where
  "update_flags cfg new_m prev_m =
    (let new_hooks = install_hooks new_m; prev_hooks = install_hooks prev_m;
         truthy_int = (\<lambda>x. case x of None \<Rightarrow> False | Some n \<Rightarrow> n \<noteq> (0::int));
         ns = dist_int new_m ''unpackedSize''; ps = dist_int prev_m ''unpackedSize'';
         nf = dist_int new_m ''fileCount''; pf = dist_int prev_m ''fileCount'';
         nu = npm_publisher new_m; pu = npm_publisher prev_m
     in (if new_hooks \<noteq> [] \<and> new_hooks \<noteq> prev_hooks \<and>
            list_ex (\<lambda>(h, c). dict_get new_hooks h \<noteq> dict_get prev_hooks h) new_hooks
         then [if prev_hooks = [] then Install_hook_added else Install_hook_changed] else []) @
        (if new_hooks \<noteq> [] \<and> hook_runs_bundled_path (jget new_m ''scripts'') \<and>
            \<not> hook_runs_bundled_path (jget prev_m ''scripts'')
         then [Install_hook_bundled_exec] else []) @
        (if truthy_int ns \<and> truthy_int ps \<and> of_int (the ps) * na_factor cfg \<le> of_int (the ns) \<and>
            na_min_bytes cfg \<le> the ns - the ps then [Size_jump] else []) @
        (if truthy_int nf \<and> truthy_int pf \<and> the pf < the nf then [File_count_jump] else []) @
        (if jtrue nu \<and> jtrue pu \<and> nu \<noteq> pu then [Publisher_change] else []))"

definition n_versions :: "json_dict \<Rightarrow> nat" where
  "n_versions packument = (case jdict (jget packument ''versions'') of None \<Rightarrow> 0 | Some vs \<Rightarrow> length vs)"

definition detect_update_anomaly :: "npm_anomaly_cfg \<Rightarrow> json_dict \<Rightarrow> npm_anomaly option" where
  "detect_update_anomaly cfg packument =
    (case versions_newest_first packument of
       (new_v, new_m) # (_, prev_m) # _ \<Rightarrow>
         (let flags = update_flags cfg new_m prev_m in
          if flags = [] \<or> flags = [File_count_jump] then None
          else Some \<lparr>nx_version = new_v, nx_flags = flags,
            nx_priority = anomaly_priority cfg (set flags) (n_versions packument)\<rparr>)
     | _ \<Rightarrow> None)"

section \<open>Lemmas\<close>

lemma sort_desc_top:
  assumes "mset ms = add_mset a (mset rest)" and "\<forall>x\<in>set rest. k x < k a"
  shows "\<exists>zs. sort_desc k ms = a # zs \<and> mset zs = mset rest \<and> sorted_wrt (\<lambda>x y. k y \<le> k x) (a # zs)"
proof -
  have m: "mset (sort_desc k ms) = add_mset a (mset rest)" using assms(1) by (simp add: sort_desc_def)
  have sw: "sorted_wrt (\<lambda>x y. k y \<le> k x) (sort_desc k ms)"
    using sorted_sort_key [of k "rev ms"] by (simp add: sort_desc_def sorted_wrt_rev sorted_map)
  then obtain b zs where s: "sort_desc k ms = b # zs" using m by (cases "sort_desc k ms") auto
  have "b = a"
  proof (rule ccontr)
    assume n: "b \<noteq> a"
    have "set (b # zs) = insert a (set rest)" using m s by (metis mset_eq_setD set_mset_add_mset_insert set_mset_mset)
    then have "a \<in> set zs" "b \<in> set rest" using n by auto
    then show False using sw s assms(2) by fastforce
  qed
  then show ?thesis using m s sw by auto
qed

lemma newest_two:
  assumes "mset ms = mset (new # prev # rest)" and "k prev < k new" and "\<forall>x\<in>set rest. k x < k prev"
  shows "\<exists>zs. sort_desc k ms = new # prev # zs"
proof -
  obtain zs where z: "sort_desc k ms = new # zs" "mset zs = mset (prev # rest)" "sorted_wrt (\<lambda>x y. k y \<le> k x) (new # zs)"
    using sort_desc_top [of ms new "prev # rest" k] assms by fastforce
  then obtain b ys where b: "zs = b # ys" by (cases zs) auto
  have "b = prev"
  proof (rule ccontr)
    assume n: "b \<noteq> prev"
    have "set (b # ys) = insert prev (set rest)" using z(2) b by (metis list.simps(15) mset_eq_setD)
    then have "prev \<in> set ys" "b \<in> set rest" using n by auto
    then show False using z(3) b assms(3) by fastforce
  qed
  then show ?thesis using z b by simp
qed

lemma check_candidates_iff:
  "(name, v, prio) \<in> set (check_candidates cfg max_checks fetch names) \<longleftrightarrow>
     name \<in> set (take max_checks names) \<and> (\<exists>metas a. fetch name = Some metas \<and> detect_anomaly cfg metas = Some a \<and>
       v = an_version a \<and> prio = (if high_priority a then High else Normal))"
proof -
  let ?f = "\<lambda>n. case fetch n of None \<Rightarrow> None
    | Some metas \<Rightarrow> map_option (\<lambda>a. (n, an_version a, if high_priority a then High else Normal)) (detect_anomaly cfg metas)"
  have "?f x = Some (name, v, prio) \<longleftrightarrow> x = name \<and> (\<exists>metas a. fetch name = Some metas \<and> detect_anomaly cfg metas = Some a \<and>
      v = an_version a \<and> prio = (if high_priority a then High else Normal))" for x
    by (cases "fetch x") auto
  then show ?thesis unfolding check_candidates_def in_map_filter by auto
qed

section \<open>Properties\<close>

text \<open>The anomaly gate looks at the two newest versions and at nothing else: in whatever order the registry
  lists the versions, a package is flagged exactly when between its newest version and the one before it
  a bundled install hook appeared, the size jumped or the publisher changed; older versions do not matter.
  Among at most \<open>max_checks\<close> candidates exactly the flagged packages are enqueued, with their newest
  version and with high priority exactly when a bundled hook appeared. A candidate beyond the limit is not
  looked at.\<close>

theorem anomaly_gate_decision:
  assumes "mset metas = mset (new # prev # rest)" and "vm_published_at prev < vm_published_at new"
    and "\<forall>m\<in>set rest. vm_published_at m < vm_published_at prev" and "fetch name = Some metas"
  shows "(detect_anomaly cfg metas \<noteq> None \<longleftrightarrow>
      (vm_runs_bundled_hook new \<and> \<not> vm_runs_bundled_hook prev) \<or> size_flag cfg (vm_size new) (vm_size prev) \<or>
      (truthy (vm_publisher new) \<and> truthy (vm_publisher prev) \<and> vm_publisher new \<noteq> vm_publisher prev)) \<and>
    (\<forall>v prio names. (name, v, prio) \<in> set (check_candidates cfg max_checks fetch names) \<longleftrightarrow>
      name \<in> set (take max_checks names) \<and> detect_anomaly cfg metas \<noteq> None \<and> v = vm_version new \<and>
      prio = (if vm_runs_bundled_hook new \<and> \<not> vm_runs_bundled_hook prev then High else Normal))"
proof -
  obtain zs where z: "sort_desc vm_published_at metas = new # prev # zs" using newest_two [OF assms(1-3)] by auto
  have d: "(detect_anomaly cfg metas \<noteq> None \<longleftrightarrow>
      (vm_runs_bundled_hook new \<and> \<not> vm_runs_bundled_hook prev) \<or> size_flag cfg (vm_size new) (vm_size prev) \<or>
      (truthy (vm_publisher new) \<and> truthy (vm_publisher prev) \<and> vm_publisher new \<noteq> vm_publisher prev))"
    by (simp add: detect_anomaly_def z Let_def)
  have a: "detect_anomaly cfg metas = Some a \<Longrightarrow> an_version a = vm_version new \<and>
      (high_priority a \<longleftrightarrow> vm_runs_bundled_hook new \<and> \<not> vm_runs_bundled_hook prev)" for a
    by (auto simp: detect_anomaly_def z Let_def high_priority_def split: if_splits)
  have "(name, v, prio) \<in> set (check_candidates cfg max_checks fetch names) \<longleftrightarrow>
      name \<in> set (take max_checks names) \<and> (\<exists>a. detect_anomaly cfg metas = Some a \<and> v = an_version a \<and>
        prio = (if high_priority a then High else Normal))" for v prio names
    using assms(4) by (simp add: check_candidates_iff)
  then show ?thesis using d a by fastforce
qed

definition demo_meta :: "string \<Rightarrow> string \<Rightarrow> int \<Rightarrow> version_meta" where
  "demo_meta v t n = \<lparr>vm_version = v, vm_published_at = t, vm_size = Some n, vm_publisher = Some ''a'', vm_runs_bundled_hook = False\<rparr>"

theorem anomaly_gate_decision_witness:
  "detect_anomaly default_anomaly_cfg [demo_meta ''0.45.1'' ''2026-01'' 38000, demo_meta ''0.45.3'' ''2026-03'' 1015053,
     demo_meta ''0.45.2'' ''2026-02'' 38431] \<noteq> None"
proof -
  have l: "(''2026-02'' :: string) < ''2026-03''" "(''2026-01'' :: string) < ''2026-02''" by code_simp+
  have s: "size_flag default_anomaly_cfg (Some 1015053) (Some 38431)" by code_simp
  show ?thesis
    using anomaly_gate_decision [of _ "demo_meta ''0.45.3'' ''2026-03'' 1015053" "demo_meta ''0.45.2'' ''2026-02'' 38431"
        "[demo_meta ''0.45.1'' ''2026-01'' 38000]" "\<lambda>_. Some _", OF _ _ _ refl, THEN conjunct1]
    using l s by (simp add: demo_meta_def add_mset_commute)
qed

text \<open>The npm gate on the packument of its docstring, and what its command scanner misses: an assignment before the
  command, and the background operator.\<close>

definition demo_manifest :: "string \<Rightarrow> int \<Rightarrow> json" where
  "demo_manifest cmd n = JObj [(''scripts'', JObj [(''preinstall'', JStr cmd)]), (''dist'', JObj [(''unpackedSize'', JInt n)])]"

lemma ironworm_flagged:
  "detect_update_anomaly default_npm_anomaly_cfg
     [(''versions'', JObj [(''0.45.2'', demo_manifest [] 38431), (''0.45.3'', demo_manifest ''./tools/setup'' 1015053)]),
      (''time'', JObj [(''0.45.2'', JStr ''2026-02''), (''0.45.3'', JStr ''2026-03'')])] =
   Some \<lparr>nx_version = ''0.45.3'', nx_flags = [Install_hook_added, Install_hook_bundled_exec, Size_jump], nx_priority = High\<rparr>"
  by code_simp

lemma assignment_evades_hook_scan:
  "segment_runs_bundled ''./tools/setup'' \<and> \<not> segment_runs_bundled ''A=1 ./tools/setup'' \<and>
   \<not> hook_runs_bundled_path (Some (JObj [(''preinstall'', JStr ''true & ./tools/setup'')]))"
  by code_simp

end
