(* ===== verification/NpmCursor.thy ===== *)
theory NpmCursor
  imports Ingest Anomaly Metadata
begin

text \<open>
  Discovery on npm: \<^verbatim>\<open>ecosystems/npm/ingest/cursor.py\<close>. The replies of the registry, the snapshots of the
  database each page sees and the order in which concurrent requests complete are arguments; the cursor,
  the retry counters and the carried-over candidates are the poller's state.
\<close>

section \<open>Sequence numbers, hooks, versions\<close>

text \<open>\<^verbatim>\<open>int(s)\<close> of a string, \<^const>\<open>None\<close> for \<^verbatim>\<open>ValueError\<close>.\<close>

definition py_int :: "string \<Rightarrow> int option" where
  "py_int s =
    (let t = strip s;
         signed = t \<noteq> [] \<and> (hd t = CHR ''-'' \<or> hd t = CHR ''+'');
         groups = split_on (CHR ''_'') (if signed then tl t else t)
     in if list_all py_digits groups
        then Some ((if signed \<and> hd t = CHR ''-'' then - 1 else 1) * int (digits_value (concat groups)))
        else None)"

definition seq_to_int :: "json \<Rightarrow> int" where
  "seq_to_int seq =
    (case seq of
       JInt n \<Rightarrow> n
     | JBool b \<Rightarrow> (if b then 1 else 0)
     | JStr s \<Rightarrow> get_or 0 (py_int (fst (split1 (CHR ''-'') s)))
     | _ \<Rightarrow> 0)"

definition has_install_hook :: "json option \<Rightarrow> bool" where
  "has_install_hook scripts =
    (case jdict scripts of None \<Rightarrow> False
     | Some d \<Rightarrow> list_ex (\<lambda>h. jget d h \<noteq> None) [''preinstall'', ''install'', ''postinstall''])"

definition is_suspicious_version :: "string \<Rightarrow> bool" where
  "is_suspicious_version version =
    (let parts = split_on (CHR ''.'') (version_core version) in
     if length parts < 2 \<or> \<not> list_all py_digits parts then False
     else if list_all (\<lambda>p. set p = {CHR ''9''}) parts then True
     else (let nums = map digits_value parts in
       if card (set nums) = 1 \<and> 9 \<le> hd nums then True else 99 \<le> hd nums))"

section \<open>The gates on one page\<close>

record change_row =
  cr_id :: string
  cr_deleted :: bool
  cr_seq :: "json option"

record change_page =
  cp_results :: "change_row list"
  cp_last_seq :: "json option"

text \<open>The dictionaries \<^verbatim>\<open>gated\<close> and \<^verbatim>\<open>gated_seq\<close> and the set of anomaly candidates.\<close>

record npm_gate =
  ng_gated :: "(string \<times> priority) list"
  ng_seq :: "(string \<times> int) list"
  ng_anomaly :: "string list"

definition row_seq :: "change_row \<Rightarrow> int" where
  "row_seq row = (case cr_seq row of None \<Rightarrow> 0 | Some s \<Rightarrow> seq_to_int s)"

definition add_gate :: "change_row \<Rightarrow> priority \<Rightarrow> npm_gate \<Rightarrow> npm_gate" where
  "add_gate row pri g = g\<lparr>ng_gated := dict_put (cr_id row) pri (ng_gated g),
     ng_seq := dict_put (cr_id row) (row_seq row) (ng_seq g)\<rparr>"

definition npm_watched :: "gate_env \<Rightarrow> gate_db \<Rightarrow> string \<Rightarrow> bool" where
  "npm_watched e d name \<longleftrightarrow> watch_rank_ci ''npm'' name (gd_watch d) \<noteq> None \<or> scope_watched e ''npm'' d name \<or>
     maint_watched e ''npm'' d name"

definition gate_row :: "gate_env \<Rightarrow> bool \<Rightarrow> gate_db \<Rightarrow> change_row \<Rightarrow> npm_gate \<Rightarrow> npm_gate" where
  "gate_row e anomaly_on d row g =
    (let name = cr_id row; exclusive = focus_exclusive (ge_focus_mode e) in
     if name = [] \<or> prefix ''_design/'' name \<or> cr_deleted row then g
     else if dict_get (ng_gated g) name \<noteq> None then g
     else (let foc = focus_hit ''npm'' d name in
       if exclusive then (if foc then add_gate row High g else g)
       else (let wl = npm_watched e d name;
                 brand_new = \<not> foc \<and> \<not> wl \<and> \<not> known_package ''npm'' name d
         in case gate_decision foc wl brand_new exclusive of
              None \<Rightarrow> (if anomaly_on \<and> \<not> brand_new \<and> name \<notin> set (ng_anomaly g)
                then g\<lparr>ng_anomaly := ng_anomaly g @ [name]\<rparr> else g)
            | Some pri \<Rightarrow> add_gate row pri g)))"

definition gate_page :: "gate_env \<Rightarrow> bool \<Rightarrow> gate_db \<Rightarrow> change_row list \<Rightarrow> npm_gate \<Rightarrow> npm_gate" where
  "gate_page e anomaly_on d rows g = fold (gate_row e anomaly_on d) rows g"

section \<open>The anomaly gate\<close>

record npm_cfg =
  nc_anomaly_gate :: bool
  nc_max_checks :: nat
  nc_carry_max :: nat
  nc_resolve_max :: nat
  nc_attempts_cap :: nat
  nc_anomaly :: npm_anomaly_cfg

definition default_npm_cfg :: npm_cfg where
  "default_npm_cfg = \<lparr>nc_anomaly_gate = True, nc_max_checks = 200, nc_carry_max = 5000, nc_resolve_max = 5,
     nc_attempts_cap = 50000, nc_anomaly = default_npm_anomaly_cfg\<rparr>"

text \<open>The names checked in this poll and those carried over. The deque drops its oldest entries when full;
  \<open>candidates\<close> is the iteration order of the set.\<close>

definition anomaly_split :: "npm_cfg \<Rightarrow> string list \<Rightarrow> string list \<Rightarrow> string list \<times> string list" where
  "anomaly_split cfg carried candidates =
    (let fresh = filter (\<lambda>n. n \<notin> set carried) candidates;
         take_carried = take (nc_max_checks cfg div 2) carried;
         take_fresh = take (nc_max_checks cfg - length take_carried) fresh;
         deferred = drop (length take_carried) carried @ drop (length take_fresh) fresh
     in (take_carried @ take_fresh, drop (length deferred - nc_carry_max cfg) deferred))"

definition anomaly_hit :: "npm_cfg \<Rightarrow> string set \<Rightarrow> (string \<Rightarrow> json_dict option) \<Rightarrow> string \<Rightarrow> (string \<times> string \<times> priority) option" where
  "anomaly_hit cfg known_bad packument n =
    (case packument n of
       None \<Rightarrow> None
     | Some pk \<Rightarrow>
         (if pk = [] then None
          else (case (if known_bad = {} then None else new_known_bad_dep_edge pk known_bad) of
              Some bad \<Rightarrow> Some (n, fst bad, High)
            | None \<Rightarrow> map_option (\<lambda>a. (n, nx_version a, nx_priority a)) (detect_update_anomaly (nc_anomaly cfg) pk))))"

definition check_anomalies :: "npm_cfg \<Rightarrow> string set \<Rightarrow> (string \<Rightarrow> json_dict option) \<Rightarrow> string list \<Rightarrow> string list \<Rightarrow>
    (string \<times> string \<times> priority) list \<times> string list" where
  "check_anomalies cfg known_bad packument carried candidates =
    (let (names, carry) = anomaly_split cfg carried candidates in
     (List.map_filter (anomaly_hit cfg known_bad packument) names, carry))"

section \<open>One poll\<close>

record npm_manifest =
  mf_version :: "string option"
  mf_scripts :: "json option"

text \<open>The world outside: pages by their number and position, the database each page sees, the latest manifest and the
  packument of a name (\<^const>\<open>None\<close> for any failure), the current sequence number, the order of completion,
  the confirmed malicious names.\<close>

record npm_io =
  io_page :: "nat \<Rightarrow> int \<Rightarrow> change_page"
  io_snap :: "nat \<Rightarrow> gate_db"
  io_latest :: "string \<Rightarrow> npm_manifest option"
  io_packument :: "string \<Rightarrow> json_dict option"
  io_update_seq :: "int option"
  io_order :: "string list \<Rightarrow> string list"
  io_known_bad :: "string set"

record npm_state =
  ns_cursor :: "int option"
  ns_attempts :: "(string \<times> nat) list"
  ns_carry :: "string list"

definition default_limit :: nat where
  "default_limit = 1000"

definition max_pages_per_poll :: nat where
  "max_pages_per_poll = 5"

text \<open>The loop over the pages: the pages gated, with their numbers, and the greatest \<^verbatim>\<open>last_seq\<close>.\<close>

fun npm_pages :: "(nat \<Rightarrow> int \<Rightarrow> change_page) \<Rightarrow> nat \<Rightarrow> nat \<Rightarrow> int \<Rightarrow> int \<Rightarrow> (nat \<times> change_row list) list \<times> int" where
  "npm_pages page 0 k since max_seq = ([], max_seq)"
| "npm_pages page (Suc n) k since max_seq =
    (let p = page k since in
     if cp_results p = [] then ([], max_seq)
     else (let last_seq = (case cp_last_seq p of None \<Rightarrow> since | Some s \<Rightarrow> seq_to_int s);
               max1 = (if max_seq < last_seq then last_seq else max_seq)
       in if length (cp_results p) < default_limit then ([(k, cp_results p)], max1)
          else (let (ps, m) = npm_pages page n (Suc k) last_seq max1 in ((k, cp_results p) # ps, m))))"

definition gate_pages :: "gate_env \<Rightarrow> bool \<Rightarrow> (nat \<Rightarrow> gate_db) \<Rightarrow> (nat \<times> change_row list) list \<Rightarrow> npm_gate" where
  "gate_pages e anomaly_on snap ps =
    fold (\<lambda>(k, rows) g. gate_page e anomaly_on (snap k) rows g) ps \<lparr>ng_gated = [], ng_seq = [], ng_anomaly = []\<rparr>"

definition resolve_latest :: "(string \<Rightarrow> npm_manifest option) \<Rightarrow> string \<Rightarrow> (string \<times> string \<times> bool) option" where
  "resolve_latest latest n =
    (case latest n of
       None \<Rightarrow> None
     | Some m \<Rightarrow> (if truthy (mf_version m) then Some (n, or_empty (mf_version m), has_install_hook (mf_scripts m)) else None))"

definition npm_priority :: "(string \<times> priority) list \<Rightarrow> string \<times> string \<times> bool \<Rightarrow> string \<times> string \<times> priority" where
  "npm_priority gated = (\<lambda>(n, v, hook). let pri = get_or Normal (dict_get gated n) in
     (n, v, if pri = Normal \<and> (hook \<or> is_suspicious_version v) then High else pri))"

text \<open>The counters of the names that could not be resolved: the counters, the positions to hold the cursor at and
  the names given up.\<close>

fun hold_back :: "nat \<Rightarrow> (string \<times> int) list \<Rightarrow> string list \<Rightarrow> (string \<times> nat) list \<Rightarrow> (string \<times> nat) list \<times> int list \<times> string list" where
  "hold_back max_attempts seqs [] att = (att, [], [])"
| "hold_back max_attempts seqs (n # ns) att =
    (let a = Suc (get_or 0 (dict_get att n)) in
     case hold_back max_attempts seqs ns (dict_put n a att) of
       (att', blockers, given) \<Rightarrow>
         (if max_attempts \<le> a then (att', blockers, n # given)
          else (case dict_get seqs n of None \<Rightarrow> (att', blockers, given) | Some q \<Rightarrow> (att', q # blockers, given))))"

definition settle_attempts :: "npm_cfg \<Rightarrow> (string \<times> int) list \<Rightarrow> string list \<Rightarrow> (string \<times> nat) list \<Rightarrow> (string \<times> nat) list" where
  "settle_attempts cfg seqs finished att =
    (let att1 = filter (\<lambda>(n, a). n \<notin> set finished) att in
     if nc_attempts_cap cfg < length att1 then filter (\<lambda>(n, a). dict_get seqs n \<noteq> None) att1 else att1)"

definition safe_seq :: "int list \<Rightarrow> int \<Rightarrow> int" where
  "safe_seq blockers max_seq = (if blockers = [] then max_seq else min (Min (set blockers) - 1) max_seq)"

definition npm_poll :: "npm_cfg \<Rightarrow> gate_env \<Rightarrow> enq_env \<Rightarrow> npm_io \<Rightarrow> npm_state \<Rightarrow> scan_rows \<Rightarrow> string + npm_state \<times> scan_rows" where
  "npm_poll cfg e ee io st rs =
    (case ns_cursor st of
       None \<Rightarrow> Inr (case io_update_seq io of None \<Rightarrow> st | Some q \<Rightarrow> st\<lparr>ns_cursor := Some q\<rparr>, rs)
     | Some cursor \<Rightarrow>
         (let (pages, max_seq) = npm_pages (io_page io) max_pages_per_poll 0 cursor cursor;
              g = gate_pages e (nc_anomaly_gate cfg) (io_snap io) pages;
              candidates = filter (\<lambda>n. dict_get (ng_gated g) n = None) (ng_anomaly g);
              (hits, carry) = (if nc_anomaly_gate cfg \<and> ng_anomaly g \<noteq> []
                then check_anomalies cfg (io_known_bad io) (io_packument io) (ns_carry st) (io_order io candidates)
                else ([], ns_carry st));
              names = map fst (ng_gated g);
              resolved = List.map_filter (resolve_latest (io_latest io)) (io_order io names)
          in case enqueue_all ee ''npm'' (map (npm_priority (ng_gated g)) resolved) rs of
               Inl msg \<Rightarrow> Inl msg
             | Inr rs1 \<Rightarrow>
                 (case enqueue_all ee ''npm'' hits rs1 of
                    Inl msg \<Rightarrow> Inl msg
                  | Inr rs2 \<Rightarrow>
                      (let done_names = map fst resolved;
                           (att, blockers, given) = hold_back (nc_resolve_max cfg) (ng_seq g)
                             (filter (\<lambda>n. n \<notin> set done_names) names) (ns_attempts st);
                           safe = safe_seq blockers max_seq
                       in Inr (\<lparr>ns_cursor = Some (if cursor < safe then safe else cursor),
                               ns_attempts = settle_attempts cfg (ng_seq g) (done_names @ given) att,
                               ns_carry = carry\<rparr>, rs2)))))"

section \<open>Lemmas\<close>

text \<open>A change the gates let through: a live package row whose name is in focus, or, outside exclusive mode, watched
  or unknown.\<close>

definition passes_gate :: "gate_env \<Rightarrow> gate_db \<Rightarrow> change_row \<Rightarrow> bool" where
  "passes_gate e d row \<longleftrightarrow> cr_id row \<noteq> [] \<and> \<not> prefix ''_design/'' (cr_id row) \<and> \<not> cr_deleted row \<and>
     (focus_hit ''npm'' d (cr_id row) \<or> \<not> focus_exclusive (ge_focus_mode e) \<and>
       (npm_watched e d (cr_id row) \<or> \<not> known_package ''npm'' (cr_id row) d))"

text \<open>CouchDB's feed: the rows after \<open>since\<close>, none beyond the \<^verbatim>\<open>last_seq\<close> of their page.\<close>

definition feed_ok :: "(nat \<Rightarrow> int \<Rightarrow> change_page) \<Rightarrow> bool" where
  "feed_ok page \<longleftrightarrow> (\<forall>k since. \<forall>row\<in>set (cp_results (page k since)). since < row_seq row \<and>
     (\<exists>s. cp_last_seq (page k since) = Some s \<and> row_seq row \<le> seq_to_int s))"

definition gnames :: "npm_gate \<Rightarrow> string set" where
  "gnames g = fst ` set (ng_gated g)"

definition gate_ok :: "change_row set \<Rightarrow> npm_gate \<Rightarrow> bool" where
  "gate_ok rows g \<longleftrightarrow> distinct (map fst (ng_gated g)) \<and>
     (\<forall>n\<in>gnames g. \<exists>row\<in>rows. cr_id row = n \<and> dict_get (ng_seq g) n = Some (row_seq row))"

lemma gnames_dict: "dict_get (ng_gated g) n = None \<longleftrightarrow> n \<notin> gnames g"
  by (simp add: dict_get_def gnames_def map_of_eq_None_iff)

lemma gnames_add [simp]: "gnames (add_gate row pri g) = insert (cr_id row) (gnames g)"
  by (simp add: gnames_def add_gate_def fst_set_dict_put)

lemma gnames_anomaly [simp]: "gnames (g\<lparr>ng_anomaly := ns\<rparr>) = gnames g"
  by (simp add: gnames_def)

lemma gate_ok_add: "gate_ok rows g \<Longrightarrow> row \<in> rows \<Longrightarrow> gate_ok rows (add_gate row pri g)"
  unfolding gate_ok_def gnames_add by (auto simp: add_gate_def distinct_dict_put)

lemma gate_ok_anomaly: "gate_ok rows (g\<lparr>ng_anomaly := ns\<rparr>) = gate_ok rows g"
  by (simp add: gate_ok_def gnames_def)

lemma gate_ok_row: "row \<in> rows \<Longrightarrow> gate_ok rows g \<Longrightarrow> gate_ok rows (gate_row e on d row g)"
  by (simp add: gate_row_def Let_def gate_ok_add gate_ok_anomaly split: option.split)

lemma gate_row_grows: "gnames g \<subseteq> gnames (gate_row e on d row g)"
  by (auto simp: gate_row_def Let_def split: option.split)

lemma gate_row_takes: "passes_gate e d row \<Longrightarrow> cr_id row \<in> gnames (gate_row e on d row g)"
  by (auto simp: passes_gate_def gate_row_def Let_def gnames_dict gate_decision_def split: option.split)

lemma gate_page_grows: "gnames g \<subseteq> gnames (gate_page e on d rows g)"
  unfolding gate_page_def
proof (induction rows arbitrary: g)
  case (Cons r rows)
  then show ?case using gate_row_grows [of g e on d r] by fastforce
qed simp

lemma gate_page_takes:
  "row \<in> set rows \<Longrightarrow> passes_gate e d row \<Longrightarrow> cr_id row \<in> gnames (gate_page e on d rows g)"
proof (induction rows arbitrary: g)
  case (Cons r rows)
  have e: "gate_page e on d (r # rows) g = gate_page e on d rows (gate_row e on d r g)" by (simp add: gate_page_def)
  show ?case
  proof (cases "row = r")
    case True
    then show ?thesis unfolding e using gate_row_takes [OF Cons.prems(2)] gate_page_grows by blast
  next
    case False
    then show ?thesis unfolding e using Cons by simp
  qed
qed simp

lemma gate_page_ok: "set rows \<subseteq> every \<Longrightarrow> gate_ok every g \<Longrightarrow> gate_ok every (gate_page e on d rows g)"
  unfolding gate_page_def by (induction rows arbitrary: g) (simp_all add: gate_ok_row)

abbreviation pages_fold where
  "pages_fold e on snap ps g \<equiv> fold (\<lambda>(k, rows) g. gate_page e on (snap k) rows g) ps g"

lemma pages_ok: "(\<Union>(set ` snd ` set ps)) \<subseteq> every \<Longrightarrow> gate_ok every g \<Longrightarrow> gate_ok every (pages_fold e on snap ps g)"
  by (induction ps arbitrary: g) (auto simp: gate_page_ok)

lemma pages_grow: "gnames g \<subseteq> gnames (pages_fold e on snap ps g)"
proof (induction ps arbitrary: g)
  case (Cons p ps)
  show ?case using gate_page_grows [of g e on "snap (fst p)" "snd p"] Cons [of "gate_page e on (snap (fst p)) (snd p) g"]
    by (auto simp: case_prod_beta)
qed simp

lemma pages_take:
  "(k, rows) \<in> set ps \<Longrightarrow> row \<in> set rows \<Longrightarrow> passes_gate e (snap k) row \<Longrightarrow> cr_id row \<in> gnames (pages_fold e on snap ps g)"
proof (induction ps arbitrary: g)
  case (Cons p ps)
  show ?case
  proof (cases "p = (k, rows)")
    case True
    then show ?thesis using gate_page_takes [OF Cons.prems(2,3)] pages_grow by fastforce
  next
    case False
    then show ?thesis using Cons by simp
  qed
qed simp

lemma gate_pages_complete:
  "(k, rows) \<in> set ps \<Longrightarrow> row \<in> set rows \<Longrightarrow> passes_gate e (snap k) row \<Longrightarrow> cr_id row \<in> gnames (gate_pages e on snap ps)"
  unfolding gate_pages_def by (rule pages_take)

lemma gate_pages_ok: "gate_ok (\<Union>(set ` snd ` set ps)) (gate_pages e on snap ps)"
  unfolding gate_pages_def by (rule pages_ok) (simp_all add: gate_ok_def gnames_def)

lemma npm_pages_rows:
  "feed_ok page \<Longrightarrow> c \<le> since \<Longrightarrow> (k', rows) \<in> set (fst (npm_pages page n k since m)) \<Longrightarrow> row \<in> set rows \<Longrightarrow> c < row_seq row"
proof (induction page n k since m rule: npm_pages.induct)
  case (2 page n k since m)
  let ?p = "page k since"
  have rows: "\<forall>row\<in>set (cp_results ?p). since < row_seq row \<and> (\<exists>s. cp_last_seq ?p = Some s \<and> row_seq row \<le> seq_to_int s)"
    using 2(2) by (simp add: feed_ok_def)
  show ?case
  proof (cases "rows = cp_results ?p")
    case True
    then show ?thesis using rows 2(3,5) by force
  next
    case False
    then obtain last where l: "cp_results ?p \<noteq> []" "\<not> length (cp_results ?p) < default_limit" "cp_last_seq ?p = Some last"
      "(k', rows) \<in> set (fst (npm_pages page n (Suc k) (seq_to_int last) (if m < seq_to_int last then seq_to_int last else m)))"
      using 2(4) rows by (cases "cp_results ?p") (auto simp: Let_def split: if_splits prod.splits)
    have "c \<le> seq_to_int last" using rows l(1,3) 2(3) by (cases "cp_results ?p") auto
    then show ?thesis using 2(1) [OF refl l(1) refl refl l(2)] 2(2,5) l by (simp split: if_splits)
  qed
qed simp

lemma safe_seq_below: "q \<in> set blockers \<Longrightarrow> safe_seq blockers m < q"
  by (auto simp: safe_seq_def intro: less_le_trans [OF _ Min_le]) (smt (verit) List.finite_set Min_le)

text \<open>What \<open>hold_back\<close> does with an unresolved name: it is given up or the cursor is held before it.\<close>

lemma hold_back_att:
  "hold_back mx seqs ns att = (att', blockers, given) \<Longrightarrow> n \<notin> set ns \<Longrightarrow> dict_get att' n = dict_get att n"
  by (induction mx seqs ns att arbitrary: att' blockers given rule: hold_back.induct)
    (auto simp: Let_def split: prod.splits if_splits option.splits)

lemma hold_back_given: "hold_back mx seqs ns att = (att', blockers, given) \<Longrightarrow> set given \<subseteq> set ns"
  by (induction mx seqs ns att arbitrary: att' blockers given rule: hold_back.induct)
    (fastforce simp: Let_def split: prod.splits if_splits option.splits)+

lemma hold_back_outcome:
  "hold_back mx seqs ns att = (att', blockers, given) \<Longrightarrow> distinct ns \<Longrightarrow> n \<in> set ns \<Longrightarrow> dict_get seqs n = Some q \<Longrightarrow>
     (mx \<le> Suc (get_or 0 (dict_get att n))) \<or>
     (n \<notin> set given \<and> q \<in> set blockers \<and> dict_get att' n = Some (Suc (get_or 0 (dict_get att n))) \<and>
      Suc (get_or 0 (dict_get att n)) < mx)"
proof (induction mx seqs ns att arbitrary: att' blockers given rule: hold_back.induct)
  case (2 mx seqs m ns att)
  obtain att1 bl1 gv1 where r: "hold_back mx seqs ns (dict_put m (Suc (get_or 0 (dict_get att m))) att) = (att1, bl1, gv1)"
    by (metis prod_cases3)
  note ih = 2(1) [OF refl r]
  have gs: "set gv1 \<subseteq> set ns" by (rule hold_back_given [OF r])
  show ?case
  proof (cases "n = m")
    case True
    then have a: "dict_get att1 n = Some (Suc (get_or 0 (dict_get att n)))" using hold_back_att [OF r, of n] 2(3) by simp
    show ?thesis using 2(2,3,5) r a True gs by (auto simp: Let_def split: if_splits)
  next
    case False
    then have "n \<in> set ns" "distinct ns" using 2(3,4) by auto
    note ih' = ih [OF this(2,1) 2(5)]
    show ?thesis using ih' 2(2) r False by (auto simp: Let_def split: if_splits option.splits)
  qed
qed simp

abbreviation poll_pages where
  "poll_pages io c \<equiv> npm_pages (io_page io) max_pages_per_poll 0 c c"

abbreviation poll_gate where
  "poll_gate cfg e io c \<equiv> gate_pages e (nc_anomaly_gate cfg) (io_snap io) (fst (poll_pages io c))"

abbreviation poll_resolved where
  "poll_resolved cfg e io c \<equiv> List.map_filter (resolve_latest (io_latest io)) (io_order io (map fst (ng_gated (poll_gate cfg e io c))))"

lemma npm_poll_parts:
  assumes "npm_poll cfg e ee io st rs = Inr (st', rs')" and "ns_cursor st = Some c"
  obtains rs1 hits att blockers given where
    "enqueue_all ee ''npm'' (map (npm_priority (ng_gated (poll_gate cfg e io c))) (poll_resolved cfg e io c)) rs = Inr rs1"
    and "enqueue_all ee ''npm'' hits rs1 = Inr rs'"
    and "hold_back (nc_resolve_max cfg) (ng_seq (poll_gate cfg e io c))
      (filter (\<lambda>n. n \<notin> set (map fst (poll_resolved cfg e io c))) (map fst (ng_gated (poll_gate cfg e io c)))) (ns_attempts st)
      = (att, blockers, given)"
    and "ns_cursor st' = Some (if c < safe_seq blockers (snd (poll_pages io c)) then safe_seq blockers (snd (poll_pages io c)) else c)"
    and "ns_attempts st' = settle_attempts cfg (ng_seq (poll_gate cfg e io c)) (map fst (poll_resolved cfg e io c) @ given) att"
proof -
  obtain pages m where p: "poll_pages io c = (pages, m)" by fastforce
  show thesis
    using assms that unfolding npm_poll_def Let_def p
    by (auto simp: p Let_def split: prod.splits sum.splits)
qed

lemma resolved_name: "(n, v, h) \<in> set (List.map_filter (resolve_latest latest) ns) \<Longrightarrow> n \<in> set ns"
  by (auto simp: in_map_filter resolve_latest_def split: option.splits if_splits)

lemma settle_attempts_keeps:
  "n \<notin> set finished \<Longrightarrow> dict_get seqs n \<noteq> None \<Longrightarrow> dict_get (settle_attempts cfg seqs finished att) n = dict_get att n"
proof -
  have "dict_get (filter (\<lambda>(n, a). P n) att) n = dict_get att n" if "P n" for P :: "string \<Rightarrow> bool" and att :: "(string \<times> nat) list"
    using that by (induction att) (auto simp: dict_get_def)
  then show "n \<notin> set finished \<Longrightarrow> dict_get seqs n \<noteq> None \<Longrightarrow> dict_get (settle_attempts cfg seqs finished att) n = dict_get att n"
    by (simp add: settle_attempts_def Let_def del: filter_filter)
qed

section \<open>Properties\<close>


text \<open>A feed with one change after \<open>q\<close>, of a package whose manifest is \<open>latest\<close>.\<close>

definition demo_change :: "string \<Rightarrow> int \<Rightarrow> change_row" where
  "demo_change name q = \<lparr>cr_id = name, cr_deleted = False, cr_seq = Some (JInt q)\<rparr>"

definition demo_npm_io :: "(string \<Rightarrow> npm_manifest option) \<Rightarrow> npm_io" where
  "demo_npm_io latest = \<lparr>io_page = (\<lambda>k since. if since < 7 then \<lparr>cp_results = [demo_change ''evil'' 7], cp_last_seq = Some (JInt 7)\<rparr>
      else \<lparr>cp_results = [], cp_last_seq = Some (JInt since)\<rparr>), io_snap = (\<lambda>_. demo_gate_db), io_latest = latest,
     io_packument = (\<lambda>_. None), io_update_seq = None, io_order = rev, io_known_bad = {}\<rparr>"

definition demo_npm_state :: npm_state where
  "demo_npm_state = \<lparr>ns_cursor = Some 3, ns_attempts = [], ns_carry = []\<rparr>"

definition demo_npm_cfg :: npm_cfg where
  "demo_npm_cfg = default_npm_cfg\<lparr>nc_carry_max := 4, nc_attempts_cap := 4\<rparr>"

lemma demo_passes: "passes_gate demo_gate_env demo_gate_db (demo_change ''evil'' 7)"
  by code_simp

text \<open>A package whose manifest cannot be read yet is held.\<close>

lemma demo_poll: "npm_poll demo_npm_cfg demo_gate_env (demo_enq (\<lambda>_ _. None)) (demo_npm_io (\<lambda>_. None)) demo_npm_state [] =
    Inr (\<lparr>ns_cursor = Some 6, ns_attempts = [(''evil'', 1)], ns_carry = []\<rparr>, [])"
  by code_simp


text \<open>The exception in the theorem is real: \<open>enqueue\<close> gives up after its retries without an error, and the poller,
  which does not look at that, moves on. Nothing holds the package.\<close>

lemma npm_deadlock_loses:
  "npm_poll demo_npm_cfg demo_gate_env (demo_enq (\<lambda>_ _. Some ''deadlock detected''))
     (demo_npm_io (\<lambda>_. Some \<lparr>mf_version = Some ''1.0.0'', mf_scripts = None\<rparr>)) demo_npm_state [] =
   Inr (\<lparr>ns_cursor = Some 7, ns_attempts = [], ns_carry = []\<rparr>, [])"
  by code_simp

lemma take_drop_length: "take n xs @ drop (length (take n xs)) xs = xs"
  by (cases "n \<le> length xs") (auto simp: min_def)

text \<open>The backlog of the anomaly gate is bounded and fair. Of the carried-over and the new candidates a poll checks at
  most \<open>nc_max_checks\<close>, oldest carried ones first and at most half of the checks; at least the other half is
  left for new ones; the backlog never exceeds its capacity; every candidate is checked or carried over
  as long as no more than both capacities together are waiting; and a carried name moves up by the number
  of carried names checked, so it is reached after finitely many polls.\<close>

theorem npm_anomaly_backlog:
  assumes "anomaly_split cfg carried candidates = (names, carry)"
  shows "length names \<le> nc_max_checks cfg \<and> length carry \<le> nc_carry_max cfg \<and>
    set names \<union> set carry \<subseteq> set carried \<union> set candidates \<and>
    prefix (take (nc_max_checks cfg div 2) carried) names \<and>
    (length carried + length (filter (\<lambda>n. n \<notin> set carried) candidates) \<le> length names + nc_carry_max cfg \<longrightarrow>
      set names \<union> set carry = set carried \<union> set candidates \<and>
      (\<forall>i. nc_max_checks cfg div 2 \<le> i \<and> i < length carried \<longrightarrow> carry ! (i - nc_max_checks cfg div 2) = carried ! i)) \<and>
    (length names < nc_max_checks cfg \<longrightarrow> set candidates \<subseteq> set carried \<union> set names)"
proof -
  let ?q = "nc_max_checks cfg div 2" and ?fresh = "filter (\<lambda>n. n \<notin> set carried) candidates"
  let ?tc = "take ?q carried"
  let ?tf = "take (nc_max_checks cfg - length ?tc) ?fresh"
  let ?def = "drop (length ?tc) carried @ drop (length ?tf) ?fresh"
  have names: "names = ?tc @ ?tf" and carry: "carry = drop (length ?def - nc_carry_max cfg) ?def"
    using assms unfolding anomaly_split_def Let_def prod.inject by simp_all
  have q: "length ?tc \<le> nc_max_checks cfg" by simp
  have split_c: "?tc @ drop (length ?tc) carried = carried" by (rule take_drop_length)
  have split_f: "?tf @ drop (length ?tf) ?fresh = ?fresh" by (rule take_drop_length)
  have sets: "set names \<union> set ?def = set carried \<union> set candidates"
  proof -
    have "set names \<union> set ?def = set (?tc @ drop (length ?tc) carried) \<union> set (?tf @ drop (length ?tf) ?fresh)" by (auto simp: names)
    then show ?thesis unfolding split_c split_f by auto
  qed
  have len: "length names + length ?def = length carried + length ?fresh"
    using arg_cong [OF split_c, of length] arg_cong [OF split_f, of length] by (simp add: names)
  have sub: "set carry \<subseteq> set ?def" unfolding carry by (rule set_drop_subset)
  have all: "carry = ?def" if "length carried + length ?fresh \<le> length names + nc_carry_max cfg"
  proof -
    have "length ?def - nc_carry_max cfg = 0" using that len by linarith
    then show ?thesis unfolding carry by (simp only: drop_0)
  qed
  have shift: "?def ! (i - ?q) = carried ! i" if "?q \<le> i" "i < length carried" for i
  proof -
    have "i - ?q < length carried - ?q" using that by linarith
    then show ?thesis using that by (simp add: nth_append min_def)
  qed
  have fresh: "set candidates \<subseteq> set carried \<union> set names" if "length names < nc_max_checks cfg"
  proof -
    have "length ?tf < nc_max_checks cfg - length ?tc" using that by (simp add: names)
    then have "length ?fresh \<le> nc_max_checks cfg - length ?tc" unfolding length_take by linarith
    then have "?tf = ?fresh" by (rule take_all)
    then show ?thesis by (auto simp: names)
  qed
  have "length names \<le> nc_max_checks cfg" by (simp add: names)
  moreover have "length carry \<le> nc_carry_max cfg" unfolding carry length_drop by linarith
  moreover have "prefix ?tc names" by (simp add: names)
  ultimately show ?thesis using sets sub all shift fresh by (metis (no_types, lifting) Un_mono order_refl)
qed

theorem npm_anomaly_backlog_witness:
  "anomaly_split (demo_npm_cfg\<lparr>nc_max_checks := 2\<rparr>) [''a'', ''b'', ''c''] [''d'', ''e''] = ([''a'', ''d''], [''b'', ''c'', ''e'']) \<and>
   length [''b'', ''c'', ''e''] \<le> nc_carry_max demo_npm_cfg"
proof -
  have s: "anomaly_split (demo_npm_cfg\<lparr>nc_max_checks := 2\<rparr>) [''a'', ''b'', ''c''] [''d'', ''e''] = ([''a'', ''d''], [''b'', ''c'', ''e''])"
    by code_simp
  then show ?thesis using npm_anomaly_backlog [OF s] by (simp add: demo_npm_cfg_def)
qed

text \<open>A candidate whose packument cannot be fetched is neither a hit nor carried over.\<close>

lemma failed_packument_drops_candidate:
  "check_anomalies cfg known_bad (\<lambda>_. None) [] [n] = ([], []) \<or> nc_max_checks cfg = 0"
  by (cases "nc_max_checks cfg") (auto simp: check_anomalies_def anomaly_split_def anomaly_hit_def Let_def List.map_filter_def)

end
