(* ===== verification/GomodCursor.thy ===== *)
theory GomodCursor
  imports Ingest Metadata
begin

text \<open>
  Discovery of Go modules: \<^verbatim>\<open>ecosystems/gomod/ingest/cursor.py\<close>. The pages of the module index, by their number and
  the time they are asked for, and the tables each page sees are arguments; a cursor is a time in microseconds.
  The loops over the pages need not end: \<^const>\<open>None\<close> is a call that does not return.
\<close>

section \<open>Versions and times\<close>

definition is_hex :: "char \<Rightarrow> bool" where
  "is_hex c = (is_digit c \<or> (97 \<le> (of_char c :: nat) \<and> (of_char c :: nat) \<le> 102))"

text \<open>\<^verbatim>\<open>\d{14}-[0-9a-f]{12}(\+incompatible)?$\<close>; the dollar also matches before a final line feed.\<close>

definition is_pseudo_version :: "string \<Rightarrow> bool" where
  "is_pseudo_version version =
    (let v = (if suffix [CHR 10] version then butlast version else version);
         u = (if suffix ''+incompatible'' v then take (length v - length ''+incompatible'') v else v);
         n = length u
     in 27 \<le> n \<and> list_all is_hex (drop (n - 12) u) \<and> u ! (n - 13) = CHR ''-'' \<and>
        list_all is_digit (take 14 (drop (n - 27) u)))"

text \<open>\<^verbatim>\<open>datetime.fromisoformat\<close> on the form that RFC 3339 has: a calendar date, any separator, a time with seconds and
  an optional fraction, cut to microseconds, and an offset. \<^const>\<open>None\<close> is \<^verbatim>\<open>ValueError\<close>; shorter forms, which
  the index does not send, are not modelled.\<close>

definition num_at :: "nat \<Rightarrow> nat \<Rightarrow> string \<Rightarrow> int option" where
  "num_at i n s = (let t = take n (drop i s) in
     if length t = n \<and> py_digits t then Some (int (digits_value t)) else None)"

definition is_leap :: "int \<Rightarrow> bool" where
  "is_leap y = (y mod 4 = 0 \<and> (y mod 100 \<noteq> 0 \<or> y mod 400 = 0))"

definition month_days :: "int \<Rightarrow> int list" where
  "month_days y = [31, if is_leap y then 29 else 28, 31, 30, 31, 30, 31, 31, 30, 31, 30, 31]"

definition epoch_days :: "int \<Rightarrow> int \<Rightarrow> int \<Rightarrow> int option" where
  "epoch_days y m d =
    (if 1 \<le> y \<and> 1 \<le> m \<and> m \<le> 12 \<and> 1 \<le> d \<and> d \<le> month_days y ! nat (m - 1)
     then Some (365 * (y - 1) + (y - 1) div 4 - (y - 1) div 100 + (y - 1) div 400 +
       sum_list (take (nat (m - 1)) (month_days y)) + d - 719163)
     else None)"

definition clock_secs :: "int \<Rightarrow> int \<Rightarrow> int \<Rightarrow> int option" where
  "clock_secs h m s = (if h < 24 \<and> m < 60 \<and> s < 60 then Some (h * 3600 + m * 60 + s) else None)"

text \<open>Sign, hours and minutes, and seconds if there are more characters.\<close>

definition offset_secs :: "string \<Rightarrow> int option" where
  "offset_secs s =
    (if s = [] \<or> hd s \<notin> {CHR ''+'', CHR ''-''} then None
     else (case (num_at 1 2 s, num_at 4 2 s, if length s = 6 then Some 0 else num_at 7 2 s) of
       (Some h, Some m, Some sec) \<Rightarrow>
         (if s ! 3 = CHR '':'' \<and> (length s = 6 \<or> length s = 9 \<and> s ! 6 = CHR '':'')
          then map_option (\<lambda>n. if hd s = CHR ''-'' then - n else n) (clock_secs h m sec) else None)
     | _ \<Rightarrow> None))"

definition fraction :: "string \<Rightarrow> int \<times> string" where
  "fraction s =
    (if s \<noteq> [] \<and> hd s \<in> {CHR ''.'', CHR '',''} \<and> takeWhile is_digit (tl s) \<noteq> []
     then (int (digits_value (take 6 (takeWhile is_digit (tl s) @ ''000000''))), dropWhile is_digit (tl s)) else (0, s))"

definition from_iso :: "string \<Rightarrow> int option" where
  "from_iso s =
    (case (num_at 0 4 s, num_at 5 2 s, num_at 8 2 s, num_at 11 2 s, num_at 14 2 s, num_at 17 2 s) of
       (Some y, Some mo, Some d, Some h, Some mi, Some sec) \<Rightarrow>
         (let (frac, rest) = fraction (drop 19 s) in
          if s ! 4 = CHR ''-'' \<and> s ! 7 = CHR ''-'' \<and> s ! 13 = CHR '':'' \<and> s ! 16 = CHR '':''
          then (case (epoch_days y mo d, clock_secs h mi sec, offset_secs rest) of
                  (Some dn, Some secs, Some off) \<Rightarrow> Some ((dn * 86400 + secs - off) * 1000000 + frac)
                | _ \<Rightarrow> None)
          else None)
     | _ \<Rightarrow> None)"

text \<open>\<^verbatim>\<open>int(dt.timestamp() * 1_000_000)\<close>: from 2005 to 2038 a double holds seconds to 22 and microseconds to 2 binary
  places, each rounded to the nearest, ties to even.\<close>

definition round_half_even :: "int \<Rightarrow> int \<Rightarrow> int" where
  "round_half_even num den =
    (let q = num div den; r = num mod den in
     if 2 * r < den then q else if den < 2 * r then q + 1 else if even q then q else q + 1)"

definition float_micros :: "int \<Rightarrow> int" where
  "float_micros us =
    (let sec = round_half_even (us * 2 ^ 22) 1000000 in round_half_even (sec * 1000000) (2 ^ 20) div 4)"

definition ts_to_cursor :: "string \<Rightarrow> int option" where
  "ts_to_cursor stamp =
    (let ts = rstrip_by (\<lambda>c. c = CHR ''Z'') stamp;
         ts1 = (if CHR ''+'' \<notin> set ts \<and> CHR ''-'' \<notin> set (drop 11 ts) then ts @ ''+00:00'' else ts)
     in map_option float_micros (from_iso ts1))"

section \<open>One entry of a page\<close>

datatype gomod_read =
    Broken string
  | Skipped
  | Pseudo int
  | Module string string int

text \<open>Reading the fields; an \<^verbatim>\<open>AttributeError\<close> or \<^verbatim>\<open>TypeError\<close> leaves the loop.\<close>

definition read_entry :: "bool \<Rightarrow> json \<Rightarrow> gomod_read" where
  "read_entry scan_pseudo entry =
    (case entry of
       JObj d \<Rightarrow>
         (let path = get_or (JStr []) (jget d ''Path''); ver = get_or (JStr []) (jget d ''Version'');
              ts = get_or (JStr []) (jget d ''Timestamp'')
          in if \<not> jtruthy path \<or> \<not> jtruthy ver \<or> \<not> jtruthy ts then Skipped
             else (case ts of
                 JStr t \<Rightarrow>
                   (case ts_to_cursor t of None \<Rightarrow> Skipped
                    | Some c \<Rightarrow>
                      (case jstr_of ver of None \<Rightarrow> Broken ''TypeError''
                       | Some v \<Rightarrow>
                           (if \<not> scan_pseudo \<and> is_pseudo_version v then Pseudo c
                            else (case jstr_of path of None \<Rightarrow> Broken ''AttributeError'' | Some p \<Rightarrow> Module p v c))))
               | _ \<Rightarrow> Broken ''AttributeError''))
     | _ \<Rightarrow> Broken ''AttributeError'')"

record gomod_env =
  gx_gate :: gate_env
  gx_db :: "nat \<Rightarrow> gate_db"
  gx_fetch :: "nat \<Rightarrow> int \<Rightarrow> json list"
  gx_enq :: enq_env
  gx_scan_pseudo :: bool
  gx_limit :: nat

record gomod_st =
  gs_rows :: scan_rows
  gs_max :: int
  gs_held :: "int option"
  gs_count :: nat

definition gomod_watched :: "gate_env \<Rightarrow> gate_db \<Rightarrow> string \<Rightarrow> bool" where
  "gomod_watched e d name \<longleftrightarrow> watch_rank_ci ''gomod'' name (gd_watch d) \<noteq> None \<or> scope_watched e ''gomod'' d name"

text \<open>\<^verbatim>\<open>enqueue\<close> on the state of the poll; \<open>hold\<close> when its result \<^verbatim>\<open>None\<close> holds the cursor.\<close>

definition gomod_enqueue :: "gomod_env \<Rightarrow> bool \<Rightarrow> int \<Rightarrow> string \<Rightarrow> string \<Rightarrow> priority \<Rightarrow> gomod_st \<Rightarrow> string + gomod_st" where
  "gomod_enqueue e hold c path ver prio st =
    (case enqueue1 (gx_enq e) ''gomod'' path ver prio (gs_rows st) of
       (rs, Inl msg) \<Rightarrow> Inl msg
     | (rs, Inr (Some row)) \<Rightarrow> Inr (st\<lparr>gs_rows := rs, gs_count := Suc (gs_count st)\<rparr>)
     | (rs, Inr None) \<Rightarrow> Inr (st\<lparr>gs_rows := rs,
         gs_held := (if hold then (case gs_held st of None \<Rightarrow> Some c | Some h \<Rightarrow> Some (if c < h then c else h))
                     else gs_held st)\<rparr>))"

definition advance :: "int \<Rightarrow> gomod_st \<Rightarrow> gomod_st" where
  "advance c st = (if gs_max st < c then st\<lparr>gs_max := c\<rparr> else st)"

definition gomod_row :: "gomod_env \<Rightarrow> gate_db \<Rightarrow> json \<Rightarrow> gomod_st \<Rightarrow> string + gomod_st" where
  "gomod_row e d entry st =
    (case read_entry (gx_scan_pseudo e) entry of
       Broken msg \<Rightarrow> Inl msg
     | Skipped \<Rightarrow> Inr st
     | Pseudo c \<Rightarrow> Inr (advance c st)
     | Module path ver c \<Rightarrow>
         (let st1 = advance c st; foc = focus_hit ''gomod'' d path in
          if focus_exclusive (ge_focus_mode (gx_gate e))
          then (if foc then gomod_enqueue e False c path ver High st1 else Inr st1)
          else if foc \<or> gomod_watched (gx_gate e) d path then gomod_enqueue e False c path ver High st1
          else if known_package ''gomod'' path (d\<lparr>gd_queue := gs_rows st\<rparr>) then Inr st1
          else gomod_enqueue e True c path ver Normal st1))"

fun gomod_rows :: "gomod_env \<Rightarrow> gate_db \<Rightarrow> json list \<Rightarrow> gomod_st \<Rightarrow> string + gomod_st" where
  "gomod_rows e d [] st = Inr st"
| "gomod_rows e d (x # xs) st = (case gomod_row e d x st of Inl msg \<Rightarrow> Inl msg | Inr st1 \<Rightarrow> gomod_rows e d xs st1)"

section \<open>One poll\<close>

text \<open>The guard against a full page with a single time.\<close>

definition unstall :: "int \<Rightarrow> gomod_st \<Rightarrow> gomod_st" where
  "unstall since st = (if gs_max st = since then st\<lparr>gs_max := gs_max st + 1\<rparr> else st)"

partial_function (option) gomod_loop :: "gomod_env \<Rightarrow> nat \<Rightarrow> int \<Rightarrow> gomod_st \<Rightarrow> (string + gomod_st) option" where
  "gomod_loop e n since st =
    (let entries = gx_fetch e n since in
     if entries = [] then Some (Inr st)
     else (case gomod_rows e (gx_db e n) entries st of
         Inl msg \<Rightarrow> Some (Inl msg)
       | Inr st1 \<Rightarrow>
           (if length entries < gx_limit e then Some (Inr st1)
            else gomod_loop e (Suc n) (gs_max (unstall since st1)) (unstall since st1))))"

text \<open>The cursor after the poll, the queue and the number of enqueued versions. A missing cursor starts at \<open>now\<close>.\<close>

definition final_cursor :: "int \<Rightarrow> gomod_st \<Rightarrow> int" where
  "final_cursor cursor st =
    (let f = (case gs_held st of None \<Rightarrow> gs_max st | Some h \<Rightarrow> min (gs_max st) (h - 1)) in if cursor < f then f else cursor)"

definition gomod_poll :: "gomod_env \<Rightarrow> int option \<Rightarrow> scan_rows \<Rightarrow> (string + int \<times> scan_rows \<times> nat) option" where
  "gomod_poll e stored rs =
    (let cursor = (case stored of None \<Rightarrow> ge_now (gx_gate e) | Some c \<Rightarrow> c) in
     map_option (map_sum id (\<lambda>st. (final_cursor cursor st, gs_rows st, gs_count st)))
       (gomod_loop e 0 cursor \<lparr>gs_rows = rs, gs_max = cursor, gs_held = None, gs_count = 0\<rparr>))"

section \<open>Backfill\<close>

text \<open>\<^verbatim>\<open>pull_since_beginning\<close> has its own copy of the loop: a malformed time is not caught, no focus, no hold, no guard.\<close>

definition drain_read :: "bool \<Rightarrow> json \<Rightarrow> gomod_read" where
  "drain_read scan_pseudo entry =
    (case read_entry scan_pseudo entry of
       Skipped \<Rightarrow>
         (case entry of JObj d \<Rightarrow>
            (if list_all (\<lambda>k. jtruthy (get_or (JStr []) (jget d k))) [''Path'', ''Version'', ''Timestamp'']
             then Broken ''ValueError'' else Skipped)
          | _ \<Rightarrow> Skipped)
     | r \<Rightarrow> r)"

definition drain_row :: "gomod_env \<Rightarrow> gate_db \<Rightarrow> json \<Rightarrow> gomod_st \<Rightarrow> string + gomod_st" where
  "drain_row e d entry st =
    (case drain_read (gx_scan_pseudo e) entry of
       Broken msg \<Rightarrow> Inl msg
     | Skipped \<Rightarrow> Inr st
     | Pseudo c \<Rightarrow> Inr (advance c st)
     | Module path ver c \<Rightarrow>
         (let st1 = advance c st in
          if gomod_watched (gx_gate e) d path then gomod_enqueue e False c path ver High st1
          else if known_package ''gomod'' path (d\<lparr>gd_queue := gs_rows st\<rparr>) then Inr st1
          else gomod_enqueue e False c path ver Normal st1))"

fun drain_rows :: "gomod_env \<Rightarrow> gate_db \<Rightarrow> json list \<Rightarrow> gomod_st \<Rightarrow> string + gomod_st" where
  "drain_rows e d [] st = Inr st"
| "drain_rows e d (x # xs) st = (case drain_row e d x st of Inl msg \<Rightarrow> Inl msg | Inr st1 \<Rightarrow> drain_rows e d xs st1)"

partial_function (option) gomod_drain :: "gomod_env \<Rightarrow> nat \<Rightarrow> int \<Rightarrow> gomod_st \<Rightarrow> (string + gomod_st) option" where
  "gomod_drain e n since st =
    (let entries = gx_fetch e n since in
     if entries = [] then Some (Inr st)
     else (case drain_rows e (gx_db e n) entries st of
         Inl msg \<Rightarrow> Some (Inl msg)
       | Inr st1 \<Rightarrow> (if length entries < gx_limit e then Some (Inr st1) else gomod_drain e (Suc n) (gs_max st1) st1)))"

text \<open>The stored cursor after the backfill, the queue and the number of enqueued versions.\<close>

definition pull_since_beginning :: "gomod_env \<Rightarrow> int \<Rightarrow> int option \<Rightarrow> scan_rows \<Rightarrow> (string + int option \<times> scan_rows \<times> nat) option" where
  "pull_since_beginning e n_days stored rs =
    (let start = ge_now (gx_gate e) - days n_days in
     map_option (map_sum id (\<lambda>st. (if start < gs_max st then Some (gs_max st) else stored, gs_rows st, gs_count st)))
       (gomod_drain e 0 start \<lparr>gs_rows = rs, gs_max = start, gs_held = None, gs_count = 0\<rparr>))"

section \<open>Lemmas\<close>

text \<open>Going through doubles loses no microsecond.\<close>

lemma round_half_even_near:
  assumes "0 < den" "2 * \<bar>num - q * den\<bar> < den"
  shows "round_half_even num den = q"
proof (cases "0 \<le> num - q * den")
  case True
  then have "num = q * den + (num - q * den)" "num - q * den < den" using assms by auto
  then have "num div den = q" "num mod den = num - q * den" using True
    by (metis assms(1) div_mult_self3 div_pos_pos_trivial add_0 add.commute less_irrefl, metis True mod_mult_self3 mod_pos_pos_trivial)
  then show ?thesis using assms True by (simp add: round_half_even_def Let_def)
next
  case False
  have n: "num = (q - 1) * den + (num - (q - 1) * den)" "0 \<le> num - (q - 1) * den" "num - (q - 1) * den < den"
    using False assms by (auto simp: algebra_simps)
  then have "num div den = q - 1" "num mod den = num - (q - 1) * den"
    by (metis div_mult_self3 div_pos_pos_trivial add_0 add.commute less_irrefl assms(1), metis mod_mult_self3 mod_pos_pos_trivial)
  then show ?thesis using assms False by (auto simp: round_half_even_def Let_def algebra_simps)
qed

lemma float_micros_exact: "float_micros us = us"
proof -
  let ?sec = "round_half_even (us * 2 ^ 22) 1000000"
  let ?q = "us * 2 ^ 22 div 1000000" and ?r = "us * 2 ^ 22 mod 1000000"
  have q: "us * 4194304 = ?q * 1000000 + ?r" "0 \<le> ?r" "?r < 1000000"
    using div_mult_mod_eq [of "us * 2 ^ 22" 1000000] by simp_all
  have "2 * \<bar>?sec * 1000000 - us * 4194304\<bar> \<le> 1000000"
    using q unfolding round_half_even_def Let_def by (auto simp: algebra_simps)
  then have "2 * \<bar>?sec * 1000000 - (us * 4) * 1048576\<bar> < 1048576" by simp
  then have "round_half_even (?sec * 1000000) (2 ^ 20) = us * 4" using round_half_even_near [of "2 ^ 20" "?sec * 1000000" "us * 4"] by simp
  then show ?thesis by (simp add: float_micros_def Let_def)
qed

text \<open>The entries of a page are applied in order; each moves the greatest time up, the held time down, and keeps the
  rows of the queue.\<close>

definition gs_le :: "gomod_st \<Rightarrow> gomod_st \<Rightarrow> bool" where
  "gs_le s t \<longleftrightarrow> gs_max s \<le> gs_max t \<and> sq_key ` set (gs_rows s) \<subseteq> sq_key ` set (gs_rows t) \<and>
     (\<forall>h. gs_held s = Some h \<longrightarrow> (\<exists>h'. gs_held t = Some h' \<and> h' \<le> h))"

lemma gs_le_refl [simp]: "gs_le s s"
  by (simp add: gs_le_def)

lemma gs_le_trans: "gs_le s t \<Longrightarrow> gs_le t u \<Longrightarrow> gs_le s u"
  unfolding gs_le_def by (meson order_trans subset_trans)

lemma advance_le: "gs_le st (advance c st)" "c \<le> gs_max (advance c st)"
  by (auto simp: advance_def gs_le_def)

lemma advance_simps [simp]: "gs_rows (advance c st) = gs_rows st" "gs_held (advance c st) = gs_held st"
  by (simp_all add: advance_def)

lemma gomod_enqueue_le:
  assumes "keys_grow (gx_enq e)" "gomod_enqueue e hold c path ver prio st = Inr st'"
  shows "gs_le st st'"
  using assms enqueue1_keys [OF assms(1), of "gs_rows st" "''gomod''" path ver prio]
  by (auto simp: gomod_enqueue_def gs_le_def split: prod.splits sum.splits option.splits)

lemma gomod_row_le: "keys_grow (gx_enq e) \<Longrightarrow> gomod_row e d x st = Inr st' \<Longrightarrow> gs_le st st'"
  using advance_le(1) gs_le_trans gomod_enqueue_le
  by (fastforce simp: gomod_row_def Let_def split: gomod_read.splits if_splits)

lemma gomod_rows_le: "keys_grow (gx_enq e) \<Longrightarrow> gomod_rows e d xs st = Inr st' \<Longrightarrow> gs_le st st'"
proof (induction e d xs st rule: gomod_rows.induct)
  case (2 e d x xs st)
  then show ?case using gomod_row_le gs_le_trans by (fastforce split: sum.splits)
qed simp

lemma unstall_le: "gs_le st (unstall since st)"
  by (simp add: unstall_def gs_le_def)

text \<open>What enqueueing does for a module: it is in the queue or the cursor is held.\<close>

lemma enqueue1_none_held:
  assumes "gomod_enqueue e True c path ver prio st = Inr st'"
  shows "(''gomod'', path, ver) \<in> sq_key ` set (gs_rows st') \<or> (\<exists>h. gs_held st' = Some h \<and> h \<le> c)"
  using assms enqueue1_some [of "gx_enq e" "''gomod''" path ver prio "gs_rows st"]
  by (auto simp: gomod_enqueue_def split: prod.splits sum.splits option.splits if_splits)

lemma gomod_enqueue_present:
  assumes "gomod_enqueue e hold c path ver prio st = Inr st'" "ee_fault (gx_enq e) path 0 = None"
  shows "(''gomod'', path, ver) \<in> sq_key ` set (gs_rows st')"
  using assms enqueue1_present [OF assms(2), of "''gomod''" ver prio "gs_rows st"]
  by (auto simp: gomod_enqueue_def split: prod.splits sum.splits option.splits)

lemma known_mono:
  assumes "sq_key ` set rs \<subseteq> sq_key ` set rs'" "known_package eco name (d\<lparr>gd_queue := rs\<rparr>)"
  shows "known_package eco name (d\<lparr>gd_queue := rs'\<rparr>)"
proof -
  have q: "list_ex (\<lambda>r. sq_ecosystem r = eco \<and> lower (sq_name r) = lower name) rs \<longleftrightarrow>
    (\<exists>k \<in> sq_key ` set rs. fst k = eco \<and> lower (fst (snd k)) = lower name)" for rs by (auto simp: list_ex_iff sq_key_def)
  have "known_package eco name (d\<lparr>gd_queue := rs\<rparr>) \<longleftrightarrow> list_ex (\<lambda>p. pk_ecosystem p = eco \<and> lower (pk_name p) = lower name) (gd_packages d) \<or>
    (\<exists>k \<in> sq_key ` set rs. fst k = eco \<and> lower (fst (snd k)) = lower name)" for rs by (simp add: known_package_def q)
  then show ?thesis using assms by (meson subsetD)
qed

lemma known_key: "(eco, name, ver) \<in> sq_key ` set rs \<Longrightarrow> known_package eco name (d\<lparr>gd_queue := rs\<rparr>)"
  by (auto simp: known_package_def list_ex_iff sq_key_def)

text \<open>What the state must say about an entry that has been read: its version is in the queue if it is monitored and
  the database raised no error for it; a module that nobody monitors is known, or held.\<close>

definition gomod_kept :: "gomod_env \<Rightarrow> gate_db \<Rightarrow> string \<Rightarrow> string \<Rightarrow> int \<Rightarrow> gomod_st \<Rightarrow> bool" where
  "gomod_kept e d path ver c st \<longleftrightarrow>
    (let excl = focus_exclusive (ge_focus_mode (gx_gate e)); foc = focus_hit ''gomod'' d path; wl = gomod_watched (gx_gate e) d path in
     ((foc \<or> \<not> excl \<and> wl) \<longrightarrow> ee_fault (gx_enq e) path 0 = None \<longrightarrow> (''gomod'', path, ver) \<in> sq_key ` set (gs_rows st)) \<and>
     (\<not> excl \<and> \<not> foc \<and> \<not> wl \<longrightarrow>
        known_package ''gomod'' path (d\<lparr>gd_queue := gs_rows st\<rparr>) \<or> (\<exists>h. gs_held st = Some h \<and> h \<le> c)))"

lemma gomod_kept_mono: "gomod_kept e d path ver c st \<Longrightarrow> gs_le st st' \<Longrightarrow> gomod_kept e d path ver c st'"
  unfolding gomod_kept_def Let_def gs_le_def using known_mono by (meson order_trans subset_iff)

lemma gomod_row_kept:
  assumes "gomod_row e d x st = Inr st'" "read_entry (gx_scan_pseudo e) x = Module path ver c"
  shows "gomod_kept e d path ver c st'"
proof (cases "focus_hit ''gomod'' d path \<or> \<not> focus_exclusive (ge_focus_mode (gx_gate e)) \<and> gomod_watched (gx_gate e) d path")
  case True
  then have "gomod_enqueue e False c path ver High (advance c st) = Inr st'"
    using assms by (auto simp: gomod_row_def Let_def split: if_splits)
  then show ?thesis using True gomod_enqueue_present by (auto simp: gomod_kept_def Let_def)
next
  case False
  show ?thesis
  proof (cases "focus_exclusive (ge_focus_mode (gx_gate e)) \<or> known_package ''gomod'' path (d\<lparr>gd_queue := gs_rows st\<rparr>)")
    case True
    then show ?thesis using False assms by (auto simp: gomod_row_def gomod_kept_def Let_def)
  next
    case new: False
    then have "gomod_enqueue e True c path ver Normal (advance c st) = Inr st'"
      using False assms by (auto simp: gomod_row_def Let_def split: if_splits)
    from enqueue1_none_held [OF this] show ?thesis
      using False known_key [of "''gomod''" path ver "gs_rows st'" d] unfolding gomod_kept_def Let_def by blast
  qed
qed

lemma gomod_rows_kept:
  assumes "keys_grow (gx_enq e)" "gomod_rows e d xs st = Inr st'" "x \<in> set xs" "read_entry (gx_scan_pseudo e) x = Module path ver c"
  shows "gomod_kept e d path ver c st'"
  using assms(2,3)
proof (induction xs arbitrary: st)
  case (Cons y ys)
  obtain st1 where st1: "gomod_row e d y st = Inr st1" "gomod_rows e d ys st1 = Inr st'" using Cons.prems(1) by (auto split: sum.splits)
  then show ?case
    using Cons gomod_kept_mono [OF gomod_row_kept [OF st1(1)] gomod_rows_le [OF assms(1) st1(2)]] assms(4) by auto
qed simp

text \<open>The requests of a poll: the number, the time asked for and the state when the page is applied.\<close>

inductive gomod_reads :: "gomod_env \<Rightarrow> nat \<Rightarrow> int \<Rightarrow> gomod_st \<Rightarrow> nat \<Rightarrow> int \<Rightarrow> gomod_st \<Rightarrow> bool" for e where
  gr_here: "gomod_reads e n since st n since st"
| gr_next: "gomod_reads e n since st m s' st'" if "gx_fetch e n since \<noteq> []" "gomod_rows e (gx_db e n) (gx_fetch e n since) st = Inr st1"
    "\<not> length (gx_fetch e n since) < gx_limit e" "gomod_reads e (Suc n) (gs_max (unstall since st1)) (unstall since st1) m s' st'"

lemma gomod_loop_le:
  "gomod_loop e n since st = Some r \<Longrightarrow> keys_grow (gx_enq e) \<longrightarrow> r = Inr st' \<longrightarrow> gs_le st st'"
proof (induction rule: gomod_loop.raw_induct [rotated, consumes 1])
  case (1 loop e n since st r)
  show ?case
  proof (cases "gx_fetch e n since = []")
    case False
    show ?thesis
    proof (cases "gomod_rows e (gx_db e n) (gx_fetch e n since) st")
      case (Inr st1)
      then have "keys_grow (gx_enq e) \<Longrightarrow> gs_le st (unstall since st1)" "keys_grow (gx_enq e) \<Longrightarrow> gs_le st st1"
        using gomod_rows_le unstall_le gs_le_trans by blast+
      then show ?thesis using 1 gs_le_trans False Inr by (auto simp: Let_def split: if_splits)
    qed (use 1(2) False in \<open>auto simp: Let_def\<close>)
  qed (use 1(2) in auto)
qed

lemma gomod_reads_loop:
  "gomod_reads e n since st m s' st1 \<Longrightarrow> gomod_loop e m s' st1 = gomod_loop e n since st"
proof (induction rule: gomod_reads.induct)
  case (gr_next n since st st1 m s' st')
  then show ?case by (subst (2) gomod_loop.simps) (simp add: Let_def)
qed simp

lemma gomod_reads_since:
  "gomod_reads e n since st m s' st1 \<Longrightarrow> keys_grow (gx_enq e) \<Longrightarrow> since \<le> gs_max st \<Longrightarrow> since \<le> s' \<and> s' \<le> gs_max st1"
proof (induction rule: gomod_reads.induct)
  case (gr_next n since st st1 m s' st')
  have "gs_le st (unstall since st1)" using gomod_rows_le [OF gr_next.prems(1) gr_next(2)] unstall_le gs_le_trans by blast
  then have "since \<le> gs_max (unstall since st1)" using gr_next.prems(2) by (simp add: gs_le_def)
  then show ?case using gr_next by simp
qed simp

text \<open>Times only grow within a page, and the guard makes every request ask for a later time than the one before.\<close>

lemma gomod_row_max: "gomod_row e d x st = Inr st' \<Longrightarrow> gs_max st \<le> gs_max st'"
  by (auto simp: gomod_row_def gomod_enqueue_def advance_def Let_def
      split: gomod_read.splits if_splits prod.splits sum.splits option.splits)

lemma gomod_rows_max: "gomod_rows e d xs st = Inr st' \<Longrightarrow> gs_max st \<le> gs_max st'"
proof (induction e d xs st rule: gomod_rows.induct)
  case (2 e d x xs st)
  then show ?case using gomod_row_max by (fastforce split: sum.splits)
qed simp

lemma next_since:
  assumes "gomod_rows e d xs st = Inr st1" "since \<le> gs_max st"
  shows "since + 1 \<le> gs_max (unstall since st1)"
  using gomod_rows_max [OF assms(1)] assms(2) by (auto simp: unstall_def)

lemma gomod_loop_returns:
  assumes "\<And>k s. bound < s \<Longrightarrow> length (gx_fetch e k s) < gx_limit e" and "since \<le> gs_max st"
  shows "\<exists>r. gomod_loop e n since st = Some r"
  using assms(2)
proof (induction "nat (bound + 1 - since)" arbitrary: n since st rule: less_induct)
  case less
  have "\<exists>r. gomod_loop e (Suc n) (gs_max (unstall since st1)) (unstall since st1) = Some r"
    if "gomod_rows e (gx_db e n) (gx_fetch e n since) st = Inr st1" "\<not> length (gx_fetch e n since) < gx_limit e" for st1
  proof (rule less.hyps)
    have "since \<le> bound" using assms(1) that(2) by (meson not_le)
    then show "nat (bound + 1 - gs_max (unstall since st1)) < nat (bound + 1 - since)" using next_since [OF that(1) less.prems] by simp
  qed simp
  then show ?case by (subst gomod_loop.simps) (auto simp: Let_def split: sum.split)
qed

lemma gomod_reads_count:
  assumes "\<And>k s. bound < s \<Longrightarrow> length (gx_fetch e k s) < gx_limit e"
  shows "gomod_reads e n since st m s' st' \<Longrightarrow> since \<le> gs_max st \<Longrightarrow> int m \<le> int n + max 0 (bound + 1 - since)"
proof (induction rule: gomod_reads.induct)
  case (gr_next n since st st1 m s' st')
  have "since \<le> bound" using assms gr_next(3) by (meson not_le)
  then show ?case using next_since [OF gr_next(2) gr_next.prems] gr_next.IH by simp
qed simp

text \<open>A monitored module whose enqueue gives up holds nothing: the cursor passes it.\<close>

lemma watched_give_up_lost:
  assumes "read_entry (gx_scan_pseudo e) x = Module path ver c" "\<not> focus_exclusive (ge_focus_mode (gx_gate e))"
    and "gomod_watched (gx_gate e) d path" "enqueue1 (gx_enq e) ''gomod'' path ver High (gs_rows st) = (rs1, Inr None)"
  shows "\<exists>st'. gomod_row e d x st = Inr st' \<and> gs_held st' = gs_held st \<and> c \<le> gs_max st' \<and> gs_rows st' = rs1"
  using assms advance_le(2) [of c st] by (simp add: gomod_row_def gomod_enqueue_def Let_def)

text \<open>The backfill has no guard: a full page of one time is requested for ever.\<close>

lemma drain_rows_pseudo:
  "\<forall>x \<in> set xs. \<exists>c \<le> gs_max st. read_entry (gx_scan_pseudo e) x = Pseudo c \<Longrightarrow> drain_rows e d xs st = Inr st"
proof (induction xs)
  case (Cons x xs)
  then obtain c where c: "c \<le> gs_max st" "read_entry (gx_scan_pseudo e) x = Pseudo c" by auto
  then have "drain_row e d x st = Inr st" by (simp add: drain_row_def drain_read_def advance_def)
  then show ?case using Cons by simp
qed simp

lemma backfill_never_returns:
  assumes "\<And>n. gx_fetch e n t = page n" "\<And>n. page n \<noteq> []" "\<And>n. gx_limit e \<le> length (page n)"
    and "\<And>n x. x \<in> set (page n) \<Longrightarrow> \<exists>c \<le> t. read_entry (gx_scan_pseudo e) x = Pseudo c" and "gs_max st = t"
  shows "gomod_drain e n t st = None"
proof -
  have "gomod_drain e' n since st = Some r \<Longrightarrow> e' = e \<longrightarrow> since = t \<longrightarrow> gs_max st = t \<longrightarrow> False" for e' since st n r
  proof (induction rule: gomod_drain.raw_induct [rotated, consumes 1])
    case (1 loop e' n since st r)
    have "drain_rows e (gx_db e n) (page n) st = Inr st" if "gs_max st = t"
      by (rule drain_rows_pseudo) (use assms(4) that in blast)
    then show ?case using 1(1) [of e "Suc n" t st r] 1(2) assms(1-3) by (auto simp: Let_def not_less [symmetric])
  qed
  then show ?thesis using assms(5) by (cases "gomod_drain e n t st") blast+
qed

section \<open>Properties\<close>

definition gomod_start :: "int \<Rightarrow> scan_rows \<Rightarrow> gomod_st" where
  "gomod_start cursor rs = \<lparr>gs_rows = rs, gs_max = cursor, gs_held = None, gs_count = 0\<rparr>"

text \<open>C21. A poll of the module index returns, with as many requests as there are microseconds between the cursor and
  the end of the index at most, whatever the pages hold: if nothing after \<open>bound\<close> fills a page, every full page
  moves the time asked for forward, also a page of entries that all share one time.\<close>

theorem gomod_poll_returns:
  assumes "\<And>k s. bound < s \<Longrightarrow> length (gx_fetch e k s) < gx_limit e"
  shows "(\<exists>r. gomod_poll e (Some cursor) rs = Some r) \<and>
    (\<forall>k s st. gomod_reads e 0 cursor (gomod_start cursor rs) k s st \<longrightarrow> int k \<le> max 0 (bound + 1 - cursor))"
proof -
  have "\<exists>r. gomod_loop e 0 cursor (gomod_start cursor rs) = Some r"
    by (rule gomod_loop_returns [where bound = bound], erule assms) (simp add: gomod_start_def)
  moreover have "int k \<le> max 0 (bound + 1 - cursor)" if "gomod_reads e 0 cursor (gomod_start cursor rs) k s st" for k s st
    using gomod_reads_count [OF assms that] by (simp add: gomod_start_def)
  ultimately show ?thesis by (auto simp: gomod_poll_def gomod_start_def)
qed


declare gomod_loop.simps [code]

definition demo_entry :: json where
  "demo_entry = JObj [(''Path'', JStr ''example.com/m''), (''Version'', JStr ''v1.0.0''), (''Timestamp'', JStr ''1970-01-01T00:01:40Z'')]"

text \<open>An index with one entry whose pages hold one entry.\<close>

definition demo_gomod :: gomod_env where
  "demo_gomod = \<lparr>gx_gate = demo_gate_env, gx_db = (\<lambda>_. demo_gate_db), gx_fetch = (\<lambda>_ s. if s \<le> 100000000 then [demo_entry] else []),
     gx_enq = demo_enq (\<lambda>_ _. None), gx_scan_pseudo = False, gx_limit = 1\<rparr>"

lemma demo_read: "read_entry False demo_entry = Module ''example.com/m'' ''v1.0.0'' 100000000"
  by code_simp

lemma demo_gomod_poll: "gomod_poll demo_gomod (Some 99999999) [] =
    Some (Inr (100000001, [new_row 1 0 (''gomod'', ''example.com/m'', ''v1.0.0'') Normal], 1))"
  by code_simp

theorem gomod_poll_returns_witness:
  "(\<exists>r. gomod_poll demo_gomod (Some 99999999) [] = Some r) \<and> gx_fetch demo_gomod 0 99999999 = [demo_entry]"
  using gomod_poll_returns [where e = demo_gomod and bound = 100000000] by (simp add: demo_gomod_def)


end
