(* ===== verification/PypiIngest.thy ===== *)
theory PypiIngest
  imports Ingest Anomaly
begin

text \<open>
  Discovery on PyPI: the changelog of \<^verbatim>\<open>ecosystems/pypi/ingest/cursor.py\<close> and the RSS feeds of
  \<^verbatim>\<open>ecosystems/pypi/ingest/feeds.py\<close>. Replies of the registry and the tables are arguments. The gates do not read
  the queue, so the versions they let through are computed first and enqueued in the same order.
\<close>

section \<open>The changelog\<close>

record pypi_event =
  pe_name :: string
  pe_version :: "string option"
  pe_action :: "string option"
  pe_serial :: int

definition default_max_items :: nat where
  "default_max_items = 2000"

definition pypi_watched :: "gate_env \<Rightarrow> gate_db \<Rightarrow> string \<Rightarrow> bool" where
  "pypi_watched e d name \<longleftrightarrow> watch_rank ''pypi'' name (gd_watch d) \<noteq> None \<or> scope_watched e ''pypi'' d name \<or>
     maint_watched e ''pypi'' d name"

definition pypi_gate :: "gate_env \<Rightarrow> gate_db \<Rightarrow> string list \<Rightarrow> string \<Rightarrow> priority option" where
  "pypi_gate e d created name =
    (let exclusive = focus_exclusive (ge_focus_mode e);
         foc = focus_hit ''pypi'' d name;
         wl = (\<not> exclusive \<and> pypi_watched e d name);
         brand_new = (\<not> exclusive \<and> \<not> wl \<and> name \<in> set created)
     in gate_decision foc wl brand_new exclusive)"

text \<open>The loop over the events; \<open>created\<close> are the names with a create event so far.\<close>

fun pypi_gated :: "gate_env \<Rightarrow> gate_db \<Rightarrow> string list \<Rightarrow> pypi_event list \<Rightarrow> (string \<times> string \<times> priority) list" where
  "pypi_gated e d created [] = []"
| "pypi_gated e d created (ev # evs) =
    (let action = lower (or_empty (pe_action ev));
         created1 = (if action = ''create'' then pe_name ev # created else created);
         rest = pypi_gated e d created1 evs
     in if \<not> truthy (pe_version ev) \<or> contains action ''remove'' then rest
        else (case pypi_gate e d created1 (pe_name ev) of
                None \<Rightarrow> rest | Some pri \<Rightarrow> (pe_name ev, or_empty (pe_version ev), pri) # rest))"

definition pypi_batch :: "nat option \<Rightarrow> pypi_event list \<Rightarrow> pypi_event list" where
  "pypi_batch max_items evs = (case max_items of None \<Rightarrow> evs | Some n \<Rightarrow> take n evs)"

text \<open>\<open>current\<close> is the reply to \<^verbatim>\<open>changelog_last_serial\<close>, \<open>feed\<close> the reply to \<^verbatim>\<open>changelog_since_serial\<close>, \<^const>\<open>None\<close>
  for any failure; the stored serial before and after.\<close>

definition pypi_pull :: "gate_env \<Rightarrow> enq_env \<Rightarrow> gate_db \<Rightarrow> (int \<Rightarrow> pypi_event list option) \<Rightarrow> int option \<Rightarrow> nat option \<Rightarrow>
    int option \<Rightarrow> scan_rows \<Rightarrow> string + int option \<times> scan_rows" where
  "pypi_pull e ee d feed current max_items stored rs =
    (let stored1 = (case stored of None \<Rightarrow> current | Some s \<Rightarrow> Some s);
         serial = get_or 0 stored1
     in case feed serial of
          None \<Rightarrow> Inr (stored1, rs)
        | Some all_events \<Rightarrow>
            (if all_events = [] then Inr (stored1, rs)
             else (let evs = pypi_batch max_items all_events;
                       max_serial = fold (\<lambda>ev m. if m < pe_serial ev then pe_serial ev else m) evs serial
               in case enqueue_all ee ''pypi'' (pypi_gated e d [] evs) rs of
                    Inl msg \<Rightarrow> Inl msg
                  | Inr rs1 \<Rightarrow> Inr (if serial < max_serial then Some max_serial else stored1, rs1))))"

section \<open>The feeds\<close>

text \<open>\<^verbatim>\<open><title>([^<]+)</title>\<close>, all matches from left to right.\<close>

function titles :: "string \<Rightarrow> string list" where
  "titles s =
    (if s = [] then []
     else (let body = takeWhile (\<lambda>c. c \<noteq> CHR ''<'') (drop 7 s) in
       if prefix ''<title>'' s \<and> body \<noteq> [] \<and> prefix ''</title>'' (drop (7 + length body) s)
       then body # titles (drop (15 + length body) s) else titles (tl s)))"
  by pat_completeness auto
termination by (relation "measure length") (auto simp: prefix_def)

declare titles.simps [simp del]

definition rss_noise :: "string \<Rightarrow> bool" where
  "rss_noise s \<longleftrightarrow> prefix ''pypi'' (lower s) \<or> prefix ''python package'' (lower s)"

text \<open>\<open>valid\<close>: whether \<^verbatim>\<open>packaging\<close> accepts a text as a version.\<close>

definition parse_title :: "(string \<Rightarrow> bool) \<Rightarrow> string \<Rightarrow> (string \<times> string) option" where
  "parse_title valid raw =
    (let title = strip raw in
     if CHR '' '' \<notin> set title then None
     else (let version = rsplit1_last (CHR '' '') title;
               name = strip (take (length title - length version - 1) title)
       in if name = [] \<or> strip version = [] \<or> rss_noise name \<or> \<not> valid (strip version) then None
          else Some (name, strip version)))"

definition parse_feed :: "(string \<Rightarrow> bool) \<Rightarrow> string \<Rightarrow> (string \<times> string) list" where
  "parse_feed valid xml = List.map_filter (parse_title valid) (titles xml)"

definition new_name :: "string \<Rightarrow> string option" where
  "new_name raw =
    (let title = strip raw; suf = '' added to PyPI''; name = strip (take (length title - length suf) title)
     in if rss_noise title \<or> \<not> suffix suf title \<or> name = [] then None else Some name)"

definition parse_new_package_names :: "string \<Rightarrow> string list" where
  "parse_new_package_names xml = List.map_filter new_name (titles xml)"

text \<open>Sizes and times per release; \<^const>\<open>None\<close> is a bad reply or an exception.\<close>

definition all_some :: "'a option list \<Rightarrow> 'a list option" where
  "all_some xs = (if None \<in> set xs then None else Some (map the xs))"

definition file_size :: "json \<Rightarrow> int option option" where
  "file_size f = (case f of JObj d \<Rightarrow> Some (jint (jget d ''size'')) | _ \<Rightarrow> None)"

definition file_time :: "json \<Rightarrow> string option" where
  "file_time f =
    (case f of JObj d \<Rightarrow>
       (let t = get_or JNull (jget d ''upload_time_iso_8601'') in if jtruthy t then jstr_of t else Some [])
     | _ \<Rightarrow> None)"

text \<open>One release: \<^const>\<open>None\<close> for an exception, \<open>Some None\<close> for a release that is left out.\<close>

definition release_meta :: "string \<times> json \<Rightarrow> version_meta option option" where
  "release_meta = (\<lambda>(ver, files).
    if \<not> jtruthy files then Some None
    else (case files of
        JList fs \<Rightarrow>
          (case (all_some (map file_size fs), all_some (map file_time fs)) of
             (Some sizes, Some stamps) \<Rightarrow>
               (let known = List.map_filter id sizes; t = foldl max [] stamps
                in Some (if t = [] then None
                   else Some \<lparr>vm_version = ver, vm_published_at = t,
                     vm_size = (if known = [] then None else Some (foldl max (hd known) (tl known))),
                     vm_publisher = None, vm_runs_bundled_hook = False\<rparr>))
           | _ \<Rightarrow> None)
      | _ \<Rightarrow> None))"

definition pypi_metas :: "json option \<Rightarrow> version_meta list option" where
  "pypi_metas reply =
    (case jdict reply of
       None \<Rightarrow> None
     | Some d \<Rightarrow>
         (let releases = get_or JNull (jget d ''releases'') in
          if \<not> jtruthy releases then Some []
          else (case releases of
              JObj rel \<Rightarrow> map_option (List.map_filter id) (all_some (map release_meta rel))
            | _ \<Rightarrow> None)))"

record feed_env =
  fe_raw :: "(string \<times> string) option"
  fe_valid :: "string \<Rightarrow> bool"
  fe_reply :: "string \<Rightarrow> json option"
  fe_order :: "string list \<Rightarrow> string list"
  fe_anomaly_on :: bool
  fe_max_checks :: nat
  fe_anomaly :: anomaly_cfg

definition feed_gate :: "gate_env \<Rightarrow> gate_db \<Rightarrow> string list \<Rightarrow> string \<Rightarrow> priority option" where
  "feed_gate e d new_names name =
    (let exclusive = focus_exclusive (ge_focus_mode e);
         wl = (\<not> exclusive \<and> watch_rank ''pypi'' name (gd_watch d) \<noteq> None);
         brand_new = (\<not> exclusive \<and> \<not> wl \<and> name \<in> set new_names)
     in gate_decision (focus_hit ''pypi'' d name) wl brand_new exclusive)"

definition feed_items :: "feed_env \<Rightarrow> string \<Rightarrow> (string \<times> string) list" where
  "feed_items fe updates = nub (parse_feed (fe_valid fe) updates)"

definition feed_gated :: "gate_env \<Rightarrow> gate_db \<Rightarrow> string list \<Rightarrow> (string \<times> string) list \<Rightarrow> (string \<times> string \<times> priority) list" where
  "feed_gated e d new_names items =
    List.map_filter (\<lambda>(n, v). map_option (\<lambda>p. (n, v, p)) (feed_gate e d new_names n)) items"

definition feed_candidates :: "gate_env \<Rightarrow> feed_env \<Rightarrow> gate_db \<Rightarrow> string list \<Rightarrow> (string \<times> string) list \<Rightarrow> string list" where
  "feed_candidates e fe d new_names items =
    (if fe_anomaly_on fe \<and> \<not> focus_exclusive (ge_focus_mode e)
     then fe_order fe (nub (map fst (filter (\<lambda>(n, v). feed_gate e d new_names n = None) items))) else [])"

definition feed_hits :: "feed_env \<Rightarrow> string list \<Rightarrow> (string \<times> string \<times> priority) list" where
  "feed_hits fe names = check_candidates (fe_anomaly fe) (fe_max_checks fe) (\<lambda>n. pypi_metas (fe_reply fe n)) names"

definition pypi_feeds :: "gate_env \<Rightarrow> enq_env \<Rightarrow> feed_env \<Rightarrow> gate_db \<Rightarrow> scan_rows \<Rightarrow> string + (string \<times> string) list \<times> scan_rows" where
  "pypi_feeds e ee fe d rs =
    (case fe_raw fe of
       None \<Rightarrow> Inr ([], rs)
     | Some (updates, packages) \<Rightarrow>
         (let new_names = parse_new_package_names packages; items = feed_items fe updates in
          case enqueue_all ee ''pypi'' (feed_gated e d new_names items) rs of
            Inl msg \<Rightarrow> Inl msg
          | Inr rs1 \<Rightarrow>
              (case enqueue_all ee ''pypi'' (feed_hits fe (feed_candidates e fe d new_names items)) rs1 of
                 Inl msg \<Rightarrow> Inl msg | Inr rs2 \<Rightarrow> Inr (items, rs2))))"

section \<open>Lemmas\<close>

lemma gate_decision_some:
  "gate_decision foc wl new excl \<noteq> None \<longleftrightarrow> foc \<or> \<not> excl \<and> (wl \<or> new)"
  by (simp add: gate_decision_def)

text \<open>An event that names a version to scan, and the condition of its gate.\<close>

definition pypi_release :: "pypi_event \<Rightarrow> bool" where
  "pypi_release ev \<longleftrightarrow> truthy (pe_version ev) \<and> \<not> contains (lower (or_empty (pe_action ev))) ''remove''"

definition pypi_creates :: "pypi_event \<Rightarrow> bool" where
  "pypi_creates ev \<longleftrightarrow> lower (or_empty (pe_action ev)) = ''create''"

definition pypi_admits :: "gate_env \<Rightarrow> gate_db \<Rightarrow> string set \<Rightarrow> string \<Rightarrow> bool" where
  "pypi_admits e d created name \<longleftrightarrow> focus_hit ''pypi'' d name \<or>
     \<not> focus_exclusive (ge_focus_mode e) \<and> (pypi_watched e d name \<or> name \<in> created)"

lemma pypi_gate_some: "pypi_gate e d created name \<noteq> None \<longleftrightarrow> pypi_admits e d (set created) name"
  unfolding pypi_gate_def pypi_admits_def Let_def gate_decision_some by auto

lemma pypi_gated_iff:
  "(\<exists>p. (name, ver, p) \<in> set (pypi_gated e d created evs)) \<longleftrightarrow>
   (\<exists>i<length evs. pypi_release (evs ! i) \<and> pe_name (evs ! i) = name \<and> or_empty (pe_version (evs ! i)) = ver \<and>
      pypi_admits e d (set created \<union> pe_name ` {c \<in> set (take (Suc i) evs). pypi_creates c}) name)"
proof (induction evs arbitrary: created)
  case (Cons x evs)
  let ?created1 = "if pypi_creates x then pe_name x # created else created"
  let ?here = "pypi_release x \<and> pe_name x = name \<and> or_empty (pe_version x) = ver \<and> pypi_admits e d (set ?created1) name"
  have c1: "set created \<union> pe_name ` {c \<in> set (take (Suc i) (x # evs)). pypi_creates c} =
    set ?created1 \<union> pe_name ` {c \<in> set (take i evs). pypi_creates c}" for i by auto
  have "(\<exists>p. (name, ver, p) \<in> set (pypi_gated e d created (x # evs))) \<longleftrightarrow>
    ?here \<or> (\<exists>p. (name, ver, p) \<in> set (pypi_gated e d ?created1 evs))"
    using pypi_gate_some [of e d ?created1 "pe_name x"]
    by (auto simp: Let_def pypi_release_def pypi_creates_def split: option.splits)
  then show ?case unfolding Cons.IH c1 by (simp add: Ex_less_Suc2)
qed simp

lemma fold_serial: "fold (\<lambda>ev m. if m < pe_serial ev then pe_serial ev else m) evs serial = Max (insert serial (pe_serial ` set evs))"
proof (induction evs arbitrary: serial)
  case (Cons ev evs)
  have "(if serial < pe_serial ev then pe_serial ev else serial) = max serial (pe_serial ev)" by simp
  then show ?case using Cons [of "max serial (pe_serial ev)"] by (simp add: insert_commute [of _ serial] Max_insert2) (cases "evs = []"; simp add: max.assoc max.commute max.left_commute)
qed simp

text \<open>The feeds: what is enqueued in an undisturbed database.\<close>

lemma feed_gate_some: "feed_gate e d new_names name \<noteq> None \<longleftrightarrow>
    focus_hit ''pypi'' d name \<or> \<not> focus_exclusive (ge_focus_mode e) \<and> (watch_rank ''pypi'' name (gd_watch d) \<noteq> None \<or> name \<in> set new_names)"
  unfolding feed_gate_def Let_def gate_decision_some by auto

lemma feed_gated_keys:
  "(\<lambda>(n, v, p). (''pypi'', n, v)) ` set (feed_gated e d new_names items) =
     {(''pypi'', n, v) | n v. (n, v) \<in> set items \<and> feed_gate e d new_names n \<noteq> None}"
  by (force simp: feed_gated_def in_map_filter image_iff)

lemma pypi_feeds_keys:
  assumes "undisturbed ee" and "fe_raw fe = Some (updates, packages)"
  shows "\<exists>rs'. pypi_feeds e ee fe d rs = Inr (feed_items fe updates, rs') \<and> sq_key ` set rs' = sq_key ` set rs \<union>
    {(''pypi'', n, v) | n v. (n, v) \<in> set (feed_items fe updates) \<and> feed_gate e d (parse_new_package_names packages) n \<noteq> None} \<union>
    (\<lambda>(n, v, p). (''pypi'', n, v)) ` set (feed_hits fe (feed_candidates e fe d (parse_new_package_names packages) (feed_items fe updates)))"
proof -
  let ?g = "feed_gated e d (parse_new_package_names packages) (feed_items fe updates)"
  let ?h = "feed_hits fe (feed_candidates e fe d (parse_new_package_names packages) (feed_items fe updates))"
  obtain rs1 where r1: "enqueue_all ee ''pypi'' ?g rs = Inr rs1"
    "sq_key ` set rs1 = sq_key ` set rs \<union> (\<lambda>(n, v, p). (''pypi'', n, v)) ` set ?g"
    using enqueue_all_undisturbed [OF assms(1), of "''pypi''" ?g rs] by blast
  obtain rs2 where r2: "enqueue_all ee ''pypi'' ?h rs1 = Inr rs2"
    "sq_key ` set rs2 = sq_key ` set rs1 \<union> (\<lambda>(n, v, p). (''pypi'', n, v)) ` set ?h"
    using enqueue_all_undisturbed [OF assms(1), of "''pypi''" ?h rs1] by blast
  show ?thesis
    by (rule exI [of _ rs2]) (simp add: pypi_feeds_def assms(2) r1(1) r2(1) Let_def, simp add: r1(2) r2(2) feed_gated_keys)
qed

text \<open>The filter for titles that are not packages: no project whose name begins with \<open>pypi\<close> is taken from the feed.\<close>

lemma feed_names_no_pypi: "(name, ver) \<in> set (parse_feed valid xml) \<Longrightarrow> \<not> rss_noise name"
  by (auto simp: parse_feed_def in_map_filter parse_title_def Let_def split: if_splits)

lemma pypi_titled_package_dropped:
  "parse_feed (\<lambda>_. True) ''<title>requests 2.0</title><title>pypi-helper 1.0</title>'' = [(''requests'', ''2.0'')]"
  by code_simp

text \<open>A creation and its release in different batches: the new package is not enqueued, now or later.\<close>

definition demo_create :: pypi_event where
  "demo_create = \<lparr>pe_name = ''evil'', pe_version = None, pe_action = Some ''create'', pe_serial = 8\<rparr>"

definition demo_release :: pypi_event where
  "demo_release = \<lparr>pe_name = ''evil'', pe_version = Some ''1.0'', pe_action = Some ''new release'', pe_serial = 9\<rparr>"

definition demo_feed :: "int \<Rightarrow> pypi_event list option" where
  "demo_feed since = Some (filter (\<lambda>ev. since < pe_serial ev) [demo_create, demo_release])"

lemma split_creation_lost:
  "pypi_pull demo_gate_env (demo_enq (\<lambda>_ _. None)) demo_gate_db demo_feed None (Some 1) (Some 7) [] = Inr (Some 8, [])"
  "pypi_pull demo_gate_env (demo_enq (\<lambda>_ _. None)) demo_gate_db demo_feed None (Some 1) (Some 8) [] = Inr (Some 9, [])"
  by code_simp+

text \<open>If the current serial cannot be had when there is no cursor, the whole history is replayed from its beginning.\<close>

lemma failed_bootstrap_replays:
  assumes "feed 0 = Some (ev # evs)" "0 < pe_serial ev" "enqueue_all ee ''pypi'' (pypi_gated e d [] [ev]) rs = Inr rs1"
  shows "pypi_pull e ee d feed None (Some 1) None rs = Inr (Some (pe_serial ev), rs1)"
  using assms by (simp add: pypi_pull_def pypi_batch_def)

lemma created_upto:
  assumes "i < length evs"
  shows "name \<in> pe_name ` {c \<in> set (take (Suc i) evs). pypi_creates c} \<longleftrightarrow>
    (\<exists>j\<le>i. pypi_creates (evs ! j) \<and> pe_name (evs ! j) = name)"
proof -
  have "set (take (Suc i) evs) = (!) evs ` {0..<Suc i}" using nth_image [of "Suc i" evs] assms by simp
  moreover have "{0..<Suc i} = {..i}" by auto
  ultimately have "set (take (Suc i) evs) = (!) evs ` {..i}" by simp
  then have "name \<in> pe_name ` {c \<in> set (take (Suc i) evs). pypi_creates c} \<longleftrightarrow>
    (\<exists>c \<in> (!) evs ` {..i}. pypi_creates c \<and> pe_name c = name)" by (simp add: image_iff Bex_def) metis
  then show ?thesis by auto
qed

section \<open>Properties\<close>

text \<open>C24. One pull of the PyPI changelog on an undisturbed database: it takes at most \<open>max_items\<close> events, stores the greatest
  serial it has seen, and adds to the queue exactly the versions of the events that name a version and remove nothing
  and whose package is in focus, or, unless only focus packages are admitted, watched or created by an event
  of the same batch, no later than the version itself.\<close>

theorem pypi_pull_exact:
  assumes "undisturbed ee" and "feed serial = Some evs" and "evs \<noteq> []"
    and "batch = pypi_batch max_items evs"
  shows "\<exists>rs'. pypi_pull e ee d feed current max_items (Some serial) rs = Inr (Some (Max (insert serial (pe_serial ` set batch))), rs') \<and>
    sq_key ` set rs' = sq_key ` set rs \<union> {(''pypi'', pe_name (batch ! i), or_empty (pe_version (batch ! i))) | i.
      i < length batch \<and> pypi_release (batch ! i) \<and>
      (focus_hit ''pypi'' d (pe_name (batch ! i)) \<or> \<not> focus_exclusive (ge_focus_mode e) \<and>
        (pypi_watched e d (pe_name (batch ! i)) \<or> (\<exists>j\<le>i. pypi_creates (batch ! j) \<and> pe_name (batch ! j) = pe_name (batch ! i))))}"
  (is "\<exists>rs'. _ \<and> _ = _ \<union> {_ | i. _ \<and> _ \<and> ?ok i}")
proof -
  obtain rs1 where r: "enqueue_all ee ''pypi'' (pypi_gated e d [] batch) rs = Inr rs1"
    "sq_key ` set rs1 = sq_key ` set rs \<union> (\<lambda>(n, v, p). (''pypi'', n, v)) ` set (pypi_gated e d [] batch)"
    using enqueue_all_undisturbed [OF assms(1), of "''pypi''" "pypi_gated e d [] batch" rs] by blast
  let ?m = "Max (insert serial (pe_serial ` set batch))"
  have "serial \<le> ?m" by simp
  then have m: "(if serial < ?m then Some ?m else Some serial) = Some ?m" by (metis order_le_less)
  have "pypi_pull e ee d feed current max_items (Some serial) rs = Inr (Some ?m, rs1)"
    using assms(2,3) r(1) by (simp add: pypi_pull_def assms(4) [symmetric] fold_serial Let_def m del: Max_insert split del: if_split)
  moreover have "(\<lambda>(n, v, p). (''pypi'', n, v)) ` set (pypi_gated e d [] batch) =
    {(''pypi'', n, v) | n v. \<exists>p. (n, v, p) \<in> set (pypi_gated e d [] batch)}" by force
  moreover have "\<dots> = {(''pypi'', n, v) | n v. \<exists>i<length batch. pypi_release (batch ! i) \<and> pe_name (batch ! i) = n \<and>
      or_empty (pe_version (batch ! i)) = v \<and> ?ok i}"
    unfolding pypi_gated_iff pypi_admits_def using created_upto [of _ batch] by (auto cong: conj_cong)
  moreover have "\<dots> = {(''pypi'', pe_name (batch ! i), or_empty (pe_version (batch ! i))) | i. i < length batch \<and>
      pypi_release (batch ! i) \<and> ?ok i}" by blast
  ultimately show ?thesis using r(2) by auto
qed

theorem pypi_pull_exact_witness:
  "\<exists>rs'. pypi_pull demo_gate_env (demo_enq (\<lambda>_ _. None)) demo_gate_db demo_feed None None (Some 7) [] = Inr (Some 9, rs') \<and>
     (''pypi'', ''evil'', ''1.0'') \<in> sq_key ` set rs'"
proof -
  have f: "demo_feed 7 = Some [demo_create, demo_release]" by code_simp
  have m: "Max (insert 7 (pe_serial ` set [demo_create, demo_release])) = 9" by (simp add: demo_create_def demo_release_def)
  have c: "pypi_release ([demo_create, demo_release] ! 1)" "pypi_creates ([demo_create, demo_release] ! 0)"
    "\<not> focus_exclusive (ge_focus_mode demo_gate_env)" by code_simp+
  have n: "pe_name ([demo_create, demo_release] ! 0) = ''evil''" "pe_name ([demo_create, demo_release] ! 1) = ''evil''"
    "or_empty (pe_version ([demo_create, demo_release] ! 1)) = ''1.0''" by code_simp+
  obtain rs' where r: "pypi_pull demo_gate_env (demo_enq (\<lambda>_ _. None)) demo_gate_db demo_feed None None (Some 7) [] = Inr (Some 9, rs')"
    and k: "{(''pypi'', pe_name ([demo_create, demo_release] ! i), or_empty (pe_version ([demo_create, demo_release] ! i))) | i.
      i < length [demo_create, demo_release] \<and> pypi_release ([demo_create, demo_release] ! i) \<and>
      (focus_hit ''pypi'' demo_gate_db (pe_name ([demo_create, demo_release] ! i)) \<or> \<not> focus_exclusive (ge_focus_mode demo_gate_env) \<and>
        (pypi_watched demo_gate_env demo_gate_db (pe_name ([demo_create, demo_release] ! i)) \<or>
         (\<exists>j\<le>i. pypi_creates ([demo_create, demo_release] ! j) \<and> pe_name ([demo_create, demo_release] ! j) = pe_name ([demo_create, demo_release] ! i))))}
      \<subseteq> sq_key ` set rs'"
    using pypi_pull_exact [where feed = demo_feed and serial = 7 and evs = "[demo_create, demo_release]" and batch = "[demo_create, demo_release]"
        and max_items = None and e = demo_gate_env and d = demo_gate_db and current = None and rs = "[]", OF demo_undisturbed f] m
    by (auto simp: pypi_batch_def)
  have "(''pypi'', ''evil'', ''1.0'') \<in> sq_key ` set rs'"
    by (rule subsetD [OF k], rule CollectI, rule exI [of _ 1]) (use c n in \<open>auto intro!: exI [of _ 0]\<close>)
  then show ?thesis using r by blast
qed

end
