(* ===== verification/CratesFeeds.thy ===== *)
theory CratesFeeds
  imports PypiIngest
begin

text \<open>
  Discovery on crates.io: \<^verbatim>\<open>ecosystems/crates/ingest/feeds.py\<close>, both RSS feeds and the reconciliation with the
  registry. A feed is given as the texts of title and link of its items, the other replies as decoded JSON.
\<close>

section \<open>Items\<close>

record rss_item =
  ri_title :: string
  ri_link :: string

text \<open>\<^verbatim>\<open>rest.rsplit(" ", 1)\<close> of a text with a space, and \<^verbatim>\<open>lstrip("v")\<close>.\<close>

definition parse_crate_title :: "string \<Rightarrow> (string \<times> string) option" where
  "parse_crate_title title =
    (let upd = ''New crate version published: ''; new = ''New crate created: '' in
     if prefix upd title
     then (let rest = drop (length upd) title; ver = rsplit1_last (CHR '' '') rest in
       if CHR '' '' \<in> set rest
       then Some (strip (take (length rest - length ver - 1) rest), strip (lstrip_by (\<lambda>c. c = CHR ''v'') ver)) else None)
     else if prefix new title
     then (let name = strip (drop (length new) title) in if name = [] then None else Some (name, ''latest''))
     else None)"

definition version_from_link :: "string \<Rightarrow> string option" where
  "version_from_link link =
    (let parts = split_on (CHR ''/'') (rstrip_by (\<lambda>c. c = CHR ''/'') link);
         from = dropWhile (\<lambda>p. p \<noteq> ''crates'') parts
     in if 2 < length from then Some (from ! 2) else None)"

definition parse_item :: "rss_item \<Rightarrow> (string \<times> string) option" where
  "parse_item it =
    (let title = strip (ri_title it) in
     if title = [] then None
     else (case parse_crate_title title of
         None \<Rightarrow> None
       | Some (name, version) \<Rightarrow>
           (if version = ''latest'' \<and> truthy (version_from_link (strip (ri_link it)))
            then Some (name, or_empty (version_from_link (strip (ri_link it)))) else Some (name, version))))"

text \<open>\<^const>\<open>None\<close>: the request failed or the text is not XML.\<close>

definition rss_items :: "rss_item list option \<Rightarrow> (string \<times> string) list" where
  "rss_items feed = (case feed of None \<Rightarrow> [] | Some its \<Rightarrow> List.map_filter parse_item its)"

definition dedup_new_items :: "(string \<times> string) list \<Rightarrow> string set \<Rightarrow> (string \<Rightarrow> string option) \<Rightarrow> (string \<times> string) list" where
  "dedup_new_items new_items known resolved =
    List.map_filter (\<lambda>(name, version).
      if version \<noteq> ''latest'' then Some (name, version)
      else if name \<in> known then None
      else (case resolved name of Some v \<Rightarrow> Some (name, v) | None \<Rightarrow> Some (name, version))) new_items"

text \<open>The metadata of a crate, as a list of versions; \<^const>\<open>None\<close> is a bad reply or an exception.\<close>

text \<open>\<^verbatim>\<open>str(v.get(key, ""))\<close> of a text, a number, a truth value or null.\<close>

definition json_str :: "json option \<Rightarrow> string" where
  "json_str j =
    (case j of Some (JStr s) \<Rightarrow> s | Some (JInt n) \<Rightarrow> int_str n | Some JNull \<Rightarrow> ''None''
     | Some (JBool b) \<Rightarrow> (if b then ''True'' else ''False'') | _ \<Rightarrow> [])"

definition crate_meta :: "json \<Rightarrow> version_meta option" where
  "crate_meta v =
    (case v of
       JObj d \<Rightarrow>
         (let who = (\<lambda>p k. case jget p k of Some (JStr s) \<Rightarrow> (if s = [] then None else Some s) | _ \<Rightarrow> None) in
          Some \<lparr>vm_version = json_str (jget d ''num''), vm_published_at = json_str (jget d ''created_at''),
            vm_size = jint (jget d ''crate_size''),
            vm_publisher = (case jget d ''published_by'' of
              Some (JObj p) \<Rightarrow> (case who p ''login'' of Some s \<Rightarrow> Some s | None \<Rightarrow> who p ''name'') | _ \<Rightarrow> None),
            vm_runs_bundled_hook = False\<rparr>)
     | _ \<Rightarrow> None)"

definition crate_metas :: "json option \<Rightarrow> version_meta list option" where
  "crate_metas reply =
    (case jdict reply of
       None \<Rightarrow> None
     | Some d \<Rightarrow>
         (let versions = get_or JNull (jget d ''versions'') in
          if \<not> jtruthy versions then Some []
          else (case versions of JList vs \<Rightarrow> all_some (map crate_meta vs) | _ \<Rightarrow> None)))"

section \<open>The poll\<close>

record crates_env =
  ce_new :: "rss_item list option"
  ce_updates :: "rss_item list option"
  ce_resolve :: "string \<Rightarrow> string option"
  ce_reply :: "string \<Rightarrow> json option"
  ce_order :: "string list \<Rightarrow> string list"
  ce_anomaly_on :: bool
  ce_max_checks :: nat
  ce_anomaly :: anomaly_cfg

definition queued_names :: "string set \<Rightarrow> scan_rows \<Rightarrow> string set" where
  "queued_names names rs = sq_name ` set (filter (\<lambda>r. sq_ecosystem r = ''crates'' \<and> sq_name r \<in> names) rs)"

definition new_crates :: "crates_env \<Rightarrow> scan_rows \<Rightarrow> (string \<times> string) list" where
  "new_crates ce rs =
    (let items = rss_items (ce_new ce);
         latest = fst ` set (filter (\<lambda>(n, v). v = ''latest'') items);
         known = queued_names latest rs
     in if latest = {} then items
        else dedup_new_items items known (\<lambda>n. if n \<in> latest - known then ce_resolve ce n else None))"

definition crates_gate :: "gate_env \<Rightarrow> gate_db \<Rightarrow> bool \<Rightarrow> string \<Rightarrow> priority option" where
  "crates_gate e d brand_new name =
    (let exclusive = focus_exclusive (ge_focus_mode e) in
     gate_decision (focus_hit ''crates'' d name)
       (\<not> brand_new \<and> \<not> exclusive \<and> watch_rank ''crates'' name (gd_watch d) \<noteq> None) brand_new exclusive)"

definition crates_gated :: "gate_env \<Rightarrow> gate_db \<Rightarrow> bool \<Rightarrow> (string \<times> string) list \<Rightarrow> (string \<times> string \<times> priority) list" where
  "crates_gated e d brand_new items =
    List.map_filter (\<lambda>(n, v). map_option (\<lambda>p. (n, v, p)) (crates_gate e d brand_new n)) items"

definition crates_candidates :: "gate_env \<Rightarrow> crates_env \<Rightarrow> gate_db \<Rightarrow> string list" where
  "crates_candidates e ce d =
    (if ce_anomaly_on ce \<and> \<not> focus_exclusive (ge_focus_mode e)
     then ce_order ce (nub (map fst (filter (\<lambda>(n, v). crates_gate e d False n = None) (rss_items (ce_updates ce))))) else [])"

definition crates_feeds :: "gate_env \<Rightarrow> enq_env \<Rightarrow> crates_env \<Rightarrow> gate_db \<Rightarrow> scan_rows \<Rightarrow> scan_rows" where
  "crates_feeds e ee ce d rs =
    enqueue_each ee ''crates'' (check_candidates (ce_anomaly ce) (ce_max_checks ce) (\<lambda>n. crate_metas (ce_reply ce n))
        (crates_candidates e ce d))
      (enqueue_each ee ''crates'' (crates_gated e d False (rss_items (ce_updates ce)))
        (enqueue_each ee ''crates'' (crates_gated e d True (new_crates ce rs)) rs))"

section \<open>Reconciliation\<close>

definition reconcile_pages :: nat where
  "reconcile_pages = 3"

definition str_or :: "json option \<Rightarrow> string" where
  "str_or j = (case j of Some (JStr s) \<Rightarrow> s | _ \<Rightarrow> [])"

text \<open>\<^const>\<open>None\<close> is the \<^verbatim>\<open>AttributeError\<close> of an entry that is no object.\<close>

definition listed_crate :: "json \<Rightarrow> (string \<times> string) option option" where
  "listed_crate c =
    (case c of
       JObj d \<Rightarrow>
         (let name = str_or (jget d ''name'');
              version = (if str_or (jget d ''newest_version'') \<noteq> [] then str_or (jget d ''newest_version'') else str_or (jget d ''max_version''))
          in Some (if name \<noteq> [] \<and> version \<noteq> [] then Some (name, version) else None))
     | _ \<Rightarrow> None)"

text \<open>The pages from \<open>k\<close> on, at most \<open>n\<close>; a failed or empty page ends the list.\<close>

fun fetch_new_crates :: "(nat \<Rightarrow> json list option) \<Rightarrow> nat \<Rightarrow> nat \<Rightarrow> (string \<times> string) list option" where
  "fetch_new_crates page 0 k = Some []"
| "fetch_new_crates page (Suc n) k =
    (case page k of
       None \<Rightarrow> Some []
     | Some cs \<Rightarrow>
         (if cs = [] then Some []
          else (case all_some (map listed_crate cs) of
              None \<Rightarrow> None
            | Some xs \<Rightarrow> map_option (\<lambda>rest. List.map_filter id xs @ rest) (fetch_new_crates page n (Suc k)))))"

definition reconcile_new_crates :: "gate_env \<Rightarrow> enq_env \<Rightarrow> (nat \<Rightarrow> json list option) \<Rightarrow> nat \<Rightarrow> gate_db \<Rightarrow> scan_rows \<Rightarrow> scan_rows option" where
  "reconcile_new_crates e ee page pages d rs =
    (case fetch_new_crates page pages 1 of
       None \<Rightarrow> None
     | Some items \<Rightarrow>
         (let known = queued_names (fst ` set items) rs
          in Some (enqueue_each ee ''crates'' (crates_gated e d True (filter (\<lambda>(n, v). n \<notin> known) items)) rs)))"

section \<open>Lemmas\<close>

lemma crates_gate_some:
  "crates_gate e d brand_new name \<noteq> None \<longleftrightarrow> focus_hit ''crates'' d name \<or>
     \<not> focus_exclusive (ge_focus_mode e) \<and> (brand_new \<or> watch_rank ''crates'' name (gd_watch d) \<noteq> None)"
  unfolding crates_gate_def Let_def gate_decision_some by auto

lemma in_crates_gated:
  "(\<exists>p. (n, v, p) \<in> set (crates_gated e d brand_new items)) \<longleftrightarrow> (n, v) \<in> set items \<and> crates_gate e d brand_new n \<noteq> None"
  by (force simp: crates_gated_def in_map_filter)

lemma crates_gated_keys:
  "(\<lambda>(n, v, p). (''crates'', n, v)) ` set (crates_gated e d brand_new items) =
     {(''crates'', n, v) | n v. (n, v) \<in> set items \<and> crates_gate e d brand_new n \<noteq> None}"
proof -
  have "(\<lambda>(n, v, p). (''crates'', n, v)) ` set (crates_gated e d brand_new items) =
    {(''crates'', n, v) | n v. \<exists>p. (n, v, p) \<in> set (crates_gated e d brand_new items)}" by force
  then show ?thesis unfolding in_crates_gated .
qed

lemma in_queued_names: "n \<in> queued_names names rs \<longleftrightarrow> n \<in> names \<and> (\<exists>v. (''crates'', n, v) \<in> sq_key ` set rs)"
  unfolding queued_names_def sq_key_def by force

text \<open>Titles of the registry are read back.\<close>

lemma rsplit1_last_after: "c \<notin> set b \<Longrightarrow> rsplit1_last c (a @ c # b) = b"
  by (simp add: rsplit1_last_def takeWhile_append)

lemma strip_plain: "\<forall>c \<in> set s. \<not> is_space c \<Longrightarrow> strip s = s"
  by (simp add: strip_def strip_by_id)

lemma crate_title_update:
  assumes "ver \<noteq> []" "\<forall>c \<in> set name. \<not> is_space c" "\<forall>c \<in> set ver. \<not> is_space c" "hd ver \<noteq> CHR ''v''"
  shows "parse_crate_title (''New crate version published: '' @ name @ '' v'' @ ver) = Some (name, ver)"
proof -
  have sp: "is_space (CHR '' '')" by code_simp
  have "CHR '' '' \<notin> set (CHR ''v'' # ver)" using sp assms(3) by auto
  from rsplit1_last_after [OF this, of name] have r: "rsplit1_last (CHR '' '') (name @ '' v'' @ ver) = CHR ''v'' # ver" by simp
  have l: "lstrip_by (\<lambda>c. c = CHR ''v'') (CHR ''v'' # ver) = ver" using assms(1,4) by (cases ver) (auto simp: lstrip_by_def)
  have d: "drop (length ''New crate version published: '') (''New crate version published: '' @ name @ '' v'' @ ver) = name @ '' v'' @ ver"
    by (rule append_eq_conv_conj [THEN iffD1, THEN conjunct2, symmetric]) simp
  have t: "take (length (name @ '' v'' @ ver) - length (CHR ''v'' # ver) - 1) (name @ '' v'' @ ver) = name" by simp
  have "prefix ''New crate version published: '' (''New crate version published: '' @ name @ '' v'' @ ver)" by (rule prefixI) simp
  then show ?thesis
    unfolding parse_crate_title_def Let_def d r t l strip_plain [OF assms(2)] strip_plain [OF assms(3)] by simp
qed

text \<open>The list of the reconciliation.\<close>

lemma fetch_new_crates_pages:
  assumes "fetch_new_crates page n k = Some items" "(name, ver) \<in> set items"
  shows "\<exists>i cs c. k \<le> i \<and> i < k + n \<and> page i = Some cs \<and> c \<in> set cs \<and> listed_crate c = Some (Some (name, ver))"
  using assms
proof (induction page n k arbitrary: items rule: fetch_new_crates.induct)
  case (2 page n k)
  from 2(2,3) obtain cs xs rest where p: "page k = Some cs" "cs \<noteq> []" "all_some (map listed_crate cs) = Some xs"
    "fetch_new_crates page n (Suc k) = Some rest" "items = List.map_filter id xs @ rest"
    by (auto split: option.splits if_splits)
  show ?case
  proof (cases "(name, ver) \<in> set rest")
    case True
    from 2(1) [OF p(1,2,3,4) True] show ?thesis by (metis Suc_leD add_Suc add_Suc_right)
  next
    case False
    then have "Some (name, ver) \<in> set xs" using 2(3) p(5) by (auto simp: in_map_filter)
    then have "\<exists>c \<in> set cs. listed_crate c = Some (Some (name, ver))"
      using p(3) by (force simp: all_some_def split: if_splits)
    then show ?thesis using p(1) by fastforce
  qed
qed simp

text \<open>A new crate of the feed is enqueued under a concrete version if one can be had, and dropped only if its name is
  in the queue already.\<close>

lemma dedup_keeps_names:
  assumes "(n, v) \<in> set items"
  shows "n \<in> known \<or> (\<exists>w. (n, w) \<in> set (dedup_new_items items known resolved) \<and> (w = v \<or> v = ''latest'' \<and> resolved n = Some w))"
proof (cases "v = ''latest'' \<and> n \<in> known")
  case False
  let ?w = "if v = ''latest'' then get_or v (resolved n) else v"
  have "(n, ?w) \<in> set (dedup_new_items items known resolved)"
    unfolding dedup_new_items_def in_map_filter by (rule bexI [OF _ assms]) (use False in \<open>auto split: option.split\<close>)
  moreover have "?w = v \<or> v = ''latest'' \<and> resolved n = Some ?w" by (cases "resolved n") auto
  ultimately show ?thesis by blast
qed simp

lemma crates_feeds_keys:
  assumes "undisturbed ee"
  shows "sq_key ` set (crates_feeds e ee ce d rs) = sq_key ` set rs \<union>
    {(''crates'', n, v) | n v. (n, v) \<in> set (new_crates ce rs) \<and> (focus_hit ''crates'' d n \<or> \<not> focus_exclusive (ge_focus_mode e))} \<union>
    {(''crates'', n, v) | n v. (n, v) \<in> set (rss_items (ce_updates ce)) \<and> (focus_hit ''crates'' d n \<or>
       \<not> focus_exclusive (ge_focus_mode e) \<and> watch_rank ''crates'' n (gd_watch d) \<noteq> None)} \<union>
    (\<lambda>(n, v, p). (''crates'', n, v)) ` set (check_candidates (ce_anomaly ce) (ce_max_checks ce) (\<lambda>n. crate_metas (ce_reply ce n))
       (crates_candidates e ce d))"
proof -
  have a: "crates_gate e d True n \<noteq> None \<longleftrightarrow> focus_hit ''crates'' d n \<or> \<not> focus_exclusive (ge_focus_mode e)" for n
    unfolding crates_gate_some by simp
  have b: "crates_gate e d False n \<noteq> None \<longleftrightarrow> focus_hit ''crates'' d n \<or> \<not> focus_exclusive (ge_focus_mode e) \<and>
    watch_rank ''crates'' n (gd_watch d) \<noteq> None" for n unfolding crates_gate_some by simp
  show ?thesis unfolding crates_feeds_def enqueue_each_undisturbed [OF assms] crates_gated_keys a b ..
qed

section \<open>Properties\<close>

text \<open>The reconciliation only adds: every row of the queue keeps its place, and in an undisturbed database exactly the
  listed crates are added whose name was not in the queue before and which the gate admits, that is all of them
  unless only focus packages are admitted. Afterwards every listed crate that is admitted is in the queue
  under some version, so that a crate the feeds have missed is not lost.\<close>

theorem crates_reconcile_additive:
  assumes "undisturbed ee" and "fetch_new_crates page pages 1 = Some items"
  shows "\<exists>rs'. reconcile_new_crates e ee page pages d rs = Some rs' \<and>
    sq_key ` set rs' = sq_key ` set rs \<union> {(''crates'', n, v) | n v. (n, v) \<in> set items \<and>
      (\<forall>w. (''crates'', n, w) \<notin> sq_key ` set rs) \<and> (focus_hit ''crates'' d n \<or> \<not> focus_exclusive (ge_focus_mode e))} \<and>
    (\<forall>(n, v) \<in> set items. focus_hit ''crates'' d n \<or> \<not> focus_exclusive (ge_focus_mode e) \<longrightarrow>
      (\<exists>w. (''crates'', n, w) \<in> sq_key ` set rs'))"
proof -
  let ?known = "queued_names (fst ` set items) rs"
  let ?new = "filter (\<lambda>(n, v). n \<notin> ?known) items"
  define rs' where "rs' = enqueue_each ee ''crates'' (crates_gated e d True ?new) rs"
  have new: "(n, v) \<in> set ?new \<longleftrightarrow> (n, v) \<in> set items \<and> (\<forall>w. (''crates'', n, w) \<notin> sq_key ` set rs)" for n v
    by (auto simp: in_queued_names rev_image_eqI)
  have "sq_key ` set rs' = sq_key ` set rs \<union> {(''crates'', n, v) | n v. (n, v) \<in> set ?new \<and> crates_gate e d True n \<noteq> None}"
    unfolding rs'_def enqueue_each_undisturbed [OF assms(1)] crates_gated_keys ..
  then have keys: "sq_key ` set rs' = sq_key ` set rs \<union> {(''crates'', n, v) | n v. (n, v) \<in> set items \<and>
      (\<forall>w. (''crates'', n, w) \<notin> sq_key ` set rs) \<and> (focus_hit ''crates'' d n \<or> \<not> focus_exclusive (ge_focus_mode e))}"
    unfolding new crates_gate_some by auto
  moreover have "\<forall>(n, v) \<in> set items. focus_hit ''crates'' d n \<or> \<not> focus_exclusive (ge_focus_mode e) \<longrightarrow>
      (\<exists>w. (''crates'', n, w) \<in> sq_key ` set rs')"
    unfolding keys by blast
  moreover have "reconcile_new_crates e ee page pages d rs = Some rs'"
    unfolding reconcile_new_crates_def assms(2) rs'_def by simp
  ultimately show ?thesis by blast
qed

definition demo_crates_page :: "nat \<Rightarrow> json list option" where
  "demo_crates_page k = (if k = 1 then Some [JObj [(''name'', JStr ''evil''), (''newest_version'', JStr ''0.1.0'')]] else None)"

theorem crates_reconcile_additive_witness:
  "\<exists>rs'. reconcile_new_crates demo_gate_env (demo_enq (\<lambda>_ _. None)) demo_crates_page reconcile_pages demo_gate_db [] = Some rs' \<and>
     sq_key ` set rs' = {(''crates'', ''evil'', ''0.1.0'')}"
proof -
  have f: "fetch_new_crates demo_crates_page reconcile_pages 1 = Some [(''evil'', ''0.1.0'')]" by code_simp
  have x: "\<not> focus_exclusive (ge_focus_mode demo_gate_env)" by code_simp
  show ?thesis
    using crates_reconcile_additive [OF demo_undisturbed f, of demo_gate_env demo_gate_db "[]"] x by auto
qed

end
