(* ===== verification/MaintainerPivot.thy ===== *)
theory MaintainerPivot
  imports Ingest Adjudication Anomaly
begin

text \<open>
  The sweep over a convicted maintainer's other packages: \<^verbatim>\<open>maintainer_pivot.py\<close>. The state is the memory of recent
  sweeps, the scan queue and the bounded watches; there is no watchlist in it, since the module never
  touches one. The registry's pages, name resolution, clocks and the database are arguments.
\<close>

section \<open>Configuration and evidence\<close>

record pivot_cfg =
  pc_enabled :: string
  pc_shadow :: string
  pc_max_pkgs :: int
  pc_corr_days :: int
  pc_dedup_ttl :: rat
  pc_allow :: string
  pc_deny :: string
  pc_wla :: wla_cfg
  pc_mw :: mw_cfg

definition default_pivot_cfg :: pivot_cfg where
  "default_pivot_cfg = \<lparr>pc_enabled = ''1'', pc_shadow = ''1'', pc_max_pkgs = 100, pc_corr_days = 30, pc_dedup_ttl = 3600,
     pc_allow = [], pc_deny = [], pc_wla = default_wla_cfg, pc_mw = default_mw_cfg\<rparr>"

definition switch_on :: "string \<Rightarrow> bool" where
  "switch_on v \<longleftrightarrow> lower v \<notin> {''0'', ''false'', ''off'', ''no''}"

definition pivot_supported :: "ecosystem \<Rightarrow> bool" where
  "pivot_supported eco \<longleftrightarrow> eco \<in> {''pypi'', ''npm''}"

definition pivot_non_primary :: "string set" where
  "pivot_non_primary = {''iocs'', ''dep_intel'', ''metadata'', ''version_diff''}"

definition high_fidelity_conf :: rat where
  "high_fidelity_conf = 95 / 100"

definition trigger_rule_set :: "string \<Rightarrow> string set" where
  "trigger_rule_set v = (let raw = strip v in
     if raw = [] then {} else set (filter (\<lambda>t. t \<noteq> []) (map strip (split_on (CHR '','') raw))))"

definition pivot_blocklisted :: "pivot_cfg \<Rightarrow> ecosystem \<Rightarrow> string \<Rightarrow> bool" where
  "pivot_blocklisted cfg eco name \<longleftrightarrow> (eco, lower name) \<in> set (blocklist (pc_wla cfg))"

text \<open>The findings that may drive a sweep, and a conviction strong enough on its own.\<close>

definition rule_admitted :: "pivot_cfg \<Rightarrow> finding \<Rightarrow> bool" where
  "rule_admitted cfg f \<longleftrightarrow> f_rule_id f \<notin> trigger_rule_set (pc_deny cfg) \<and>
     (trigger_rule_set (pc_allow cfg) = {} \<or> f_rule_id f \<in> trigger_rule_set (pc_allow cfg))"

definition trigger_eligible :: "pivot_cfg \<Rightarrow> finding list \<Rightarrow> finding list" where
  "trigger_eligible cfg fs =
    filter (\<lambda>f. \<not> is_shadow_finding f \<and> f_severity f \<in> {''high'', ''critical''} \<and> f_category f \<notin> pivot_non_primary \<and>
      rule_admitted cfg f) fs"

datatype pivot_trigger = Chain string | Threat string | Llm_conf rat | Correlation nat

fun high_fidelity_rule :: "pivot_cfg \<Rightarrow> intel_pack \<Rightarrow> finding list \<Rightarrow> pivot_trigger option" where
  "high_fidelity_rule cfg p [] = None"
| "high_fidelity_rule cfg p (f # fs) =
    (if is_shadow_finding f \<or> f_severity f \<notin> {''high'', ''critical''} \<or> \<not> rule_admitted cfg f then high_fidelity_rule cfg p fs
     else if f_rule_id f \<in> ip_behavioral_chain_ids p then Some (Chain (f_rule_id f))
     else if f_category f = ''threat_intel'' then Some (Threat (f_rule_id f))
     else high_fidelity_rule cfg p fs)"

definition high_fidelity :: "pivot_cfg \<Rightarrow> intel_pack \<Rightarrow> finding list \<Rightarrow> triage_result option \<Rightarrow> pivot_trigger option" where
  "high_fidelity cfg p fs tri =
    (case high_fidelity_rule cfg p fs of
       Some r \<Rightarrow> Some r
     | None \<Rightarrow>
         (case tri of
            None \<Rightarrow> None
          | Some t \<Rightarrow> (if tr_verdict t = Malicious \<and> high_fidelity_conf \<le> tr_confidence t then Some (Llm_conf (tr_confidence t)) else None)))"

section \<open>Memory of recent sweeps\<close>

type_synonym recent = "(string \<times> rat) list"

definition dedup_key :: "ecosystem \<Rightarrow> string \<Rightarrow> string" where
  "dedup_key eco maintainer = eco @ '':'' @ lower maintainer"

definition recently_swept :: "rat \<Rightarrow> rat \<Rightarrow> string \<Rightarrow> recent \<Rightarrow> bool" where
  "recently_swept ttl now key recent =
    (if ttl \<le> 0 then False
     else (case dict_get recent key of None \<Rightarrow> False | Some ts \<Rightarrow> now - ts < ttl))"

definition mark_swept :: "rat \<Rightarrow> rat \<Rightarrow> string \<Rightarrow> recent \<Rightarrow> recent" where
  "mark_swept ttl now key recent =
    (let r = dict_put key now recent in
     if 0 < ttl \<and> 4096 < int (length r) then filter (\<lambda>(k, v). \<not> v < now - ttl) r else r)"

section \<open>Requests\<close>

text \<open>What \<^verbatim>\<open>ipaddress\<close> says of an address; \<^const>\<open>None\<close> is an address it cannot read.\<close>

record ip_flags =
  is_private :: bool
  is_loopback :: bool
  is_link_local :: bool
  is_reserved :: bool
  is_multicast :: bool
  is_unspecified :: bool

definition public_address :: "ip_flags \<Rightarrow> bool" where
  "public_address a \<longleftrightarrow> \<not> (is_private a \<or> is_loopback a \<or> is_link_local a \<or> is_reserved a \<or> is_multicast a \<or> is_unspecified a)"

text \<open>\<open>pv_addrs\<close>: the addresses of a host (\<^const>\<open>None\<close>: \<^verbatim>\<open>OSError\<close>); \<open>pv_reply\<close>: status and body of a request
  (\<^const>\<open>None\<close>: an exception); \<open>pv_loads\<close>: \<^verbatim>\<open>json.loads\<close>; \<open>pv_late\<close>: whether the time for version lookups is
  over when a package is reached; \<open>pv_check\<close> and \<open>pv_mark\<close>: the monotonic clock at the two uses of the memory.\<close>

record pivot_io =
  pv_addrs :: "string \<Rightarrow> ip_flags option list option"
  pv_reply :: "string \<Rightarrow> string \<Rightarrow> (int \<times> string) option"
  pv_loads :: "string \<Rightarrow> json option"
  pv_late :: "string \<Rightarrow> bool"
  pv_check :: rat
  pv_mark :: rat
  pv_now :: timestamp
  pv_db_down :: bool
  pv_enq :: enq_env
  pv_watch_others :: "string \<Rightarrow> watch_entry list \<Rightarrow> watch_entry list"
  pv_watch_fault :: "string \<Rightarrow> bool"

definition ssrf_safe :: "pivot_io \<Rightarrow> string \<Rightarrow> bool" where
  "ssrf_safe io host =
    (case pv_addrs io host of
       None \<Rightarrow> False
     | Some as \<Rightarrow> as \<noteq> [] \<and> list_all (\<lambda>a. case a of None \<Rightarrow> False | Some fl \<Rightarrow> public_address fl) as)"

definition max_body_bytes :: int where
  "max_body_bytes = 8 * 1024 * 1024"

definition get_text :: "pivot_io \<Rightarrow> string \<Rightarrow> string \<Rightarrow> string" where
  "get_text io host path =
    (if host = [] \<or> \<not> ssrf_safe io host then []
     else (case pv_reply io host path of
         None \<Rightarrow> []
       | Some (status, body) \<Rightarrow> (if status \<noteq> 200 \<or> max_body_bytes < int (length body) then [] else body)))"

definition get_json :: "pivot_io \<Rightarrow> string \<Rightarrow> string \<Rightarrow> json option" where
  "get_json io host path = (let text = get_text io host path in if text = [] then None else pv_loads io text)"

section \<open>Catalogs\<close>

text \<open>\<^verbatim>\<open>href="<marker>([^/"]+)/"\<close>, all matches from left to right.\<close>

function hrefs :: "string \<Rightarrow> string \<Rightarrow> string list" where
  "hrefs marker s =
    (if s = [] then []
     else (let start = ''href='' @ [CHR 34] @ marker;
               body = takeWhile (\<lambda>c. c \<noteq> CHR ''/'' \<and> c \<noteq> CHR 34) (drop (length start) s) in
       if prefix start s \<and> body \<noteq> [] \<and> prefix [CHR ''/'', CHR 34] (drop (length start + length body) s)
       then body # hrefs marker (drop (length start + length body + 2) s) else hrefs marker (tl s)))"
  by pat_completeness auto
termination by (relation "measure (length \<circ> snd)") (auto simp: prefix_def)

declare hrefs.simps [simp del]

definition parse_pypi_maintainers :: "string \<Rightarrow> string list" where
  "parse_pypi_maintainers html = nub (hrefs ''/user/'' html)"

definition parse_pypi_user_projects :: "string \<Rightarrow> string list" where
  "parse_pypi_user_projects html = nub (hrefs ''/project/'' html)"

definition pypi_host :: string where "pypi_host = ''pypi.org''"
definition npm_host :: string where "npm_host = ''registry.npmjs.org''"

definition pypi_resolve :: "pivot_io \<Rightarrow> string \<Rightarrow> string list \<times> string list" where
  "pypi_resolve io name =
    (let maintainers = parse_pypi_maintainers (get_text io pypi_host (''/project/'' @ name @ ''/''))
     in (maintainers, nub (concat (map (\<lambda>u. parse_pypi_user_projects (get_text io pypi_host (''/user/'' @ u @ ''/'')))
          (take 3 maintainers)))))"

definition pypi_latest_version :: "pivot_io \<Rightarrow> string \<Rightarrow> string" where
  "pypi_latest_version io name =
    (case get_json io pypi_host (''/pypi/'' @ name @ ''/json'') of
       Some (JObj d) \<Rightarrow> (case jget d ''info'' of Some (JObj i) \<Rightarrow> or_empty (jtext i ''version'') | _ \<Rightarrow> [])
     | _ \<Rightarrow> [])"

text \<open>Iterating over \<^verbatim>\<open>d.get(k) or []\<close>; \<^const>\<open>None\<close> is \<^verbatim>\<open>TypeError\<close>. Names and versions that are not texts do not occur.\<close>

definition json_iter :: "json_dict \<Rightarrow> string \<Rightarrow> json list option" where
  "json_iter d k =
    (let v = get_or JNull (jget d k) in
     if \<not> jtruthy v then Some []
     else (case v of JList xs \<Rightarrow> Some xs | JObj kvs \<Rightarrow> Some (map (\<lambda>kv. JStr (fst kv)) kvs)
       | JStr s \<Rightarrow> Some (map (\<lambda>c. JStr [c]) s) | _ \<Rightarrow> None))"

definition parse_npm_maintainers :: "json_dict \<Rightarrow> string list option" where
  "parse_npm_maintainers packument =
    map_option (\<lambda>ms. nub (List.map_filter (\<lambda>m. case m of JObj d \<Rightarrow> jtext d ''name'' | _ \<Rightarrow> None) ms)) (json_iter packument ''maintainers'')"

definition search_entry :: "json \<Rightarrow> (string \<times> string) option" where
  "search_entry obj =
    (case obj of
       JObj d \<Rightarrow>
         (case jget d ''package'' of
            Some (JObj pkg) \<Rightarrow> map_option (\<lambda>n. (n, or_empty (jtext pkg ''version''))) (jtext pkg ''name'')
          | _ \<Rightarrow> None)
     | _ \<Rightarrow> None)"

definition parse_npm_search :: "json_dict \<Rightarrow> (string \<times> string) list option" where
  "parse_npm_search reply =
    map_option (\<lambda>objs. fold (\<lambda>(n, v) out. dict_put n v out) (List.map_filter search_entry objs) []) (json_iter reply ''objects'')"

fun npm_catalog :: "pivot_io \<Rightarrow> string list \<Rightarrow> (string \<times> string) list \<Rightarrow> (string \<times> string) list option" where
  "npm_catalog io [] catalog = Some catalog"
| "npm_catalog io (u # us) catalog =
    (case get_json io npm_host (''/-/v1/search?text=maintainer:'' @ u @ ''&size=250'') of
       Some (JObj d) \<Rightarrow>
         (case parse_npm_search d of
            None \<Rightarrow> None
          | Some found \<Rightarrow> npm_catalog io us (fold (\<lambda>(n, v) out. dict_put n v out) found catalog))
     | _ \<Rightarrow> npm_catalog io us catalog)"

definition npm_resolve :: "pivot_io \<Rightarrow> string \<Rightarrow> (string list \<times> (string \<times> string) list) option" where
  "npm_resolve io name =
    (case (case get_json io npm_host (CHR ''/'' # name) of Some (JObj d) \<Rightarrow> parse_npm_maintainers d | _ \<Rightarrow> Some []) of
       None \<Rightarrow> None
     | Some maintainers \<Rightarrow> map_option (\<lambda>c. (maintainers, c)) (npm_catalog io (take 3 maintainers) []))"

definition pivot_resolve :: "pivot_io \<Rightarrow> ecosystem \<Rightarrow> string \<Rightarrow> (string list \<times> (string \<times> string) list) option" where
  "pivot_resolve io eco name =
    (if eco = ''pypi'' then (case pypi_resolve io name of (ms, names) \<Rightarrow> Some (ms, map (\<lambda>n. (n, [])) names))
     else npm_resolve io name)"

section \<open>Correlation, enqueueing, watches\<close>

record pivot_db =
  pd_packages :: "package_row list"
  pd_versions :: "version_row list"
  pd_scans :: "scan_entry list"

definition double_confirmed_names :: "pivot_cfg \<Rightarrow> timestamp \<Rightarrow> pivot_db \<Rightarrow> ecosystem \<Rightarrow> string list \<Rightarrow> string list" where
  "double_confirmed_names cfg now db eco names =
    nub [lower (pk_name p). s \<leftarrow> pd_scans db, v \<leftarrow> pd_versions db, p \<leftarrow> pd_packages db,
      sc_version_id s = vr_id v \<and> vr_package_id v = pk_id p \<and> pk_ecosystem p = eco \<and> lower (pk_name p) \<in> lower ` set names \<and>
      sc_verdict s = Malicious \<and> sc_llm_verdict s = Some Malicious \<and>
      (case sc_finished_at s of None \<Rightarrow> False | Some t \<Rightarrow> now - days (pc_corr_days cfg) \<le> t)]"

record pivot_state =
  ps_recent :: recent
  ps_rows :: scan_rows
  ps_watches :: "watch_entry list"

text \<open>The number of packages whose enqueueing raised nothing, and the queue.\<close>

fun enqueue_catalog :: "pivot_io \<Rightarrow> ecosystem \<Rightarrow> string \<Rightarrow> (string \<times> string) list \<Rightarrow> scan_rows \<Rightarrow> nat \<times> scan_rows" where
  "enqueue_catalog io eco exclude [] rs = (0, rs)"
| "enqueue_catalog io eco exclude ((name, version) # xs) rs =
    (if lower name = lower exclude then enqueue_catalog io eco exclude xs rs
     else if version = [] \<and> pv_late io name then (0, rs)
     else (let ver = (if version = [] \<and> eco = ''pypi'' then pypi_latest_version io name else version) in
       if ver = [] then enqueue_catalog io eco exclude xs rs
       else (case enqueue1 (pv_enq io) eco name ver High rs of
           (rs1, res) \<Rightarrow> (case enqueue_catalog io eco exclude xs rs1 of
             (n, rs2) \<Rightarrow> (case res of Inl _ \<Rightarrow> n | Inr _ \<Rightarrow> Suc n, rs2)))))"

fun register_watches :: "pivot_cfg \<Rightarrow> pivot_io \<Rightarrow> ecosystem \<Rightarrow> string \<Rightarrow> string list \<Rightarrow> watch_entry list \<Rightarrow> nat \<times> watch_entry list" where
  "register_watches cfg io eco maintainer [] ws = (0, ws)"
| "register_watches cfg io eco maintainer (sib # sibs) ws =
    (if pivot_blocklisted cfg eco sib \<or> pv_watch_fault io sib then register_watches cfg io eco maintainer sibs ws
     else (case register_watches cfg io eco maintainer sibs
         (fst (add_watch (pv_watch_others io sib) (pv_now io) eco sib (Some maintainer) ws)) of (n, ws1) \<Rightarrow> (Suc n, ws1)))"

definition register_clean_watches :: "pivot_cfg \<Rightarrow> pivot_io \<Rightarrow> ecosystem \<Rightarrow> string list \<Rightarrow> string \<Rightarrow> watch_entry list \<Rightarrow> nat \<times> watch_entry list" where
  "register_clean_watches cfg io eco sibs maintainer ws =
    (if \<not> mw_is_enabled (pc_mw cfg) \<or> sibs = [] then (0, ws) else register_watches cfg io eco maintainer sibs ws)"

section \<open>The sweep\<close>

datatype pivot_skip = No_evidence | Resolve_failed | No_maintainer | Deduped | Catalog_too_large nat | Soft_uncorrelated nat nat

datatype pivot_outcome = Pv_disabled | Pv_unsupported | Pv_blocklisted | Pv_skip pivot_skip
  | Pv_shadow string nat pivot_trigger nat
  | Pv_swept string nat nat nat pivot_trigger

definition sweep_on_malicious :: "pivot_cfg \<Rightarrow> intel_pack \<Rightarrow> pivot_io \<Rightarrow> pivot_db \<Rightarrow> ecosystem \<Rightarrow> string \<Rightarrow> finding list \<Rightarrow>
    triage_result option \<Rightarrow> bool \<Rightarrow> pivot_state \<Rightarrow> pivot_outcome \<times> pivot_state" where
  "sweep_on_malicious cfg p io db eco name findings tri manual st =
    (if \<not> switch_on (pc_enabled cfg) then (Pv_disabled, st)
     else if \<not> pivot_supported eco then (Pv_unsupported, st)
     else if pivot_blocklisted cfg eco name then (Pv_blocklisted, st)
     else (let hi = high_fidelity cfg p findings tri in
       if \<not> manual \<and> trigger_eligible cfg findings = [] \<and> hi = None then (Pv_skip No_evidence, st)
       else (case pivot_resolve io eco name of
           None \<Rightarrow> (Pv_skip Resolve_failed, st)
         | Some ([], catalog) \<Rightarrow> (Pv_skip No_maintainer, st)
         | Some (m # ms, catalog) \<Rightarrow>
             (let key = dedup_key eco m; names = nub (name # map fst catalog); n = length names;
                  marked = st\<lparr>ps_recent := mark_swept (pc_dedup_ttl cfg) (pv_mark io) key (ps_recent st)\<rparr> in
              if recently_swept (pc_dedup_ttl cfg) (pv_check io) key (ps_recent st) then (Pv_skip Deduped, st)
              else if pc_max_pkgs cfg < int n then (Pv_skip (Catalog_too_large n), marked)
              else (let bad = (if pv_db_down io then [] else double_confirmed_names cfg (pv_now io) db eco names); corr = length bad in
                if hi = None \<and> corr < 2 then (Pv_skip (Soft_uncorrelated corr n), st)
                else (let trigger = get_or (Correlation corr) hi;
                          sibs = filter (\<lambda>c. lower c \<noteq> lower name \<and> lower c \<notin> set bad) (map fst catalog)
                  in if switch_on (pc_shadow cfg) then (Pv_shadow m n trigger (length sibs), marked)
                     else (case enqueue_catalog io eco name catalog (ps_rows st) of
                         (enq, rs) \<Rightarrow> (case register_clean_watches cfg io eco sibs m (ps_watches st) of
                           (watched, ws) \<Rightarrow> (Pv_swept m n enq watched trigger, marked\<lparr>ps_rows := rs, ps_watches := ws\<rparr>)))))))))"

section \<open>Lemmas\<close>

lemma length_nub: "length (nub xs) = card (set xs)"
  using distinct_card [of "nub xs"] by simp

text \<open>The names with a scan in the window that rules and model both call malicious.\<close>

definition confirmed_names :: "pivot_cfg \<Rightarrow> timestamp \<Rightarrow> pivot_db \<Rightarrow> ecosystem \<Rightarrow> string set \<Rightarrow> string set" where
  "confirmed_names cfg now db eco names =
    {lower (pk_name p) | s v p t. s \<in> set (pd_scans db) \<and> v \<in> set (pd_versions db) \<and> p \<in> set (pd_packages db) \<and>
      sc_version_id s = vr_id v \<and> vr_package_id v = pk_id p \<and> pk_ecosystem p = eco \<and> lower (pk_name p) \<in> lower ` names \<and>
      sc_verdict s = Malicious \<and> sc_llm_verdict s = Some Malicious \<and> sc_finished_at s = Some t \<and>
      now - days (pc_corr_days cfg) \<le> t}"

lemma set_double_confirmed: "set (double_confirmed_names cfg now db eco names) = confirmed_names cfg now db eco (set names)"
proof -
  have "(case f of None \<Rightarrow> False | Some t \<Rightarrow> q t) \<longleftrightarrow> (\<exists>t. f = Some t \<and> q t)" for f :: "timestamp option" and q by (cases f) auto
  then show ?thesis
    unfolding double_confirmed_names_def confirmed_names_def set_nub by (simp add: set_eq_iff) blast
qed

lemma distinct_double_confirmed: "distinct (double_confirmed_names cfg now db eco names)"
  by (simp add: double_confirmed_names_def)

text \<open>Enqueueing the catalog.\<close>

definition catalog_version :: "pivot_io \<Rightarrow> ecosystem \<Rightarrow> string \<Rightarrow> string \<Rightarrow> string" where
  "catalog_version io eco name version = (if version = [] \<and> eco = ''pypi'' then pypi_latest_version io name else version)"

lemma enqueue_catalog_step:
  "snd (enqueue_catalog io eco exclude ((name, version) # xs) rs) =
    (if lower name = lower exclude then snd (enqueue_catalog io eco exclude xs rs)
     else if version = [] \<and> pv_late io name then rs
     else if catalog_version io eco name version = [] then snd (enqueue_catalog io eco exclude xs rs)
     else snd (enqueue_catalog io eco exclude xs (fst (enqueue1 (pv_enq io) eco name (catalog_version io eco name version) High rs))))"
  by (auto simp: Let_def catalog_version_def split: prod.splits)

lemma enqueue_catalog_keys:
  assumes "undisturbed (pv_enq io)"
  shows "sq_key ` set rs \<subseteq> sq_key ` set (snd (enqueue_catalog io eco exclude xs rs)) \<and>
    sq_key ` set (snd (enqueue_catalog io eco exclude xs rs)) \<subseteq> sq_key ` set rs \<union>
      {(eco, n, v) | n v. n \<in> fst ` set xs \<and> lower n \<noteq> lower exclude \<and> v \<noteq> []}"
proof (induction xs arbitrary: rs)
  case (Cons x xs)
  obtain name version where x: "x = (name, version)" by (cases x)
  let ?ver = "catalog_version io eco name version"
  let ?rs1 = "fst (enqueue1 (pv_enq io) eco name ?ver High rs)"
  have k: "sq_key ` set ?rs1 = insert (eco, name, ?ver) (sq_key ` set rs)" using enqueue1_undisturbed [OF assms] by blast
  let ?A = "\<lambda>xs. {(eco, n, v) | n v. n \<in> fst ` set xs \<and> lower n \<noteq> lower exclude \<and> v \<noteq> []}"
  have mono: "sq_key ` set rs \<union> ?A xs \<subseteq> sq_key ` set rs \<union> ?A (x # xs)" for rs by (rule Un_mono) auto
  have new: "(eco, name, ?ver) \<in> ?A (x # xs)" if "lower name \<noteq> lower exclude" "?ver \<noteq> []" using that by (auto simp: x)
  show ?case
  proof (cases "lower name = lower exclude \<or> version = [] \<and> pv_late io name \<or> ?ver = []")
    case True
    then consider (stop) "snd (enqueue_catalog io eco exclude (x # xs) rs) = rs"
      | (skip) "snd (enqueue_catalog io eco exclude (x # xs) rs) = snd (enqueue_catalog io eco exclude xs rs)"
      unfolding x enqueue_catalog_step by presburger
    then show ?thesis
    proof cases
      case stop
      show ?thesis unfolding stop by blast
    next
      case skip
      show ?thesis unfolding skip using Cons.IH [of rs] mono [of rs] by (meson subset_trans)
    qed
  next
    case False
    then have e: "snd (enqueue_catalog io eco exclude (x # xs) rs) = snd (enqueue_catalog io eco exclude xs ?rs1)"
      unfolding x enqueue_catalog_step by presburger
    have n: "insert (eco, name, ?ver) (sq_key ` set rs) \<union> ?A (x # xs) = sq_key ` set rs \<union> ?A (x # xs)"
      using insert_absorb [OF UnI2 [OF new]] False unfolding Un_insert_left by blast
    note up = Cons.IH [of ?rs1, THEN conjunct1] and down = subset_trans [OF Cons.IH [of ?rs1, THEN conjunct2] mono [of ?rs1]]
    show ?thesis unfolding e using up down unfolding k n by (meson insert_subset)
  qed
qed simp

lemma enqueue_catalog_all:
  assumes "undisturbed (pv_enq io)" "\<And>n. \<not> pv_late io n" "(n, v) \<in> set xs" "lower n \<noteq> lower exclude" "v \<noteq> []"
  shows "(eco, n, v) \<in> sq_key ` set (snd (enqueue_catalog io eco exclude xs rs))"
  using assms(3)
proof (induction xs arbitrary: rs)
  case (Cons x xs)
  show ?case
  proof (cases "x = (n, v)")
    case True
    have "(eco, n, v) \<in> sq_key ` set (fst (enqueue1 (pv_enq io) eco n v High rs))"
      using enqueue1_undisturbed [OF assms(1)] by blast
    then have "(eco, n, v) \<in> sq_key ` set (snd (enqueue_catalog io eco exclude xs (fst (enqueue1 (pv_enq io) eco n v High rs))))"
      using enqueue_catalog_keys [OF assms(1)] by blast
    then show ?thesis unfolding True enqueue_catalog_step using assms(4,5) by (simp add: catalog_version_def)
  next
    case False
    then have "(n, v) \<in> set xs" using Cons.prems by simp
    from Cons.IH [OF this] assms(2) show ?thesis by (cases x) (simp add: enqueue_catalog_step del: enqueue_catalog.simps)
  qed
qed simp

text \<open>What a sweep that changes the queue or the watches has passed.\<close>

lemma sweep_changes:
  assumes "sweep_on_malicious cfg p io db eco name findings tri manual st = (out, st')"
    and "ps_rows st' \<noteq> ps_rows st \<or> ps_watches st' \<noteq> ps_watches st"
  obtains m ms catalog where "pivot_resolve io eco name = Some (m # ms, catalog)"
    "switch_on (pc_enabled cfg)" "pivot_supported eco" "\<not> pivot_blocklisted cfg eco name" "\<not> switch_on (pc_shadow cfg)"
    "manual \<or> trigger_eligible cfg findings \<noteq> [] \<or> high_fidelity cfg p findings tri \<noteq> None"
    "\<not> recently_swept (pc_dedup_ttl cfg) (pv_check io) (dedup_key eco m) (ps_recent st)"
    "int (card (insert name (fst ` set catalog))) \<le> pc_max_pkgs cfg"
    "high_fidelity cfg p findings tri \<noteq> None \<or>
      \<not> pv_db_down io \<and> 2 \<le> card (confirmed_names cfg (pv_now io) db eco (insert name (fst ` set catalog)))"
    "ps_rows st' = snd (enqueue_catalog io eco name catalog (ps_rows st))"
    "ps_recent st' = mark_swept (pc_dedup_ttl cfg) (pv_mark io) (dedup_key eco m) (ps_recent st)"
    "ps_watches st' = snd (register_clean_watches cfg io eco (filter (\<lambda>c. lower c \<noteq> lower name \<and>
       c \<notin> (if pv_db_down io then {} else {c. lower c \<in> confirmed_names cfg (pv_now io) db eco (insert name (fst ` set catalog))}))
       (map fst catalog)) m (ps_watches st))"
proof -
  from assms obtain m ms catalog where r: "pivot_resolve io eco name = Some (m # ms, catalog)"
    unfolding sweep_on_malicious_def Let_def by (auto split: if_splits option.splits list.splits)
  let ?names = "nub (name # map fst catalog)"
  have len: "length ?names = card (insert name (fst ` set catalog))" unfolding length_nub by simp
  have conf: "length (double_confirmed_names cfg (pv_now io) db eco ?names) =
      card (confirmed_names cfg (pv_now io) db eco (insert name (fst ` set catalog)))"
    using distinct_card [OF distinct_double_confirmed, of cfg "pv_now io" db eco ?names] by (simp add: set_double_confirmed del: nub.simps)
  have sibs: "filter (\<lambda>c. lower c \<noteq> lower name \<and> lower c \<notin> set (if pv_db_down io then [] else double_confirmed_names cfg (pv_now io) db eco ?names)) cs =
    filter (\<lambda>c. lower c \<noteq> lower name \<and>
       c \<notin> (if pv_db_down io then {} else {c. lower c \<in> confirmed_names cfg (pv_now io) db eco (insert name (fst ` set catalog))})) cs" for cs
    by (rule filter_cong) (simp_all add: set_double_confirmed del: nub.simps)
  show ?thesis
    by (rule that [OF r])
      (use assms r in \<open>auto simp: sweep_on_malicious_def Let_def len conf sibs [symmetric] simp del: nub.simps split: if_splits prod.splits\<close>)
qed

text \<open>Registering watches.\<close>

abbreviation watch_pairs :: "watch_entry list \<Rightarrow> (ecosystem \<times> string) set" where
  "watch_pairs ws \<equiv> (\<lambda>w. (mw_ecosystem w, mw_name w)) ` set ws"

lemma add_watch_pairs:
  assumes "\<And>ws. others ws = ws"
  shows "watch_pairs (fst (add_watch others now eco name m ws)) \<subseteq> insert (eco, name) (watch_pairs ws)"
proof -
  have "watch_pairs (update_where q (\<lambda>x. x\<lparr>mw_added_at := now, mw_maintainer := mm x\<rparr>) ws) = watch_pairs ws" for q mm
  proof -
    have "map (\<lambda>w. (mw_ecosystem w, mw_name w)) (update_where q (\<lambda>x. x\<lparr>mw_added_at := now, mw_maintainer := mm x\<rparr>) ws) =
      map (\<lambda>w. (mw_ecosystem w, mw_name w)) ws" by (rule map_update_where) simp
    from arg_cong [OF this, of set] show ?thesis by simp
  qed
  then show ?thesis using assms by (auto simp: add_watch_def Let_def split: option.splits)
qed

lemma register_watches_pairs:
  assumes "\<And>n ws. pv_watch_others io n ws = ws"
  shows "watch_pairs (snd (register_watches cfg io eco m sibs ws)) \<subseteq>
    watch_pairs ws \<union> {(eco, c) | c. c \<in> set sibs \<and> \<not> pivot_blocklisted cfg eco c}"
proof (induction sibs arbitrary: ws)
  case (Cons c cs)
  let ?ws1 = "fst (add_watch (pv_watch_others io c) (pv_now io) eco c (Some m) ws)"
  have step: "snd (register_watches cfg io eco m (c # cs) ws) =
    snd (register_watches cfg io eco m cs (if pivot_blocklisted cfg eco c \<or> pv_watch_fault io c then ws else ?ws1))"
    by (simp split: prod.splits)
  have "watch_pairs (if pivot_blocklisted cfg eco c \<or> pv_watch_fault io c then ws else ?ws1) \<subseteq>
    watch_pairs ws \<union> {(eco, c') | c'. c' = c \<and> \<not> pivot_blocklisted cfg eco c}"
    using add_watch_pairs [of "pv_watch_others io c" "pv_now io" eco c "Some m" ws] assms by (auto split: if_splits)
  then have one: "watch_pairs (if pivot_blocklisted cfg eco c \<or> pv_watch_fault io c then ws else ?ws1) \<union>
      {(eco, c) | c. c \<in> set cs \<and> \<not> pivot_blocklisted cfg eco c} \<subseteq>
    watch_pairs ws \<union> {(eco, c') | c'. c' = c \<and> \<not> pivot_blocklisted cfg eco c} \<union>
      {(eco, c) | c. c \<in> set cs \<and> \<not> pivot_blocklisted cfg eco c}" by (rule Un_mono) (rule order_refl)
  have all: "watch_pairs ws \<union> {(eco, c') | c'. c' = c \<and> \<not> pivot_blocklisted cfg eco c} \<union>
      {(eco, c) | c. c \<in> set cs \<and> \<not> pivot_blocklisted cfg eco c} = watch_pairs ws \<union> {(eco, c') | c'. c' \<in> set (c # cs) \<and> \<not> pivot_blocklisted cfg eco c'}" by auto
  show ?case unfolding step by (rule subset_trans [OF Cons.IH]) (rule one [unfolded all])
qed simp

lemma register_clean_pairs:
  "(\<And>n ws. pv_watch_others io n ws = ws) \<Longrightarrow> watch_pairs (snd (register_clean_watches cfg io eco sibs m ws)) \<subseteq>
    watch_pairs ws \<union> {(eco, c) | c. c \<in> set sibs \<and> \<not> pivot_blocklisted cfg eco c}"
  using register_watches_pairs [of io cfg eco m sibs ws] by (auto simp: register_clean_watches_def)

text \<open>A maintainer is swept once in the time of the memory: afterwards the same account is skipped, and nothing changes.\<close>

lemma mark_then_recent:
  assumes "0 < ttl" "later - now < ttl"
  shows "recently_swept ttl later key (mark_swept ttl now key recent)"
proof -
  have "dict_get (filter (\<lambda>(k, v). \<not> v < now - ttl) d) key = Some now" if "dict_get d key = Some now" for d
    using that assms(1) by (induction d) (auto simp: dict_get_def split: if_splits)
  then show ?thesis using assms by (simp add: recently_swept_def mark_swept_def Let_def)
qed

lemma second_sweep_deduped:
  assumes "pivot_resolve io eco name = Some (m # ms, catalog)" "ps_recent st = mark_swept (pc_dedup_ttl cfg) t (dedup_key eco m) recent"
    and "0 < pc_dedup_ttl cfg" "pv_check io - t < pc_dedup_ttl cfg"
  shows "snd (sweep_on_malicious cfg p io db eco name findings tri manual st) = st"
  using assms mark_then_recent [OF assms(3,4), of "dedup_key eco m" recent] by (simp add: sweep_on_malicious_def Let_def)

text \<open>The model's confidence alone passes the check for primary evidence.\<close>

lemma confidence_is_evidence:
  assumes "tr_verdict t = Malicious" "high_fidelity_conf \<le> tr_confidence t"
  shows "high_fidelity cfg p findings (Some t) \<noteq> None"
  using assms by (auto simp: high_fidelity_def split: option.splits)

section \<open>Properties\<close>


definition demo_tri :: triage_result where
  "demo_tri = \<lparr>tr_verdict = Malicious, tr_confidence = 1, tr_iocs = [], tr_agrees = None, tr_prompt_tokens = 0,
     tr_completion_tokens = 0, tr_cost = 0\<rparr>"

definition demo_loads :: "string \<Rightarrow> json option" where
  "demo_loads text = Some (JObj (if text = ''/evil'' then [(''maintainers'', JList [JObj [(''name'', JStr ''bob'')]])]
     else [(''objects'', JList [JObj [(''package'', JObj [(''name'', JStr ''sib''), (''version'', JStr ''1.0'')])]])]))"

definition demo_pivot_io :: pivot_io where
  "demo_pivot_io = \<lparr>pv_addrs = (\<lambda>_. Some [Some \<lparr>is_private = False, is_loopback = False, is_link_local = False, is_reserved = False,
       is_multicast = False, is_unspecified = False\<rparr>]),
     pv_reply = (\<lambda>host path. Some (200, path)), pv_loads = demo_loads, pv_late = (\<lambda>_. False), pv_check = 0, pv_mark = 1, pv_now = 0,
     pv_db_down = False, pv_enq = demo_enq (\<lambda>_ _. None), pv_watch_others = (\<lambda>_ ws. ws), pv_watch_fault = (\<lambda>_. False)\<rparr>"

definition demo_pivot_db :: pivot_db where
  "demo_pivot_db = \<lparr>pd_packages = [], pd_versions = [], pd_scans = []\<rparr>"

definition demo_pivot_state :: pivot_state where
  "demo_pivot_state = \<lparr>ps_recent = [], ps_rows = [], ps_watches = []\<rparr>"

lemma demo_sweep:
  "sweep_on_malicious (default_pivot_cfg\<lparr>pc_shadow := ''0''\<rparr>) demo_base demo_pivot_io demo_pivot_db ''npm'' ''evil'' [] (Some demo_tri) False
     demo_pivot_state =
   (Pv_swept ''bob'' 2 1 1 (Llm_conf 1),
    \<lparr>ps_recent = [(''npm:bob'', 1)], ps_rows = [new_row 1 0 (''npm'', ''sib'', ''1.0'') High],
      ps_watches = [\<lparr>mw_id = 1, mw_ecosystem = ''npm'', mw_name = ''sib'', mw_maintainer = Some ''bob'', mw_added_at = 0\<rparr>]\<rparr>)"
  by code_simp


end
