(* ===== verification/WatchlistRefresh.thy ===== *)
theory WatchlistRefresh
  imports WatchlistAuto Anomaly
begin

text \<open>
  Rebuilding the popularity watchlists: \<^verbatim>\<open>refresh_watchlist\<close> and its sources in \<^verbatim>\<open>ecosystems/*/ingest/watchlist.py\<close>.
  The table is the one of the automatic watchlist; a row is of the popularity list unless its rank is the one of
  a confirmed malicious package. Replies of the registries are arguments. The session writes at its
  end: inserts, which the unique constraint on ecosystem and name can reject, then deletes.
\<close>

section \<open>The table\<close>

text \<open>The outcome of a refresh: an exception that rolls everything back, nothing to write, or the number of entries
  written and the table.\<close>

datatype refresh_result = Raised | Unchanged | Written nat watch_rows

definition popularity :: "ecosystem \<Rightarrow> watch_row \<Rightarrow> bool" where
  "popularity eco r \<longleftrightarrow> wl_ecosystem r = eco \<and> \<not> is_auto r"

text \<open>Inserting (rank, name, downloads); \<^const>\<open>None\<close> is \<^verbatim>\<open>IntegrityError\<close>.\<close>

fun insert_ranked :: "ecosystem \<Rightarrow> timestamp \<Rightarrow> (int \<times> string \<times> int) list \<Rightarrow> watch_rows \<Rightarrow> watch_rows option" where
  "insert_ranked eco now [] rs = Some rs"
| "insert_ranked eco now ((rank, name, dl) # xs) rs =
    (if (eco, name) \<in> wl_key ` set rs then None
     else insert_ranked eco now xs (rs @ [\<lparr>wl_id = wl_next_id rs, wl_ecosystem = eco, wl_name = name, wl_rank = rank,
       wl_downloads_last_30d = dl, wl_refreshed_at = now\<rparr>]))"

definition enumerate1 :: "(string \<times> int) list \<Rightarrow> (int \<times> string \<times> int) list" where
  "enumerate1 xs = map (\<lambda>(i, n, d). (int i + 1, n, d)) (enumerate 0 xs)"

text \<open>Deleting the popularity rows and inserting the new list (crates.io, Go).\<close>

definition replace_popularity :: "ecosystem \<Rightarrow> timestamp \<Rightarrow> (string \<times> int) list \<Rightarrow> watch_rows \<Rightarrow> watch_rows option" where
  "replace_popularity eco now xs rs = insert_ranked eco now (enumerate1 xs) (delete_where (popularity eco) rs)"

text \<open>Updating the rows found under the key of a name, inserting the others, deleting those not in the list (npm, PyPI).\<close>

definition existing_rows :: "(string \<Rightarrow> string) \<Rightarrow> ecosystem \<Rightarrow> watch_rows \<Rightarrow> (string \<times> nat) list" where
  "existing_rows key eco rs = fold (\<lambda>w d. dict_put (key (wl_name w)) (wl_id w) d) (filter (popularity eco) rs) []"

fun upsert_step :: "(string \<Rightarrow> string) \<Rightarrow> timestamp \<Rightarrow> (string \<times> nat) list \<Rightarrow> (int \<times> string \<times> int) list \<Rightarrow> watch_rows \<Rightarrow>
    watch_rows \<times> (int \<times> string \<times> int) list" where
  "upsert_step key now existing [] rs = (rs, [])"
| "upsert_step key now existing ((rank, name, dl) # xs) rs =
    (case dict_get existing (key name) of
       None \<Rightarrow> (case upsert_step key now existing xs rs of (rs1, new) \<Rightarrow> (rs1, (rank, name, dl) # new))
     | Some i \<Rightarrow> upsert_step key now existing xs
         (update_where (\<lambda>r. wl_id r = i) (\<lambda>r. r\<lparr>wl_rank := rank, wl_downloads_last_30d := dl, wl_refreshed_at := now\<rparr>) rs))"

definition upsert_popularity :: "(string \<Rightarrow> string) \<Rightarrow> ecosystem \<Rightarrow> timestamp \<Rightarrow> (int \<times> string \<times> int) list \<Rightarrow> watch_rows \<Rightarrow> watch_rows option" where
  "upsert_popularity key eco now xs rs =
    (let existing = existing_rows key eco rs;
         gone = map snd (filter (\<lambda>(k, i). k \<notin> (\<lambda>(r, n, d). key n) ` set xs) existing)
     in case upsert_step key now existing xs rs of
          (rs1, new) \<Rightarrow> map_option (delete_where (\<lambda>r. wl_id r \<in> set gone)) (insert_ranked eco now new rs1))"

section \<open>npm\<close>

definition npm_infra :: "(string \<times> int) list" where
  "npm_infra =
    [(''react'', 100000000), (''react-dom'', 99000000), (''lodash'', 98000000), (''express'', 97000000),
     (''axios'', 96000000), (''chalk'', 95000000), (''debug'', 94000000), (''commander'', 93000000),
     (''semver'', 92000000), (''typescript'', 91000000), (''@babel/core'', 90000000), (''webpack'', 89000000),
     (''eslint'', 88000000), (''@types/node'', 87000000), (''rxjs'', 86000000), (''moment'', 85000000),
     (''uuid'', 84000000), (''glob'', 83000000), (''yargs'', 82000000), (''dotenv'', 81000000),
     (''classnames'', 80000000), (''prop-types'', 79000000), (''vue'', 78000000), (''next'', 77000000),
     (''react-router-dom'', 76000000), (''redux'', 75000000), (''zod'', 74000000), (''node-fetch'', 73000000),
     (''cross-env'', 72000000), (''rimraf'', 71000000), (''fs-extra'', 70000000), (''inquirer'', 69000000),
     (''colors'', 68000000), (''minimist'', 67000000), (''ws'', 66000000), (''body-parser'', 65000000),
     (''cors'', 64000000), (''mongoose'', 63000000), (''pg'', 62000000), (''mysql2'', 61000000), (''redis'', 60000000),
     (''ioredis'', 59000000), (''jsonwebtoken'', 58000000), (''bcrypt'', 57000000), (''passport'', 56000000),
     (''socket.io'', 55000000), (''nodemon'', 54000000), (''ts-node'', 53000000), (''jest'', 52000000),
     (''mocha'', 51000000), (''chai'', 50000000), (''vite'', 49000000), (''rollup'', 48000000),
     (''esbuild'', 47000000), (''@babel/preset-env'', 46000000), (''postcss'', 45000000), (''tailwindcss'', 44000000),
     (''prettier'', 43000000), (''husky'', 42000000), (''dayjs'', 41000000), (''date-fns'', 40000000),
     (''validator'', 39000000), (''winston'', 38000000), (''pino'', 37000000), (''nanoid'', 36000000),
     (''undici'', 35000000), (''@aws-sdk/client-s3'', 34000000), (''graphql'', 33000000),
     (''apollo-server'', 32000000), (''sequelize'', 31000000), (''prisma'', 30000000), (''knex'', 29000000)]"

definition search_seeds :: "string list" where
  "search_seeds =
    [''react'', ''vue'', ''angular'', ''svelte'', ''http'', ''cli'', ''test'', ''util'', ''types'', ''babel'',
     ''webpack'', ''eslint'', ''stream'', ''async'', ''promise'', ''logger'', ''config'', ''parser'', ''server'',
     ''express'', ''date'', ''string'', ''array'', ''object'', ''file'', ''fs'', ''path'', ''crypto'', ''json'',
     ''css'', ''html'', ''aws'', ''sdk'', ''graphql'', ''database'', ''orm'', ''redis'', ''mongodb'', ''socket'',
     ''websocket'', ''template'', ''markdown'', ''cache'', ''queue'', ''auth'', ''jwt'', ''oauth'', ''validation'',
     ''schema'', ''format'', ''color'', ''spinner'', ''prompt'', ''table'', ''csv'', ''xml'', ''yaml'', ''i18n'',
     ''router'', ''store'', ''state'', ''hook'', ''component'', ''icon'', ''build'', ''bundle'', ''compiler'',
     ''transform'', ''lint'', ''prettier'', ''jest'', ''mock'', ''uuid'', ''hash'', ''compress'', ''image'', ''pdf'',
     ''email'', ''metrics'', ''trace'', ''docker'', ''git'']"

definition npm_top_n :: nat where
  "npm_top_n = 10000"

definition jnum :: "json option \<Rightarrow> rat option" where
  "jnum j = (case j of Some (JFloat q) \<Rightarrow> Some q | _ \<Rightarrow> map_option of_int (jint j))"

text \<open>One hit of a search: its name, if it has one, and its popularity; \<^const>\<open>None\<close> is an exception.\<close>

definition search_hit :: "json \<Rightarrow> (string option \<times> rat) option" where
  "search_hit obj =
    (case obj of
       JObj d \<Rightarrow>
         (case (get_or (JObj []) (jget d ''package''), get_or (JObj []) (jget d ''score'')) of
            (JObj pkg, JObj sc) \<Rightarrow>
              (let detail = get_or (JObj []) (jget sc ''detail'') in
               if \<not> jtruthy detail then Some (jtext pkg ''name'', 0)
               else (case detail of
                   JObj dt \<Rightarrow> (if jget dt ''popularity'' = None then Some (jtext pkg ''name'', 0)
                     else map_option (\<lambda>q. (jtext pkg ''name'', q)) (jnum (jget dt ''popularity'')))
                 | _ \<Rightarrow> None))
          | _ \<Rightarrow> None)
     | _ \<Rightarrow> None)"

definition add_hit :: "(string option \<times> rat) \<Rightarrow> (string \<times> rat) list \<Rightarrow> (string \<times> rat) list" where
  "add_hit = (\<lambda>(name, pop) cs. case name of None \<Rightarrow> cs
     | Some n \<Rightarrow> (if get_or (- 1) (dict_get cs n) < pop then dict_put n pop cs else cs))"

text \<open>The replies per keyword, \<^const>\<open>None\<close> for a failed request.\<close>

fun search_candidates :: "json option list \<Rightarrow> (string \<times> rat) list \<Rightarrow> (string \<times> rat) list option" where
  "search_candidates [] cs = Some cs"
| "search_candidates (None # rs) cs = search_candidates rs cs"
| "search_candidates (Some body # rs) cs =
    (case body of
       JObj d \<Rightarrow>
         (case get_or (JList []) (jget d ''objects'') of
            JList objs \<Rightarrow> (if None \<in> search_hit ` set objs then None
              else search_candidates rs (fold (\<lambda>obj. add_hit (the (search_hit obj))) objs cs))
          | _ \<Rightarrow> None)
     | _ \<Rightarrow> None)"

definition search_popular :: "(string \<Rightarrow> json option) \<Rightarrow> string list option" where
  "search_popular reply = map_option (\<lambda>cs. map fst (sort_desc snd cs)) (search_candidates (map reply search_seeds) [])"

text \<open>\<^verbatim>\<open>\[([^\]]+)\]\(https?://[^)]+\)\<close>, all matches, and the pattern of a package name.\<close>

definition link_end :: "string \<Rightarrow> nat option" where
  "link_end s =
    (let n = (if prefix '']('' s then 2 else 0); t = drop n s;
         m = (if prefix ''https://'' t then 8 else if prefix ''http://'' t then 7 else 0);
         body = takeWhile (\<lambda>c. c \<noteq> CHR '')'') (drop m t)
     in if n = 0 \<or> m = 0 \<or> body = [] \<or> length body = length (drop m t) then None else Some (n + m + length body + 1))"

function md_links :: "string \<Rightarrow> string list" where
  "md_links s =
    (if s = [] then []
     else (let text = takeWhile (\<lambda>c. c \<noteq> CHR '']'') (tl s) in
       if hd s = CHR ''['' \<and> text \<noteq> [] \<and> link_end (drop (Suc (length text)) s) \<noteq> None
       then text # md_links (drop (Suc (length text) + the (link_end (drop (Suc (length text)) s))) s)
       else md_links (tl s)))"
  by pat_completeness auto
termination by (relation "measure length") auto

declare md_links.simps [simp del]

definition npm_start_char :: "char \<Rightarrow> bool" where
  "npm_start_char c \<longleftrightarrow> is_digit c \<or> (97 \<le> (of_char c :: nat) \<and> (of_char c :: nat) \<le> 122) \<or> c \<in> {CHR ''-'', CHR ''~''}"

definition npm_char :: "char \<Rightarrow> bool" where
  "npm_char c \<longleftrightarrow> npm_start_char c \<or> c \<in> {CHR ''.'', CHR ''_''}"

definition npm_part :: "string \<Rightarrow> bool" where
  "npm_part s \<longleftrightarrow> s \<noteq> [] \<and> npm_start_char (hd s) \<and> list_all npm_char s"

definition is_npm_name :: "string \<Rightarrow> bool" where
  "is_npm_name s =
    (case split_on (CHR ''/'') s of
       [p] \<Rightarrow> npm_part p
     | [sc, p] \<Rightarrow> sc \<noteq> [] \<and> hd sc = CHR ''@'' \<and> npm_part (tl sc) \<and> npm_part p
     | _ \<Rightarrow> False)"

fun awesome_loop :: "string list \<Rightarrow> string list \<Rightarrow> string list" where
  "awesome_loop seen [] = []"
| "awesome_loop seen (t # ts) =
    (let cand = strip t in
     if lower cand \<in> set seen \<or> \<not> is_npm_name cand then awesome_loop seen ts
     else cand # awesome_loop (lower cand # seen) ts)"

definition awesome_names :: "string option \<Rightarrow> string list" where
  "awesome_names readme = (case readme of None \<Rightarrow> [] | Some text \<Rightarrow> awesome_loop [] (md_links text))"

text \<open>The first \<open>top_n\<close> names without regard to case (at least one).\<close>

fun first_names :: "nat \<Rightarrow> string list \<Rightarrow> string list \<Rightarrow> string list" where
  "first_names top_n seen [] = []"
| "first_names top_n seen (n # ns) =
    (if lower n \<in> set seen then first_names top_n seen ns
     else n # (if top_n \<le> Suc (length seen) then [] else first_names top_n (lower n # seen) ns))"

definition npm_refresh :: "(string \<Rightarrow> json option) \<Rightarrow> string option \<Rightarrow> nat \<Rightarrow> timestamp \<Rightarrow> watch_rows \<Rightarrow> refresh_result" where
  "npm_refresh reply readme top_n now rs =
    (case search_popular reply of
       None \<Rightarrow> Raised
     | Some found \<Rightarrow>
         (let final = first_names top_n [] (map fst npm_infra @ found @ awesome_names readme);
              dl = (\<lambda>n. get_or 0 (dict_get (rev (map (\<lambda>(m, w). (lower m, w)) npm_infra)) (lower n)))
          in if final = [] then Unchanged
             else (case upsert_popularity lower ''npm'' now (enumerate1 (map (\<lambda>n. (n, dl n)) final)) rs of
                 None \<Rightarrow> Raised | Some rs' \<Rightarrow> Written (length final) rs')))"

section \<open>PyPI\<close>

text \<open>A listed project: its name, if it has one, and its downloads; \<^const>\<open>None\<close> is an exception.\<close>

definition top_entry :: "json \<Rightarrow> (string option \<times> int) option" where
  "top_entry entry =
    (case entry of
       JObj d \<Rightarrow>
         (let name = (case jtext d ''project'' of Some n \<Rightarrow> Some n | None \<Rightarrow> jtext d ''name'');
              count = (\<lambda>k. get_or JNull (jget d k));
              dl = (if jtruthy (count ''download_count'') then count ''download_count''
                else if jtruthy (count ''downloads'') then count ''downloads'' else JInt 0)
          in case dl of JInt n \<Rightarrow> Some (name, n) | JBool b \<Rightarrow> Some (name, if b then 1 else 0)
             | JFloat q \<Rightarrow> Some (name, if 0 \<le> q then \<lfloor>q\<rfloor> else \<lceil>q\<rceil>) | _ \<Rightarrow> None)
     | _ \<Rightarrow> None)"

text \<open>\<open>data\<close>: the decoded list, \<^const>\<open>None\<close> for a failed request.\<close>

definition pypi_refresh :: "json option \<Rightarrow> nat \<Rightarrow> timestamp \<Rightarrow> watch_rows \<Rightarrow> refresh_result" where
  "pypi_refresh data top_n now rs =
    (case data of
       None \<Rightarrow> Unchanged
     | Some (JObj d) \<Rightarrow>
         (let listed = (\<lambda>k. get_or JNull (jget d k));
              rows = (if jtruthy (listed ''rows'') then listed ''rows'' else if jtruthy (listed ''packages'') then listed ''packages'' else JList [])
          in case rows of
               JList es \<Rightarrow>
                 (let top = map top_entry (take top_n es) in
                  if None \<in> set top then Raised
                  else (let xs = List.map_filter (\<lambda>(i, e). case the e of (None, dl) \<Rightarrow> None | (Some n, dl) \<Rightarrow> Some (int i + 1, n, dl))
                            (enumerate 0 top)
                    in case upsert_popularity id ''pypi'' now xs rs of None \<Rightarrow> Raised | Some rs' \<Rightarrow> Written (length xs) rs'))
             | _ \<Rightarrow> Raised)
     | _ \<Rightarrow> Raised)"

section \<open>crates.io\<close>

text \<open>The pages by their number, \<^const>\<open>None\<close> for a failed request: the list ends there or at an empty page.\<close>

function crates_pages :: "nat \<Rightarrow> (nat \<Rightarrow> (string \<times> int) list option) \<Rightarrow> nat \<Rightarrow> (string \<times> int) list \<Rightarrow> (string \<times> int) list" where
  "crates_pages top_n page k acc =
    (if top_n \<le> length acc then acc
     else (case page k of
         None \<Rightarrow> acc
       | Some batch \<Rightarrow> (if batch = [] then acc else crates_pages top_n page (Suc k) (acc @ batch))))"
  by pat_completeness auto
termination by (relation "measure (\<lambda>(top_n, page, k, acc). top_n - length acc)") (auto simp: neq_Nil_conv)

declare crates_pages.simps [simp del]

definition crates_refresh :: "nat \<Rightarrow> (nat \<Rightarrow> (string \<times> int) list option) \<Rightarrow> timestamp \<Rightarrow> watch_rows \<Rightarrow> refresh_result" where
  "crates_refresh top_n page now rs =
    (let found = crates_pages top_n page 1 [] in
     if found = [] then Unchanged
     else (case replace_popularity ''crates'' now (take top_n found) rs of
         None \<Rightarrow> Raised | Some rs' \<Rightarrow> Written (length (take top_n found)) rs'))"

section \<open>Go modules\<close>

definition gomod_infra :: "(string \<times> int) list" where
  "gomod_infra =
    [(''k8s.io/kubernetes'', 100000), (''k8s.io/client-go'', 90000), (''k8s.io/api'', 89000),
     (''k8s.io/apimachinery'', 88000), (''k8s.io/kubectl'', 87000), (''k8s.io/klog/v2'', 86000),
     (''k8s.io/utils'', 85000), (''cloud.google.com/go'', 80000), (''cloud.google.com/go/storage'', 79000),
     (''cloud.google.com/go/bigquery'', 78000), (''google.golang.org/grpc'', 75000),
     (''google.golang.org/protobuf'', 74000), (''google.golang.org/api'', 73000), (''golang.org/x/crypto'', 70000),
     (''golang.org/x/net'', 69000), (''golang.org/x/oauth2'', 68000), (''golang.org/x/text'', 67000),
     (''golang.org/x/sys'', 66000), (''golang.org/x/tools'', 65000), (''golang.org/x/sync'', 64000),
     (''golang.org/x/mod'', 63000), (''golang.org/x/exp'', 62000), (''golang.org/x/time'', 61000),
     (''go.uber.org/zap'', 55000), (''go.uber.org/atomic'', 54000), (''go.uber.org/multierr'', 53000),
     (''go.uber.org/goleak'', 52000), (''go.etcd.io/etcd/client/v3'', 50000), (''go.etcd.io/bbolt'', 49000),
     (''go.opentelemetry.io/otel'', 48000), (''go.opentelemetry.io/contrib'', 47000),
     (''sigs.k8s.io/controller-runtime'', 45000), (''sigs.k8s.io/yaml'', 44000), (''sigs.k8s.io/kustomize'', 43000),
     (''helm.sh/helm/v3'', 40000), (''istio.io/istio'', 38000), (''oras.land/oras-go/v2'', 35000),
     (''mvdan.cc/sh/v3'', 30000), (''honnef.co/go/tools'', 29000)]"

definition star_buckets :: "(nat \<times> nat option) list" where
  "star_buckets = [(10000, None), (5000, Some 9999), (2000, Some 4999), (1000, Some 1999), (500, Some 999),
     (200, Some 499), (100, Some 199), (50, Some 99)]"

text \<open>The reply of the search of repositories; the items with a name, as (full name, stars).\<close>

datatype gh_reply = Rate_limited | Refused | Repos "(string \<times> int) list"

text \<open>The pages of one bucket; a rate limit repeats the request without end: \<^const>\<open>None\<close> is a call that does not return.\<close>

definition add_repo :: "string \<times> int \<Rightarrow> (string \<times> int) list \<Rightarrow> (string \<times> int) list" where
  "add_repo = (\<lambda>(full, stars) ms. let m = ''github.com/'' @ full in
     if full = [] \<or> dict_get ms m \<noteq> None then ms else dict_put m stars ms)"

partial_function (option) gh_bucket :: "(nat \<Rightarrow> nat \<Rightarrow> gh_reply) \<Rightarrow> nat \<Rightarrow> nat \<Rightarrow> (string \<times> int) list \<Rightarrow> (string \<times> int) list option" where
  "gh_bucket reply page attempt ms =
    (if 10 < page then Some ms
     else (case reply page attempt of
         Rate_limited \<Rightarrow> gh_bucket reply page (Suc attempt) ms
       | Refused \<Rightarrow> Some ms
       | Repos items \<Rightarrow>
           (if items = [] then Some ms
            else if length items < 100 then Some (fold add_repo items ms)
            else gh_bucket reply (Suc page) 0 (fold add_repo items ms))))"

fun gh_buckets :: "nat \<Rightarrow> (nat \<times> nat option \<Rightarrow> nat \<Rightarrow> nat \<Rightarrow> gh_reply) \<Rightarrow> (nat \<times> nat option) list \<Rightarrow> (string \<times> int) list \<Rightarrow>
    (string \<times> int) list option" where
  "gh_buckets top_n reply [] ms = Some ms"
| "gh_buckets top_n reply (b # bs) ms =
    (if top_n \<le> length ms then Some ms
     else (case gh_bucket (reply b) 1 0 ms of None \<Rightarrow> None | Some ms1 \<Rightarrow> gh_buckets top_n reply bs ms1))"

text \<open>\<^verbatim>\<open>https?://github\.com/([^/\s\)]+/[^/\s\)#]+)\<close>, all matches.\<close>

function gh_links :: "string \<Rightarrow> string list" where
  "gh_links s =
    (if s = [] then []
     else (let n = (if prefix ''https://github.com/'' s then 19 else if prefix ''http://github.com/'' s then 18 else 0);
               owner = takeWhile (\<lambda>c. c \<noteq> CHR ''/'' \<and> \<not> is_space c \<and> c \<noteq> CHR '')'') (drop n s);
               rest = drop (n + length owner) s;
               repo = takeWhile (\<lambda>c. c \<noteq> CHR ''/'' \<and> \<not> is_space c \<and> c \<noteq> CHR '')'' \<and> c \<noteq> CHR 35) (tl rest)
       in if n \<noteq> 0 \<and> owner \<noteq> [] \<and> rest \<noteq> [] \<and> hd rest = CHR ''/'' \<and> repo \<noteq> []
          then (owner @ ''/'' @ repo) # gh_links (drop (n + length owner + 1 + length repo) s) else gh_links (tl s)))"
  by pat_completeness auto
termination by (relation "measure length") auto

declare gh_links.simps [simp del]

definition awesome_module :: "string \<Rightarrow> string option" where
  "awesome_module link =
    (let r = rstrip_by (\<lambda>c. c = CHR ''.'') (rstrip_by (\<lambda>c. c = CHR ''/'') link) in
     case split_on (CHR ''/'') r of [a, b] \<Rightarrow> Some (''github.com/'' @ a @ ''/'' @ b) | _ \<Rightarrow> None)"

definition awesome_modules :: "string option \<Rightarrow> string list" where
  "awesome_modules readme = (case readme of None \<Rightarrow> [] | Some text \<Rightarrow> nub (List.map_filter awesome_module (gh_links text)))"

definition gomod_ranked :: "nat \<Rightarrow> (string \<times> int) list \<Rightarrow> string list \<Rightarrow> (string \<times> int) list" where
  "gomod_ranked top_n gh awesome =
    (let c0 = fold (\<lambda>(m, s) c. dict_put m s c) gomod_infra [];
         c1 = fold (\<lambda>(m, s) c. if (case dict_get c m of None \<Rightarrow> True | Some old \<Rightarrow> old < s) then dict_put m s c else c) gh c0;
         c2 = fold (\<lambda>m c. if dict_get c m = None then dict_put m 0 c else c) awesome c1
     in take top_n (sort_key (\<lambda>x. - snd x) c2))"

definition gomod_refresh :: "nat \<Rightarrow> (nat \<times> nat option \<Rightarrow> nat \<Rightarrow> nat \<Rightarrow> gh_reply) \<Rightarrow> string option \<Rightarrow> timestamp \<Rightarrow> watch_rows \<Rightarrow>
    refresh_result option" where
  "gomod_refresh top_n reply readme now rs =
    map_option (\<lambda>gh. let ranked = gomod_ranked top_n gh (awesome_modules readme) in
      if ranked = [] then Unchanged
      else (case replace_popularity ''gomod'' now ranked rs of None \<Rightarrow> Raised | Some rs' \<Rightarrow> Written (length ranked) rs'))
    (gh_buckets top_n reply star_buckets [])"

section \<open>Lemmas\<close>

lemma wl_next_id_fresh: "wl_next_id rs \<notin> wl_id ` set rs"
proof -
  have "i \<le> foldr max (map wl_id rs) 0" if "i \<in> wl_id ` set rs" for i using that by (induction rs) auto
  then show ?thesis unfolding wl_next_id_def using Suc_n_not_le_n by blast
qed

lemma insert_ranked_Some:
  "insert_ranked eco now xs rs = Some rs' \<Longrightarrow> \<exists>new. rs' = rs @ new \<and>
     map (\<lambda>r. (wl_rank r, wl_name r, wl_downloads_last_30d r)) new = xs \<and> (\<forall>r \<in> set new. wl_ecosystem r = eco) \<and>
     (distinct (map wl_key rs) \<longrightarrow> distinct (map wl_key rs')) \<and> (\<forall>r \<in> set new. wl_id r \<notin> wl_id ` set rs)"
proof (induction eco now xs rs rule: insert_ranked.induct)
  case (2 eco now rank name dl xs rs)
  let ?r = "\<lparr>wl_id = wl_next_id rs, wl_ecosystem = eco, wl_name = name, wl_rank = rank, wl_downloads_last_30d = dl, wl_refreshed_at = now\<rparr>"
  have new: "(eco, name) \<notin> wl_key ` set rs" "insert_ranked eco now xs (rs @ [?r]) = Some rs'" using 2(2) by (auto split: if_splits)
  obtain new where n: "rs' = (rs @ [?r]) @ new" "map (\<lambda>r. (wl_rank r, wl_name r, wl_downloads_last_30d r)) new = xs"
    "\<forall>r \<in> set new. wl_ecosystem r = eco" "distinct (map wl_key (rs @ [?r])) \<longrightarrow> distinct (map wl_key rs')"
    "\<forall>r \<in> set new. wl_id r \<notin> wl_id ` set (rs @ [?r])"
    using 2(1) [OF new] by blast
  have fresh: "wl_next_id rs \<notin> wl_id ` set rs" by (rule wl_next_id_fresh)
  have "wl_key ?r = (eco, name)" by (simp add: wl_key_def)
  then have "distinct (map wl_key rs) \<longrightarrow> distinct (map wl_key (rs @ [?r]))" using new(1) by simp
  moreover have "\<forall>r \<in> set (?r # new). wl_id r \<notin> wl_id ` set rs" using n(5) fresh by simp
  ultimately show ?case using n(1-4) by (intro exI [of _ "?r # new"] conjI) simp_all
qed simp

lemma insert_ranked_clash:
  "(rank, name, dl) \<in> set xs \<Longrightarrow> (eco, name) \<in> wl_key ` set rs \<Longrightarrow> insert_ranked eco now xs rs = None"
proof (induction eco now xs rs rule: insert_ranked.induct)
  case (2 eco now r n d xs rs)
  then show ?case by (cases "(eco, n) \<in> wl_key ` set rs") auto
qed simp

lemma insert_ranked_ok:
  "distinct (map (\<lambda>(r, n, d). n) xs) \<Longrightarrow> (\<And>r n d. (r, n, d) \<in> set xs \<Longrightarrow> (eco, n) \<notin> wl_key ` set rs) \<Longrightarrow>
     \<exists>rs'. insert_ranked eco now xs rs = Some rs'"
proof (induction eco now xs rs rule: insert_ranked.induct)
  case (2 eco now rank name dl xs rs)
  let ?r = "\<lparr>wl_id = wl_next_id rs, wl_ecosystem = eco, wl_name = name, wl_rank = rank, wl_downloads_last_30d = dl, wl_refreshed_at = now\<rparr>"
  have h: "(eco, name) \<notin> wl_key ` set rs" using 2(3) [of rank name dl] by simp
  have "(eco, n) \<notin> wl_key ` set (rs @ [?r])" if "(r, n, d) \<in> set xs" for r n d
  proof -
    have "n \<noteq> name" using 2(2) that by force
    then show ?thesis using 2(3) [of r n d] that by (auto simp: wl_key_def)
  qed
  then show ?case using 2(1) [OF h] 2(2) h by auto
qed simp

lemma enumerate1_props:
  "(rank, name, dl) \<in> set (enumerate1 xs) \<Longrightarrow> 1 \<le> rank \<and> rank \<le> int (length xs) \<and> (name, dl) \<in> set xs"
  "map (\<lambda>(r, n, d). n) (enumerate1 xs) = map fst xs" "length (enumerate1 xs) = length xs"
  "map (\<lambda>(r, n, d). r) (enumerate1 xs) = map (\<lambda>i. int i + 1) [0..<length xs]"
proof -
  show "(rank, name, dl) \<in> set (enumerate1 xs) \<Longrightarrow> 1 \<le> rank \<and> rank \<le> int (length xs) \<and> (name, dl) \<in> set xs"
  proof -
    assume "(rank, name, dl) \<in> set (enumerate1 xs)"
    then obtain i where "(i, name, dl) \<in> set (enumerate 0 xs)" "rank = int i + 1" by (auto simp: enumerate1_def)
    then show ?thesis by (auto simp: in_set_enumerate_eq) (metis nth_mem)
  qed
  have "map (\<lambda>x. fst (snd x)) (enumerate k xs) = map fst xs" for k by (induction xs arbitrary: k) auto
  moreover have "map (\<lambda>x. int (fst x) + 1) (enumerate k xs) = map (\<lambda>i. int i + 1) [k..<k + length xs]" for k
    by (induction xs arbitrary: k) (auto simp: upt_rec)
  moreover note this [of 0]
  ultimately show "map (\<lambda>(r, n, d). n) (enumerate1 xs) = map fst xs"
    "map (\<lambda>(r, n, d). r) (enumerate1 xs) = map (\<lambda>i. int i + 1) [0..<length xs]"
    by (simp_all add: enumerate1_def comp_def case_prod_beta)
  show "length (enumerate1 xs) = length xs" by (simp add: enumerate1_def)
qed

definition ranks_ok :: "(int \<times> string \<times> int) list \<Rightarrow> bool" where
  "ranks_ok xs \<longleftrightarrow> (\<forall>(r, n, d) \<in> set xs. r \<noteq> auto_malicious_rank)"

lemma ranks_ok_enumerate: "int (length xs) < auto_malicious_rank \<Longrightarrow> ranks_ok (enumerate1 xs)"
  by (auto simp: ranks_ok_def dest: enumerate1_props(1))

text \<open>The rows of others are all that is not popularity of this ecosystem: convictions and the other ecosystems.\<close>

lemma new_rows_popularity:
  assumes "map (\<lambda>r. (wl_rank r, wl_name r, wl_downloads_last_30d r)) new = xs" "\<forall>r \<in> set new. wl_ecosystem r = eco" "ranks_ok xs"
  shows "filter (popularity eco) new = new" "filter (\<lambda>r. \<not> popularity eco r) new = []"
proof -
  have "popularity eco r" if "r \<in> set new" for r
  proof -
    have "(wl_rank r, wl_name r, wl_downloads_last_30d r) \<in> set xs" unfolding assms(1) [symmetric] using that by force
    then show ?thesis using assms(2,3) that by (auto simp: popularity_def is_auto_def ranks_ok_def)
  qed
  then show "filter (popularity eco) new = new" "filter (\<lambda>r. \<not> popularity eco r) new = []" by (simp_all add: filter_id_conv filter_empty_conv)
qed

lemma replace_popularity_Some:
  assumes "replace_popularity eco now xs rs = Some rs'" "int (length xs) < auto_malicious_rank"
  shows "filter (\<lambda>r. \<not> popularity eco r) rs' = filter (\<lambda>r. \<not> popularity eco r) rs"
    "map (\<lambda>r. (wl_rank r, wl_name r, wl_downloads_last_30d r)) (filter (popularity eco) rs') = enumerate1 xs"
proof -
  obtain new where n: "rs' = delete_where (popularity eco) rs @ new"
    "map (\<lambda>r. (wl_rank r, wl_name r, wl_downloads_last_30d r)) new = enumerate1 xs" "\<forall>r \<in> set new. wl_ecosystem r = eco"
    using insert_ranked_Some [OF assms(1) [unfolded replace_popularity_def]] by blast
  note p = new_rows_popularity [OF n(2,3) ranks_ok_enumerate [OF assms(2)]]
  show "filter (\<lambda>r. \<not> popularity eco r) rs' = filter (\<lambda>r. \<not> popularity eco r) rs"
    using p by (simp add: n(1) delete_where_def)
  show "map (\<lambda>r. (wl_rank r, wl_name r, wl_downloads_last_30d r)) (filter (popularity eco) rs') = enumerate1 xs"
    using p n(2) by (simp add: n(1) delete_where_def filter_empty_conv)
qed

text \<open>What the updates do to a row: nothing, or a popularity row stays one under its name.\<close>

definition row_kept :: "ecosystem \<Rightarrow> watch_row \<Rightarrow> watch_row \<Rightarrow> bool" where
  "row_kept eco r r' \<longleftrightarrow> wl_id r' = wl_id r \<and> wl_key r' = wl_key r \<and> (r' = r \<or> popularity eco r \<and> popularity eco r')"

lemma row_kept_trans: "row_kept eco a b \<Longrightarrow> row_kept eco b c \<Longrightarrow> row_kept eco a c"
  by (auto simp: row_kept_def)

lemma rows_kept_trans: "list_all2 (row_kept eco) xs ys \<Longrightarrow> list_all2 (row_kept eco) ys zs \<Longrightarrow> list_all2 (row_kept eco) xs zs"
  by (rule list_all2_trans) (rule row_kept_trans)

lemma rows_kept_update:
  assumes "rank \<noteq> auto_malicious_rank" "\<And>r. r \<in> set rs \<Longrightarrow> wl_id r = i \<Longrightarrow> popularity eco r"
  shows "list_all2 (row_kept eco) rs
    (update_where (\<lambda>r. wl_id r = i) (\<lambda>r. r\<lparr>wl_rank := rank, wl_downloads_last_30d := dl, wl_refreshed_at := now\<rparr>) rs)"
  using assms(2)
proof (induction rs)
  case (Cons r rs)
  have "wl_id r = i \<Longrightarrow> popularity eco r" using Cons.prems by simp
  then have "row_kept eco r (if wl_id r = i then r\<lparr>wl_rank := rank, wl_downloads_last_30d := dl, wl_refreshed_at := now\<rparr> else r)"
    using assms(1) by (simp add: row_kept_def popularity_def is_auto_def wl_key_def)
  then show ?case using Cons by (simp add: update_where_def)
qed (simp add: update_where_def)

lemma rows_kept_ids: "list_all2 (row_kept eco) rs rs' \<Longrightarrow> map wl_id rs' = map wl_id rs \<and> map wl_key rs' = map wl_key rs"
  by (induction rule: list_all2_induct) (auto simp: row_kept_def)

lemma rows_kept_popular:
  "list_all2 (row_kept eco) rs rs' \<Longrightarrow> (\<And>r. r \<in> set rs \<Longrightarrow> wl_id r = i \<Longrightarrow> popularity eco r) \<Longrightarrow> r' \<in> set rs' \<Longrightarrow> wl_id r' = i \<Longrightarrow> popularity eco r'"
  by (induction rule: list_all2_induct) (auto simp: row_kept_def)

lemma rows_kept_filter:
  "list_all2 (row_kept eco) rs rs' \<Longrightarrow> filter (\<lambda>r. \<not> popularity eco r) rs' = filter (\<lambda>r. \<not> popularity eco r) rs \<and>
     map wl_id (filter (popularity eco) rs') = map wl_id (filter (popularity eco) rs) \<and>
     map wl_key (filter (popularity eco) rs') = map wl_key (filter (popularity eco) rs)"
  by (induction rule: list_all2_induct) (auto simp: row_kept_def)

lemma upsert_step_kept:
  assumes "upsert_step key now existing xs rs = (rs1, new)" "ranks_ok xs"
    and "\<And>i r. i \<in> snd ` set existing \<Longrightarrow> r \<in> set rs \<Longrightarrow> wl_id r = i \<Longrightarrow> popularity eco r"
  shows "list_all2 (row_kept eco) rs rs1 \<and> new = filter (\<lambda>(r, n, d). dict_get existing (key n) = None) xs"
  using assms
proof (induction key now existing xs rs arbitrary: new rule: upsert_step.induct)
  case (1 key now existing rs)
  then show ?case by (simp add: list_all2_refl row_kept_def)
next
  case (2 key now existing rank name dl xs rs)
  have ok: "rank \<noteq> auto_malicious_rank" "ranks_ok xs" using 2(4) by (simp_all add: ranks_ok_def)
  show ?case
  proof (cases "dict_get existing (key name)")
    case None
    then obtain new1 where "upsert_step key now existing xs rs = (rs1, new1)" "new = (rank, name, dl) # new1"
      using 2(3) by (auto split: prod.splits)
    then show ?thesis using 2(1) [OF None _ ok(2) 2(5)] None by simp
  next
    case (Some i)
    let ?rs = "update_where (\<lambda>r. wl_id r = i) (\<lambda>r. r\<lparr>wl_rank := rank, wl_downloads_last_30d := dl, wl_refreshed_at := now\<rparr>) rs"
    have i: "i \<in> snd ` set existing" using Some by (force simp: dict_get_def dest: map_of_SomeD)
    have k: "list_all2 (row_kept eco) rs ?rs" by (rule rows_kept_update [OF ok(1)]) (use 2(5) [OF i] in blast)
    have p: "popularity eco r" if "j \<in> snd ` set existing" "r \<in> set ?rs" "wl_id r = j" for j r
      using rows_kept_popular [OF k _ that(2,3)] 2(5) [OF that(1)] by blast
    have "upsert_step key now existing xs ?rs = (rs1, new)" using 2(3) Some by simp
    from 2(2) [OF Some this ok(2) p] k Some show ?thesis using rows_kept_trans by auto
  qed
qed

lemma existing_rows_distinct:
  assumes "distinct (map (\<lambda>w. key (wl_name w)) (filter (popularity eco) rs))"
  shows "existing_rows key eco rs = map (\<lambda>w. (key (wl_name w), wl_id w)) (filter (popularity eco) rs)"
proof -
  have app: "k \<notin> fst ` set d \<Longrightarrow> dict_put k v d = d @ [(k, v)]" for k :: string and v :: nat and d by (induction d) auto
  have "fold (\<lambda>w d. dict_put (key (wl_name w)) (wl_id w) d) ws d = d @ map (\<lambda>w. (key (wl_name w), wl_id w)) ws"
    if "distinct (map (\<lambda>w. key (wl_name w)) ws)" "\<forall>w \<in> set ws. key (wl_name w) \<notin> fst ` set d" for ws d
    using that
  proof (induction ws arbitrary: d)
    case (Cons w ws)
    have "fold (\<lambda>w d. dict_put (key (wl_name w)) (wl_id w) d) ws (d @ [(key (wl_name w), wl_id w)]) =
      (d @ [(key (wl_name w), wl_id w)]) @ map (\<lambda>w. (key (wl_name w), wl_id w)) ws"
      by (rule Cons.IH) (use Cons.prems in \<open>auto simp: image_iff\<close>)
    then show ?case using app [of "key (wl_name w)" d "wl_id w"] Cons.prems by simp
  qed simp
  from this [OF assms, of "[]"] show ?thesis by (simp add: existing_rows_def)
qed

text \<open>The table as the refresh needs it: ids are unique, and so are the keys of the popularity rows.\<close>

definition table_ok :: "(string \<Rightarrow> string) \<Rightarrow> ecosystem \<Rightarrow> watch_rows \<Rightarrow> bool" where
  "table_ok key eco rs \<longleftrightarrow> distinct (map wl_id rs) \<and> distinct (map (\<lambda>w. key (wl_name w)) (filter (popularity eco) rs))"

lemma gone_iff:
  "i \<in> set (map snd (filter (\<lambda>(k, i). k \<notin> K) (map (\<lambda>w. (f w, g w)) ws))) \<longleftrightarrow> (\<exists>w \<in> set ws. g w = i \<and> f w \<notin> K)"
  by (induction ws) auto

lemma upsert_popularity_Some:
  assumes "upsert_popularity key eco now xs rs = Some rs'" "ranks_ok xs" "table_ok key eco rs"
  shows "filter (\<lambda>r. \<not> popularity eco r) rs' = filter (\<lambda>r. \<not> popularity eco r) rs"
    "(\<lambda>r. key (wl_name r)) ` set (filter (popularity eco) rs') = (\<lambda>(r, n, d). key n) ` set xs"
proof -
  let ?P = "popularity eco" and ?ex = "existing_rows key eco rs"
  let ?keys = "(\<lambda>(r, n, d). key n) ` set xs"
  let ?gone = "map snd (filter (\<lambda>(k, i). k \<notin> ?keys) ?ex)"
  have ids: "distinct (map wl_id rs)" and ex: "?ex = map (\<lambda>w. (key (wl_name w), wl_id w)) (filter ?P rs)"
    using assms(3) existing_rows_distinct [of key eco rs] by (simp_all add: table_ok_def)
  have same: "r = w" if "r \<in> set rs" "w \<in> set rs" "wl_id r = wl_id w" for r w
    using ids that by (auto simp: distinct_map dest: inj_onD)
  obtain rs1 new where step: "upsert_step key now ?ex xs rs = (rs1, new)" by fastforce
  obtain rs2 where rs2: "insert_ranked eco now new rs1 = Some rs2" "rs' = delete_where (\<lambda>r. wl_id r \<in> set ?gone) rs2"
    using assms(1) step by (auto simp: upsert_popularity_def Let_def)
  have popular: "?P r" if "i \<in> snd ` set ?ex" "r \<in> set rs" "wl_id r = i" for i r
  proof -
    have "i \<in> wl_id ` set (filter ?P rs)" using that(1) unfolding ex by (simp add: image_image)
    then obtain w where w: "w \<in> set rs" "?P w" "wl_id w = i" by auto
    then have "r = w" using same [OF that(2)] that(3) by simp
    then show ?thesis using w(2) by simp
  qed
  have kept: "list_all2 (row_kept eco) rs rs1" and new: "new = filter (\<lambda>(r, n, d). dict_get ?ex (key n) = None) xs"
    using upsert_step_kept [OF step assms(2) popular] by simp_all
  obtain added where added: "rs2 = rs1 @ added" "map (\<lambda>r. (wl_rank r, wl_name r, wl_downloads_last_30d r)) added = new"
    "\<forall>r \<in> set added. wl_ecosystem r = eco" "\<forall>r \<in> set added. wl_id r \<notin> wl_id ` set rs1"
    using insert_ranked_Some [OF rs2(1)] by blast
  have "ranks_ok new" using assms(2) by (auto simp: new ranks_ok_def)
  note pop = new_rows_popularity [OF added(2,3) this]
  have gone: "wl_id r \<in> set ?gone \<longleftrightarrow> (\<exists>w \<in> set rs. ?P w \<and> wl_id w = wl_id r \<and> key (wl_name w) \<notin> ?keys)" for r
    unfolding ex gone_iff by auto
  have "wl_id ` set rs1 = wl_id ` set rs" using rows_kept_ids [OF kept] by (metis list.set_map)
  then have "wl_id r \<notin> wl_id ` set rs" if "r \<in> set added" for r using added(4) that by simp
  then have stay: "wl_id r \<notin> set ?gone" if "r \<in> set added" for r
    using that image_eqI [of _ wl_id _ "set rs"] unfolding gone by metis
  have rs': "rs' = filter (\<lambda>r. wl_id r \<notin> set ?gone) rs1 @ added"
    using stay by (simp add: rs2(2) added(1) delete_where_def filter_id_conv del: set_map)
  have "wl_id r \<notin> set ?gone" if "r \<in> set rs1" "\<not> ?P r" for r
  proof -
    have "r \<in> set (filter (\<lambda>r. \<not> ?P r) rs1)" using that by simp
    then have "r \<in> set (filter (\<lambda>r. \<not> ?P r) rs)" using rows_kept_filter [OF kept] by simp
    then have "r \<in> set rs" by simp
    then show ?thesis using same that(2) unfolding gone by blast
  qed
  then have "filter (\<lambda>r. \<not> ?P r \<and> wl_id r \<notin> set ?gone) rs1 = filter (\<lambda>r. \<not> ?P r) rs1" by (intro filter_cong) auto
  then show "filter (\<lambda>r. \<not> ?P r) rs' = filter (\<lambda>r. \<not> ?P r) rs"
    using pop(2) rows_kept_filter [OF kept] by (simp add: rs' conj_commute)
  have pairs: "(\<lambda>w. (wl_id w, key (wl_name w))) ` set (filter ?P rs1) = (\<lambda>w. (wl_id w, key (wl_name w))) ` set (filter ?P rs)"
  proof -
    have "map (\<lambda>w. (wl_id w, key (wl_name w))) (filter ?P rs1) = map (\<lambda>w. (wl_id w, key (wl_name w))) (filter ?P rs)"
      using kept by (induction rule: list_all2_induct) (auto simp: row_kept_def wl_key_def)
    from arg_cong [OF this, of set] show ?thesis unfolding list.set_map .
  qed
  have names: "k \<in> (\<lambda>r. key (wl_name r)) ` set (filter ?P rs') \<longleftrightarrow>
    (\<exists>w \<in> set (filter ?P rs). key (wl_name w) = k \<and> k \<in> ?keys) \<or> (\<exists>a \<in> set added. key (wl_name a) = k)" for k
  proof -
    have "(\<exists>r \<in> set (filter ?P rs1). wl_id r \<notin> set ?gone \<and> key (wl_name r) = k) \<longleftrightarrow>
      (\<exists>(i, k') \<in> (\<lambda>w. (wl_id w, key (wl_name w))) ` set (filter ?P rs1). i \<notin> set ?gone \<and> k' = k)" by auto
    also have "\<dots> \<longleftrightarrow> (\<exists>r \<in> set (filter ?P rs). wl_id r \<notin> set ?gone \<and> key (wl_name r) = k)" unfolding pairs by auto
    also have "\<dots> \<longleftrightarrow> (\<exists>w \<in> set (filter ?P rs). key (wl_name w) = k \<and> k \<in> ?keys)"
    proof -
      have "wl_id r \<notin> set ?gone \<longleftrightarrow> key (wl_name r) \<in> ?keys" if "r \<in> set (filter ?P rs)" for r
      proof -
        have r: "r \<in> set rs" "?P r" using that by simp_all
        have one: "w = r" if "w \<in> set rs" "wl_id w = wl_id r" for w using same [OF that(1) r(1) that(2)] .
        have "(\<exists>w \<in> set rs. ?P w \<and> wl_id w = wl_id r \<and> key (wl_name w) \<notin> ?keys) \<longleftrightarrow> key (wl_name r) \<notin> ?keys"
          using one r by blast
        then show ?thesis unfolding gone by blast
      qed
      then show ?thesis by blast
    qed
    finally have old: "(\<exists>r \<in> set (filter ?P rs1). wl_id r \<notin> set ?gone \<and> key (wl_name r) = k) \<longleftrightarrow>
      (\<exists>w \<in> set (filter ?P rs). key (wl_name w) = k \<and> k \<in> ?keys)" .
    have "filter ?P rs' = filter ?P (filter (\<lambda>r. wl_id r \<notin> set ?gone) rs1) @ added" unfolding rs' by (simp only: filter_append pop(1))
    then have "k \<in> (\<lambda>r. key (wl_name r)) ` set (filter ?P rs') \<longleftrightarrow>
      (\<exists>r \<in> set (filter ?P rs1). wl_id r \<notin> set ?gone \<and> key (wl_name r) = k) \<or> (\<exists>a \<in> set added. key (wl_name a) = k)"
      by (simp only: set_append set_filter) blast
    then show ?thesis unfolding old .
  qed
  have by_new: "(\<exists>a \<in> set added. key (wl_name a) = k) \<longleftrightarrow> (\<exists>(r, n, d) \<in> set new. key n = k)" for k
    unfolding added(2) [symmetric] by auto
  have fresh: "(\<exists>(r, n, d) \<in> set new. key n = k) \<longleftrightarrow> k \<in> ?keys \<and> (\<forall>w \<in> set (filter ?P rs). key (wl_name w) \<noteq> k)" for k
  proof -
    have none: "dict_get ?ex k = None \<longleftrightarrow> (\<forall>w \<in> set (filter ?P rs). key (wl_name w) \<noteq> k)" for k
      unfolding ex dict_get_def map_of_eq_None_iff by (simp add: image_image) blast
    have "(\<exists>(r, n, d) \<in> set new. key n = k) \<longleftrightarrow> (\<exists>(r, n, d) \<in> set xs. key n = k) \<and> dict_get ?ex k = None"
      unfolding new set_filter by (simp only: mem_Collect_eq split_paired_Bex_Sigma split_beta Bex_def) blast
    moreover have "(\<exists>(r, n, d) \<in> S. key n = k) \<longleftrightarrow> k \<in> (\<lambda>(r, n, d). key n) ` S" for S :: "(int \<times> string \<times> int) set"
      by (simp add: image_iff split_beta eq_commute [of k])
    ultimately show ?thesis unfolding none by simp
  qed
  show "(\<lambda>r. key (wl_name r)) ` set (filter ?P rs') = ?keys"
    by (rule set_eqI) (unfold names by_new fresh, blast)
qed

section \<open>The refreshes\<close>

text \<open>The table's own constraints: the primary key and the unique constraint.\<close>

definition wl_wf :: "watch_rows \<Rightarrow> bool" where
  "wl_wf rs \<longleftrightarrow> distinct (map wl_id rs) \<and> distinct (map wl_key rs)"

lemma wl_wf_filter: "wl_wf rs \<Longrightarrow> wl_wf (filter P rs)"
  by (simp add: wl_wf_def distinct_map_filter)

lemma insert_ranked_wf: "insert_ranked eco now xs rs = Some rs' \<Longrightarrow> wl_wf rs \<Longrightarrow> wl_wf rs'"
proof (induction eco now xs rs rule: insert_ranked.induct)
  case (2 eco now rank name dl xs rs)
  let ?r = "\<lparr>wl_id = wl_next_id rs, wl_ecosystem = eco, wl_name = name, wl_rank = rank, wl_downloads_last_30d = dl, wl_refreshed_at = now\<rparr>"
  have new: "(eco, name) \<notin> wl_key ` set rs" "insert_ranked eco now xs (rs @ [?r]) = Some rs'" using 2(2) by (auto split: if_splits)
  have "wl_wf (rs @ [?r])" using 2(3) new(1) wl_next_id_fresh [of rs] by (simp add: wl_wf_def wl_key_def)
  then show ?case using 2(1) [OF new] by blast
qed simp

lemma replace_popularity_wf: "replace_popularity eco now xs rs = Some rs' \<Longrightarrow> wl_wf rs \<Longrightarrow> wl_wf rs'"
  unfolding replace_popularity_def delete_where_def using insert_ranked_wf wl_wf_filter by blast

lemma upsert_step_ids: "upsert_step key now existing xs rs = (rs1, new) \<Longrightarrow> map wl_id rs1 = map wl_id rs \<and> map wl_key rs1 = map wl_key rs"
proof (induction key now existing xs rs arbitrary: new rule: upsert_step.induct)
  case (2 key now existing rank name dl xs rs)
  have same: "map wl_id (update_where P (\<lambda>r. r\<lparr>wl_rank := rank, wl_downloads_last_30d := dl, wl_refreshed_at := now\<rparr>) rs) = map wl_id rs \<and>
    map wl_key (update_where P (\<lambda>r. r\<lparr>wl_rank := rank, wl_downloads_last_30d := dl, wl_refreshed_at := now\<rparr>) rs) = map wl_key rs" for P
    by (simp add: update_where_def wl_key_def)
  show ?case
  proof (cases "dict_get existing (key name)")
    case None
    then show ?thesis using 2(1) [OF None] 2(3) by (auto split: prod.splits)
  next
    case (Some i)
    then show ?thesis using 2(2) [OF Some] 2(3) same by simp
  qed
qed simp

lemma upsert_popularity_wf:
  assumes "upsert_popularity key eco now xs rs = Some rs'" "wl_wf rs"
  shows "wl_wf rs'"
proof -
  obtain rs1 new where step: "upsert_step key now (existing_rows key eco rs) xs rs = (rs1, new)" by fastforce
  have "wl_wf rs1" using upsert_step_ids [OF step] assms(2) by (simp add: wl_wf_def)
  moreover obtain P rs2 where "insert_ranked eco now new rs1 = Some rs2" "rs' = filter P rs2"
    using assms(1) step by (auto simp: upsert_popularity_def Let_def delete_where_def)
  ultimately show ?thesis using insert_ranked_wf wl_wf_filter by blast
qed

lemma wl_wf_table_ok: "wl_wf rs \<Longrightarrow> table_ok id eco rs"
proof -
  assume wf: "wl_wf rs"
  have "distinct (map wl_key (filter (popularity eco) rs))" using wl_wf_filter [OF wf] by (simp add: wl_wf_def)
  moreover have "map wl_key (filter (popularity eco) rs) = map (Pair eco) (map wl_name (filter (popularity eco) rs))"
    by (induction rs) (auto simp: popularity_def wl_key_def)
  ultimately have "distinct (map (Pair eco) (map wl_name (filter (popularity eco) rs)))" by simp
  then have "distinct (map wl_name (filter (popularity eco) rs))" unfolding distinct_map [of "Pair eco"] by blast
  then show ?thesis using wf by (simp add: table_ok_def wl_wf_def)
qed

lemma first_names_length: "length (first_names top_n seen ns) \<le> max 1 (top_n - length seen)"
proof (induction top_n seen ns rule: first_names.induct)
  case (2 top_n seen n ns)
  then show ?case by (cases "lower n \<in> set seen"; cases "top_n \<le> Suc (length seen)") auto
qed simp

lemma first_names_all:
  "distinct (map lower ns) \<Longrightarrow> set (map lower ns) \<inter> set seen = {} \<Longrightarrow> length seen + length ns \<le> top_n \<Longrightarrow> first_names top_n seen ns = ns"
proof (induction top_n seen ns rule: first_names.induct)
  case (2 top_n seen n ns)
  then show ?case by (cases ns) auto
qed simp

text \<open>What a refresh of one ecosystem may leave behind: the table keeps its constraints, and of all rows only the
  popularity rows of that ecosystem have changed.\<close>

definition refresh_ok :: "ecosystem \<Rightarrow> watch_rows \<Rightarrow> watch_rows \<Rightarrow> bool" where
  "refresh_ok eco rs rs' \<longleftrightarrow> wl_wf rs' \<and> filter (\<lambda>r. \<not> popularity eco r) rs' = filter (\<lambda>r. \<not> popularity eco r) rs"

lemma replace_refresh_ok:
  "replace_popularity eco now xs rs = Some rs' \<Longrightarrow> int (length xs) < auto_malicious_rank \<Longrightarrow> wl_wf rs \<Longrightarrow> refresh_ok eco rs rs'"
  by (simp add: refresh_ok_def replace_popularity_wf replace_popularity_Some(1))

lemma upsert_refresh_ok:
  "upsert_popularity key eco now xs rs = Some rs' \<Longrightarrow> ranks_ok xs \<Longrightarrow> table_ok key eco rs \<Longrightarrow> wl_wf rs \<Longrightarrow> refresh_ok eco rs rs'"
  by (simp add: refresh_ok_def upsert_popularity_wf upsert_popularity_Some(1))

lemma crates_refresh_ok:
  assumes "crates_refresh top_n page now rs = Written n rs'" "int top_n < auto_malicious_rank" "wl_wf rs"
  shows "refresh_ok ''crates'' rs rs'"
proof -
  obtain xs where "replace_popularity ''crates'' now (take top_n xs) rs = Some rs'"
    using assms(1) by (auto simp: crates_refresh_def Let_def split: if_splits option.splits)
  moreover have "int (length (take top_n xs)) < auto_malicious_rank" using assms(2) by simp
  ultimately show ?thesis using replace_refresh_ok assms(3) by blast
qed

lemma gomod_refresh_ok:
  assumes "gomod_refresh top_n reply readme now rs = Some (Written n rs')" "int top_n < auto_malicious_rank" "wl_wf rs"
  shows "refresh_ok ''gomod'' rs rs'"
proof -
  obtain gh where "replace_popularity ''gomod'' now (gomod_ranked top_n gh (awesome_modules readme)) rs = Some rs'"
    using assms(1) by (auto simp: gomod_refresh_def Let_def split: if_splits option.splits)
  moreover have "int (length (gomod_ranked top_n gh (awesome_modules readme))) < auto_malicious_rank"
    using assms(2) by (simp add: gomod_ranked_def Let_def)
  ultimately show ?thesis using replace_refresh_ok assms(3) by blast
qed

lemma npm_refresh_ok:
  assumes "npm_refresh reply readme top_n now rs = Written n rs'" "int top_n < auto_malicious_rank" "wl_wf rs" "table_ok lower ''npm'' rs"
  shows "refresh_ok ''npm'' rs rs'"
proof -
  obtain found dl where "upsert_popularity lower ''npm'' now (enumerate1 (map (\<lambda>n. (n, dl n))
      (first_names top_n [] (map fst npm_infra @ found @ awesome_names readme)))) rs = Some rs'"
    using assms(1) by (auto simp: npm_refresh_def Let_def split: if_splits option.splits)
  moreover have "ranks_ok (enumerate1 (map (\<lambda>n. (n, dl n)) (first_names top_n [] ns)))" for ns and dl :: "string \<Rightarrow> int"
    by (rule ranks_ok_enumerate) (use first_names_length [of top_n "[]" ns] assms(2) in \<open>auto simp: auto_malicious_rank_def\<close>)
  ultimately show ?thesis using upsert_refresh_ok assms(3,4) by blast
qed

lemma entries_ranks_ok:
  assumes "int (length ts) < auto_malicious_rank"
  shows "ranks_ok (List.map_filter (\<lambda>(i, e). case the e of (None, dl) \<Rightarrow> None | (Some n, dl) \<Rightarrow> Some (int i + 1, n, dl)) (enumerate 0 ts))"
proof -
  let ?entries = "List.map_filter (\<lambda>(i, e). case the e of (None, dl) \<Rightarrow> None | (Some n, dl) \<Rightarrow> Some (int i + 1, n :: string, dl :: int))"
  have "(r, n, d) \<in> set (?entries (enumerate k es)) \<Longrightarrow> r \<le> int k + int (length es)" for r n d k es
    by (induction es arbitrary: k) (fastforce split: option.splits prod.splits)+
  from this [where k = 0 and es = ts] show ?thesis using assms by (fastforce simp: ranks_ok_def)
qed

lemma pypi_refresh_ok:
  assumes "pypi_refresh data top_n now rs = Written n rs'" "int top_n < auto_malicious_rank" "wl_wf rs"
  shows "refresh_ok ''pypi'' rs rs'"
proof -
  let ?entries = "List.map_filter (\<lambda>(i, e). case the e of (None, dl) \<Rightarrow> None | (Some n, dl) \<Rightarrow> Some (int i + 1, n, dl))"
  have "\<exists>es. upsert_popularity id ''pypi'' now (?entries (enumerate 0 (map top_entry (take top_n es)))) rs = Some rs'"
    using assms(1) by (auto simp: pypi_refresh_def Let_def split: if_splits option.splits json.splits) (blast | (rule exI [of _ "[]"], simp))+
  then obtain es where u: "upsert_popularity id ''pypi'' now (?entries (enumerate 0 (map top_entry (take top_n es)))) rs = Some rs'" ..
  have "ranks_ok (?entries (enumerate 0 (map top_entry (take top_n es))))" by (rule entries_ranks_ok) (use assms(2) in simp)
  from upsert_refresh_ok [OF u this wl_wf_table_ok [OF assms(3)] assms(3)] show ?thesis .
qed

text \<open>C16. A refresh of a popularity watchlist that goes through, of any of the four ecosystems, leaves the table within its
  constraints (one row per id, one per ecosystem and name) and leaves every confirmed malicious row and every row of another
  ecosystem as it was, in the same order.\<close>

theorem refresh_keeps_convictions:
  assumes "int top_n < auto_malicious_rank" "wl_wf rs" "table_ok lower ''npm'' rs"
    and "(eco, Some (Written n rs')) \<in> {(''npm'', Some (npm_refresh search readme top_n now rs)),
      (''pypi'', Some (pypi_refresh listing top_n now rs)), (''crates'', Some (crates_refresh top_n page now rs)),
      (''gomod'', gomod_refresh top_n github readme now rs)}"
  shows "wl_wf rs' \<and> filter (\<lambda>r. is_auto r \<or> wl_ecosystem r \<noteq> eco) rs' = filter (\<lambda>r. is_auto r \<or> wl_ecosystem r \<noteq> eco) rs"
proof -
  have "refresh_ok eco rs rs'"
    using assms(4) npm_refresh_ok [OF _ assms(1-3)] pypi_refresh_ok [OF _ assms(1,2)] crates_refresh_ok [OF _ assms(1,2)]
      gomod_refresh_ok [OF _ assms(1,2)] by (auto dest: sym)
  moreover have "(\<lambda>r. \<not> popularity eco r) = (\<lambda>r. is_auto r \<or> wl_ecosystem r \<noteq> eco)" by (auto simp: popularity_def)
  ultimately show ?thesis by (simp add: refresh_ok_def)
qed

definition demo_table :: watch_rows where
  "demo_table = [\<lparr>wl_id = 1, wl_ecosystem = ''crates'', wl_name = ''serde'', wl_rank = 1, wl_downloads_last_30d = 10, wl_refreshed_at = 0\<rparr>,
     \<lparr>wl_id = 2, wl_ecosystem = ''crates'', wl_name = ''rustdecimal'', wl_rank = auto_malicious_rank, wl_downloads_last_30d = 0, wl_refreshed_at = 0\<rparr>,
     \<lparr>wl_id = 3, wl_ecosystem = ''npm'', wl_name = ''react'', wl_rank = 1, wl_downloads_last_30d = 10, wl_refreshed_at = 0\<rparr>]"

definition demo_pages :: "nat \<Rightarrow> (string \<times> int) list option" where
  "demo_pages k = (if k = 1 then Some [(''syn'', 40), (''rand'', 30)] else None)"

definition demo_refreshed :: watch_rows where
  "demo_refreshed = (case crates_refresh 10 demo_pages 7 demo_table of Written n rs \<Rightarrow> rs | _ \<Rightarrow> [])"

theorem refresh_keeps_convictions_witness:
  "wl_wf demo_refreshed \<and> filter (\<lambda>r. is_auto r \<or> wl_ecosystem r \<noteq> ''crates'') demo_refreshed = tl demo_table \<and>
     map wl_name demo_refreshed = [''rustdecimal'', ''react'', ''syn'', ''rand'']"
proof -
  have "int 10 < auto_malicious_rank" "wl_wf demo_table" "table_ok lower ''npm'' demo_table" by code_simp+
  moreover have run: "crates_refresh 10 demo_pages 7 demo_table = Written 2 demo_refreshed" by code_simp
  ultimately have "wl_wf demo_refreshed \<and> filter (\<lambda>r. is_auto r \<or> wl_ecosystem r \<noteq> ''crates'') demo_refreshed =
    filter (\<lambda>r. is_auto r \<or> wl_ecosystem r \<noteq> ''crates'') demo_table"
    by (intro refresh_keeps_convictions [where eco = "''crates''" and n = 2 and top_n = 10 and now = 7 and page = demo_pages]) simp_all
  moreover have "filter (\<lambda>r. is_auto r \<or> wl_ecosystem r \<noteq> ''crates'') demo_table = tl demo_table" by code_simp
  moreover have "map wl_name demo_refreshed = [''rustdecimal'', ''react'', ''syn'', ''rand'']" by code_simp
  ultimately show ?thesis by simp
qed

section \<open>What the refreshes do not survive\<close>

text \<open>A package convicted on its own that later enters the popularity list: every refresh fails on the unique constraint.\<close>

lemma conviction_blocks_replace:
  assumes "r \<in> set rs" "is_auto r" "wl_key r = (eco, name)" "(name, dl) \<in> set xs"
  shows "replace_popularity eco now xs rs = None"
proof -
  have "name \<in> (\<lambda>(r, n, d). n) ` set (enumerate1 xs)"
    using enumerate1_props(2) [of xs] assms(4) by (metis fst_conv image_eqI list.set_map)
  then obtain rank dl' where "(rank, name, dl') \<in> set (enumerate1 xs)" by auto
  moreover have "r \<in> set (delete_where (popularity eco) rs)" using assms(1,2) by (simp add: delete_where_def popularity_def)
  then have "(eco, name) \<in> wl_key ` set (delete_where (popularity eco) rs)" using assms(3) by (metis image_eqI)
  ultimately show ?thesis unfolding replace_popularity_def by (rule insert_ranked_clash)
qed

lemma conviction_blocks_crates:
  assumes "r \<in> set rs" "is_auto r" "wl_key r = (''crates'', name)" "(name, dl) \<in> set (take top_n (crates_pages top_n page 1 []))"
  shows "crates_refresh top_n page now rs = Raised"
  using conviction_blocks_replace [OF assms, of now] assms(4) by (auto simp: crates_refresh_def Let_def)

text \<open>A page of crates.io that fails ends the list, and what was read so far replaces the table: here one name of two pages.\<close>

lemma failed_page_shrinks_list:
  "map wl_name (filter (popularity ''crates'')
     (case crates_refresh 10000 (\<lambda>k. if k = 1 then Some [(''syn'', 40)] else None) 7 demo_table of Written n rs \<Rightarrow> rs | _ \<Rightarrow> demo_table)) =
   [''syn'']"
proof -
  have "crates_pages 10000 (\<lambda>k. if k = 1 then Some [(''syn'', 40)] else None) 1 [] = [(''syn'', 40)]"
    by (simp add: crates_pages.simps)
  moreover have "map wl_name (filter (popularity ''crates'') (case replace_popularity ''crates'' 7 [(''syn'', 40)] demo_table of Some rs \<Rightarrow> rs | None \<Rightarrow> demo_table)) = [''syn'']"
    by code_simp
  moreover have "replace_popularity ''crates'' 7 [(''syn'', 40)] demo_table \<noteq> None" by code_simp
  ultimately show ?thesis by (auto simp: crates_refresh_def Let_def split: option.splits)
qed

text \<open>The guard on an empty list cannot be reached for npm and Go: without any source the curated names remain, and replace the table.\<close>

lemma npm_never_empty: "npm_refresh search readme top_n now rs \<noteq> Unchanged"
proof -
  have "first_names n [] xs \<noteq> []" if "xs \<noteq> []" for n xs using that by (cases xs) simp_all
  moreover have "npm_infra \<noteq> []" by (simp add: npm_infra_def)
  ultimately have "first_names n [] (map fst npm_infra @ xs) \<noteq> []" for n xs by simp
  then show ?thesis by (simp add: npm_refresh_def Let_def split: option.split)
qed

lemma fst_pairs: "map fst (map (\<lambda>n. (n, f n)) xs) = xs"
  by (induction xs) auto

lemma npm_outage_evicts:
  assumes "npm_refresh (\<lambda>q. None) None npm_top_n now rs = Written n rs'" "table_ok lower ''npm'' rs"
  shows "(\<lambda>r. lower (wl_name r)) ` set (filter (popularity ''npm'') rs') = set (map (\<lambda>(m, w). lower m) npm_infra)"
proof -
  have none: "search_candidates (map (\<lambda>q. None) qs) cs = Some cs" for qs :: "string list" and cs by (induction qs) auto
  have "distinct (map lower (map fst npm_infra))" by code_simp
  moreover have "length npm_infra = 72" by code_simp
  ultimately have all: "first_names npm_top_n [] (map fst npm_infra) = map fst npm_infra"
    by (intro first_names_all) (simp_all add: npm_top_n_def)
  obtain dl where u: "upsert_popularity lower ''npm'' now (enumerate1 (map (\<lambda>n. (n, dl n)) (map fst npm_infra))) rs = Some rs'"
    using assms(1) all by (auto simp: npm_refresh_def search_popular_def none awesome_names_def sort_desc_def Let_def split: if_splits option.splits)
  have "ranks_ok (enumerate1 (map (\<lambda>n. (n, dl n)) (map fst npm_infra)))"
    using \<open>length npm_infra = 72\<close> by (intro ranks_ok_enumerate) (simp add: auto_malicious_rank_def)
  from upsert_popularity_Some(2) [OF u this assms(2)]
  have "(\<lambda>r. lower (wl_name r)) ` set (filter (popularity ''npm'') rs') =
    lower ` (\<lambda>(r, n, d). n) ` set (enumerate1 (map (\<lambda>n. (n, dl n)) (map fst npm_infra)))" by (simp add: image_image split_beta)
  also have "(\<lambda>(r, n, d). n) ` set (enumerate1 (map (\<lambda>n. (n, dl n)) (map fst npm_infra))) = set (map fst npm_infra)"
    using enumerate1_props(2) [of "map (\<lambda>n. (n, dl n)) (map fst npm_infra)"] by (metis (mono_tags) image_set fst_pairs)
  finally show ?thesis by (simp add: image_image split_beta)
qed

lemma pypi_empty_drops_all: "pypi_refresh (Some (JObj [])) top_n now rs = Written 0 (delete_where (\<lambda>r. wl_id r \<in> set (map snd (existing_rows id ''pypi'' rs))) rs)"
  by (simp add: pypi_refresh_def jget_def upsert_popularity_def Let_def)

text \<open>GitHub answering 403 for good: the request is repeated without end and the refresh does not return.\<close>

lemma gh_bucket_never_returns:
  assumes "\<And>attempt. reply page attempt = Rate_limited" "page \<le> 10"
  shows "gh_bucket reply page attempt ms = None"
proof (rule ccontr)
  assume "gh_bucket reply page attempt ms \<noteq> None"
  moreover have "gh_bucket f p a m = Some y \<Longrightarrow> f = reply \<longrightarrow> p = page \<longrightarrow> False" for f p a m y
  proof (induction rule: gh_bucket.raw_induct [rotated, consumes 1])
    case (1 loop f p a m y)
    from 1(1) [of reply page "Suc a" m y] 1(2) assms show ?case by (auto split: if_splits)
  qed
  ultimately show False by blast
qed

end
