(* ===== verification/ZipCrypto.thy ===== *)
theory ZipCrypto
  imports Prelude "HOL-Library.Word"
begin

text \<open>
  The encrypted archive format of the vault: the first half of \<^verbatim>\<open>vault.py\<close> and what the standard library does
  with it (\<^verbatim>\<open>zlib.crc32\<close>, \<^verbatim>\<open>struct.pack\<close>, reading with \<^verbatim>\<open>zipfile\<close> and a password). Bytes are words of 8
  bits, keys words of 32 bits; the masks of the source are the wrap-around of the words.
\<close>

unbundle bit_operations_syntax

type_synonym byte = "8 word"

section \<open>CRC table and cipher\<close>

definition crc_step :: "32 word \<Rightarrow> 32 word" where
  "crc_step c = (if bit c 0 then 0xEDB88320 XOR drop_bit 1 c else drop_bit 1 c)"

definition crc_table :: "32 word list" where
  "crc_table = map (\<lambda>i. (crc_step ^^ 8) (word_of_nat i)) [0..<256]"

definition crc32_byte :: "32 word \<Rightarrow> byte \<Rightarrow> 32 word" where
  "crc32_byte crc b = drop_bit 8 crc XOR crc_table ! unat ((crc XOR ucast b) AND 0xFF)"

definition crc32 :: "byte list \<Rightarrow> 32 word" where
  "crc32 data = NOT (foldl crc32_byte 0xFFFFFFFF data)"

record zip_keys =
  zk0 :: "32 word"
  zk1 :: "32 word"
  zk2 :: "32 word"

definition update_keys :: "zip_keys \<Rightarrow> byte \<Rightarrow> zip_keys" where
  "update_keys k b =
    (let k0 = crc32_byte (zk0 k) b;
         k1 = (zk1 k + (k0 AND 0xFF)) * 134775813 + 1;
         k2 = crc32_byte (zk2 k) (ucast (drop_bit 24 k1))
     in \<lparr>zk0 = k0, zk1 = k1, zk2 = k2\<rparr>)"

definition init_keys :: "byte list \<Rightarrow> zip_keys" where
  "init_keys password = foldl update_keys \<lparr>zk0 = 0x12345678, zk1 = 0x23456789, zk2 = 0x34567890\<rparr> password"

definition stream_byte :: "zip_keys \<Rightarrow> byte" where
  "stream_byte k = (let t = (zk2 k OR 2) AND 0xFFFF in ucast (drop_bit 8 (t * (t XOR 1)) AND 0xFF))"

fun encrypt :: "zip_keys \<Rightarrow> byte list \<Rightarrow> byte list" where
  "encrypt k [] = []"
| "encrypt k (p # ps) = (p XOR stream_byte k) # encrypt (update_keys k p) ps"

definition encrypt_entry :: "byte list \<Rightarrow> byte list \<Rightarrow> 32 word \<Rightarrow> byte list \<Rightarrow> byte list" where
  "encrypt_entry random data crc password =
    encrypt (init_keys password) (random[11 := ucast (drop_bit 24 crc)] @ data)"

text \<open>\<^verbatim>\<open>zipfile._ZipDecrypter\<close>: the same keys; it does not cut \<^verbatim>\<open>key2 | 2\<close> to 16 bits, in unbounded integers.\<close>

definition decrypt_byte :: "zip_keys \<Rightarrow> byte" where
  "decrypt_byte k = (let t = uint (zk2 k OR 2) in word_of_int (drop_bit 8 (t * (t XOR 1)) AND 0xFF))"

fun decrypt :: "zip_keys \<Rightarrow> byte list \<Rightarrow> byte list" where
  "decrypt k [] = []"
| "decrypt k (c # cs) = (let p = c XOR decrypt_byte k in p # decrypt (update_keys k p) cs)"

section \<open>Layout\<close>

text \<open>\<^verbatim>\<open>struct.pack\<close> of little-endian unsigned fields of the given widths; \<^const>\<open>None\<close> is \<^verbatim>\<open>struct.error\<close>.\<close>

fun le_bytes :: "nat \<Rightarrow> int \<Rightarrow> byte list" where
  "le_bytes 0 n = []"
| "le_bytes (Suc w) n = word_of_int n # le_bytes w (n div 256)"

fun pack :: "(nat \<times> int) list \<Rightarrow> byte list option" where
  "pack [] = Some []"
| "pack ((w, n) # fs) =
    (if 0 \<le> n \<and> n < 256 ^ w then map_option (\<lambda>bs. le_bytes w n @ bs) (pack fs) else None)"

fun le_value :: "byte list \<Rightarrow> int" where
  "le_value [] = 0"
| "le_value (b # bs) = uint b + 256 * le_value bs"

fun unpack :: "nat list \<Rightarrow> byte list \<Rightarrow> int list" where
  "unpack [] bs = []"
| "unpack (w # ws) bs = le_value (take w bs) # unpack ws (drop w bs)"

definition local_widths :: "nat list" where "local_widths = [4, 2, 2, 2, 2, 2, 4, 4, 4, 2, 2]"
definition central_widths :: "nat list" where "central_widths = [4, 2, 2, 2, 2, 2, 2, 4, 4, 4, 2, 2, 2, 2, 2, 4, 4]"
definition eocd_widths :: "nat list" where "eocd_widths = [4, 2, 2, 2, 2, 4, 4, 2]"

record local_time =
  tm_hour :: int
  tm_min :: int
  tm_sec :: int
  tm_year :: int
  tm_mon :: int
  tm_mday :: int

definition dos_time :: "local_time \<Rightarrow> int" where
  "dos_time t = push_bit 11 (tm_hour t) OR push_bit 5 (tm_min t) OR (tm_sec t div 2)"

definition dos_date :: "local_time \<Rightarrow> int" where
  "dos_date t = push_bit 9 (tm_year t - 1980) OR push_bit 5 (tm_mon t) OR tm_mday t"

text \<open>The bytes of the file. \<open>name\<close> is the encoded name of the entry, \<open>random\<close> what \<^verbatim>\<open>os.urandom(12)\<close> gave.\<close>

definition write_encrypted_zip :: "byte list \<Rightarrow> local_time \<Rightarrow> byte list \<Rightarrow> byte list \<Rightarrow> byte list \<Rightarrow> byte list option" where
  "write_encrypted_zip random t name data password =
    (let crc = crc32 data;
         blob = encrypt_entry random data crc password;
         csize = int (length blob); usize = int (length data); n = int (length name)
     in case pack (zip local_widths [0x04034B50, 20, 1, 0, dos_time t, dos_date t, uint crc, csize, usize, n, 0]) of
          None \<Rightarrow> None
        | Some l \<Rightarrow>
            (case pack (zip central_widths [0x02014B50, 20, 20, 1, 0, dos_time t, dos_date t, uint crc, csize, usize, n,
                0, 0, 0, 0, 0, 0]) of
               None \<Rightarrow> None
             | Some c \<Rightarrow>
                 (case pack (zip eocd_widths [0x06054B50, 0, 0, 1, 1, int (length (c @ name)),
                     int (length (l @ name) + length blob), 0]) of
                    None \<Rightarrow> None
                  | Some e \<Rightarrow> Some ((l @ name) @ blob @ (c @ name) @ e))))"

text \<open>\<^verbatim>\<open>ZipFile(f).namelist()[0]\<close> and \<^verbatim>\<open>read(inner, pwd=...)\<close> of a stored entry: the end record at the end of the file
  without a comment, the first entry of the directory it points to, the local header, the password check on
  the last byte of the encryption header, and the checksum.\<close>

definition read_encrypted_zip :: "byte list \<Rightarrow> byte list \<Rightarrow> (byte list \<times> byte list) option" where
  "read_encrypted_zip password file =
    (if length file < 22 then None
     else (let e = unpack eocd_widths (drop (length file - 22) file) in
       if e ! 0 \<noteq> 0x06054B50 \<or> e ! 7 \<noteq> 0 \<or> e ! 4 = 0 then None
       else (let c = drop (nat (e ! 6)) file; h = unpack central_widths c in
         if length c < 46 \<or> h ! 0 \<noteq> 0x02014B50 then None
         else (let name = take (nat (h ! 10)) (drop 46 c);
                   l = drop (nat (h ! 16)) file; lh = unpack local_widths l
           in if length l < 30 \<or> lh ! 0 \<noteq> 0x04034B50 \<or> take (nat (lh ! 9)) (drop 30 l) \<noteq> name \<or> \<not> odd (h ! 3) \<or> h ! 4 \<noteq> 0
              then None
              else (let blob = take (nat (h ! 8)) (drop (30 + nat (lh ! 9) + nat (lh ! 10)) l);
                        plain = decrypt (init_keys password) blob; data = take (nat (h ! 9)) (drop 12 plain)
                in if length blob < 12 \<or> uint (plain ! 11) \<noteq> h ! 7 div 2 ^ 24 \<or> uint (crc32 data) \<noteq> h ! 7 then None
                   else Some (name, data))))))"

section \<open>Lemmas\<close>

lemma crc_table_nth: "i < 256 \<Longrightarrow> crc_table ! i = (crc_step ^^ 8) (word_of_nat i)"
  by (simp add: crc_table_def)

text \<open>The table does what the bitwise definition does.\<close>

lemma crc32_byte_bitwise: "crc32_byte crc b = drop_bit 8 crc XOR (crc_step ^^ 8) ((crc XOR ucast b) AND 0xFF)"
proof -
  have "unat ((crc XOR ucast b) AND 0xFF) < 256"
    using word_and_le1 [of "crc XOR ucast b" "0xFF"] by (simp add: word_le_nat_alt)
  then show ?thesis by (simp add: crc32_byte_def crc_table_nth)
qed

lemma take_bit_prod:
  fixes u :: int
  shows "take_bit 16 (take_bit 16 u * (take_bit 16 u XOR 1)) = take_bit 16 (u * (u XOR 1))"
proof -
  have x: "take_bit 16 u XOR 1 = take_bit 16 (u XOR 1)" by (simp add: take_bit_xor)
  show ?thesis unfolding x by (rule take_bit_mult)
qed

text \<open>Cutting the key to 16 bits before the multiplication changes nothing of the byte.\<close>

lemma decrypt_byte_eq: "decrypt_byte k = stream_byte k"
proof -
  let ?w = "zk2 k OR 2"
  let ?u = "uint ?w"
  let ?t = "?w AND 0xFFFF"
  let ?p = "?t * (?t XOR 1)"
  have t: "uint ?t = take_bit 16 ?u"
    by (simp add: unsigned_and_eq take_bit_eq_mask mask_eq_exp_minus_1)
  have "uint ?p = take_bit 32 (uint ?t * (uint ?t XOR 1))"
    by (simp add: uint_word_ariths take_bit_eq_mod unsigned_xor_eq)
  then have p: "take_bit 16 (uint ?p) = take_bit 16 (?u * (?u XOR 1))"
    unfolding t by (simp add: take_bit_prod)
  have low: "take_bit 8 (n AND 0xFF) = take_bit 8 n" for n :: int
    by (simp add: take_bit_eq_mask mask_eq_exp_minus_1 ac_simps)
  have "take_bit 8 (uint (drop_bit 8 ?p AND 0xFF)) = take_bit 8 (drop_bit 8 (uint ?p) AND 0xFF)"
    by (simp add: unsigned_and_eq unsigned_drop_bit_eq bintr_uint)
  also have "\<dots> = drop_bit 8 (take_bit 16 (uint ?p))" unfolding low by (simp add: drop_bit_take_bit)
  also have "\<dots> = take_bit 8 (drop_bit 8 (?u * (?u XOR 1)) AND 0xFF)" unfolding p low by (simp add: drop_bit_take_bit)
  finally show ?thesis
    unfolding decrypt_byte_def stream_byte_def Let_def word_uint_eq_iff unsigned_ucast_eq
    by (simp only: uint_word_of_int_eq) simp
qed

lemma length_encrypt [simp]: "length (encrypt k ps) = length ps"
  by (induction k ps rule: encrypt.induct) simp_all

lemma decrypt_encrypt: "decrypt k (encrypt k ps) = ps"
  by (induction k ps rule: encrypt.induct) (simp_all add: decrypt_byte_eq Let_def xor.assoc)

lemma length_le_bytes [simp]: "length (le_bytes w n) = w"
  by (induction w n rule: le_bytes.induct) simp_all

lemma le_value_bytes: "le_value (le_bytes w n) = n mod 256 ^ w"
proof (induction w n rule: le_bytes.induct)
  case (2 w n)
  have "uint (word_of_int n :: byte) = n mod 256" by (simp add: uint_word_of_int)
  then show ?case using 2 by (simp add: zmod_zmult2_eq)
qed simp

lemma pack_length: "pack fs = Some bs \<Longrightarrow> length bs = sum_list (map fst fs)"
  by (induction fs arbitrary: bs) (auto split: if_splits)

lemma unpack_pack: "pack fs = Some bs \<Longrightarrow> unpack (map fst fs) (bs @ rest) = map snd fs"
proof (induction fs arbitrary: bs)
  case (Cons f fs)
  obtain w n where f: "f = (w, n)" by (cases f)
  obtain bs1 where b: "pack fs = Some bs1" "bs = le_bytes w n @ bs1" "0 \<le> n" "n < 256 ^ w"
    using Cons.prems by (auto simp: f split: if_splits)
  then show ?case using Cons.IH [OF b(1)] by (simp add: f le_value_bytes)
qed simp

lemma pack_some: "(\<exists>bs. pack fs = Some bs) \<longleftrightarrow> (\<forall>(w, n) \<in> set fs. 0 \<le> n \<and> n < 256 ^ w)"
  by (induction fs) (auto split: if_splits)

lemma length_encrypt_entry: "length random = 12 \<Longrightarrow> length (encrypt_entry random data crc password) = 12 + length data"
  by (simp add: encrypt_entry_def)

text \<open>When a file is written: every length and both fields of the time fit their widths.\<close>

lemma write_fits:
  assumes "length random = 12"
  shows "(\<exists>z. write_encrypted_zip random t name data password = Some z) \<longleftrightarrow>
    0 \<le> dos_time t \<and> dos_time t < 2 ^ 16 \<and> 0 \<le> dos_date t \<and> dos_date t < 2 ^ 16 \<and> length name < 2 ^ 16 \<and>
    42 + length name + length data < 2 ^ 32"
proof -
  let ?fs = "zip local_widths [0x04034B50, 20, 1, 0, dos_time t, dos_date t, uint (crc32 data),
      int (length (encrypt_entry random data (crc32 data) password)), int (length data), int (length name), 0]"
  let ?gs = "zip central_widths [0x02014B50, 20, 20, 1, 0, dos_time t, dos_date t, uint (crc32 data),
      int (length (encrypt_entry random data (crc32 data) password)), int (length data), int (length name), 0, 0, 0, 0, 0, 0]"
  let ?hs = "\<lambda>l c. zip eocd_widths [0x06054B50, 0, 0, 1, 1, int (length (c @ name)),
      int (length (l @ name) + length (encrypt_entry random data (crc32 data) password)), 0]"
  have crc: "0 \<le> uint (crc32 data)" "uint (crc32 data) < 4294967296" using uint_bounded [of "crc32 data"] by simp_all
  let ?ok = "0 \<le> dos_time t \<and> dos_time t < 65536 \<and> 0 \<le> dos_date t \<and> dos_date t < 65536 \<and>
     length name < 65536 \<and> 12 + length data < 4294967296"
  have f: "(\<exists>l. pack ?fs = Some l) \<longleftrightarrow> ?ok"
    unfolding pack_some local_widths_def length_encrypt_entry [OF assms] using crc by auto
  have g: "(\<exists>c. pack ?gs = Some c) \<longleftrightarrow> ?ok"
    unfolding pack_some central_widths_def length_encrypt_entry [OF assms] using crc by auto
  have h: "(\<exists>e. pack (?hs l c) = Some e) \<longleftrightarrow> 46 + length name < 4294967296 \<and> 42 + length name + length data < 4294967296"
    if "pack ?fs = Some l" "pack ?gs = Some c" for l c
  proof -
    have "length l = 30" "length c = 46" using pack_length [OF that(1)] pack_length [OF that(2)]
      by (simp_all add: local_widths_def central_widths_def)
    then show ?thesis
      unfolding pack_some eocd_widths_def length_append length_encrypt_entry [OF assms] by auto
  qed
  have "(\<exists>z. write_encrypted_zip random t name data password = Some z) \<longleftrightarrow>
    (\<exists>l c e. pack ?fs = Some l \<and> pack ?gs = Some c \<and> pack (?hs l c) = Some e)"
    unfolding write_encrypted_zip_def Let_def by (auto split: option.splits)
  also have "\<dots> \<longleftrightarrow> ?ok \<and> 46 + length name < 4294967296 \<and> 42 + length name + length data < 4294967296"
    using f g h by blast
  finally show ?thesis by auto
qed

lemma high_byte: "uint (ucast (drop_bit 24 w) :: byte) = uint w div 2 ^ 24" for w :: "32 word"
proof -
  have "uint w div 2 ^ 24 < 256" "0 \<le> uint w div 2 ^ 24" using uint_bounded [of w] by (simp_all add: pos_imp_zdiv_nonneg_iff)
  then show ?thesis
    by (simp only: unsigned_ucast_eq) (simp add: take_bit_eq_mod drop_bit_eq_div uint_div_distrib)
qed

section \<open>Properties\<close>

text \<open>What the vault writes, the standard library reads back: whenever \<open>write_encrypted_zip\<close> produces a file,
  reading its first entry with the same password gives the name and the unmodified bytes, for every
  content, name, password, time and every random header; the password check and the checksum pass.\<close>

theorem zip_roundtrip:
  assumes "write_encrypted_zip random t name data password = Some zipf" and "length random = 12"
  shows "read_encrypted_zip password zipf = Some (name, data)"
proof -
  let ?blob = "encrypt_entry random data (crc32 data) password"
  obtain l c e where
    l: "pack (zip local_widths [0x04034B50, 20, 1, 0, dos_time t, dos_date t, uint (crc32 data), int (length ?blob), int (length data),
      int (length name), 0]) = Some l"
    and c: "pack (zip central_widths [0x02014B50, 20, 20, 1, 0, dos_time t, dos_date t, uint (crc32 data), int (length ?blob),
      int (length data), int (length name), 0, 0, 0, 0, 0, 0]) = Some c"
    and e: "pack (zip eocd_widths [0x06054B50, 0, 0, 1, 1, int (length (c @ name)), int (length (l @ name) + length ?blob), 0]) = Some e"
    and zipf: "zipf = (l @ name) @ ?blob @ (c @ name) @ e"
    using assms(1) unfolding write_encrypted_zip_def Let_def by (auto split: option.splits)
  have len: "length l = 30" "length c = 46" "length e = 22"
    using pack_length [OF l] pack_length [OF c] pack_length [OF e] by (simp_all add: local_widths_def central_widths_def eocd_widths_def)
  have ul: "unpack local_widths (l @ rest) = [0x04034B50, 20, 1, 0, dos_time t, dos_date t, uint (crc32 data), int (length ?blob),
      int (length data), int (length name), 0]" for rest
    using unpack_pack [OF l, of rest] by (simp add: local_widths_def)
  have uc: "unpack central_widths (c @ rest) = [0x02014B50, 20, 20, 1, 0, dos_time t, dos_date t, uint (crc32 data), int (length ?blob),
      int (length data), int (length name), 0, 0, 0, 0, 0, 0]" for rest
    using unpack_pack [OF c, of rest] by (simp add: central_widths_def)
  have ue: "unpack eocd_widths e = [0x06054B50, 0, 0, 1, 1, int (length (c @ name)), int (length (l @ name) + length ?blob), 0]"
    using unpack_pack [OF e, of "[]"] by (simp add: eocd_widths_def)
  have blob: "length ?blob = 12 + length data" using assms(2) by (simp add: encrypt_entry_def)
  have plain: "decrypt (init_keys password) ?blob = random[11 := ucast (drop_bit 24 (crc32 data))] @ data"
    by (simp add: encrypt_entry_def decrypt_encrypt)
  have de: "drop (length zipf - 22) zipf = e" using len by (simp add: zipf)
  have dc: "drop (length (l @ name) + length ?blob) zipf = c @ name @ e" by (simp add: zipf)
  have dl: "drop (nat 0) zipf = l @ name @ ?blob @ c @ name @ e" by (simp add: zipf)
  have sizes: "\<not> length zipf < 22" "\<not> length (c @ name @ e) < 46" "\<not> length (l @ name @ ?blob @ c @ name @ e) < 30"
    using len by (simp_all add: zipf)
  have names: "take (length name) (drop 46 (c @ name @ e)) = name"
    "take (length name) (drop 30 (l @ name @ ?blob @ c @ name @ e)) = name" using len by simp_all
  have body: "take (length ?blob) (drop (30 + length name + nat 0) (l @ name @ ?blob @ c @ name @ e)) = ?blob" using len by simp
  have content: "take (length data) (drop 12 (random[11 := b] @ data)) = data" for b using assms(2) by simp
  have check: "uint ((random[11 := b] @ data) ! 11) = uint b" for b using assms(2) by (simp add: nth_append)
  obtain h lh ee where h: "h = unpack central_widths (c @ name @ e)"
    and lh: "lh = unpack local_widths (l @ name @ ?blob @ c @ name @ e)" and ee: "ee = unpack eocd_widths e" by simp
  have hs: "h ! 0 = 0x02014B50" "odd (h ! 3)" "h ! 4 = 0" "h ! 7 = uint (crc32 data)" "h ! 8 = int (length ?blob)"
    "h ! 9 = int (length data)" "h ! 10 = int (length name)" "h ! 16 = 0" unfolding h uc by simp_all
  have lhs: "lh ! 0 = 0x04034B50" "lh ! 9 = int (length name)" "lh ! 10 = 0" unfolding lh ul by simp_all
  have es: "ee ! 0 = 0x06054B50" "ee ! 7 = 0" "ee ! 4 \<noteq> 0" "ee ! 6 = int (length (l @ name) + length ?blob)" unfolding ee ue by simp_all
  have "\<not> length ?blob < 12" unfolding blob by simp
  then show ?thesis
    by (simp only: read_encrypted_zip_def Let_def de flip: ee)
      (simp only: es nat_int dc hs sizes simp_thms if_False flip: h,
       simp only: dl names lhs hs nat_int sizes simp_thms if_False flip: lh,
       simp only: nat_int body plain content check high_byte simp_thms if_False)
qed

definition demo_time :: local_time where
  "demo_time = \<lparr>tm_hour = 23, tm_min = 59, tm_sec = 58, tm_year = 2026, tm_mon = 12, tm_mday = 31\<rparr>"

lemma demo_time_fits: "0 \<le> dos_time demo_time" "dos_time demo_time < 65536" "0 \<le> dos_date demo_time" "dos_date demo_time < 65536"
  by code_simp+

theorem zip_roundtrip_witness:
  "\<exists>z. write_encrypted_zip (replicate 12 7) demo_time [97] [1, 2, 3] [105] = Some z \<and> read_encrypted_zip [105] z = Some ([97], [1, 2, 3])"
proof -
  have "length (replicate 12 7 :: byte list) = 12" by simp
  moreover obtain z where "write_encrypted_zip (replicate 12 7) demo_time [97] [1, 2, 3] [105] = Some z"
    using demo_time_fits write_fits [OF calculation, of demo_time "[97]" "[1, 2, 3]" "[105]"] by auto
  ultimately show ?thesis using zip_roundtrip by blast
qed

end
