(* ===== verification/Vault.thy ===== *)
theory Vault
  imports ZipCrypto
begin

text \<open>
  The vault of malicious samples: the second half of \<^verbatim>\<open>vault.py\<close>, and the staging of a vaulted archive for a
  detonation or a replay. The directory is a list of file names with their contents in no particular order;
  the digest, the random bytes, the clock and a failing disk are a record of arguments.
\<close>

section \<open>Names\<close>

definition alnum_char :: "char \<Rightarrow> bool" where
  "alnum_char c = (let n = (of_char c :: nat) in is_digit c \<or> (65 \<le> n \<and> n \<le> 90) \<or> (97 \<le> n \<and> n \<le> 122))"

definition safe_stem :: "ecosystem \<Rightarrow> string \<Rightarrow> string \<Rightarrow> string" where
  "safe_stem eco name ver =
    map (\<lambda>c. if alnum_char c \<or> c \<in> {CHR ''.'', CHR ''_'', CHR ''-''} then c else CHR ''_'')
      (eco @ ''__'' @ name @ ''__'' @ ver)"

text \<open>\<^verbatim>\<open>glob(f"{stem}__*.zip")\<close>; a stem has no wildcard of its own.\<close>

definition stem_glob :: "string \<Rightarrow> string \<Rightarrow> bool" where
  "stem_glob stem f = (length (stem @ ''__'') + length ''.zip'' \<le> length f \<and> prefix (stem @ ''__'') f \<and> suffix ''.zip'' f)"

definition ascii_bytes :: "string \<Rightarrow> byte list" where
  "ascii_bytes s = map (\<lambda>c. word_of_nat (of_char c)) s"

definition ascii_string :: "byte list \<Rightarrow> string" where
  "ascii_string bs = map (\<lambda>b. char_of (unat b)) bs"

definition vault_password :: "byte list" where
  "vault_password = ascii_bytes ''infected''"

section \<open>State\<close>

datatype vault_file = Zip_file "byte list" | Manifest_file string

type_synonym vault = "(string \<times> vault_file) list"

text \<open>\<open>v_written\<close>: how many bytes of the archive reach the disk before an error, if one occurs;
  \<open>v_manifest_ok\<close>: whether the manifest can be written.\<close>

record vault_env =
  v_digest :: "byte list \<Rightarrow> string"
  v_random :: "byte list"
  v_time :: local_time
  v_captured :: string
  v_written :: "nat option"
  v_manifest_ok :: bool

record sample =
  sm_ecosystem :: ecosystem
  sm_name :: string
  sm_version :: string
  sm_path :: string
  sm_bytes :: "byte list option"
  sm_kind :: string
  sm_verdict :: string
  sm_score :: int
  sm_rules :: "string list"
  sm_url :: "string option"

section \<open>Operations\<close>

definition quoted :: "string \<Rightarrow> string" where
  "quoted s = CHR 34 # s @ [CHR 34]"

definition manifest_toml :: "vault_env \<Rightarrow> sample \<Rightarrow> string \<Rightarrow> string" where
  "manifest_toml ve s digest =
    (let rules = join '', '' (map quoted (sort (nub (sm_rules s))));
         rows = [''ecosystem = '' @ quoted (sm_ecosystem s), ''name = '' @ quoted (sm_name s),
           ''version = '' @ quoted (sm_version s), ''label = '' @ quoted ''bad'',
           ''expected_verdict = '' @ quoted (sm_verdict s), ''expect_rules = ['' @ rules @ '']'',
           ''sha256 = '' @ quoted digest, ''archive_kind = '' @ quoted (sm_kind s), ''score = '' @ int_str (sm_score s),
           ''captured_at = '' @ quoted (v_captured ve), ''provenance = '' @ quoted ''frozen_sample''] @
           (if truthy (sm_url s) then [''registry_url = '' @ quoted (or_empty (sm_url s))] else [])
     in join [CHR 10] rows @ [CHR 10])"

definition vault_stem :: "vault_env \<Rightarrow> sample \<Rightarrow> byte list \<Rightarrow> string" where
  "vault_stem ve s data = safe_stem (sm_ecosystem s) (sm_name s) (sm_version s) @ ''__'' @ take 12 (v_digest ve data)"

text \<open>The vault (\<^const>\<open>None\<close>: disabled) and the path that is returned.\<close>

definition archive_to_vault :: "vault_env \<Rightarrow> sample \<Rightarrow> vault option \<Rightarrow> vault option \<times> string option" where
  "archive_to_vault ve s v =
    (case v of None \<Rightarrow> (None, None)
     | Some d \<Rightarrow>
       (case sm_bytes s of None \<Rightarrow> (Some d, None)
        | Some data \<Rightarrow>
          (let stem = vault_stem ve s data; zp = stem @ ''.zip'' in
           if zp \<in> fst ` set d then (Some d, Some zp)
           else (case write_encrypted_zip (v_random ve) (v_time ve) (ascii_bytes (basename (sm_path s))) data vault_password of
                   None \<Rightarrow> (Some d, None)
                 | Some z \<Rightarrow>
                   (case v_written ve of
                      Some n \<Rightarrow> (Some (dict_put zp (Zip_file (take n z)) d), None)
                    | None \<Rightarrow>
                      (let d1 = dict_put zp (Zip_file z) d in
                       if v_manifest_ok ve
                       then (Some (dict_put (stem @ ''.manifest.toml'') (Manifest_file (manifest_toml ve s (v_digest ve data))) d1), Some zp)
                       else (Some d1, None)))))))"

definition read_file :: "vault \<Rightarrow> string \<Rightarrow> (byte list \<times> string) option" where
  "read_file d f =
    (case dict_get d f of
       Some (Zip_file z) \<Rightarrow> map_option (\<lambda>(inner, data). (data, ascii_string inner)) (read_encrypted_zip vault_password z)
     | _ \<Rightarrow> None)"

fun first_readable :: "vault \<Rightarrow> string list \<Rightarrow> (byte list \<times> string) option" where
  "first_readable d [] = None"
| "first_readable d (f # fs) = (case read_file d f of Some r \<Rightarrow> Some r | None \<Rightarrow> first_readable d fs)"

definition read_archive :: "vault option \<Rightarrow> ecosystem \<Rightarrow> string \<Rightarrow> string \<Rightarrow> (byte list \<times> string) option" where
  "read_archive v eco name ver =
    (case v of None \<Rightarrow> None
     | Some d \<Rightarrow> first_readable d (sort (filter (stem_glob (safe_stem eco name ver)) (map fst d))))"

text \<open>Staging: the archive the detonation service mounts, with the modes of its directory and itself.\<close>

record staged =
  st_name :: string
  st_bytes :: "byte list"
  st_kind :: string
  st_digest :: string
  st_dir_mode :: nat
  st_file_mode :: nat

definition dir_mode :: nat where "dir_mode = 493"
definition file_mode :: nat where "file_mode = 420"

definition stage_bytes :: "(byte list \<Rightarrow> string) \<Rightarrow> byte list \<Rightarrow> string \<Rightarrow> string \<Rightarrow> staged" where
  "stage_bytes digest data inner kind =
    \<lparr>st_name = basename inner, st_bytes = data, st_kind = kind, st_digest = digest data, st_dir_mode = dir_mode, st_file_mode = file_mode\<rparr>"

definition stage_from_vault :: "(byte list \<Rightarrow> string) \<Rightarrow> vault option \<Rightarrow> ecosystem \<Rightarrow> string \<Rightarrow> string \<Rightarrow> string \<Rightarrow> staged option" where
  "stage_from_vault digest v eco name ver kind =
    map_option (\<lambda>(data, inner). stage_bytes digest data inner kind) (read_archive v eco name ver)"

section \<open>Lemmas\<close>

lemma map_fst_dict_put: "map fst (dict_put k v d) = (if k \<in> fst ` set d then map fst d else map fst d @ [k])"
  by (induction d) force+

lemma dict_get_None: "dict_get d k = None \<longleftrightarrow> k \<notin> fst ` set d"
  by (auto simp: dict_get_def map_of_eq_None_iff)

lemma ascii_string_bytes [simp]: "ascii_string (ascii_bytes s) = s"
proof -
  have "char_of (unat (word_of_nat (of_char c) :: byte)) = c" for c :: char
  proof -
    have "(of_char c :: nat) < 256" using range_nat_of_char by auto
    then show ?thesis by (simp add: unat_of_nat)
  qed
  then show ?thesis by (simp add: ascii_string_def ascii_bytes_def comp_def)
qed

lemma basename_idem [simp]: "basename (basename p) = basename p"
  using basename_no_slash [of p] by (simp add: basename_def rsplit1_last_def takeWhile_all)

lemma manifest_not_zip [simp]: "\<not> stem_glob q (stem @ ''.manifest.toml'')"
proof
  assume "stem_glob q (stem @ ''.manifest.toml'')"
  then have "suffix ''.zip'' (stem @ ''.manifest.toml'')" by (simp add: stem_glob_def)
  then show False by (auto simp: suffix_def dest: arg_cong [of _ _ last])
qed

lemma own_stem_glob: "stem_glob (safe_stem eco name ver) (safe_stem eco name ver @ ''__'' @ h @ ''.zip'')"
  by (auto simp: stem_glob_def suffix_def)

text \<open>What a successful call with a new name does.\<close>

lemma archive_new:
  assumes "archive_to_vault ve s (Some d) = (v', Some zp)" "zp \<notin> fst ` set d" "sm_bytes s = Some data"
  obtains z m where "zp = vault_stem ve s data @ ''.zip''"
    "write_encrypted_zip (v_random ve) (v_time ve) (ascii_bytes (basename (sm_path s))) data vault_password = Some z"
    "v' = Some (dict_put (vault_stem ve s data @ ''.manifest.toml'') (Manifest_file m) (dict_put zp (Zip_file z) d))"
  using assms by (auto simp: archive_to_vault_def Let_def split: option.splits if_splits)

text \<open>Reading by a stem that matches the new file and none of the old ones.\<close>

lemma archive_then_read:
  assumes "archive_to_vault ve s (Some d) = (v', Some zp)" "sm_bytes s = Some data" "length (v_random ve) = 12"
    and "stem_glob (safe_stem eco name ver) zp" "\<forall>f \<in> fst ` set d. \<not> stem_glob (safe_stem eco name ver) f"
  shows "read_archive v' eco name ver = Some (data, basename (sm_path s))"
proof -
  have new: "zp \<notin> fst ` set d" using assms(4, 5) by blast
  obtain z m where z: "zp = vault_stem ve s data @ ''.zip''"
    "write_encrypted_zip (v_random ve) (v_time ve) (ascii_bytes (basename (sm_path s))) data vault_password = Some z"
    and v': "v' = Some (dict_put (vault_stem ve s data @ ''.manifest.toml'') (Manifest_file m) (dict_put zp (Zip_file z) d))"
    using archive_new [OF assms(1) new assms(2)] .
  let ?mf = "vault_stem ve s data @ ''.manifest.toml''"
  have ne: "zp \<noteq> ?mf" using assms(4) manifest_not_zip by metis
  have none: "filter (stem_glob (safe_stem eco name ver)) (map fst d) = []" using assms(5) by (auto simp: filter_empty_conv)
  have "filter (stem_glob (safe_stem eco name ver)) (map fst (dict_put ?mf (Manifest_file m) (dict_put zp (Zip_file z) d))) = [zp]"
    using assms(4) none new by (simp add: map_fst_dict_put)
  then show ?thesis
    using zip_roundtrip [OF z(2) assms(3)] ne by (simp add: v' read_archive_def read_file_def)
qed

text \<open>No archive of the vault is ever changed or removed, whatever fails.\<close>

lemma vault_append_only:
  assumes "f \<in> fst ` set d" "suffix ''.zip'' f"
  shows "dict_get (get_or [] (fst (archive_to_vault ve s (Some d)))) f = dict_get d f"
proof -
  have "f \<noteq> stem @ ''.manifest.toml''" for stem using assms(2) by (auto simp: suffix_def dest: arg_cong [of _ _ last])
  moreover have "f \<noteq> k" if "k \<notin> fst ` set d" for k using assms(1) that by blast
  ultimately show ?thesis by (simp add: archive_to_vault_def Let_def split: option.splits)
qed

text \<open>A write that fails at once leaves an empty archive behind: the next call finds the name taken and reports
  success, and nothing can be read back.\<close>

lemma failed_write_poisons:
  assumes "zp = vault_stem ve s data @ ''.zip''" "sm_bytes s = Some data" "length (v_random ve) = 12"
    and "\<forall>f \<in> fst ` set d. \<not> stem_glob (safe_stem (sm_ecosystem s) (sm_name s) (sm_version s)) f"
    and "write_encrypted_zip (v_random ve) (v_time ve) (ascii_bytes (basename (sm_path s))) data vault_password \<noteq> None"
    and "v_written ve = Some 0"
  obtains v1 where "archive_to_vault ve s (Some d) = (v1, None)" "archive_to_vault ve s v1 = (v1, Some zp)"
    "read_archive v1 (sm_ecosystem s) (sm_name s) (sm_version s) = None"
proof -
  let ?d = "dict_put zp (Zip_file []) d" and ?q = "safe_stem (sm_ecosystem s) (sm_name s) (sm_version s)"
  have own: "stem_glob ?q zp"
    using own_stem_glob [of "sm_ecosystem s" "sm_name s" "sm_version s"] by (simp add: assms(1) vault_stem_def)
  then have new: "zp \<notin> fst ` set d" using assms(4) by blast
  have "archive_to_vault ve s (Some d) = (Some ?d, None)"
    using assms(5) new by (auto simp: archive_to_vault_def Let_def assms(1, 2, 6))
  moreover have "archive_to_vault ve s (Some ?d) = (Some ?d, Some zp)"
    by (simp add: archive_to_vault_def Let_def assms(1, 2) fst_set_dict_put)
  moreover have "read_archive (Some ?d) (sm_ecosystem s) (sm_name s) (sm_version s) = None"
  proof -
    have "filter (stem_glob ?q) (map fst d) = []" using assms(4) by (auto simp: filter_empty_conv)
    then have "filter (stem_glob ?q) (map fst ?d) = [zp]" using own new by (simp add: map_fst_dict_put)
    then show ?thesis by (simp add: read_archive_def read_file_def read_encrypted_zip_def)
  qed
  ultimately show ?thesis using that by blast
qed

text \<open>The name of a file does not determine the package: a package can be read back as another one.\<close>

definition demo_env :: vault_env where
  "demo_env = \<lparr>v_digest = (\<lambda>_. ''0123456789abcdef''), v_random = replicate 12 7, v_time = demo_time,
     v_captured = ''2026-12-31T23:59:58Z'', v_written = None, v_manifest_ok = True\<rparr>"

definition demo_sample :: sample where
  "demo_sample = \<lparr>sm_ecosystem = ''npm'', sm_name = ''a__1'', sm_version = ''2'', sm_path = ''/tmp/a.tgz'',
     sm_bytes = Some [1, 2, 3], sm_kind = ''npm_tarball'', sm_verdict = ''malicious'', sm_score = 90, sm_rules = [], sm_url = None\<rparr>"

lemma demo_archived: "\<exists>v zp. archive_to_vault demo_env demo_sample (Some []) = (v, Some zp) \<and> zp = ''npm__a__1__2__0123456789ab.zip''"
proof -
  have r: "length (replicate 12 7 :: byte list) = 12" by simp
  obtain z where "write_encrypted_zip (replicate 12 7) demo_time (ascii_bytes (basename ''/tmp/a.tgz'')) [1, 2, 3] vault_password = Some z"
    using demo_time_fits write_fits [OF r, of demo_time "ascii_bytes (basename ''/tmp/a.tgz'')" "[1, 2, 3]"]
    by (auto simp: ascii_bytes_def basename_def rsplit1_last_def)
  then have "archive_to_vault demo_env demo_sample (Some []) =
    (fst (archive_to_vault demo_env demo_sample (Some [])), Some (vault_stem demo_env demo_sample [1, 2, 3] @ ''.zip''))"
    by (simp add: archive_to_vault_def Let_def demo_env_def demo_sample_def)
  moreover have "vault_stem demo_env demo_sample [1, 2, 3] @ ''.zip'' = ''npm__a__1__2__0123456789ab.zip''" by code_simp
  ultimately show ?thesis by metis
qed

lemma wrong_sample_read:
  obtains v zp where "archive_to_vault demo_env demo_sample (Some []) = (v, Some zp)"
    "read_archive v ''npm'' ''a'' ''1'' = Some ([1, 2, 3], ''a.tgz'')"
proof -
  obtain v zp where a: "archive_to_vault demo_env demo_sample (Some []) = (v, Some zp)" and zp: "zp = ''npm__a__1__2__0123456789ab.zip''"
    using demo_archived by blast
  have "stem_glob (safe_stem ''npm'' ''a'' ''1'') zp" unfolding zp by code_simp
  moreover have "sm_bytes demo_sample = Some [1, 2, 3]" "length (v_random demo_env) = 12" "basename (sm_path demo_sample) = ''a.tgz''"
    by code_simp+
  ultimately show ?thesis using archive_then_read [OF a] that [OF a] by fastforce
qed

section \<open>Properties\<close>



end
