(* ===== verification/PyRegex.thy ===== *)
theory PyRegex
  imports Prelude PyStr
begin

text \<open>
  Python's regular expressions as far as the analyzers use them, on byte strings and ASCII texts. A position in a subject
  is the text before it, reversed, and the text from it on; \<open>ends\<close> are the ends of the matches from a position in the
  order in which backtracking finds them, so the first is the match. \<open>lang\<close> is the relation a pattern denotes, and
  \<open>ends_lang\<close> says the search finds exactly it. Patterns are greedy and without groups; the text of a
  group is cut from the match where the code asks for it.
\<close>

section \<open>Patterns\<close>

datatype regex =
    Eps
  | Sat "char \<Rightarrow> bool"
  | Cat regex regex
  | Or regex regex
  | Rep nat "nat option" regex \<comment> \<open>at least so often, and so many times more\<close>
  | Boundary
  | Not_ahead regex
  | At_start
  | At_end

type_synonym pos = "string \<times> string"

text \<open>\<^verbatim>\<open>\d\<close>, \<^verbatim>\<open>\w\<close> and \<^verbatim>\<open>\s\<close>, the latter for bytes.\<close>

definition alpha_char :: "char \<Rightarrow> bool" where
  "alpha_char c \<longleftrightarrow> (65 \<le> (of_char c :: nat) \<and> (of_char c :: nat) \<le> 90) \<or> (97 \<le> (of_char c :: nat) \<and> (of_char c :: nat) \<le> 122)"

definition word_char :: "char \<Rightarrow> bool" where
  "word_char c \<longleftrightarrow> alpha_char c \<or> is_digit c \<or> c = CHR ''_''"

definition byte_space :: "char \<Rightarrow> bool" where
  "byte_space c \<longleftrightarrow> (9 \<le> (of_char c :: nat) \<and> (of_char c :: nat) \<le> 13) \<or> c = CHR '' ''"

definition at_boundary :: "pos \<Rightarrow> bool" where
  "at_boundary x \<longleftrightarrow> (fst x \<noteq> [] \<and> word_char (hd (fst x))) \<noteq> (snd x \<noteq> [] \<and> word_char (hd (snd x)))"

section \<open>Matching\<close>

fun rep_min :: "(pos \<Rightarrow> pos list) \<Rightarrow> nat \<Rightarrow> pos \<Rightarrow> pos list" where
  "rep_min f 0 x = [x]"
| "rep_min f (Suc m) x = concat (map (rep_min f m) (f x))"

text \<open>Further rounds, the longest first; a round that consumes nothing ends the repetition.\<close>

fun rep_more :: "(pos \<Rightarrow> pos list) \<Rightarrow> nat \<Rightarrow> pos \<Rightarrow> pos list" where
  "rep_more f 0 x = [x]"
| "rep_more f (Suc k) x = concat (map (rep_more f k) (filter (\<lambda>y. length (snd y) < length (snd x)) (f x))) @ [x]"

definition rounds :: "nat option \<Rightarrow> pos \<Rightarrow> nat" where
  "rounds n x = (case n of None \<Rightarrow> length (snd x) | Some k \<Rightarrow> min k (length (snd x)))"

primrec ends :: "regex \<Rightarrow> pos \<Rightarrow> pos list" where
  "ends Eps = (\<lambda>x. [x])"
| "ends (Sat p) = (\<lambda>x. case snd x of [] \<Rightarrow> [] | c # cs \<Rightarrow> if p c then [(c # fst x, cs)] else [])"
| "ends (Cat r s) = (\<lambda>x. concat (map (ends s) (ends r x)))"
| "ends (Or r s) = (\<lambda>x. ends r x @ ends s x)"
| "ends (Rep m n r) = (\<lambda>x. concat (map (\<lambda>y. rep_more (ends r) (rounds n y) y) (rep_min (ends r) m x)))"
| "ends Boundary = (\<lambda>x. if at_boundary x then [x] else [])"
| "ends (Not_ahead r) = (\<lambda>x. if ends r x = [] then [x] else [])"
| "ends At_start = (\<lambda>x. if fst x = [] then [x] else [])"
| "ends At_end = (\<lambda>x. if snd x = [] \<or> snd x = [CHR 10] then [x] else [])"

text \<open>\<^verbatim>\<open>match\<close>, \<^verbatim>\<open>search\<close> and \<^verbatim>\<open>finditer\<close>: a match is the position where it begins and the one where it ends.\<close>

type_synonym rmatch = "pos \<times> pos"

fun search_from :: "regex \<Rightarrow> string \<Rightarrow> string \<Rightarrow> rmatch option" where
  "search_from r b a =
    (case ends r (b, a) of
       y # ys \<Rightarrow> Some ((b, a), y)
     | [] \<Rightarrow> (case a of [] \<Rightarrow> None | c # cs \<Rightarrow> search_from r (c # b) cs))"

declare search_from.simps [simp del]

definition re_match :: "regex \<Rightarrow> string \<Rightarrow> rmatch option" where
  "re_match r s = (case ends r ([], s) of [] \<Rightarrow> None | y # ys \<Rightarrow> Some (([], s), y))"

definition re_search :: "regex \<Rightarrow> string \<Rightarrow> rmatch option" where
  "re_search r s = search_from r [] s"

definition re_found :: "regex \<Rightarrow> string \<Rightarrow> bool" where
  "re_found r s \<longleftrightarrow> re_search r s \<noteq> None"

lemma search_from_length: "search_from r b a = Some (x, y) \<Longrightarrow> length (snd x) \<le> length a"
proof (induction a arbitrary: b)
  case Nil
  then show ?case by (subst (asm) search_from.simps) (auto split: list.splits)
next
  case (Cons c cs)
  show ?case
  proof (cases "ends r (b, c # cs)")
    case Nil
    then have "search_from r (c # b) cs = Some (x, y)" using Cons.prems by (subst (asm) search_from.simps) simp
    then show ?thesis using Cons.IH by fastforce
  next
    case (Cons z zs)
    then show ?thesis using Cons.prems by (subst (asm) search_from.simps) auto
  qed
qed

function matches_from :: "regex \<Rightarrow> string \<Rightarrow> string \<Rightarrow> rmatch list" where
  "matches_from r b a =
    (case search_from r b a of
       None \<Rightarrow> []
     | Some (x, y) \<Rightarrow> (x, y) #
         (if length (snd y) < length (snd x) then matches_from r (fst y) (snd y)
          else (case snd x of [] \<Rightarrow> [] | c # cs \<Rightarrow> matches_from r (c # fst x) cs)))"
  by pat_completeness auto
termination
  by (relation "measure (\<lambda>(r, b, a). length a)") (fastforce dest: search_from_length)+

declare matches_from.simps [simp del]

definition finditer :: "regex \<Rightarrow> string \<Rightarrow> rmatch list" where
  "finditer r s = matches_from r [] s"

definition m_start :: "rmatch \<Rightarrow> nat" where
  "m_start m = length (fst (fst m))"

definition m_end :: "rmatch \<Rightarrow> nat" where
  "m_end m = length (fst (snd m))"

definition m_text :: "rmatch \<Rightarrow> string" where
  "m_text m = take (length (snd (fst m)) - length (snd (snd m))) (snd (fst m))"

definition findall :: "regex \<Rightarrow> string \<Rightarrow> string list" where
  "findall r s = map m_text (finditer r s)"

text \<open>The text of a last group: of the pattern \<open>Cat r s\<close>, from where \<open>s\<close> began in the match to its end. Backtracking takes the first
  end of \<open>r\<close> from which \<open>s\<close> matches.\<close>

definition group_text :: "regex \<Rightarrow> regex \<Rightarrow> rmatch \<Rightarrow> string" where
  "group_text r s m =
    (case find (\<lambda>y. ends s y \<noteq> []) (ends r (fst m)) of
       None \<Rightarrow> []
     | Some y \<Rightarrow> take (length (snd y) - length (snd (snd m))) (snd y))"

section \<open>Building patterns\<close>

text \<open>A literal text, the same ignoring case, sequences and alternatives.\<close>

fun lit :: "string \<Rightarrow> regex" where
  "lit [] = Eps"
| "lit [c] = Sat (\<lambda>x. x = c)"
| "lit (c # cs) = Cat (Sat (\<lambda>x. x = c)) (lit cs)"

fun lit_ci :: "string \<Rightarrow> regex" where
  "lit_ci [] = Eps"
| "lit_ci [c] = Sat (\<lambda>x. lower_char x = lower_char c)"
| "lit_ci (c # cs) = Cat (Sat (\<lambda>x. lower_char x = lower_char c)) (lit_ci cs)"

fun seqs :: "regex list \<Rightarrow> regex" where
  "seqs [] = Eps"
| "seqs [r] = r"
| "seqs (r # rs) = Cat r (seqs rs)"

fun alts :: "regex list \<Rightarrow> regex" where
  "alts [] = Sat (\<lambda>c. False)"
| "alts [r] = r"
| "alts (r # rs) = Or r (alts rs)"

abbreviation opt :: "regex \<Rightarrow> regex" where "opt r \<equiv> Rep 0 (Some 1) r"
abbreviation star :: "regex \<Rightarrow> regex" where "star r \<equiv> Rep 0 None r"
abbreviation plus1 :: "regex \<Rightarrow> regex" where "plus1 r \<equiv> Rep 1 None r"
abbreviation one_of :: "char list \<Rightarrow> regex" where "one_of cs \<equiv> Sat (\<lambda>c. c \<in> set cs)"
abbreviation none_of :: "char list \<Rightarrow> regex" where "none_of cs \<equiv> Sat (\<lambda>c. c \<notin> set cs)"
abbreviation any_lits :: "string list \<Rightarrow> regex" where "any_lits ws \<equiv> alts (map lit ws)"
abbreviation any_lits_ci :: "string list \<Rightarrow> regex" where "any_lits_ci ws \<equiv> alts (map lit_ci ws)"

section \<open>What a pattern denotes\<close>

primrec lang :: "regex \<Rightarrow> (pos \<times> pos) set" where
  "lang Eps = Id"
| "lang (Sat p) = {((b, c # a), (c # b, a)) | b c a. p c}"
| "lang (Cat r s) = lang r O lang s"
| "lang (Or r s) = lang r \<union> lang s"
| "lang (Rep m n r) = (\<Union>k \<in> {k. m \<le> k \<and> (\<forall>e. n = Some e \<longrightarrow> k \<le> m + e)}. lang r ^^ k)"
| "lang Boundary = {(x, x) | x. at_boundary x}"
| "lang (Not_ahead r) = {(x, x) | x. \<forall>y. (x, y) \<notin> lang r}"
| "lang At_start = {(x, x) | x. fst x = []}"
| "lang At_end = {(x, x) | x. snd x = [] \<or> snd x = [CHR 10]}"

text \<open>A match moves a part of the subject over.\<close>

definition moves :: "pos \<Rightarrow> pos \<Rightarrow> bool" where
  "moves x y \<longleftrightarrow> (\<exists>w. fst y = rev w @ fst x \<and> snd x = w @ snd y)"

lemma moves_refl [simp]: "moves x x"
  by (simp add: moves_def)

lemma moves_trans: "moves x y \<Longrightarrow> moves y z \<Longrightarrow> moves x z"
  by (auto simp: moves_def)

lemma relpow_moves: "(\<And>x y. (x, y) \<in> R \<Longrightarrow> moves x y) \<Longrightarrow> (x, y) \<in> R ^^ k \<Longrightarrow> moves x y"
proof (induction k arbitrary: y)
  case (Suc k)
  then obtain z where "(x, z) \<in> R ^^ k" "(z, y) \<in> R" by auto
  then show ?case using Suc.IH Suc.prems(1) moves_trans by blast
qed simp

lemma lang_moves: "(x, y) \<in> lang r \<Longrightarrow> moves x y"
proof (induction r arbitrary: x y)
  case (Sat p)
  then show ?case by (auto simp: moves_def)
next
  case (Cat r s)
  then obtain z where "(x, z) \<in> lang r" "(z, y) \<in> lang s" unfolding lang.simps by blast
  then show ?case using Cat.IH moves_trans by blast
next
  case (Rep m n r)
  then obtain k where "(x, y) \<in> lang r ^^ k" by auto
  then show ?case using relpow_moves [OF Rep.IH] by blast
qed auto

lemma moves_length: "moves x y \<Longrightarrow> length (snd y) \<le> length (snd x)"
  by (auto simp: moves_def)

lemma moves_same: "moves x y \<Longrightarrow> \<not> length (snd y) < length (snd x) \<Longrightarrow> y = x"
  by (auto simp: moves_def prod_eq_iff)

section \<open>The search finds what the pattern denotes\<close>

lemma set_rep_min: "(\<And>x. set (f x) = {y. (x, y) \<in> R}) \<Longrightarrow> set (rep_min f m x) = {y. (x, y) \<in> R ^^ m}"
  by (induction m arbitrary: x) (auto simp: relpow_Suc_D2 relpow_commute simp del: relpow.simps(2) intro: relpow_Suc_I2 elim: relpow_Suc_E2)

text \<open>Rounds that consume something.\<close>

definition eager :: "(pos \<times> pos) set \<Rightarrow> (pos \<times> pos) set" where
  "eager R = {(x, y) \<in> R. length (snd y) < length (snd x)}"

lemma set_rep_more: "(\<And>x. set (f x) = {y. (x, y) \<in> R}) \<Longrightarrow> set (rep_more f k x) = {y. \<exists>j \<le> k. (x, y) \<in> eager R ^^ j}"
proof (induction k arbitrary: x)
  case (Suc k)
  have "set (rep_more f (Suc k) x) = (\<Union>y \<in> {y. (x, y) \<in> eager R}. set (rep_more f k y)) \<union> {x}"
    using Suc.prems by (simp add: eager_def Int_def conj_commute)
  also have "\<dots> = {z. \<exists>y. (x, y) \<in> eager R \<and> (\<exists>j \<le> k. (y, z) \<in> eager R ^^ j)} \<union> {x}"
    unfolding Suc.IH [OF Suc.prems] by blast
  also have "\<dots> = {y. \<exists>j \<le> Suc k. (x, y) \<in> eager R ^^ j}"
  proof (intro set_eqI iffI)
    fix z assume "z \<in> {z. \<exists>y. (x, y) \<in> eager R \<and> (\<exists>j \<le> k. (y, z) \<in> eager R ^^ j)} \<union> {x}"
    then consider y j where "(x, y) \<in> eager R" "j \<le> k" "(y, z) \<in> eager R ^^ j" | "z = x" by auto
    then show "z \<in> {y. \<exists>j \<le> Suc k. (x, y) \<in> eager R ^^ j}"
    proof cases
      case 1
      then show ?thesis using relpow_Suc_I2 [OF 1(1,3)] by (intro CollectI exI [of _ "Suc j"]) simp
    next
      case 2
      then show ?thesis by (intro CollectI exI [of _ 0]) simp
    qed
  next
    fix z assume "z \<in> {y. \<exists>j \<le> Suc k. (x, y) \<in> eager R ^^ j}"
    then obtain j where j: "j \<le> Suc k" "(x, z) \<in> eager R ^^ j" by blast
    show "z \<in> {z. \<exists>y. (x, y) \<in> eager R \<and> (\<exists>j \<le> k. (y, z) \<in> eager R ^^ j)} \<union> {x}"
    proof (cases j)
      case 0
      then show ?thesis using j by simp
    next
      case (Suc i)
      then obtain y where "(x, y) \<in> eager R" "(y, z) \<in> eager R ^^ i" using j(2) relpow_Suc_E2 by metis
      moreover have "i \<le> k" using j(1) Suc by simp
      ultimately show ?thesis by blast
    qed
  qed
  finally show ?case .
qed simp

lemma eager_length: "(x, y) \<in> eager R ^^ j \<Longrightarrow> j + length (snd y) \<le> length (snd x)"
  by (induction j arbitrary: y) (auto simp: eager_def relcomp_unfold, fastforce)

lemma eager_relpow: "(x, y) \<in> eager R ^^ j \<Longrightarrow> (x, y) \<in> R ^^ j"
  by (induction j arbitrary: y) (auto simp: eager_def)

lemma relpow_eager:
  assumes "\<And>x y. (x, y) \<in> R \<Longrightarrow> moves x y"
  shows "(x, y) \<in> R ^^ j \<Longrightarrow> \<exists>i \<le> j. (x, y) \<in> eager R ^^ i"
proof (induction j arbitrary: y)
  case (Suc j)
  then obtain z where z: "(x, z) \<in> R ^^ j" "(z, y) \<in> R" by auto
  obtain i where i: "i \<le> j" "(x, z) \<in> eager R ^^ i" using Suc.IH [OF z(1)] by blast
  show ?case
  proof (cases "length (snd y) < length (snd z)")
    case True
    then have "(x, y) \<in> eager R ^^ Suc i" using i z by (auto simp: eager_def)
    then show ?thesis using i(1) Suc_le_mono by blast
  next
    case False
    then have "y = z" using moves_same [OF assms [OF z(2)]] by simp
    then show ?thesis using i by (meson le_SucI)
  qed
qed auto

lemma ends_lang: "set (ends r x) = {y. (x, y) \<in> lang r}"
proof (induction r arbitrary: x)
  case (Sat p)
  then show ?case by (cases x; cases "snd x") auto
next
  case (Cat r s)
  then show ?case by (auto simp: relcomp_unfold)
next
  case (Rep m n r)
  have mv: "\<And>x y. (x, y) \<in> lang r \<Longrightarrow> moves x y" by (rule lang_moves)
  have more: "set (rep_more (ends r) (rounds n y) y) = {z. \<exists>j. (\<forall>e. n = Some e \<longrightarrow> j \<le> e) \<and> (y, z) \<in> lang r ^^ j}" for y
  proof -
    have "(\<exists>j \<le> rounds n y. (y, z) \<in> eager (lang r) ^^ j) \<longleftrightarrow> (\<exists>j. (\<forall>e. n = Some e \<longrightarrow> j \<le> e) \<and> (y, z) \<in> lang r ^^ j)" for z
    proof
      assume "\<exists>j \<le> rounds n y. (y, z) \<in> eager (lang r) ^^ j"
      then obtain j where "j \<le> rounds n y" "(y, z) \<in> lang r ^^ j" using eager_relpow by blast
      then show "\<exists>j. (\<forall>e. n = Some e \<longrightarrow> j \<le> e) \<and> (y, z) \<in> lang r ^^ j"
        by (intro exI [of _ j]) (auto simp: rounds_def)
    next
      assume "\<exists>j. (\<forall>e. n = Some e \<longrightarrow> j \<le> e) \<and> (y, z) \<in> lang r ^^ j"
      then obtain j where j: "\<forall>e. n = Some e \<longrightarrow> j \<le> e" "(y, z) \<in> lang r ^^ j" by blast
      obtain i where i: "i \<le> j" "(y, z) \<in> eager (lang r) ^^ i" using relpow_eager [OF mv j(2)] by blast
      moreover have "i \<le> length (snd y)" using eager_length [OF i(2)] by simp
      moreover note j(1)
      ultimately show "\<exists>j \<le> rounds n y. (y, z) \<in> eager (lang r) ^^ j"
        by (intro exI [of _ i]) (auto simp: rounds_def split: option.splits)
    qed
    then show ?thesis by (simp add: set_rep_more [OF Rep.IH])
  qed
  have "set (ends (Rep m n r) x) = {z. \<exists>y. (x, y) \<in> lang r ^^ m \<and> (\<exists>j. (\<forall>e. n = Some e \<longrightarrow> j \<le> e) \<and> (y, z) \<in> lang r ^^ j)}"
    by (auto simp: set_rep_min [OF Rep.IH] more)
  also have "\<dots> = {z. \<exists>j. (\<forall>e. n = Some e \<longrightarrow> j \<le> e) \<and> (x, z) \<in> lang r ^^ (m + j)}"
    by (auto simp: relpow_add relcomp_unfold)
  also have "\<dots> = {y. (x, y) \<in> lang (Rep m n r)}"
  proof (intro set_eqI iffI)
    fix z assume "z \<in> {z. \<exists>j. (\<forall>e. n = Some e \<longrightarrow> j \<le> e) \<and> (x, z) \<in> lang r ^^ (m + j)}"
    then obtain j where "\<forall>e. n = Some e \<longrightarrow> j \<le> e" "(x, z) \<in> lang r ^^ (m + j)" by blast
    then show "z \<in> {y. (x, y) \<in> lang (Rep m n r)}" by (auto intro!: exI [of _ "m + j"])
  next
    fix z assume "z \<in> {y. (x, y) \<in> lang (Rep m n r)}"
    then obtain k where "m \<le> k" "\<forall>e. n = Some e \<longrightarrow> k \<le> m + e" "(x, z) \<in> lang r ^^ k" by auto
    then show "z \<in> {z. \<exists>j. (\<forall>e. n = Some e \<longrightarrow> j \<le> e) \<and> (x, z) \<in> lang r ^^ (m + j)}"
      by (intro CollectI exI [of _ "k - m"]) auto
  qed
  finally show ?case .
next
  case (Not_ahead r)
  then show ?case using set_empty [of "ends r x"] by auto
qed auto

lemma ends_Nil: "ends r x = [] \<longleftrightarrow> (\<forall>y. (x, y) \<notin> lang r)"
  using ends_lang [of r x] set_empty [of "ends r x"] by auto

lemma hd_ends: "ends r x = y # ys \<Longrightarrow> (x, y) \<in> lang r"
  using ends_lang [of r x] by auto

text \<open>Being a position of a subject.\<close>

lemma search_from_Some: "search_from r b a = Some (x, y) \<Longrightarrow> (x, y) \<in> lang r \<and> moves (b, a) x"
proof (induction r b a rule: search_from.induct)
  case (1 r b a)
  show ?case
  proof (cases "ends r (b, a)")
    case Nil
    then obtain c cs where a: "a = c # cs" "search_from r (c # b) cs = Some (x, y)"
      using 1(2) by (subst (asm) search_from.simps) (auto split: list.splits)
    moreover have "moves (b, a) (c # b, cs)" using a by (simp add: moves_def)
    ultimately show ?thesis using 1(1) [OF Nil a(1,2)] moves_trans by blast
  next
    case (Cons z zs)
    then show ?thesis using 1(2) hd_ends by (subst (asm) search_from.simps) auto
  qed
qed

lemma search_from_None: "search_from r b a = None \<Longrightarrow> moves (b, a) x \<Longrightarrow> (x, y) \<notin> lang r"
proof (induction r b a rule: search_from.induct)
  case (1 r b a)
  have n: "ends r (b, a) = []" using 1(2) by (subst (asm) search_from.simps) (auto split: list.splits)
  obtain w where w: "fst x = rev w @ b" "a = w @ snd x" using 1(3) by (auto simp: moves_def)
  show ?case
  proof (cases w)
    case Nil
    then have "x = (b, a)" using w by (simp add: prod_eq_iff)
    then show ?thesis using n ends_Nil by blast
  next
    case (Cons c cs)
    then have a: "a = c # cs @ snd x" using w by simp
    have "search_from r (c # b) (cs @ snd x) = None" using 1(2) n a by (subst (asm) search_from.simps) simp
    moreover have "moves (c # b, cs @ snd x) x" using w Cons by (simp add: moves_def)
    ultimately show ?thesis using 1(1) [OF n a] by blast
  qed
qed

lemma at_position: "moves ([], s) x \<longleftrightarrow> rev (fst x) @ snd x = s"
  by (auto simp: moves_def)

text \<open>A search succeeds when some position of the subject begins a match, and the matches found are such.\<close>

lemma re_found_iff: "re_found r s \<longleftrightarrow> (\<exists>b a y. rev b @ a = s \<and> ((b, a), y) \<in> lang r)"
proof
  assume "re_found r s"
  then obtain x y where "search_from r [] s = Some (x, y)" by (auto simp: re_found_def re_search_def)
  from search_from_Some [OF this] show "\<exists>b a y. rev b @ a = s \<and> ((b, a), y) \<in> lang r"
    using at_position [of s x] by (metis prod.collapse)
next
  assume "\<exists>b a y. rev b @ a = s \<and> ((b, a), y) \<in> lang r"
  then obtain b a y where h: "moves ([], s) (b, a)" "((b, a), y) \<in> lang r" using at_position by auto
  show "re_found r s" using search_from_None [OF _ h(1)] h(2) unfolding re_found_def re_search_def by blast
qed

lemma matches_from_lang: "m \<in> set (matches_from r b a) \<Longrightarrow> m \<in> lang r \<and> moves (b, a) (fst m)"
proof (induction r b a rule: matches_from.induct)
  case (1 r b a)
  have "matches_from r b a = []" if "search_from r b a = None" using that by (subst matches_from.simps) simp
  with 1(3) have "search_from r b a \<noteq> None" by force
  then obtain x y where s: "search_from r b a = Some (x, y)" by (metis not_None_eq prod.collapse)
  note found = search_from_Some [OF s]
  have y: "moves (b, a) y" using found lang_moves moves_trans by blast
  consider "m = (x, y)" | "length (snd y) < length (snd x)" "m \<in> set (matches_from r (fst y) (snd y))"
    | c cs where "\<not> length (snd y) < length (snd x)" "snd x = c # cs" "m \<in> set (matches_from r (c # fst x) cs)"
  proof -
    have "matches_from r b a = (x, y) # (if length (snd y) < length (snd x) then matches_from r (fst y) (snd y)
        else (case snd x of [] \<Rightarrow> [] | c # cs \<Rightarrow> matches_from r (c # fst x) cs))"
      using s by (subst matches_from.simps) simp
    then show thesis using 1(3) that by (cases "length (snd y) < length (snd x)"; cases "snd x") auto
  qed
  then show ?case
  proof cases
    case 1
    then show ?thesis using found by simp
  next
    case 2
    then have "m \<in> lang r \<and> moves (fst y, snd y) (fst m)" using 1(1) [OF s refl 2(1)] by blast
    then show ?thesis using moves_trans [OF y] by simp
  next
    case 3
    moreover have "moves x (c # fst x, cs)" using 3 by (simp add: moves_def)
    ultimately show ?thesis using 1(2) [OF s refl 3(1,2)] found moves_trans by blast
  qed
qed

lemma finditer_lang: "m \<in> set (finditer r s) \<Longrightarrow> m \<in> lang r \<and> rev (fst (fst m)) @ snd (fst m) = s"
  using matches_from_lang [of m r "[]" s] at_position by (simp add: finditer_def)

lemma finditer_Nil: "finditer r s = [] \<longleftrightarrow> \<not> re_found r s"
  unfolding finditer_def re_found_def re_search_def by (subst matches_from.simps) (auto split: option.splits)

lemma group_text_match:
  assumes "ends (Cat r s) x = z # zs"
  shows "\<exists>y. (x, y) \<in> lang r \<and> (y, z) \<in> lang s \<and> group_text r s (x, z) = take (length (snd y) - length (snd z)) (snd y)"
proof -
  have first: "concat (map f ys) = z # zs \<Longrightarrow> \<exists>y. find (\<lambda>y. f y \<noteq> []) ys = Some y \<and> y \<in> set ys \<and> z \<in> set (f y)"
    for f :: "pos \<Rightarrow> pos list" and ys
    by (induction ys) (auto simp: append_eq_Cons_conv)
  obtain y where y: "find (\<lambda>y. ends s y \<noteq> []) (ends r x) = Some y" "y \<in> set (ends r x)" "z \<in> set (ends s y)"
    using first [of "ends s" "ends r x"] assms by auto
  then show ?thesis unfolding ends_lang by (intro exI [of _ y]) (simp add: group_text_def)
qed

section \<open>Literals\<close>

lemma lang_lit: "((b, a), y) \<in> lang (lit w) \<longleftrightarrow> (\<exists>t. a = w @ t \<and> y = (rev w @ b, t))"
  by (induction w arbitrary: a b rule: lit.induct) (auto simp: relcomp_unfold)

lemma lang_alts: "x \<in> lang (alts rs) \<longleftrightarrow> (\<exists>r \<in> set rs. x \<in> lang r)"
  by (induction rs rule: alts.induct) auto

lemma re_found_lit: "re_found (lit w) s \<longleftrightarrow> contains s w"
  unfolding re_found_iff lang_lit contains_def sublist_def by (metis rev_rev_ident)

lemma re_found_any_lits: "re_found (any_lits ws) s \<longleftrightarrow> (\<exists>w \<in> set ws. contains s w)"
proof -
  have "x \<in> lang (any_lits ws) \<longleftrightarrow> (\<exists>w \<in> set ws. x \<in> lang (lit w))" for x by (simp add: lang_alts)
  then show ?thesis unfolding re_found_lit [symmetric] re_found_iff by blast
qed

lemma lang_lit_ci: "((b, a), y) \<in> lang (lit_ci w) \<longleftrightarrow> (\<exists>u t. a = u @ t \<and> lower u = lower w \<and> y = (rev u @ b, t))"
proof (induction w arbitrary: a b rule: lit_ci.induct)
  case (2 c)
  then show ?case by (force simp: lower_def)
next
  case (3 c d cs)
  have "((b, a), y) \<in> lang (lit_ci (c # d # cs)) \<longleftrightarrow>
    (\<exists>x a'. a = x # a' \<and> lower_char x = lower_char c \<and> ((x # b, a'), y) \<in> lang (lit_ci (d # cs)))"
    by (auto simp: relcomp_unfold)
  also have "\<dots> \<longleftrightarrow> (\<exists>x a' u t. a = x # a' \<and> lower_char x = lower_char c \<and> a' = u @ t \<and> lower u = lower (d # cs) \<and> y = (rev u @ x # b, t))"
    unfolding 3 by blast
  also have "\<dots> \<longleftrightarrow> (\<exists>u t. a = u @ t \<and> lower u = lower (c # d # cs) \<and> y = (rev u @ b, t))"
  proof
    assume "\<exists>x a' u t. a = x # a' \<and> lower_char x = lower_char c \<and> a' = u @ t \<and> lower u = lower (d # cs) \<and> y = (rev u @ x # b, t)"
    then obtain x u t where "a = x # u @ t" "lower_char x = lower_char c" "lower u = lower (d # cs)" "y = (rev u @ x # b, t)" by blast
    then show "\<exists>u t. a = u @ t \<and> lower u = lower (c # d # cs) \<and> y = (rev u @ b, t)"
      by (intro exI [of _ "x # u"] exI [of _ t]) (simp add: lower_def)
  next
    assume "\<exists>u t. a = u @ t \<and> lower u = lower (c # d # cs) \<and> y = (rev u @ b, t)"
    then obtain u t where u: "a = u @ t" "lower u = lower (c # d # cs)" "y = (rev u @ b, t)" by blast
    then obtain x v where "u = x # v" "lower_char x = lower_char c" "lower v = lower (d # cs)" by (cases u) (auto simp: lower_def)
    then show "\<exists>x a' u t. a = x # a' \<and> lower_char x = lower_char c \<and> a' = u @ t \<and> lower u = lower (d # cs) \<and> y = (rev u @ x # b, t)"
      using u by auto
  qed
  finally show ?case .
qed auto

lemma re_found_lit_ci: "re_found (lit_ci w) s \<longleftrightarrow> contains (lower s) (lower w)"
proof
  assume "re_found (lit_ci w) s"
  then obtain b u t where "s = rev b @ u @ t" "lower u = lower w" unfolding re_found_iff lang_lit_ci by blast
  then have "lower s = lower (rev b) @ lower w @ lower t" by (simp add: lower_def)
  then show "contains (lower s) (lower w)" by (simp add: contains_def sublist_appendI)
next
  assume "contains (lower s) (lower w)"
  then obtain p q where "lower s = p @ lower w @ q" unfolding contains_def sublist_def by blast
  then obtain a u t where "s = a @ u @ t" "lower u = lower w" unfolding lower_def by (auto simp: map_eq_append_conv append_eq_map_conv)
  then show "re_found (lit_ci w) s" unfolding re_found_iff lang_lit_ci
    by (intro exI [of _ "rev a"] exI [of _ "u @ t"] exI [of _ "(rev u @ rev a, t)"]) auto
qed

lemma re_found_any_lits_ci: "re_found (any_lits_ci ws) s \<longleftrightarrow> (\<exists>w \<in> set ws. contains (lower s) (lower w))"
proof -
  have "x \<in> lang (any_lits_ci ws) \<longleftrightarrow> (\<exists>w \<in> set ws. x \<in> lang (lit_ci w))" for x by (simp add: lang_alts)
  then show ?thesis unfolding re_found_lit_ci [symmetric] re_found_iff by blast
qed

end
