(* ===== verification/SourceTree.thy ===== *)
theory SourceTree
  imports PyRegex Score
begin

text \<open>
  The extracted tree as the static analyzers see it: the files in the order of \<^verbatim>\<open>rglob\<close>, each with its path below the
  root, the size \<^verbatim>\<open>stat\<close> gives and its bytes, \<^const>\<open>None\<close> when reading raises \<^verbatim>\<open>OSError\<close>. A text read with replacement
  of undecodable bytes is the same list of characters for ASCII.
\<close>

record tree_file =
  tf_path :: string
  tf_size :: int
  tf_data :: "string option"

text \<open>\<^verbatim>\<open>changed_files is not None and rel not in changed_files\<close> skips a file.\<close>

definition selected :: "string list option \<Rightarrow> tree_file \<Rightarrow> bool" where
  "selected changed f \<longleftrightarrow> (case changed of None \<Rightarrow> True | Some ps \<Rightarrow> tf_path f \<in> set ps)"

text \<open>\<^verbatim>\<open>PurePath.suffix\<close> and \<^verbatim>\<open>stem\<close>: a dot that is first or last in the name begins no suffix.\<close>

definition path_suffix :: "string \<Rightarrow> string" where
  "path_suffix path =
    (let name = basename path; ext = rsplit1_last (CHR ''.'') name in
     if CHR ''.'' \<in> set name \<and> ext \<noteq> [] \<and> length ext + 1 < length name then CHR ''.'' # ext else [])"

definition path_stem :: "string \<Rightarrow> string" where
  "path_stem path = (let name = basename path in take (length name - length (path_suffix path)) name)"

text \<open>The files an analyzer reads, with their bytes.\<close>

definition readable :: "(tree_file \<Rightarrow> bool) \<Rightarrow> tree_file list \<Rightarrow> (tree_file \<times> string) list" where
  "readable p fs = List.map_filter (\<lambda>f. if p f then map_option (Pair f) (tf_data f) else None) fs"

lemma in_readable: "(f, d) \<in> set (readable p fs) \<longleftrightarrow> f \<in> set fs \<and> p f \<and> tf_data f = Some d"
  by (auto simp: readable_def in_map_filter)

definition at_file :: "string \<Rightarrow> int option \<Rightarrow> string \<Rightarrow> string \<Rightarrow> string \<Rightarrow> string \<Rightarrow> string \<Rightarrow> finding" where
  "at_file path line rid cat sev conf ev = \<lparr>f_rule_id = rid, f_category = cat, f_severity = sev, f_confidence = conf,
     f_file = Some path, f_line = line, f_evidence = ev\<rparr>"

end
