(* ===== verification/SecretAccess.thy ===== *)
theory SecretAccess
  imports SourceTree
begin

text \<open>
  One file that reaches into many credential stores: \<^verbatim>\<open>analyze/secret_access.py\<close>. The size limit read from the environment is
  the argument \<open>max_size\<close>, in bytes.
\<close>

section \<open>The stores\<close>

definition code_extensions :: "string list" where
  "code_extensions = [''.js'', ''.mjs'', ''.cjs'', ''.jsx'', ''.ts'', ''.tsx'', ''.py'', ''.go'', ''.rs'', ''.sh'']"

definition not_word_before :: regex where
  "not_word_before = Or At_start (Sat (\<lambda>c. \<not> word_char c))"

definition hex_like :: regex where
  "hex_like = Sat (\<lambda>c. is_digit c \<or> (97 \<le> (of_char c :: nat) \<and> (of_char c :: nat) \<le> 122))"

definition stores :: "(string \<times> regex) list" where
  "stores =
    [(''etc_shadow'', lit ''/etc/shadow''),
     (''proc_environ'', seqs [lit ''/proc/'', alts [plus1 (Sat is_digit), lit ''self'', plus1 hex_like], lit ''/environ'']),
     (''k8s_sa_token'', Or (lit ''/var/run/secrets/kubernetes.io'') (Cat (lit ''serviceaccount/'') (any_lits [''token'', ''namespace'']))),
     (''ssh_keys'', seqs [lit ''.ssh/'', alts [Cat (lit ''id_'') (any_lits [''rsa'', ''ed25519'', ''ecdsa'', ''dsa'']), lit ''identity'',
        lit ''authorized_keys'', lit ''known_hosts'', lit ''config''], Boundary]),
     (''aws_creds'', lit ''.aws/credentials''),
     (''gcloud_creds'', Or (lit ''application_default_credentials'')
        (seqs [lit ''gcloud/'', star (Sat (\<lambda>c. c \<notin> {CHR 0x22, CHR 0x27} \<and> \<not> byte_space c)), lit ''credential''])),
     (''kube_config'', lit ''.kube/config''),
     (''docker_config'', lit ''.docker/config.json''),
     (''npmrc'', seqs [not_word_before, lit ''.npmrc'', Boundary]),
     (''pypirc'', Cat (lit ''.pypirc'') Boundary),
     (''git_creds'', Or (Cat (lit ''.git-credentials'') Boundary) (seqs [not_word_before, lit ''.netrc'', Boundary])),
     (''gpg'', Cat (lit ''.gnupg'') Boundary),
     (''browser_creds'', any_lits [''Login Data'', ''cookies.sqlite'', ''key4.db'', ''logins.json'']),
     (''crypto_wallet'', alts [lit ''wallet.dat'', Cat (lit ''.electrum'') Boundary, lit ''MetaMask'', lit ''Exodus'', lit ''keystore'']),
     (''env_harvest'', alts
        [seqs [lit ''Object.'', any_lits [''keys'', ''entries'', ''values''], star (Sat byte_space), lit ''('', star (Sat byte_space), lit ''process.env''],
         seqs [lit ''for'', star (Sat byte_space), lit ''('', star (none_of '')''), Boundary, lit ''in'', Boundary, star (none_of '')''), lit ''process.env''],
         seqs [lit ''os.environ.'', any_lits [''items'', ''keys'', ''values''], star (Sat byte_space), lit ''()''],
         seqs [lit ''dict'', star (Sat byte_space), lit ''('', star (Sat byte_space), lit ''os.environ'']])]"

definition sweep_threshold :: nat where
  "sweep_threshold = 3"

text \<open>\<^verbatim>\<open>(?:/(?:\\.|[^/\n\\]){1,200}/[gimsuyd]*\s*,\s*){3,}\<close>\<close>

definition regex_literal_array :: regex where
  "regex_literal_array =
    Rep 3 None (seqs [lit ''/'', Rep 1 (Some 199) (Or (Cat (Sat (\<lambda>c. c = CHR 0x5C)) (Sat (\<lambda>c. c \<noteq> CHR 10))) (none_of [CHR ''/'', CHR 10, CHR 0x5C])),
      lit ''/'', star (one_of ''gimsuyd''), star (Sat byte_space), lit '','', star (Sat byte_space)])"

definition regex_array_spans :: "string \<Rightarrow> (nat \<times> nat) list" where
  "regex_array_spans d = map (\<lambda>m. (m_start m, m_end m)) (finditer regex_literal_array d)"

definition outside :: "(nat \<times> nat) list \<Rightarrow> rmatch \<Rightarrow> bool" where
  "outside spans m \<longleftrightarrow> \<not> list_ex (\<lambda>(s, e). s \<le> m_start m \<and> m_start m < e) spans"

definition store_hits :: "string \<Rightarrow> (nat \<times> nat) list \<Rightarrow> string list" where
  "store_hits d spans = sort (map fst (filter (\<lambda>(label, rx). list_ex (outside spans) (finditer rx d)) stores))"

definition secret_file :: "string \<Rightarrow> string \<Rightarrow> finding list" where
  "secret_file rel d =
    (let hits = store_hits d (regex_array_spans d) in
     (if ''etc_shadow'' \<in> set hits
      then [at_file rel None ''malware.etc_shadow_read'' ''malware'' ''high'' ''high'' ''source references /etc/shadow (password-hash theft)''] else []) @
     (if sweep_threshold \<le> length hits
      then [at_file rel None ''malware.credential_store_sweep'' ''malware'' ''critical'' ''high''
        (''single file reaches into '' @ nat_str (length hits) @ '' distinct credential stores: '' @ join '', '' hits)] else []))"

definition secret_candidate :: "int \<Rightarrow> string list option \<Rightarrow> tree_file \<Rightarrow> bool" where
  "secret_candidate max_size changed f \<longleftrightarrow>
     lower (path_suffix (tf_path f)) \<in> set code_extensions \<and> selected changed f \<and> tf_size f \<le> max_size"

definition analyze_secret_access :: "int \<Rightarrow> tree_file list \<Rightarrow> string list option \<Rightarrow> finding list" where
  "analyze_secret_access max_size fs changed =
    concat (map (\<lambda>(f, d). secret_file (tf_path f) d) (readable (secret_candidate max_size changed) fs))"

section \<open>Lemmas\<close>

text \<open>A store is referenced when some position of the text begins a match of its pattern.\<close>

definition references :: "string \<Rightarrow> string \<Rightarrow> bool" where
  "references d label \<longleftrightarrow> (\<exists>rx b a y. (label, rx) \<in> set stores \<and> rev b @ a = d \<and> ((b, a), y) \<in> lang rx)"

lemma distinct_stores: "distinct (map fst stores)"
  by (simp add: stores_def)

lemma store_hits_filter: "set (store_hits d spans) \<subseteq> fst ` set stores" "distinct (store_hits d spans)"
proof -
  show "set (store_hits d spans) \<subseteq> fst ` set stores" by (auto simp: store_hits_def)
  show "distinct (store_hits d spans)" unfolding store_hits_def distinct_sort
    using distinct_stores by (rule distinct_map_filterI)
qed

lemma store_hits_references: "label \<in> set (store_hits d spans) \<Longrightarrow> references d label"
proof -
  assume "label \<in> set (store_hits d spans)"
  then obtain rx m where "(label, rx) \<in> set stores" "m \<in> set (finditer rx d)" by (auto simp: store_hits_def list_ex_iff)
  then show ?thesis using finditer_lang [of m rx d] unfolding references_def by (metis prod.collapse)
qed

lemma store_hits_no_spans: "set (store_hits d []) = {label. references d label}"
proof (intro set_eqI iffI)
  fix label assume "label \<in> set (store_hits d [])"
  then show "label \<in> {label. references d label}" using store_hits_references by simp
next
  fix label assume "label \<in> {label. references d label}"
  then obtain rx where rx: "(label, rx) \<in> set stores" "re_found rx d" unfolding references_def re_found_iff by blast
  then obtain m ms where "finditer rx d = m # ms" using finditer_Nil by (cases "finditer rx d") auto
  then show "label \<in> set (store_hits d [])" using rx(1) by (force simp: store_hits_def outside_def)
qed

lemma no_array_no_spans: "\<not> re_found regex_literal_array d \<Longrightarrow> regex_array_spans d = []"
  using finditer_Nil by (simp add: regex_array_spans_def)

lemma secret_file_rules:
  "f \<in> set (secret_file rel d) \<Longrightarrow> f_file f = Some rel \<and> f_rule_id f \<in> {''malware.etc_shadow_read'', ''malware.credential_store_sweep''}"
  by (auto simp: secret_file_def at_file_def Let_def split: if_splits)

lemma sweep_in_secret_file:
  "(\<exists>f \<in> set (secret_file rel d). f_rule_id f = ''malware.credential_store_sweep'') \<longleftrightarrow>
     sweep_threshold \<le> card (set (store_hits d (regex_array_spans d)))"
  using store_hits_filter(2) [of d "regex_array_spans d"] by (auto simp: secret_file_def at_file_def Let_def distinct_card)

section \<open>Properties\<close>

definition swept :: "int \<Rightarrow> tree_file list \<Rightarrow> string list option \<Rightarrow> string \<Rightarrow> bool" where
  "swept max_size fs changed p \<longleftrightarrow> (\<exists>f \<in> set (analyze_secret_access max_size fs changed).
     f_rule_id f = ''malware.credential_store_sweep'' \<and> f_file f = Some p)"

lemma swept_iff:
  "swept max_size fs changed p \<longleftrightarrow> (\<exists>t d. t \<in> set fs \<and> tf_path t = p \<and> secret_candidate max_size changed t \<and> tf_data t = Some d \<and>
     3 \<le> card (set (store_hits d (regex_array_spans d))))"
proof
  assume "swept max_size fs changed p"
  then obtain t d f where t: "(t, d) \<in> set (readable (secret_candidate max_size changed) fs)" "f \<in> set (secret_file (tf_path t) d)"
    "f_rule_id f = ''malware.credential_store_sweep''" "f_file f = Some p" by (auto simp: swept_def analyze_secret_access_def)
  have "3 \<le> card (set (store_hits d (regex_array_spans d)))" using sweep_in_secret_file t(2,3) unfolding sweep_threshold_def by blast
  then show "\<exists>t d. t \<in> set fs \<and> tf_path t = p \<and> secret_candidate max_size changed t \<and> tf_data t = Some d \<and>
     3 \<le> card (set (store_hits d (regex_array_spans d)))"
    using t secret_file_rules [OF t(2)] by (auto simp: in_readable)
next
  assume "\<exists>t d. t \<in> set fs \<and> tf_path t = p \<and> secret_candidate max_size changed t \<and> tf_data t = Some d \<and>
     3 \<le> card (set (store_hits d (regex_array_spans d)))"
  then obtain t d where t: "(t, d) \<in> set (readable (secret_candidate max_size changed) fs)" "tf_path t = p"
    "sweep_threshold \<le> card (set (store_hits d (regex_array_spans d)))" by (auto simp: in_readable sweep_threshold_def)
  then obtain f where "f \<in> set (secret_file (tf_path t) d)" "f_rule_id f = ''malware.credential_store_sweep''"
    using sweep_in_secret_file by blast
  moreover have "f_file f = Some p" using secret_file_rules [OF calculation(1)] t(2) by simp
  moreover have "f \<in> set (analyze_secret_access max_size fs changed)" using t(1) calculation(1) unfolding analyze_secret_access_def by force
  ultimately show "swept max_size fs changed p" unfolding swept_def by blast
qed

text \<open>C19. The credential sweep fires for a path only if a readable source file of that path, within the limits, references at least
  three of the fifteen stores, and it fires for every such file that has no array of regular expressions. What a
  reference is, is given by the denotation of the store's pattern, not by the search.\<close>

theorem credential_sweep_exact:
  "(swept max_size fs changed p \<longrightarrow> (\<exists>t d. t \<in> set fs \<and> tf_path t = p \<and> secret_candidate max_size changed t \<and> tf_data t = Some d \<and>
      3 \<le> card {label. references d label})) \<and>
   (\<forall>t d. t \<in> set fs \<and> secret_candidate max_size changed t \<and> tf_data t = Some d \<and> \<not> re_found regex_literal_array d \<and>
      3 \<le> card {label. references d label} \<longrightarrow> swept max_size fs changed (tf_path t))"
proof -
  have "{label. references d label} \<subseteq> fst ` set stores" for d by (force simp: references_def)
  then have fin: "finite {label. references d label}" for d by (rule finite_subset) simp
  have le: "card (set (store_hits d spans)) \<le> card {label. references d label}" for d spans
    using store_hits_references by (intro card_mono [OF fin]) blast
  have eq: "set (store_hits d (regex_array_spans d)) = {label. references d label}" if "\<not> re_found regex_literal_array d" for d
    using no_array_no_spans [OF that] store_hits_no_spans by simp
  show ?thesis
  proof (intro conjI allI impI)
    assume "swept max_size fs changed p"
    then obtain t d where "t \<in> set fs \<and> tf_path t = p \<and> secret_candidate max_size changed t \<and> tf_data t = Some d \<and>
      3 \<le> card (set (store_hits d (regex_array_spans d)))" unfolding swept_iff by blast
    then show "\<exists>t d. t \<in> set fs \<and> tf_path t = p \<and> secret_candidate max_size changed t \<and> tf_data t = Some d \<and>
      3 \<le> card {label. references d label}" using le [of d "regex_array_spans d"] order_trans by blast
  next
    fix t d
    assume h: "t \<in> set fs \<and> secret_candidate max_size changed t \<and> tf_data t = Some d \<and> \<not> re_found regex_literal_array d \<and>
      3 \<le> card {label. references d label}"
    then have "3 \<le> card (set (store_hits d (regex_array_spans d)))" using eq by simp
    then show "swept max_size fs changed (tf_path t)" unfolding swept_iff using h by blast
  qed
qed

definition demo_stealer :: string where
  "demo_stealer = ''cat ~/.aws/credentials ~/.kube/config ~/.git-credentials''"

theorem credential_sweep_exact_witness:
  "swept 4194304 [\<lparr>tf_path = ''setup.sh'', tf_size = 60, tf_data = Some demo_stealer\<rparr>] None ''setup.sh''"
proof -
  let ?t = "\<lparr>tf_path = ''setup.sh'', tf_size = 60, tf_data = Some demo_stealer\<rparr>"
  have c: "secret_candidate 4194304 None ?t" by code_simp
  have "\<not> re_found regex_literal_array demo_stealer" by code_simp
  moreover have "length (store_hits demo_stealer []) = 3" by code_simp
  then have "3 \<le> card {label. references demo_stealer label}"
    using store_hits_no_spans [of demo_stealer] store_hits_filter(2) [of demo_stealer "[]"] distinct_card [of "store_hits demo_stealer []"] by simp
  ultimately show ?thesis
    using credential_sweep_exact [of 4194304 "[?t]" None] c by (metis tree_file.select_convs(1,3) list.set_intros(1))
qed

text \<open>A live harvest can be hidden: in this JavaScript a division opens what the pattern takes for the first of three regular
  expressions, and the reads between the slashes are executed and not counted.\<close>

definition demo_hidden :: string where
  "demo_hidden = ''x=[a/f('' @ [CHR 0x22] @ ''.npmrc'' @ [CHR 0x22] @ '','' @ [CHR 0x22] @ ''Login Data'' @ [CHR 0x22] @ '','' @
     [CHR 0x22] @ ''wallet.dat'' @ [CHR 0x22] @ '')/g,/x/,/y/,0]''"

lemma harvest_hidden:
  "store_hits demo_hidden [] = [''browser_creds'', ''crypto_wallet'', ''npmrc'']"
  "analyze_secret_access 4194304 [\<lparr>tf_path = ''index.js'', tf_size = 60, tf_data = Some demo_hidden\<rparr>] None = []"
  by code_simp+

end
