(* ===== verification/MalwarePatterns.thy ===== *)
theory MalwarePatterns
  imports SourceTree
begin

text \<open>
  Malware patterns in Python packages: \<^verbatim>\<open>analyze/malware_patterns.py\<close>. \<open>packed\<close> is the pack's table of file names by key, and
  \<open>parse\<close> is \<^verbatim>\<open>ast.parse\<close>, \<^const>\<open>None\<close> for an exception. Trees hold files only, so a directory whose name
  ends in \<^verbatim>\<open>.pyc\<close> is not in the model.
\<close>

definition target_files :: "(string \<Rightarrow> string list option) \<Rightarrow> string \<Rightarrow> string list \<Rightarrow> string list" where
  "target_files packed key def = (case packed key of Some xs \<Rightarrow> (if xs = [] then def else xs) | None \<Rightarrow> def)"

definition malware_finding :: "string \<Rightarrow> int option \<Rightarrow> string \<Rightarrow> string \<Rightarrow> string \<Rightarrow> string \<Rightarrow> finding" where
  "malware_finding rel line rid sev conf ev = at_file rel line (''malware.'' @ rid) ''malware'' sev conf ev"

definition py_file :: "string list option \<Rightarrow> tree_file \<Rightarrow> bool" where
  "py_file changed f \<longleftrightarrow> suffix ''.py'' (basename (tf_path f)) \<and> selected changed f"

section \<open>Webhooks\<close>

definition alnum_char :: "char \<Rightarrow> bool" where
  "alnum_char c \<longleftrightarrow> alpha_char c \<or> is_digit c"

definition http_scheme :: regex where
  "http_scheme = seqs [lit_ci ''http'', opt (lit_ci ''s''), lit ''://'']"

definition discord_webhook :: regex where
  "discord_webhook = seqs [http_scheme, opt (any_lits_ci [''ptb.'', ''canary.'']), lit_ci ''discord'', opt (lit_ci ''app''),
     lit_ci ''.com/api/webhooks/'', plus1 (Sat is_digit), lit ''/'', plus1 (Sat (\<lambda>c. word_char c \<or> c = CHR ''-''))]"

definition telegram_bot :: regex where
  "telegram_bot = seqs [http_scheme, lit_ci ''api.telegram.org/bot'', plus1 (Sat (\<lambda>c. alnum_char c \<or> c \<in> set ''_:.-'')), lit_ci ''/send'']"

definition slack_webhook :: regex where
  "slack_webhook = seqs [http_scheme, lit_ci ''hooks.slack.com/services/T'', plus1 (Sat alnum_char), lit_ci ''/B'', plus1 (Sat alnum_char),
     lit ''/'', plus1 (Sat alnum_char)]"

definition exfil_webhooks :: "tree_file list \<Rightarrow> string list option \<Rightarrow> finding list" where
  "exfil_webhooks fs changed =
    concat (map (\<lambda>(f, d). concat (map (\<lambda>(rx, rid, sev). map (\<lambda>t. malware_finding (tf_path f) None rid sev ''high'' (take 200 t)) (findall rx d))
       [(discord_webhook, ''discord_webhook'', ''critical''), (telegram_bot, ''telegram_bot_exfil'', ''critical''),
        (slack_webhook, ''slack_webhook'', ''high'')]))
      (readable (py_file changed) fs))"

section \<open>Path configuration files\<close>

definition pth_exec_primitives :: regex where
  "pth_exec_primitives = any_lits_ci [''exec'', ''eval'', ''compile'', ''__import__'', ''os.system'', ''subprocess'', ''popen'', ''b64decode'',
     ''base64'', ''marshal'', ''socket'', ''urlopen'', ''urllib'', ''requests'', ''.decode('', ''fromhex'', ''getattr('', ''pickle'', ''ctypes'']"

definition pth_import_module :: regex where
  "pth_import_module = seqs [At_start, star (Sat is_space), any_lits [''import'', ''from''], plus1 (Sat is_space),
     Sat (\<lambda>c. alpha_char c \<or> c = CHR ''_''), star (Sat (\<lambda>c. word_char c \<or> c = CHR ''.''))]"

definition coverage_pth :: regex where
  "coverage_pth = seqs [lit ''COVERAGE_PROCESS_'', any_lits [''START'', ''CONFIG''], Rep 0 (Some 200) (Sat (\<lambda>c. True)), lit ''coverage.process_startup'']"

text \<open>The names the package ships: directories with an \<^verbatim>\<open>__init__.py\<close> below the root, and the stems of modules.\<close>

definition shipped_top_modules :: "tree_file list \<Rightarrow> string list" where
  "shipped_top_modules fs = concat (map (\<lambda>f. let path = tf_path f; parts = split_on (CHR ''/'') path in
     (if basename path = ''__init__.py'' \<and> 2 \<le> length parts then [parts ! (length parts - 2)] else []) @
     (if path_suffix path = ''.py'' then [path_stem path] else [])) fs)"

definition imported_top :: "string \<Rightarrow> string" where
  "imported_top stripped =
    (case re_match pth_import_module stripped of
       None \<Rightarrow> []
     | Some m \<Rightarrow> (let t = lstrip_by is_space (m_text m);
                      module = lstrip_by is_space (drop (if prefix ''import'' t then 6 else 4) t)
                  in hd (split_on (CHR ''.'') module)))"

definition pth_line :: "string list \<Rightarrow> string list \<Rightarrow> string \<Rightarrow> int \<Rightarrow> string \<Rightarrow> finding list" where
  "pth_line stdlib shipped rel i line =
    (let stripped = strip line in
     if \<not> (prefix ''import '' stripped \<or> prefix (''import'' @ [CHR 9]) stripped) then []
     else if CHR '';'' \<in> set stripped \<and> re_found pth_exec_primitives stripped
     then (if re_found coverage_pth stripped then []
           else [malware_finding rel (Some i) ''pth_exec_injection'' ''critical'' ''high'' (''.pth runs code at Python startup: '' @ take 200 stripped)])
     else (let top_mod = imported_top stripped in
       if top_mod \<noteq> [] \<and> top_mod \<notin> set shipped \<and> top_mod \<notin> set stdlib
       then [malware_finding rel (Some i) ''pth_import_injection'' ''high'' ''medium''
         (''.pth sideloads a non-shipped module at Python startup: '' @ take 200 stripped)] else []))"

definition numbered :: "'a list \<Rightarrow> (int \<times> 'a) list" where
  "numbered xs = map (\<lambda>(i, x). (int i + 1, x)) (enumerate 0 xs)"

definition pth_injection :: "string list \<Rightarrow> tree_file list \<Rightarrow> string list option \<Rightarrow> finding list" where
  "pth_injection stdlib fs changed =
    concat (map (\<lambda>(f, d). concat (map (\<lambda>(i, line). pth_line stdlib (shipped_top_modules fs) (tf_path f) i line) (numbered (splitlines d))))
      (readable (\<lambda>f. suffix ''.pth'' (basename (tf_path f)) \<and> selected changed f) fs))"

section \<open>Compiled files\<close>

definition importlib_loader :: regex where
  "importlib_loader = any_lits [''importlib'', ''import_module'', ''SourcelessFileLoader'', ''__import__'']"

definition pyc_hiding :: "string \<Rightarrow> tree_file list \<Rightarrow> string list option \<Rightarrow> finding list" where
  "pyc_hiding base fs changed =
    (let loose = filter (\<lambda>f. suffix ''.pyc'' (basename (tf_path f)) \<and> \<not> contains (base @ ''/'' @ tf_path f) ''__pycache__'' \<and> selected changed f) fs;
         loader = list_ex (\<lambda>(f, d). re_found importlib_loader d) (readable (\<lambda>f. suffix ''.py'' (basename (tf_path f))) fs)
     in map (\<lambda>f. malware_finding (tf_path f) None ''pyc_bytecode_hidden'' (if loader then ''critical'' else ''high'') (if loader then ''high'' else ''medium'')
          (''standalone .pyc outside __pycache__ (importlib loader: '' @ (if loader then ''True'' else ''False'') @ '')'')) loose)"

section \<open>Credentials and decoding\<close>

definition cred_paths :: regex where
  "cred_paths = alts
    (map lit_ci [''.ssh/'', ''/.ssh'', ''ssh/id_rsa'', ''ssh/id_ed25519'', ''ssh/authorized_keys'', ''ssh/known_hosts'',
       ''.aws/credentials'', ''.aws/config'', ''.gnupg/'', ''/.gnupg'', ''.gitconfig'', ''/.gitconfig'',
       ''.npmrc'', ''/.npmrc'', ''.pypirc'', ''/.pypirc'', ''.docker/config.json'', ''.kube/config'', ''/.kube/config'', ''kubeconfig''] @
     [Cat (lit_ci ''/.env'') (Or Boundary At_end)] @
     map lit_ci [''/etc/passwd'', ''/etc/shadow'', ''Chrome/User Data'', ''firefox/profiles'', ''.mozilla/'', ''Exodus/'', ''exodus/'',
       ''Atomic Wallet'', ''atomic/'', ''electrum/'', ''.wallet'', ''wallet.dat'', ''keystore''])"

definition target_file :: "string list \<Rightarrow> string list option \<Rightarrow> tree_file \<Rightarrow> bool" where
  "target_file targets changed f \<longleftrightarrow> py_file changed f \<and> lower (basename (tf_path f)) \<in> set targets"

definition credential_access :: "(string \<Rightarrow> string list option) \<Rightarrow> tree_file list \<Rightarrow> string list option \<Rightarrow> finding list" where
  "credential_access packed fs changed =
    concat (map (\<lambda>(f, d). map (\<lambda>v. malware_finding (tf_path f) None ''credential_file_access'' ''critical'' ''high''
        (''references sensitive path in '' @ lower (basename (tf_path f)) @ '': '' @ v)) (nub (findall cred_paths d)))
      (readable (target_file (target_files packed ''credential_targets'' [''setup.py'', ''setup.cfg'', ''install.py'', ''post_install.py'']) changed) fs))"

definition deobfus :: regex where
  "deobfus = any_lits [''marshal.loads'', ''zlib.decompress'', ''bz2.decompress'', ''lzma.decompress'', ''codecs.decode'']"

definition exec_near :: regex where
  "exec_near = alts (map (\<lambda>w. seqs [Boundary, lit w, star (Sat byte_space), lit ''('']) [''exec'', ''eval'', ''compile''])"

definition deobfuscation_chains :: "(string \<Rightarrow> string list option) \<Rightarrow> tree_file list \<Rightarrow> string list option \<Rightarrow> finding list" where
  "deobfuscation_chains packed fs changed =
    concat (map (\<lambda>(f, d). let found = findall deobfus d in
        if found \<noteq> [] \<and> re_found exec_near d
        then [malware_finding (tf_path f) None ''deobfuscation_exec_chain'' ''critical'' ''high''
          (''deobfuscation + exec chain in '' @ lower (basename (tf_path f)) @ '': '' @ join '', '' (sort (nub found)) @ '' -> exec/eval'')] else [])
      (readable (target_file (target_files packed ''deobfuscation_targets'' [''setup.py'', ''install.py'', ''post_install.py'']) changed) fs))"

section \<open>The flow of the environment\<close>

text \<open>Syntax trees: the nodes the analysis tells apart; any other node is its children. A keyword argument is a node of its own.\<close>

datatype ast =
    Name string
  | Attribute ast string
  | Assign "ast list" ast
  | AnnAssign ast ast "ast option"
  | AugAssign ast ast
  | Call ast "ast list" "ast list"
  | Elements "ast list"
  | Other "ast list"

fun children :: "ast \<Rightarrow> ast list" where
  "children (Name x) = []"
| "children (Attribute v a) = [v]"
| "children (Assign ts v) = ts @ [v]"
| "children (AnnAssign t ann v) = [t, ann] @ (case v of None \<Rightarrow> [] | Some e \<Rightarrow> [e])"
| "children (AugAssign t v) = [t, v]"
| "children (Call f args kws) = f # args @ map (\<lambda>v. Other [v]) kws"
| "children (Elements es) = es"
| "children (Other es) = es"

text \<open>The number of nodes, and \<^verbatim>\<open>ast.walk\<close>, breadth first.\<close>

fun nodes :: "ast \<Rightarrow> nat" where
  "nodes (Name x) = 1"
| "nodes (Attribute v a) = Suc (nodes v)"
| "nodes (Assign ts v) = Suc (sum_list (map nodes ts) + nodes v)"
| "nodes (AnnAssign t ann v) = Suc (nodes t + nodes ann + (case v of None \<Rightarrow> 0 | Some e \<Rightarrow> nodes e))"
| "nodes (AugAssign t v) = Suc (nodes t + nodes v)"
| "nodes (Call f args kws) = Suc (nodes f + sum_list (map nodes args) + sum_list (map (\<lambda>v. Suc (nodes v)) kws))"
| "nodes (Elements es) = Suc (sum_list (map nodes es))"
| "nodes (Other es) = Suc (sum_list (map nodes es))"

lemma nodes_children: "nodes n = Suc (sum_list (map nodes (children n)))"
  by (cases n) (auto split: option.split simp: comp_def)

function walk_queue :: "ast list \<Rightarrow> ast list" where
  "walk_queue [] = []"
| "walk_queue (n # todo) = n # walk_queue (todo @ children n)"
  by pat_completeness auto
termination by (relation "measure (\<lambda>todo. sum_list (map nodes todo))") (auto simp: nodes_children)

definition walk :: "ast \<Rightarrow> ast list" where
  "walk n = walk_queue [n]"

definition expr_refs_env :: "ast \<Rightarrow> string list \<Rightarrow> bool" where
  "expr_refs_env e tainted \<longleftrightarrow> list_ex (\<lambda>n. case n of
       Attribute v a \<Rightarrow> a \<in> {''environ'', ''getenv''} | Name x \<Rightarrow> x = ''environ'' \<or> x \<in> set tainted | _ \<Rightarrow> False) (walk e)"

fun assigned_names :: "ast \<Rightarrow> string list" where
  "assigned_names (Name x) = [x]"
| "assigned_names (Elements es) = concat (map assigned_names es)"
| "assigned_names _ = []"

definition is_send_call :: "ast \<Rightarrow> bool" where
  "is_send_call f = (case f of
     Attribute v a \<Rightarrow> a \<in> {''post'', ''put'', ''patch'', ''request'', ''urlopen'', ''send'', ''sendall''}
   | Name x \<Rightarrow> x \<in> {''urlopen'', ''post''} | _ \<Rightarrow> False)"

definition assignment :: "ast \<Rightarrow> (string list \<times> ast) option" where
  "assignment n = (case n of
     Assign ts v \<Rightarrow> Some (concat (map assigned_names ts), v)
   | AnnAssign t ann (Some v) \<Rightarrow> Some (assigned_names t, v)
   | AugAssign t v \<Rightarrow> Some (assigned_names t, v)
   | _ \<Rightarrow> None)"

definition add_names :: "string list \<Rightarrow> string list \<Rightarrow> string list" where
  "add_names xs tainted = fold (\<lambda>x t. if x \<in> set t then t else t @ [x]) xs tainted"

definition taint_node :: "ast \<Rightarrow> string list \<Rightarrow> string list" where
  "taint_node n tainted = (case assignment n of
     Some (xs, v) \<Rightarrow> (if expr_refs_env v tainted then add_names xs tainted else tainted) | None \<Rightarrow> tainted)"

fun taint_rounds :: "nat \<Rightarrow> ast \<Rightarrow> string list \<Rightarrow> string list" where
  "taint_rounds 0 tree tainted = tainted"
| "taint_rounds (Suc k) tree tainted =
    (let t = fold taint_node (walk tree) tainted in if t = tainted then t else taint_rounds k tree t)"

definition max_rounds :: nat where
  "max_rounds = 5"

definition sends :: "ast \<Rightarrow> string list \<Rightarrow> bool" where
  "sends tree tainted \<longleftrightarrow> list_ex (\<lambda>n. case n of
     Call f args kws \<Rightarrow> is_send_call f \<and> list_ex (\<lambda>a. expr_refs_env a tainted) (args @ kws) | _ \<Rightarrow> False) (walk tree)"

definition env_flows_to_send :: "(string \<Rightarrow> ast option) \<Rightarrow> string \<Rightarrow> bool" where
  "env_flows_to_send parse d =
    (case parse d of None \<Rightarrow> False | Some tree \<Rightarrow> sends tree (taint_rounds max_rounds tree []))"

definition environ_bulk :: regex where
  "environ_bulk = Cat (lit ''os.environ'') (Not_ahead (any_lits [''['', ''.get'']))"

definition environ_sensitive :: regex where
  "environ_sensitive = seqs [lit_ci ''os.environ'', star (Sat byte_space),
     Or (Cat (lit_ci ''.get('') (star (Sat byte_space))) (Cat (lit ''['') (star (Sat byte_space))), one_of [CHR 0x27, CHR 0x22],
     any_lits_ci [''AWS_'', ''GITHUB_TOKEN'', ''DATABASE_'', ''DB_'', ''SECRET'', ''TOKEN'', ''API_KEY'', ''PRIVATE'']]"

definition http_send :: regex where
  "http_send = alts (map lit [''requests.post'', ''httpx.post'', ''urllib.request.urlopen'', ''urlopen'', ''http.client'', ''aiohttp.ClientSession'', ''.post(''] @
     [Cat (lit ''curl'') Boundary, Cat (lit ''wget'') Boundary])"

definition test_dir_names :: "string list" where
  "test_dir_names = [''tests'', ''test'', ''testing'', ''_tests'', ''_test'']"

definition env_file :: "string list \<Rightarrow> string list option \<Rightarrow> tree_file \<Rightarrow> bool" where
  "env_file targets changed f \<longleftrightarrow> target_file targets changed f \<and>
     \<not> (lower (basename (tf_path f)) = ''conftest.py'' \<and>
        (\<exists>p \<in> set (butlast (split_on (CHR ''/'') (tf_path f))). lower p \<in> set test_dir_names))"

definition env_exfil :: "(string \<Rightarrow> ast option) \<Rightarrow> (string \<Rightarrow> string list option) \<Rightarrow> tree_file list \<Rightarrow> string list option \<Rightarrow> finding list" where
  "env_exfil parse packed fs changed =
    concat (map (\<lambda>(f, d).
        let bulk = re_found environ_bulk d; sensitive = re_found environ_sensitive d; http = re_found http_send d in
        if (http \<and> (bulk \<or> sensitive)) \<and> env_flows_to_send parse d
        then [malware_finding (tf_path f) None ''env_exfil_tainted'' ''critical'' ''high''
          ''os.environ value flows into an HTTP send in install-time file (credential exfiltration)'']
        else if bulk \<and> http
        then [malware_finding (tf_path f) None ''env_bulk_exfil'' ''medium'' ''low''
          ''os.environ read + HTTP send co-occur in install-time file (no provable flow)'']
        else if sensitive \<and> http
        then [malware_finding (tf_path f) None ''env_sensitive_exfil'' ''high'' ''medium''
          ''sensitive env var access + HTTP send in install-time file'']
        else [])
      (readable (env_file (target_files packed ''install_time_all'' [''setup.py'', ''install.py'', ''post_install.py'', ''conftest.py'']) changed) fs))"

section \<open>Hidden code and download commands\<close>

definition whitespace_payloads :: "int \<Rightarrow> tree_file list \<Rightarrow> string list option \<Rightarrow> finding list" where
  "whitespace_payloads min_leading fs changed =
    concat (map (\<lambda>(f, d). concat (map (\<lambda>(i, line).
        let stripped = lstrip_by is_space line; leading = int (length line) - int (length stripped) in
        if stripped \<noteq> [] \<and> min_leading \<le> leading
        then [malware_finding (tf_path f) (Some i) ''whitespace_hidden_payload'' ''critical'' ''high''
          (''line '' @ int_str i @ '' has '' @ int_str leading @ '' leading spaces hiding: '' @ take 100 stripped)] else [])
      (numbered (splitlines d))))
    (readable (py_file changed) fs))"

definition exec_call :: regex where
  "exec_call = seqs [alts
     [Cat (lit_ci ''subprocess.'') (any_lits_ci [''run'', ''Popen'', ''call'', ''check_call'', ''check_output'', ''getoutput'', ''getstatusoutput'']),
      Cat (lit_ci ''os.'') (alts [lit_ci ''system'', lit_ci ''popen'', seqs [lit_ci ''exec'', opt (lit_ci ''v''), opt (lit_ci ''p''), opt (lit_ci ''e'')]]),
      Cat (lit_ci ''commands.'') (any_lits_ci [''getoutput'', ''getstatusoutput'']),
      lit_ci ''pty.spawn'',
      seqs [lit_ci ''sh.'', Sat (\<lambda>c. alpha_char c \<or> c = CHR ''_''), star (Sat word_char)]],
     star (Sat byte_space), lit ''('']"

definition download_cmd :: regex where
  "download_cmd = (let sp = Sat byte_space; line = star (Sat (\<lambda>c. c \<noteq> CHR 10)) in alts
     [lit_ci ''powershell'', lit_ci ''pwsh'', lit_ci ''cmd.exe'', Cat (lit_ci ''curl'') sp, Cat (lit_ci ''wget'') sp, lit_ci ''Invoke-WebRequest'',
      lit_ci ''Invoke-Expression'', Cat (lit_ci ''IEX'') sp, lit_ci ''Start-Process'', seqs [lit_ci ''certutil'', sp, line, lit_ci ''-urlcache''],
      seqs [lit_ci ''bitsadmin'', sp, line, lit_ci ''/transfer'']])"

definition exec_window :: nat where
  "exec_window = 400"

definition download_commands :: "(string \<Rightarrow> string list option) \<Rightarrow> tree_file list \<Rightarrow> string list option \<Rightarrow> finding list" where
  "download_commands packed fs changed =
    concat (map (\<lambda>(f, d). let starts = map m_start (finditer exec_call d) in
        if starts = [] then []
        else (case find (\<lambda>m. list_ex (\<lambda>s. s \<le> m_start m \<and> m_start m < s + exec_window) starts) (finditer download_cmd d) of
            None \<Rightarrow> []
          | Some m \<Rightarrow> [malware_finding (tf_path f) None ''download_command'' ''critical'' ''high''
              (''download/exec command in '' @ lower (basename (tf_path f)) @ '': '' @ m_text m)]))
      (readable (target_file (target_files packed ''download_targets'' [''setup.py'', ''install.py'', ''post_install.py'']) changed) fs))"

record pattern_env =
  me_lists :: "string \<Rightarrow> string list option"
  me_min_leading :: int
  me_stdlib :: "string list"
  me_parse :: "string \<Rightarrow> ast option"
  me_root :: string

definition analyze_malware_patterns :: "pattern_env \<Rightarrow> tree_file list \<Rightarrow> string list option \<Rightarrow> finding list" where
  "analyze_malware_patterns e fs changed =
    exfil_webhooks fs changed @ pth_injection (me_stdlib e) fs changed @ pyc_hiding (me_root e) fs changed @
    credential_access (me_lists e) fs changed @ deobfuscation_chains (me_lists e) fs changed @
    env_exfil (me_parse e) (me_lists e) fs changed @ whitespace_payloads (me_min_leading e) fs changed @
    download_commands (me_lists e) fs changed"

section \<open>What the flow analysis decides\<close>

text \<open>The nodes below a node, itself included; reading the environment; and the variables its values can reach.\<close>

definition below :: "ast \<Rightarrow> ast set" where
  "below n = {m. (n, m) \<in> {(x, y). y \<in> set (children x)}\<^sup>*}"

definition reads_env :: "ast \<Rightarrow> bool" where
  "reads_env m \<longleftrightarrow> (\<exists>v a. m = Attribute v a \<and> a \<in> {''environ'', ''getenv''}) \<or> m = Name ''environ''"

inductive env_tainted :: "ast \<Rightarrow> string \<Rightarrow> bool" for tree where
  "n \<in> below tree \<Longrightarrow> assignment n = Some (xs, v) \<Longrightarrow> x \<in> set xs \<Longrightarrow> m \<in> below v \<Longrightarrow> reads_env m \<Longrightarrow> env_tainted tree x"
| "n \<in> below tree \<Longrightarrow> assignment n = Some (xs, v) \<Longrightarrow> x \<in> set xs \<Longrightarrow> Name y \<in> below v \<Longrightarrow> env_tainted tree y \<Longrightarrow> env_tainted tree x"

definition env_flow :: "ast \<Rightarrow> bool" where
  "env_flow tree \<longleftrightarrow> (\<exists>f args kws a m. Call f args kws \<in> below tree \<and> is_send_call f \<and> a \<in> set (args @ kws) \<and> m \<in> below a \<and>
     (reads_env m \<or> (\<exists>y. m = Name y \<and> env_tainted tree y)))"

lemma below_children: "below n = insert n (\<Union>c \<in> set (children n). below c)"
proof (intro set_eqI iffI)
  fix m assume "m \<in> below n"
  then have "(n, m) \<in> {(x, y). y \<in> set (children x)}\<^sup>*" by (simp add: below_def)
  then show "m \<in> insert n (\<Union>c \<in> set (children n). below c)" by (cases rule: converse_rtranclE) (auto simp: below_def)
next
  fix m assume "m \<in> insert n (\<Union>c \<in> set (children n). below c)"
  then show "m \<in> below n" by (auto simp: below_def intro: converse_rtrancl_into_rtrancl)
qed

lemma below_self [simp]: "n \<in> below n"
  by (simp add: below_def)

lemma below_child: "c \<in> set (children n) \<Longrightarrow> m \<in> below c \<Longrightarrow> m \<in> below n"
  using below_children [of n] by blast

lemma set_walk_queue: "set (walk_queue q) = (\<Union>n \<in> set q. below n)"
proof (induction q rule: walk_queue.induct)
  case (2 n todo)
  then show ?case using below_children [of n] by auto
qed simp

lemma set_walk [simp]: "set (walk n) = below n"
  unfolding walk_def set_walk_queue by simp

lemma expr_refs_env_iff: "expr_refs_env e tainted \<longleftrightarrow> (\<exists>m \<in> below e. reads_env m \<or> (\<exists>y \<in> set tainted. m = Name y))"
proof -
  have "(case m of Attribute v a \<Rightarrow> a \<in> {''environ'', ''getenv''} | Name x \<Rightarrow> x = ''environ'' \<or> x \<in> set tainted | _ \<Rightarrow> False) \<longleftrightarrow>
    reads_env m \<or> (\<exists>y \<in> set tainted. m = Name y)" for m
    by (cases m) (auto simp: reads_env_def)
  then show ?thesis by (simp add: expr_refs_env_def list_ex_iff)
qed

lemma set_add_names [simp]: "set (add_names xs t) = set xs \<union> set t"
  unfolding add_names_def by (induction xs arbitrary: t) auto

lemma add_names_grows: "\<exists>new. add_names xs t = t @ new \<and> (distinct t \<longrightarrow> distinct (t @ new))"
proof (induction xs arbitrary: t)
  case (Cons x xs)
  let ?t = "if x \<in> set t then t else t @ [x]"
  obtain new where new: "add_names xs ?t = ?t @ new" "distinct ?t \<longrightarrow> distinct (?t @ new)" using Cons.IH by blast
  have "add_names (x # xs) t = add_names xs ?t" by (simp add: add_names_def)
  then show ?case using new by (cases "x \<in> set t") (auto intro: exI [of _ new] exI [of _ "x # new"])
qed (simp add: add_names_def)

lemma taint_node_grows: "\<exists>new. taint_node n t = t @ new \<and> (distinct t \<longrightarrow> distinct (t @ new))"
  using add_names_grows by (auto simp: taint_node_def split: option.splits)

lemma fold_taint_grows: "\<exists>new. fold taint_node ns t = t @ new \<and> (distinct t \<longrightarrow> distinct (t @ new))"
proof (induction ns arbitrary: t)
  case (Cons n ns)
  obtain a where a: "taint_node n t = t @ a" "distinct t \<longrightarrow> distinct (t @ a)" using taint_node_grows by blast
  obtain b where "fold taint_node ns (t @ a) = (t @ a) @ b" "distinct (t @ a) \<longrightarrow> distinct ((t @ a) @ b)" using Cons.IH by blast
  then show ?case using a by (intro exI [of _ "a @ b"]) auto
qed simp

lemma taint_node_sound:
  "n \<in> below tree \<Longrightarrow> \<forall>x \<in> set t. env_tainted tree x \<Longrightarrow> x \<in> set (taint_node n t) \<Longrightarrow> env_tainted tree x"
proof -
  assume n: "n \<in> below tree" "\<forall>x \<in> set t. env_tainted tree x" "x \<in> set (taint_node n t)"
  show "env_tainted tree x"
  proof (cases "x \<in> set t")
    case False
    then obtain xs v where a: "assignment n = Some (xs, v)" "expr_refs_env v t" "x \<in> set xs"
      using n(3) by (auto simp: taint_node_def split: option.splits if_splits)
    then obtain m where m: "m \<in> below v" "reads_env m \<or> (\<exists>y \<in> set t. m = Name y)" by (auto simp: expr_refs_env_iff)
    show ?thesis
    proof (cases "reads_env m")
      case True
      then show ?thesis using env_tainted.intros(1) [OF n(1) a(1,3) m(1)] by simp
    next
      case False
      then obtain y where "y \<in> set t" "Name y \<in> below v" using m by blast
      then show ?thesis using env_tainted.intros(2) [OF n(1) a(1,3)] n(2) by blast
    qed
  qed (use n(2) in blast)
qed

lemma fold_taint_sound:
  "set ns \<subseteq> below tree \<Longrightarrow> \<forall>x \<in> set t. env_tainted tree x \<Longrightarrow> \<forall>x \<in> set (fold taint_node ns t). env_tainted tree x"
proof (induction ns arbitrary: t)
  case (Cons n ns)
  have n: "n \<in> below tree" using Cons.prems(1) by simp
  have "\<forall>x \<in> set (taint_node n t). env_tainted tree x" using taint_node_sound [OF n Cons.prems(2)] by blast
  then show ?case using Cons by simp
qed simp

lemma taint_rounds_sound: "\<forall>x \<in> set t. env_tainted tree x \<Longrightarrow> \<forall>x \<in> set (taint_rounds k tree t). env_tainted tree x"
proof (induction k tree t rule: taint_rounds.induct)
  case (2 k tree t)
  have "\<forall>x \<in> set (fold taint_node (walk tree) t). env_tainted tree x" by (rule fold_taint_sound) (use 2(2) in simp_all)
  then show ?case using 2(1) by (auto simp: Let_def)
qed simp

text \<open>When a round changes nothing, no node would, and everything reachable is in the list.\<close>

lemma fold_taint_same: "fold taint_node ns t = t \<Longrightarrow> n \<in> set ns \<Longrightarrow> taint_node n t = t"
proof (induction ns)
  case (Cons m ns)
  obtain a where a: "taint_node m t = t @ a" using taint_node_grows by blast
  obtain b where "fold taint_node ns (t @ a) = (t @ a) @ b" using fold_taint_grows by blast
  then have "t @ a @ b = t" using Cons.prems(1) a by simp
  then have "a = []" by simp
  then show ?case using Cons a by auto
qed simp

lemma closed_complete:
  assumes "fold taint_node (walk tree) t = t" "env_tainted tree x"
  shows "x \<in> set t"
proof -
  have closed: "x \<in> set t" if "n \<in> below tree" "assignment n = Some (xs, v)" "x \<in> set xs" "expr_refs_env v t" for n xs v x
  proof -
    have "taint_node n t = t" using fold_taint_same [OF assms(1)] that(1) by simp
    then have "set (add_names xs t) = set t" using that(2,4) by (simp add: taint_node_def)
    then show ?thesis using that(3) by auto
  qed
  show ?thesis using assms(2)
  proof (induction rule: env_tainted.induct)
    case (1 n xs v x m)
    then show ?case using closed [OF 1(1-3)] by (auto simp: expr_refs_env_iff)
  next
    case (2 n xs v x y)
    then show ?case using closed [OF 2(1-3)] by (auto simp: expr_refs_env_iff)
  qed
qed

lemma taint_rounds_progress:
  "distinct t \<Longrightarrow> let r = taint_rounds k tree t in distinct r \<and> (fold taint_node (walk tree) r = r \<or> length t + k \<le> length r)"
proof (induction k tree t rule: taint_rounds.induct)
  case (2 k tree t)
  let ?t = "fold taint_node (walk tree) t"
  obtain new where new: "?t = t @ new" "distinct (t @ new)" using fold_taint_grows 2(2) by blast
  show ?case
  proof (cases "?t = t")
    case True
    then show ?thesis using 2(2) by (simp add: Let_def)
  next
    case False
    then have "length t + 1 \<le> length ?t" using new by (cases new) auto
    then show ?thesis using 2(1) [OF refl False] new False by (auto simp: Let_def)
  qed
qed (simp add: Let_def)

lemma finite_env_tainted: "finite {x. env_tainted tree x}"
proof -
  have "\<exists>n \<in> below tree. \<exists>xs v. assignment n = Some (xs, v) \<and> x \<in> set xs" if "env_tainted tree x" for x
    using that by (cases rule: env_tainted.cases) blast+
  then have "{x. env_tainted tree x} \<subseteq> (\<Union>n \<in> set (walk tree). set (fst (the (assignment n))))" by force
  then show ?thesis by (rule finite_subset) (simp del: set_walk)
qed

lemma taint_rounds_exact:
  assumes "card {x. env_tainted tree x} \<le> max_rounds"
  shows "set (taint_rounds max_rounds tree []) = {x. env_tainted tree x}"
proof -
  let ?r = "taint_rounds max_rounds tree []"
  have sub: "set ?r \<subseteq> {x. env_tainted tree x}" using taint_rounds_sound [of "[]" tree max_rounds] by auto
  consider "fold taint_node (walk tree) ?r = ?r" | "distinct ?r" "max_rounds \<le> length ?r"
    using taint_rounds_progress [of "[]" max_rounds tree] by (auto simp: Let_def)
  then show ?thesis
  proof cases
    case 1
    then show ?thesis using closed_complete [OF 1] sub by blast
  next
    case 2
    then have "card {x. env_tainted tree x} \<le> card (set ?r)" using assms by (simp add: distinct_card)
    then show ?thesis using card_seteq [OF finite_env_tainted sub] by simp
  qed
qed

lemma sends_iff:
  "sends tree t \<longleftrightarrow> (\<exists>f args kws a m. Call f args kws \<in> below tree \<and> is_send_call f \<and> a \<in> set (args @ kws) \<and> m \<in> below a \<and>
     (reads_env m \<or> (\<exists>y \<in> set t. m = Name y)))"
proof -
  have "sends tree t \<longleftrightarrow> (\<exists>n \<in> below tree. \<exists>f args kws. n = Call f args kws \<and> is_send_call f \<and> (\<exists>a \<in> set (args @ kws). expr_refs_env a t))"
    unfolding sends_def list_ex_iff set_walk by (intro bex_cong refl) (simp split: ast.split)
  then show ?thesis unfolding expr_refs_env_iff by blast
qed

text \<open>C18. The flow analysis is exact up to its bound. What it reports is real: a call that sends has an argument that reads the
  environment, or a variable that assignments derive from it. And it reports every such flow of a source that parses, if at
  most five variables derive from the environment: each of the five rounds that is not the last adds one at least.\<close>

theorem env_flow_exact:
  "(env_flows_to_send parse d \<longrightarrow> (\<exists>tree. parse d = Some tree \<and> env_flow tree)) \<and>
   (\<forall>tree. parse d = Some tree \<and> env_flow tree \<and> card {x. env_tainted tree x} \<le> 5 \<longrightarrow> env_flows_to_send parse d)"
proof (intro conjI allI impI)
  assume "env_flows_to_send parse d"
  then obtain tree where tree: "parse d = Some tree" "sends tree (taint_rounds max_rounds tree [])"
    by (auto simp: env_flows_to_send_def split: option.splits)
  have "\<forall>x \<in> set (taint_rounds max_rounds tree []). env_tainted tree x" by (rule taint_rounds_sound) simp
  then have "env_flow tree" using tree(2) unfolding env_flow_def sends_iff by blast
  then show "\<exists>tree. parse d = Some tree \<and> env_flow tree" using tree(1) by blast
next
  fix tree
  assume h: "parse d = Some tree \<and> env_flow tree \<and> card {x. env_tainted tree x} \<le> 5"
  then have "set (taint_rounds max_rounds tree []) = {x. env_tainted tree x}" by (intro taint_rounds_exact) (simp add: max_rounds_def)
  then have "sends tree (taint_rounds max_rounds tree [])" using h unfolding env_flow_def sends_iff by blast
  then show "env_flows_to_send parse d" using h by (simp add: env_flows_to_send_def)
qed

text \<open>A setup script that posts a variable it read from the environment, and its tree.\<close>

definition demo_env_tree :: ast where
  "demo_env_tree = Other [Assign [Name ''t''] (Other [Attribute (Name ''os'') ''environ'']), Assign [Name ''d''] (Name ''t''),
     Other [Call (Attribute (Name ''requests'') ''post'') [Other []] [Name ''d'']]]"

definition demo_parse :: "ast \<Rightarrow> string \<Rightarrow> ast option" where
  "demo_parse tree d = Some tree"

theorem env_flow_exact_witness: "env_flow demo_env_tree \<and> env_flows_to_send (demo_parse demo_env_tree) ''source''"
proof -
  have "env_flows_to_send (demo_parse demo_env_tree) ''source''" by code_simp
  then show ?thesis using env_flow_exact [of "demo_parse demo_env_tree" "''source''"] by (auto simp: demo_parse_def)
qed

section \<open>What slips past\<close>

text \<open>Five rounds are no fixpoint: in a loop the sixth variable of a chain written last to first sends the environment, and the
  analysis does not see it.\<close>

definition demo_chain :: ast where
  "demo_chain = Other [Assign [Name ''f''] (Name ''e''), Assign [Name ''e''] (Name ''d''), Assign [Name ''d''] (Name ''c''),
     Assign [Name ''c''] (Name ''b''), Assign [Name ''b''] (Name ''a''), Assign [Name ''a''] (Attribute (Name ''os'') ''environ''),
     Other [Call (Attribute (Name ''requests'') ''post'') [Name ''f''] []]]"

lemma long_chain_missed: "env_flow demo_chain \<and> \<not> env_flows_to_send (demo_parse demo_chain) ''source''"
proof -
  have top: "c \<in> set (children demo_chain) \<Longrightarrow> c \<in> below demo_chain" for c using below_child [of c demo_chain c] by simp
  have asg: "Assign [Name x] v \<in> below demo_chain \<Longrightarrow> Name y \<in> below v \<Longrightarrow> env_tainted demo_chain y \<Longrightarrow> env_tainted demo_chain x" for x y v
    by (rule env_tainted.intros(2) [of "Assign [Name x] v" demo_chain "[x]" v]) (simp_all add: assignment_def)
  have self: "Name y \<in> below (Name y)" for y by simp
  have "Assign [Name ''a''] (Attribute (Name ''os'') ''environ'') \<in> below demo_chain"
    by (rule top) (simp add: demo_chain_def)
  then have a: "env_tainted demo_chain ''a''"
    by (rule env_tainted.intros(1) [where m = "Attribute (Name ''os'') ''environ''" and xs = "[''a'']" and v = "Attribute (Name ''os'') ''environ''"])
      (rule below_self | simp add: assignment_def reads_env_def)+
  have mem: "Assign [Name ''b''] (Name ''a'') \<in> below demo_chain" "Assign [Name ''c''] (Name ''b'') \<in> below demo_chain"
    "Assign [Name ''d''] (Name ''c'') \<in> below demo_chain" "Assign [Name ''e''] (Name ''d'') \<in> below demo_chain"
    "Assign [Name ''f''] (Name ''e'') \<in> below demo_chain"
    by (rule top, simp add: demo_chain_def)+
  have call: "Call (Attribute (Name ''requests'') ''post'') [Name ''f''] [] \<in> below demo_chain"
    by (rule below_child [of "Other [Call (Attribute (Name ''requests'') ''post'') [Name ''f''] []]"], simp add: demo_chain_def, rule below_child [rotated]) auto
  have "env_tainted demo_chain ''f''"
    using asg [OF mem(5) self asg [OF mem(4) self asg [OF mem(3) self asg [OF mem(2) self asg [OF mem(1) self a]]]]] .
  then have "env_flow demo_chain"
    unfolding env_flow_def using call self [of "''f''"]
    by (intro exI [of _ "Attribute (Name ''requests'') ''post''"] exI [of _ "[Name ''f'']"] exI [of _ "[]"] exI [of _ "Name ''f''"] exI [of _ "Name ''f''"])
      (simp add: is_send_call_def)
  moreover have "\<not> env_flows_to_send (demo_parse demo_chain) ''source''" by code_simp
  ultimately show ?thesis ..
qed

text \<open>The exemption for coverage's file is a search, not an anchored match: a payload that names the two words goes unreported.\<close>

definition demo_pth :: string where
  "demo_pth = ''import os; exec(os.x) # COVERAGE_PROCESS_START coverage.process_startup''"

lemma coverage_words_exempt:
  "pth_line [] [] ''evil.pth'' 1 demo_pth = []"
  "map f_rule_id (pth_line [] [] ''evil.pth'' 1 ''import os; exec(os.x)'') = [''malware.pth_exec_injection'']"
proof -
  have exec: "re_found pth_exec_primitives s" if "contains (lower s) ''exec''" for s
    unfolding pth_exec_primitives_def re_found_any_lits_ci by (rule bexI [of _ "''exec''"]) (use that in \<open>simp_all add: lower_def lower_char_def\<close>)
  have plain: "strip demo_pth = demo_pth" "strip ''import os; exec(os.x)'' = ''import os; exec(os.x)''" by code_simp+
  have has: "contains (lower demo_pth) ''exec''" "contains (lower ''import os; exec(os.x)'') ''exec''" by code_simp+
  have cov: "re_found coverage_pth demo_pth" "\<not> re_found coverage_pth ''import os; exec(os.x)''" by code_simp+
  show "pth_line [] [] ''evil.pth'' 1 demo_pth = []"
    using exec [OF has(1)] cov(1) plain(1) by (simp add: pth_line_def demo_pth_def)
  show "map f_rule_id (pth_line [] [] ''evil.pth'' 1 ''import os; exec(os.x)'') = [''malware.pth_exec_injection'']"
    using exec [OF has(2)] cov(2) plain(2) by (simp add: pth_line_def malware_finding_def at_file_def)
qed

end
