(* ===== verification/BinaryArtifacts.thy ===== *)
theory BinaryArtifacts
  imports SourceTree
begin

text \<open>
  Executables in a source package: \<^verbatim>\<open>analyze/binary.py\<close>. \<open>outer\<close> are the components of the extraction directory itself, which
  \<^verbatim>\<open>p.parts\<close> contains too. The second read of a file, of its first megabyte, gives what the first gave; the dash of
  the messages is a hyphen here.
\<close>

definition hex_string :: "nat list \<Rightarrow> string" where
  "hex_string ns = map char_of ns"

definition packer_signatures :: "(string \<times> string \<times> string) list" where
  "packer_signatures =
    [(''$Info: This file is packed with the UPX'', ''UPX'', ''upx''), (''UPX!'', ''UPX'', ''upx''),
     (''Themida'', ''Themida'', ''commercial''), (''.themida'', ''Themida'', ''commercial''),
     (''WinLicense'', ''WinLicense'', ''commercial''), (''VMProtect'', ''VMProtect'', ''commercial''),
     (''.vmp0'', ''VMProtect'', ''commercial''), (''.vmp1'', ''VMProtect'', ''commercial''),
     (''.enigma1'', ''Enigma'', ''commercial''), (''.enigma2'', ''Enigma'', ''commercial''),
     (''ASPack'', ''ASPack'', ''other''), (''.aspack'', ''ASPack'', ''other''), (''.MPRESS1'', ''MPRESS'', ''other''),
     (''.MPRESS2'', ''MPRESS'', ''other''), (''PECompact2'', ''PECompact'', ''other''), (''FSG!'', ''FSG'', ''other''),
     (''.petite'', ''Petite'', ''other''), (''.MEW'', ''MEW'', ''other'')]"

definition packer_scan_bytes :: int where
  "packer_scan_bytes = 1048576"

definition detect_packer :: "string \<Rightarrow> (string \<times> string) option" where
  "detect_packer blob = map_option snd (find (\<lambda>(sig, _). contains blob sig) packer_signatures)"

definition magic_bytes :: "(string \<times> string) list" where
  "magic_bytes =
    [(hex_string [0x7F, 0x45, 0x4C, 0x46], ''ELF''), (''MZ'', ''PE/COFF''),
     (hex_string [0xFE, 0xED, 0xFA, 0xCE], ''Mach-O (32-bit)''), (hex_string [0xFE, 0xED, 0xFA, 0xCF], ''Mach-O (64-bit)''),
     (hex_string [0xCE, 0xFA, 0xED, 0xFE], ''Mach-O (32-bit, swapped)''), (hex_string [0xCF, 0xFA, 0xED, 0xFE], ''Mach-O (64-bit, swapped)''),
     (hex_string [0xCA, 0xFE, 0xBA, 0xBE], ''Mach-O (universal)''), (hex_string [0xD0, 0xCF, 0x11, 0xE0], ''OLE2 (MS Office/MSI)'')]"

definition exec_image_magics :: "string list" where
  "exec_image_magics = [hex_string [0x7F, 0x45, 0x4C, 0x46], ''MZ'', hex_string [0xFE, 0xED, 0xFA, 0xCE], hex_string [0xFE, 0xED, 0xFA, 0xCF],
     hex_string [0xCE, 0xFA, 0xED, 0xFE], hex_string [0xCF, 0xFA, 0xED, 0xFE], hex_string [0xCA, 0xFE, 0xBA, 0xBE], hex_string [0x00, 0x61, 0x73, 0x6D]]"

definition looks_like_compiled_binary :: "string option \<Rightarrow> bool" where
  "looks_like_compiled_binary d = (case d of None \<Rightarrow> False | Some bytes \<Rightarrow> list_ex (\<lambda>m. prefix m (take 8 bytes)) exec_image_magics)"

definition ok_extensions :: "string list" where
  "ok_extensions = [''.so'', ''.dll'', ''.pyd'', ''.dylib'', ''.exe'', ''.msi'', ''.whl'', ''.egg'']"

definition ok_dirs :: "string list" where
  "ok_dirs = [''__pycache__'', ''.git'', ''node_modules'']"

definition disguise_extensions :: "string list" where
  "disguise_extensions = [''.py'', ''.txt'', ''.json'', ''.cfg'', ''.ini'', ''.yml'', ''.yaml'']"

definition unpacked_suffix :: string where
  "unpacked_suffix = ''.upx_unpacked''"

definition binary_candidate :: "string list \<Rightarrow> string list option \<Rightarrow> tree_file \<Rightarrow> bool" where
  "binary_candidate outer changed f \<longleftrightarrow> \<not> suffix unpacked_suffix (basename (tf_path f)) \<and> selected changed f \<and>
     (\<forall>part \<in> set (outer @ split_on (CHR ''/'') (tf_path f)). part \<notin> set ok_dirs) \<and> lower (path_suffix (tf_path f)) \<notin> set ok_extensions"

definition packed_finding :: "string \<Rightarrow> string \<Rightarrow> bool \<Rightarrow> string \<times> string \<Rightarrow> finding" where
  "packed_finding rel label unpacked = (\<lambda>(name, kind).
     let (severity, note) =
       (if kind = ''commercial'' then (''critical'', ''commercial protector - no static unpacker, ~zero legit use'')
        else if kind = ''upx'' \<and> unpacked then (''medium'', ''UPX - unpacked and re-analyzed (payload drives the verdict)'')
        else (''high'', if kind = ''upx'' then ''UPX - could not unpack (anti-unpack/unavailable)'' else ''packed; no static unpacker''))
     in at_file rel None ''binary.packed_executable'' ''binary'' severity ''high''
       (label @ '' executable packed with '' @ name @ '' ('' @ basename rel @ '') - '' @ note))"

definition artifact_finding :: "string \<Rightarrow> string \<Rightarrow> finding" where
  "artifact_finding rel label =
    (let ext = lower (path_suffix rel) in
     if ext \<in> set disguise_extensions
     then at_file rel None ''binary.hidden_executable'' ''binary'' ''high'' ''high'' (label @ '' binary disguised as '' @ ext @ '' ('' @ basename rel @ '')'')
     else if ext = [] then at_file rel None ''binary.compiled_artifact'' ''binary'' ''low'' ''high'' (label @ '' binary, no extension ('' @ basename rel @ '')'')
     else at_file rel None ''binary.compiled_artifact'' ''binary'' ''medium'' ''high'' (label @ '' binary ('' @ basename rel @ '')''))"

definition binary_file :: "tree_file list \<Rightarrow> string \<Rightarrow> string \<Rightarrow> finding list" where
  "binary_file fs rel d =
    (case find (\<lambda>(magic, label). prefix magic (take 8 d)) magic_bytes of
       None \<Rightarrow> []
     | Some (magic, label) \<Rightarrow>
         (case detect_packer (take (nat packer_scan_bytes) d) of None \<Rightarrow> []
          | Some p \<Rightarrow> [packed_finding rel label ((rel @ unpacked_suffix) \<in> tf_path ` set fs) p]) @
         [artifact_finding rel label])"

definition analyze_binary_artifacts :: "string list \<Rightarrow> tree_file list \<Rightarrow> string list option \<Rightarrow> finding list" where
  "analyze_binary_artifacts outer fs changed =
    concat (map (\<lambda>(f, d). if length (take 8 d) < 2 then [] else binary_file fs (tf_path f) d) (readable (binary_candidate outer changed) fs))"

section \<open>Lemmas\<close>

definition executable_bytes :: "string \<Rightarrow> bool" where
  "executable_bytes d \<longleftrightarrow> (\<exists>magic \<in> fst ` set magic_bytes. prefix magic d)"

lemma magic_lengths: "magic \<in> fst ` set magic_bytes \<Longrightarrow> 2 \<le> length magic \<and> length magic \<le> 8"
  by (auto simp: magic_bytes_def hex_string_def)

lemma prefix_take_magic: "length m \<le> n \<Longrightarrow> prefix m (take n d) \<longleftrightarrow> prefix m d"
proof -
  assume n: "length m \<le> n"
  have "prefix m (take n d) \<Longrightarrow> prefix m d" using prefix_order.trans take_is_prefix by blast
  moreover have "prefix m d \<Longrightarrow> prefix m (take n d)" using n by (auto elim!: prefixE)
  ultimately show ?thesis by blast
qed

lemma find_magic: "find (\<lambda>(magic, label). prefix magic (take 8 d)) magic_bytes = None \<longleftrightarrow> \<not> executable_bytes d"
proof -
  have "(\<exists>x \<in> set magic_bytes. case x of (magic, label) \<Rightarrow> prefix magic (take 8 d)) \<longleftrightarrow> executable_bytes d"
  proof
    assume "\<exists>x \<in> set magic_bytes. case x of (magic, label) \<Rightarrow> prefix magic (take 8 d)"
    then obtain magic label where m: "(magic, label) \<in> set magic_bytes" "prefix magic (take 8 d)" by blast
    then have "prefix magic d" using prefix_order.trans take_is_prefix by blast
    then show "executable_bytes d" using m(1) unfolding executable_bytes_def by force
  next
    assume "executable_bytes d"
    then obtain magic label where m: "(magic, label) \<in> set magic_bytes" "prefix magic d" unfolding executable_bytes_def by force
    then have "length magic \<le> 8" using magic_lengths [of magic] by force
    then have "prefix magic (take 8 d)" using prefix_take_magic m(2) by blast
    then show "\<exists>x \<in> set magic_bytes. case x of (magic, label) \<Rightarrow> prefix magic (take 8 d)" using m(1) by blast
  qed
  then show ?thesis by (auto simp: find_None_iff)
qed

lemma length_take_eight: "executable_bytes d \<Longrightarrow> 2 \<le> length (take 8 d)"
  unfolding executable_bytes_def using magic_lengths prefix_length_le by fastforce

lemma binary_file_findings:
  "f \<in> set (binary_file fs rel d) \<Longrightarrow> f_file f = Some rel"
  "binary_file fs rel d \<noteq> [] \<longleftrightarrow> executable_bytes d"
proof -
  show "f \<in> set (binary_file fs rel d) \<Longrightarrow> f_file f = Some rel"
    by (auto simp: binary_file_def packed_finding_def artifact_finding_def at_file_def Let_def split: option.splits prod.splits if_splits)
  show "binary_file fs rel d \<noteq> [] \<longleftrightarrow> executable_bytes d"
    using find_magic [of d] by (auto simp: binary_file_def split: option.split)
qed

text \<open>A file of a package is reported as an executable exactly when it begins with one of the eight magic numbers, unless it lies
  in an exempt directory, has the extension of a shared library or an installer, was recovered by unpacking, or is not
  among the changed files: neither a disguise nor a short file escapes.\<close>

theorem binary_flagged_exact:
  "(\<exists>f \<in> set (analyze_binary_artifacts outer fs changed). f_file f = Some p) \<longleftrightarrow>
     (\<exists>t d. t \<in> set fs \<and> tf_path t = p \<and> binary_candidate outer changed t \<and> tf_data t = Some d \<and> executable_bytes d)"
proof
  assume "\<exists>f \<in> set (analyze_binary_artifacts outer fs changed). f_file f = Some p"
  then obtain t d f where t: "(t, d) \<in> set (readable (binary_candidate outer changed) fs)" "f \<in> set (binary_file fs (tf_path t) d)" "f_file f = Some p"
    by (auto simp: analyze_binary_artifacts_def split: if_splits)
  moreover have "executable_bytes d"
    using t(2) binary_file_findings(2) [of fs "tf_path t" d] by (cases "binary_file fs (tf_path t) d") auto
  ultimately show "\<exists>t d. t \<in> set fs \<and> tf_path t = p \<and> binary_candidate outer changed t \<and> tf_data t = Some d \<and> executable_bytes d"
    using binary_file_findings(1) [OF t(2)] by (auto simp: in_readable)
next
  assume "\<exists>t d. t \<in> set fs \<and> tf_path t = p \<and> binary_candidate outer changed t \<and> tf_data t = Some d \<and> executable_bytes d"
  then obtain t d where t: "(t, d) \<in> set (readable (binary_candidate outer changed) fs)" "tf_path t = p" "executable_bytes d" by (auto simp: in_readable)
  obtain f where f: "f \<in> set (binary_file fs p d)" using binary_file_findings(2) t(3) by (metis last_in_set)
  then have "f \<in> set (analyze_binary_artifacts outer fs changed)"
    using t length_take_eight [OF t(3)] unfolding analyze_binary_artifacts_def by force
  then show "\<exists>f \<in> set (analyze_binary_artifacts outer fs changed). f_file f = Some p" using binary_file_findings(1) [OF f] by blast
qed

text \<open>Under a directory of dependencies nothing is looked at: a packed executable there goes unreported.\<close>

definition demo_elf :: string where
  "demo_elf = hex_string [0x7F, 0x45, 0x4C, 0x46, 2, 1, 1, 0] @ ''VMProtect''"

lemma node_modules_exempt:
  "executable_bytes demo_elf \<and>
   analyze_binary_artifacts [''tmp''] [\<lparr>tf_path = ''package/node_modules/setup'', tf_size = 17, tf_data = Some demo_elf\<rparr>] None = []"
proof
  show "executable_bytes demo_elf"
    unfolding executable_bytes_def by (rule bexI [of _ "hex_string [0x7F, 0x45, 0x4C, 0x46]"]) (simp_all add: demo_elf_def magic_bytes_def hex_string_def)
  show "analyze_binary_artifacts [''tmp''] [\<lparr>tf_path = ''package/node_modules/setup'', tf_size = 17, tf_data = Some demo_elf\<rparr>] None = []"
    by (simp add: analyze_binary_artifacts_def readable_def binary_candidate_def ok_dirs_def)
qed

end
