(* ===== verification/JsPackers.thy ===== *)
theory JsPackers
  imports BinaryArtifacts
begin

text \<open>
  Obfuscated source: \<^verbatim>\<open>analyze/obfuscation.py\<close>. Characters of the model have eight bits, so the counts of identifiers in other
  scripts are the arguments \<open>cjk\<close> and \<open>homoglyphs\<close>; the limits read from the environment are a record.
\<close>

section \<open>Decoding next to evaluation\<close>

definition sp :: regex where
  "sp = star (Sat is_space)"

definition quote_mark :: regex where
  "quote_mark = one_of [CHR 0x27, CHR 0x22]"

definition js_eval :: regex where
  "js_eval = alts
    [seqs [Boundary, lit ''eval'', sp, lit ''('']
    ,seqs [Boundary, lit ''new'', plus1 (Sat is_space), lit ''Function'', sp, lit ''('']
    ,seqs [Boundary, lit ''Function'', sp, lit ''('', sp, quote_mark]]"

definition number_run :: regex where
  "number_run = Rep 40 None (seqs [Rep 1 (Some 3) (Sat is_digit), sp, lit '','', sp])"

definition charcode_decode :: regex where
  "charcode_decode = alts [seqs [Boundary, lit ''String.fromCharCode'', Boundary], seqs [lit ''.charCodeAt'', sp, lit ''(''], number_run]"

definition crypto_decrypt :: regex where
  "crypto_decrypt = seqs [Boundary, lit ''createDecipher'', opt (lit ''iv''), sp, lit ''('']"

definition fetch_obfus_url :: regex where
  "fetch_obfus_url = seqs [Boundary, lit ''fetch'', sp, lit ''('', sp,
     Or (seqs [lit ''atob'', sp, lit ''('']) (seqs [lit ''Buffer.from'', sp, lit ''('', plus1 (none_of '',''), lit '','', sp, quote_mark, lit ''base64''])]"

definition rot_cipher_wrapper :: regex where
  "rot_cipher_wrapper = seqs
    [lit ''.replace'', sp, lit ''('', sp, lit ''/[a-zA-Z]/'', star (one_of ''gi''), sp, lit '','', sp, lit ''function'', sp, lit ''('',
     star (none_of '')''), lit '')'', sp, lit ''{'', star (none_of ''}''), lit ''charCodeAt'', star (none_of ''}''), lit ''%'', sp, lit ''26'',
     star (none_of ''}''), lit ''}'']"

definition path_start :: regex where
  "path_start = Or At_start (lit ''/'')"

definition build_bundle_dir :: regex where
  "build_bundle_dir = seqs [path_start, any_lits_ci [''dist'', ''build'', ''out'', ''static'', ''assets'', ''public'', ''browser'', ''vendor'', ''vendors'',
     ''_next'', ''.next'', ''node_modules''], lit ''/'']"

definition js_end :: regex where
  "js_end = seqs [lit ''.'', opt (any_lits_ci [''m'', ''c'']), lit_ci ''js'', At_end]"

definition bundle_hash_name :: regex where
  "bundle_hash_name = Or
    (seqs [path_start, alts [lit_ci ''main'', lit_ci ''chunk'', lit_ci ''runtime'', Cat (lit_ci ''polyfill'') (opt (lit_ci ''s'')),
        Cat (lit_ci ''vendor'') (opt (lit_ci ''s'')), lit_ci ''index'', lit_ci ''app'', lit_ci ''bundle'', Cat (lit_ci ''style'') (opt (lit_ci ''s'')),
        lit_ci ''common'', lit_ci ''scripts'', plus1 (Sat is_digit)],
      one_of ''.-'', Rep 6 None (Sat (\<lambda>c. alpha_char c \<or> is_digit c \<or> c = CHR ''_'')), js_end])
    (seqs [lit_ci ''.min'', js_end])"

definition is_build_bundle :: "string \<Rightarrow> bool" where
  "is_build_bundle rel \<longleftrightarrow> re_found build_bundle_dir rel \<or> re_found bundle_hash_name rel"

text \<open>\<^verbatim>\<open>bisect.bisect_left\<close> on a sorted list, and the two neighbours it is asked for.\<close>

definition bisect_left :: "nat list \<Rightarrow> nat \<Rightarrow> nat" where
  "bisect_left xs c = length (takeWhile (\<lambda>x. x < c) xs)"

definition near :: "int \<Rightarrow> nat list \<Rightarrow> nat \<Rightarrow> bool" where
  "near limit xs c \<longleftrightarrow> (let i = int (bisect_left xs c) in
     list_ex (\<lambda>j. 0 \<le> j \<and> j < int (length xs) \<and> \<bar>int (xs ! nat j) - int c\<bar> \<le> limit) [i - 1, i])"

definition feeds_eval :: "int \<Rightarrow> regex \<Rightarrow> string \<Rightarrow> bool" where
  "feeds_eval limit decode text =
    (let eval_pos = sort (map m_start (finditer js_eval text)) in
     eval_pos \<noteq> [] \<and> list_ex (\<lambda>m. near limit eval_pos (m_start m)) (finditer decode text))"

section \<open>Alphabets\<close>

definition is_alphabet :: "string \<Rightarrow> bool" where
  "is_alphabet s \<longleftrightarrow> 84 \<le> length s \<and> length s \<le> 95 \<and> (\<forall>c \<in> set s. 0x21 \<le> (of_char c :: nat) \<and> (of_char c :: nat) \<le> 0x7E) \<and>
     length s - 1 \<le> length (nub s)"

text \<open>The string literals with the given quote; only those of the last kind may span lines.\<close>

definition string_literal :: "char \<Rightarrow> bool \<Rightarrow> regex" where
  "string_literal q lines = seqs [Sat (\<lambda>c. c = q),
     star (Or (Sat (\<lambda>c. c \<noteq> q \<and> c \<noteq> CHR 0x5C \<and> (lines \<or> c \<noteq> CHR 10))) (Cat (Sat (\<lambda>c. c = CHR 0x5C)) (Sat (\<lambda>c. lines \<or> c \<noteq> CHR 10)))),
     Sat (\<lambda>c. c = q)]"

definition custom_alphabets :: "string \<Rightarrow> string list" where
  "custom_alphabets text = nub (filter is_alphabet (concat (map (\<lambda>(q, lines). map (\<lambda>t. butlast (tl t)) (findall (string_literal q lines) text))
     [(CHR 0x27, False), (CHR 0x22, False), (CHR 0x60, True)])))"

section \<open>The analyzer\<close>

definition obf_code_extensions :: "string list" where
  "obf_code_extensions = [''.js'', ''.mjs'', ''.cjs'', ''.jsx'', ''.ts'', ''.tsx'', ''.py'']"

definition obf_js_extensions :: "string list" where
  "obf_js_extensions = [''.js'', ''.mjs'', ''.cjs'', ''.jsx'', ''.ts'', ''.tsx'']"

record obf_cfg =
  ob_max_size :: int
  ob_packer_max_size :: int
  ob_proximity :: int

definition default_obf_cfg :: obf_cfg where
  "default_obf_cfg = \<lparr>ob_max_size = 10 * 1024 * 1024, ob_packer_max_size = 32 * 1024 * 1024, ob_proximity = 600\<rparr>"

definition obf_finding :: "string \<Rightarrow> string \<Rightarrow> string \<Rightarrow> string \<Rightarrow> string \<Rightarrow> finding" where
  "obf_finding rel rid sev conf ev = at_file rel None (''obfuscation.'' @ rid) ''obfuscation'' sev conf ev"

definition packer_findings :: "obf_cfg \<Rightarrow> string \<Rightarrow> string \<Rightarrow> finding list" where
  "packer_findings cfg rel text =
    (if \<not> re_found js_eval text then []
     else
      (if feeds_eval (ob_proximity cfg) fetch_obfus_url text
       then [obf_finding rel ''remote_fetch_eval'' ''critical'' ''high''
         ''base64-hidden fetch URL feeding eval/Function - remote-code loader (response from a concealed C2 is executed)''] else []) @
      (if feeds_eval (ob_proximity cfg) crypto_decrypt text
       then [obf_finding rel ''decrypt_then_exec'' ''high'' ''high'' ''runtime crypto-decrypt (createDecipheriv) feeding eval/Function''] else []) @
      (if feeds_eval (ob_proximity cfg) charcode_decode text
       then (if is_build_bundle rel
         then [obf_finding rel ''charcode_eval'' ''low'' ''low''
           ''char-code decode in a minified build bundle (fromCharCode / numeric array feeding eval/Function) - common in framework runtimes'']
         else [obf_finding rel ''charcode_eval'' ''high'' ''high'' ''char-code decode (fromCharCode / numeric array) feeding eval/Function'']) else []) @
      (if re_found rot_cipher_wrapper text
       then [obf_finding rel ''rot_cipher_eval'' ''high'' ''high''
         ''ROT/Caesar cipher wrapper (replace on /[a-zA-Z]/ with charCodeAt modular arithmetic) feeding eval - runtime letter-rotation decode''] else []))"

definition codec_findings :: "string \<Rightarrow> string \<Rightarrow> finding list" where
  "codec_findings rel text =
    (let n = length (custom_alphabets text) in
     if 2 \<le> n then [obf_finding rel ''rotating_alphabet_codec'' ''high'' ''high''
       (nat_str n @ '' distinct custom radix alphabets (base85/basE91 packer)'')]
     else if n = 1 then [obf_finding rel ''custom_alphabet_codec'' ''low'' ''medium'' ''custom radix alphabet literal (base85/basE91-style)'']
     else [])"

definition identifier_findings :: "(string \<Rightarrow> nat) \<Rightarrow> (string \<Rightarrow> nat) \<Rightarrow> string \<Rightarrow> string \<Rightarrow> finding list" where
  "identifier_findings cjk homoglyphs rel text =
    (if 8 \<le> cjk text then [obf_finding rel ''nonascii_identifiers'' ''medium'' ''medium''
       (nat_str (cjk text) @ '' distinct non-ASCII (CJK) identifiers in source'')] else []) @
    (if 1 \<le> homoglyphs text then [obf_finding rel ''homoglyph_identifiers'' ''medium'' ''medium''
       (nat_str (homoglyphs text) @ '' confusable (Latin+Cyrillic/Greek or fullwidth) identifier(s) in source'')] else [])"

definition obf_candidate :: "string list option \<Rightarrow> tree_file \<Rightarrow> bool" where
  "obf_candidate changed f \<longleftrightarrow> lower (path_suffix (tf_path f)) \<in> set obf_code_extensions \<and> selected changed f \<and> 64 \<le> tf_size f \<and>
     \<not> looks_like_compiled_binary (tf_data f)"

definition analyze_obfuscation :: "obf_cfg \<Rightarrow> (string \<Rightarrow> nat) \<Rightarrow> (string \<Rightarrow> nat) \<Rightarrow> tree_file list \<Rightarrow> string list option \<Rightarrow> finding list" where
  "analyze_obfuscation cfg cjk homoglyphs fs changed =
    concat (map (\<lambda>(f, text). let rel = tf_path f;
        do_alphabets = tf_size f \<le> ob_max_size cfg;
        do_packer = lower (path_suffix rel) \<in> set obf_js_extensions \<and> tf_size f \<le> ob_packer_max_size cfg
      in (if do_packer then packer_findings cfg rel text else []) @
         (if do_alphabets then codec_findings rel text @ identifier_findings cjk homoglyphs rel text else []))
      (readable (obf_candidate changed) fs))"

section \<open>The neighbours decide\<close>

lemma near_iff:
  assumes "sorted xs"
  shows "near limit xs c \<longleftrightarrow> (\<exists>x \<in> set xs. \<bar>int x - int c\<bar> \<le> limit)"
proof
  assume "near limit xs c"
  then obtain j where "0 \<le> j" "j < int (length xs)" "\<bar>int (xs ! nat j) - int c\<bar> \<le> limit"
    unfolding near_def Let_def list_ex_iff by blast
  then show "\<exists>x \<in> set xs. \<bar>int x - int c\<bar> \<le> limit" by (intro bexI [of _ "xs ! nat j"]) auto
next
  assume "\<exists>x \<in> set xs. \<bar>int x - int c\<bar> \<le> limit"
  then obtain k where k: "k < length xs" "\<bar>int (xs ! k) - int c\<bar> \<le> limit" by (auto simp: in_set_conv_nth)
  let ?i = "bisect_left xs c"
  have less: "xs ! l < c" if "l < ?i" for l
    using that unfolding bisect_left_def by (metis nth_mem set_takeWhileD takeWhile_nth)
  have ge: "c \<le> xs ! ?i" if "?i < length xs" using that unfolding bisect_left_def by (metis nth_length_takeWhile not_less)
  show "near limit xs c"
  proof (cases "k < ?i")
    case True
    have "?i \<le> length xs" by (simp add: bisect_left_def length_takeWhile_le)
    then have "xs ! k \<le> xs ! (?i - 1)" using True assms by (intro sorted_nth_mono) auto
    moreover have "xs ! (?i - 1) < c" using less [of "?i - 1"] True by simp
    ultimately have "\<bar>int (xs ! (?i - 1)) - int c\<bar> \<le> limit" using k(2) by linarith
    moreover have "nat (int ?i - 1) = ?i - 1" by simp
    ultimately show ?thesis using True \<open>?i \<le> length xs\<close> by (simp add: near_def Let_def)
  next
    case False
    then have i: "?i < length xs" using k(1) by simp
    moreover have "xs ! ?i \<le> xs ! k" using False k(1) assms by (intro sorted_nth_mono) auto
    ultimately have "\<bar>int (xs ! ?i) - int c\<bar> \<le> limit" using ge k(2) by linarith
    then show ?thesis using i by (simp add: near_def Let_def)
  qed
qed

text \<open>C30. A decoding primitive counts as feeding an evaluation exactly when some match of it begins within the limit of some match of
  an evaluation, although only the two neighbours in the sorted list of evaluations are looked at.\<close>

theorem feeds_eval_iff:
  "feeds_eval limit decode text \<longleftrightarrow>
     (\<exists>m \<in> set (finditer decode text). \<exists>e \<in> set (finditer js_eval text). \<bar>int (m_start e) - int (m_start m)\<bar> \<le> limit)"
proof -
  let ?pos = "sort (map m_start (finditer js_eval text))"
  have "near limit ?pos c \<longleftrightarrow> (\<exists>e \<in> set (finditer js_eval text). \<bar>int (m_start e) - int c\<bar> \<le> limit)" for c
    unfolding near_iff [OF sorted_sort] by simp
  moreover have "?pos = [] \<Longrightarrow> finditer js_eval text = []" by (metis length_0_conv length_map length_sort)
  ultimately show ?thesis unfolding feeds_eval_def Let_def list_ex_iff by (metis empty_iff empty_set)
qed

end
