(* ===== verification/Codecs.thy ===== *)
theory Codecs
  imports PyRegex
begin

text \<open>
  What the standard library decodes: \<^verbatim>\<open>base64.b64decode\<close> without validation, \<^verbatim>\<open>urlsafe_b64decode\<close>, \<^verbatim>\<open>b32decode\<close>, \<^verbatim>\<open>a85decode\<close>,
  \<^verbatim>\<open>bytes.fromhex\<close> and \<^verbatim>\<open>urllib.parse.unquote_to_bytes\<close>, with \<^const>\<open>None\<close> for the exceptions their callers catch.
  A byte string is a list of characters.
\<close>

definition code :: "char \<Rightarrow> int" where
  "code c = of_char c"

section \<open>Hexadecimal\<close>

definition hex_value :: "char \<Rightarrow> int option" where
  "hex_value c =
    (if 48 \<le> code c \<and> code c \<le> 57 then Some (code c - 48)
     else if 97 \<le> code c \<and> code c \<le> 102 then Some (code c - 87)
     else if 65 \<le> code c \<and> code c \<le> 70 then Some (code c - 55) else None)"

definition hex_char_ok :: "char \<Rightarrow> bool" where
  "hex_char_ok c \<longleftrightarrow> hex_value c \<noteq> None"

definition hex_pair :: "char \<Rightarrow> char \<Rightarrow> char option" where
  "hex_pair c d = (case (hex_value c, hex_value d) of (Some h, Some l) \<Rightarrow> Some (char_of (16 * h + l)) | _ \<Rightarrow> None)"

text \<open>White space may stand between the pairs.\<close>

fun fromhex :: "string \<Rightarrow> string option" where
  "fromhex [] = Some []"
| "fromhex [c] = (if byte_space c then Some [] else None)"
| "fromhex (c # d # cs) =
    (if byte_space c then fromhex (d # cs)
     else case hex_pair c d of None \<Rightarrow> None | Some x \<Rightarrow> map_option (Cons x) (fromhex cs))"

definition unquote_item :: "string \<Rightarrow> string" where
  "unquote_item item =
    (case item of c # d # cs \<Rightarrow> (case hex_pair c d of Some x \<Rightarrow> x # cs | None \<Rightarrow> CHR ''%'' # item) | _ \<Rightarrow> CHR ''%'' # item)"

definition unquote_to_bytes :: "string \<Rightarrow> string" where
  "unquote_to_bytes s = (case split_on (CHR ''%'') s of [] \<Rightarrow> [] | b # bits \<Rightarrow> b @ concat (map unquote_item bits))"

section \<open>Base 64\<close>

definition b64_value :: "char \<Rightarrow> int option" where
  "b64_value c =
    (if 65 \<le> code c \<and> code c \<le> 90 then Some (code c - 65)
     else if 97 \<le> code c \<and> code c \<le> 122 then Some (code c - 71)
     else if 48 \<le> code c \<and> code c \<le> 57 then Some (code c + 4)
     else if c = CHR ''+'' then Some 62 else if c = CHR ''/'' then Some 63 else None)"

text \<open>\<^verbatim>\<open>binascii.a2b_base64\<close>: the position in a group of four, the bits left over, and the padding seen. Other characters are
  skipped, and the padding that completes a group ends the input.\<close>

fun a2b_base64 :: "nat \<Rightarrow> nat \<Rightarrow> int \<Rightarrow> string \<Rightarrow> string option" where
  "a2b_base64 pads q rest [] = (if q = 0 then Some [] else None)"
| "a2b_base64 pads q rest (c # cs) =
    (if c = CHR ''='' then
       (if 2 \<le> q \<and> 4 \<le> q + Suc pads then Some [] else a2b_base64 (if 2 \<le> q then Suc pads else pads) q rest cs)
     else case b64_value c of
       None \<Rightarrow> a2b_base64 pads q rest cs
     | Some v \<Rightarrow>
         (if q = 0 then a2b_base64 0 1 v cs
          else if q = 1 then map_option (Cons (char_of (rest * 4 + v div 16))) (a2b_base64 0 2 (v mod 16) cs)
          else if q = 2 then map_option (Cons (char_of (rest * 16 + v div 4))) (a2b_base64 0 3 (v mod 4) cs)
          else map_option (Cons (char_of (rest * 64 + v))) (a2b_base64 0 0 0 cs)))"

definition b64decode :: "string \<Rightarrow> string option" where
  "b64decode s = a2b_base64 0 0 0 s"

definition urlsafe_b64decode :: "string \<Rightarrow> string option" where
  "urlsafe_b64decode s = b64decode (map (\<lambda>c. if c = CHR ''-'' then CHR ''+'' else if c = CHR ''_'' then CHR ''/'' else c) s)"

section \<open>Base 32 and base 85\<close>

text \<open>The big-endian bytes of a number.\<close>

fun be_bytes :: "nat \<Rightarrow> int \<Rightarrow> string" where
  "be_bytes 0 v = []"
| "be_bytes (Suc n) v = be_bytes n (v div 256) @ [char_of (v mod 256)]"

definition b32_value :: "char \<Rightarrow> int option" where
  "b32_value c =
    (if 65 \<le> code c \<and> code c \<le> 90 then Some (code c - 65)
     else if 50 \<le> code c \<and> code c \<le> 55 then Some (code c - 24) else None)"

definition b32_acc :: "string \<Rightarrow> int option" where
  "b32_acc cs = fold (\<lambda>c acc. case (acc, b32_value c) of (Some a, Some v) \<Rightarrow> Some (32 * a + v) | _ \<Rightarrow> None) cs (Some 0)"

fun b32_quanta :: "nat \<Rightarrow> string \<Rightarrow> int list option" where
  "b32_quanta 0 s = Some []"
| "b32_quanta (Suc n) s =
    (if s = [] then Some []
     else case (b32_acc (take 8 s), b32_quanta n (drop 8 s)) of (Some a, Some as) \<Rightarrow> Some (a # as) | _ \<Rightarrow> None)"

definition b32decode :: "string \<Rightarrow> string option" where
  "b32decode s =
    (let t = rstrip_by (\<lambda>c. c = CHR ''='') s; pad = length s - length t in
     case b32_quanta (length t) t of
       None \<Rightarrow> None
     | Some accs \<Rightarrow>
         (if length s mod 8 \<noteq> 0 \<or> pad \<notin> {0, 1, 3, 4, 6} then None
          else if pad = 0 \<or> accs = [] then Some (concat (map (be_bytes 5) accs))
          else Some (concat (map (be_bytes 5) (butlast accs)) @
            take ((43 - 5 * pad) div 8) (be_bytes 5 (last accs * 32 ^ pad)))))"

text \<open>\<open>cur\<close> is the group being read, the latest digit first; the result is what was decoded and the length of the last group.\<close>

fun a85_loop :: "int list \<Rightarrow> string \<Rightarrow> (string \<times> nat) option" where
  "a85_loop cur [] = Some ([], length cur)"
| "a85_loop cur (c # cs) =
    (if 33 \<le> code c \<and> code c \<le> 117 then
       (if length cur < 4 then a85_loop ((code c - 33) # cur) cs
        else (let acc = foldr (\<lambda>d a. 85 * a + d) ((code c - 33) # cur) 0 in
              if 2 ^ 32 \<le> acc then None else map_option (apfst ((@) (be_bytes 4 acc))) (a85_loop [] cs)))
     else if c = CHR ''z'' then
       (if cur \<noteq> [] then None else map_option (apfst ((@) (replicate 4 CHR 0x00))) (a85_loop [] cs))
     else if c \<in> {CHR '' '', CHR 0x09, CHR 0x0A, CHR 0x0D, CHR 0x0B} then a85_loop cur cs
     else None)"

definition a85decode :: "bool \<Rightarrow> string \<Rightarrow> string option" where
  "a85decode adobe s =
    (if adobe \<and> \<not> suffix ''~>'' s then None
     else let body = (if adobe then (if prefix ''<~'' s then take (length s - 4) (drop 2 s) else take (length s - 2) s) else s) in
       map_option (\<lambda>(out, left). take (length out - (4 - left)) out) (a85_loop [] (body @ ''uuuu'')))"

section \<open>What is printed is read back\<close>

definition hex_lower :: "int \<Rightarrow> char" where
  "hex_lower n = char_of (if n < 10 then 48 + n else 87 + n)"

definition to_hex :: "string \<Rightarrow> string" where
  "to_hex s = concat (map (\<lambda>c. [hex_lower (code c div 16), hex_lower (code c mod 16)]) s)"

lemma code_less: "0 \<le> code c \<and> code c < 256"
proof -
  have "code c = code c mod 256" by (simp add: code_def)
  then show ?thesis by (metis pos_mod_bound pos_mod_sign zero_less_numeral)
qed

lemma char_of_code [simp]: "char_of (code c) = c"
  by (simp add: code_def)

lemma code_char_of: "0 \<le> n \<Longrightarrow> n < 256 \<Longrightarrow> code (char_of n) = n"
  by (simp add: code_def)

lemma hex_value_lower: "0 \<le> n \<Longrightarrow> n < 16 \<Longrightarrow> hex_value (hex_lower n) = Some n"
  by (auto simp: hex_value_def hex_lower_def code_char_of)

lemma hex_lower_no_space: "0 \<le> n \<Longrightarrow> n < 16 \<Longrightarrow> \<not> byte_space (hex_lower n)"
proof -
  assume n: "0 \<le> n" "n < 16"
  then have "code (hex_lower n) = (if n < 10 then 48 + n else 87 + n)" by (simp add: hex_lower_def code_char_of)
  moreover have "hex_lower n = CHR '' '' \<Longrightarrow> code (hex_lower n) = 32" by (simp add: code_def)
  moreover have "(of_char c :: nat) = nat (code c)" for c by (simp add: code_def)
  ultimately show ?thesis using n unfolding byte_space_def by (auto split: if_splits)
qed

lemma fromhex_to_hex: "fromhex (to_hex s) = Some s"
proof (induction s)
  case (Cons c s)
  have d: "0 \<le> code c div 16" "code c div 16 < 16" "0 \<le> code c mod 16" "code c mod 16 < 16" using code_less [of c] by auto
  have "hex_pair (hex_lower (code c div 16)) (hex_lower (code c mod 16)) = Some (char_of (16 * (code c div 16) + code c mod 16))"
    using d by (simp add: hex_pair_def hex_value_lower)
  also have "\<dots> = Some c" by (simp add: mult_div_mod_eq)
  finally show ?case using d Cons by (simp add: to_hex_def hex_lower_no_space)
qed (simp add: to_hex_def)

text \<open>Base 64 without padding.\<close>

definition b64_char :: "int \<Rightarrow> char" where
  "b64_char v = char_of (if v < 26 then 65 + v else if v < 52 then 71 + v else if v < 62 then v - 4 else if v = 62 then 43 else 47)"

fun to_b64 :: "string \<Rightarrow> string" where
  "to_b64 [] = []"
| "to_b64 [a] = [b64_char (code a div 4), b64_char (code a mod 4 * 16)]"
| "to_b64 [a, b] = [b64_char (code a div 4), b64_char (code a mod 4 * 16 + code b div 16), b64_char (code b mod 16 * 4)]"
| "to_b64 (a # b # c # s) =
     [b64_char (code a div 4), b64_char (code a mod 4 * 16 + code b div 16),
      b64_char (code b mod 16 * 4 + code c div 64), b64_char (code c mod 64)] @ to_b64 s"

lemma code_lits: "code CHR ''+'' = 43" "code CHR ''/'' = 47" "code CHR ''='' = 61"
  by (simp_all add: code_def)

lemma code_eq: "code c = code d \<longleftrightarrow> c = d"
  by (metis char_of_code)

lemma b64_value_char: "0 \<le> v \<Longrightarrow> v < 64 \<Longrightarrow> b64_value (b64_char v) = Some v \<and> b64_char v \<noteq> CHR ''=''"
proof -
  assume v: "0 \<le> v" "v < 64"
  have "code (b64_char v) = (if v < 26 then 65 + v else if v < 52 then 71 + v else if v < 62 then v - 4 else if v = 62 then 43 else 47)"
    using v by (simp add: b64_char_def code_char_of)
  then show ?thesis using v unfolding b64_value_def code_eq [symmetric] code_lits by auto
qed

lemma neg_four: "(- 4 - x) mod 4 = (- x) mod (4 :: int)"
  by presburger

lemma pad_length: "(- int (length (to_b64 s))) mod 4 = (if length s mod 3 = 0 then 0 else 3 - int (length s) mod 3)"
  by (induction s rule: to_b64.induct) (simp_all add: neg_four zmod_int)

lemma b64_step [simp]:
  "0 \<le> v \<Longrightarrow> v < 64 \<Longrightarrow> a2b_base64 p 0 r (b64_char v # cs) = a2b_base64 0 1 v cs"
  "0 \<le> v \<Longrightarrow> v < 64 \<Longrightarrow> a2b_base64 p (Suc 0) r (b64_char v # cs) = map_option (Cons (char_of (r * 4 + v div 16))) (a2b_base64 0 2 (v mod 16) cs)"
  "0 \<le> v \<Longrightarrow> v < 64 \<Longrightarrow> a2b_base64 p 2 r (b64_char v # cs) = map_option (Cons (char_of (r * 16 + v div 4))) (a2b_base64 0 3 (v mod 4) cs)"
  "0 \<le> v \<Longrightarrow> v < 64 \<Longrightarrow> a2b_base64 p 3 r (b64_char v # cs) = map_option (Cons (char_of (r * 64 + v))) (a2b_base64 0 0 0 cs)"
  by (simp_all add: b64_value_char)

lemma b64_pad [simp]:
  "a2b_base64 0 2 r ''=='' = Some []"
  "a2b_base64 p 3 r ''='' = Some []"
  by auto

declare a2b_base64.simps(2) [simp del]

lemma first_char: "char_of (code a div 4 * 4 + (code a mod 4 * 16 + k) div 16) = a" if "0 \<le> k" "k < 16"
proof -
  have "code a div 4 * 4 + (code a mod 4 * 16 + k) div 16 = code a" using that by simp
  then show ?thesis by simp
qed

lemma second_char: "char_of ((code a mod 4 * 16 + code b div 16) mod 16 * 16 + (code b mod 16 * 4 + k) div 4) = b" if "0 \<le> k" "k < 4"
proof -
  have "0 \<le> code b div 16" "code b div 16 < 16" using code_less [of b] by auto
  then have "(code a mod 4 * 16 + code b div 16) mod 16 = code b div 16" by simp
  moreover have "(code b mod 16 * 4 + k) div 4 = code b mod 16" using that by simp
  ultimately show ?thesis by simp
qed

lemma third_char: "char_of ((code b mod 16 * 4 + code c div 64) mod 4 * 64 + code c mod 64) = c"
proof -
  have "0 \<le> code c div 64" "code c div 64 < 4" using code_less [of c] by auto
  then have "(code b mod 16 * 4 + code c div 64) mod 4 = code c div 64" by simp
  then show ?thesis by simp
qed

text \<open>A group of four is complete when its padding is, so what follows the padding is not looked at.\<close>

lemma b64decode_to_b64:
  assumes "pad = nat ((- int (length (to_b64 s))) mod 4)"
  shows "b64decode (to_b64 s @ replicate pad CHR ''='') = Some s"
  using assms unfolding b64decode_def
proof (induction s arbitrary: pad rule: to_b64.induct)
  case (2 a)
  then have "replicate pad CHR ''='' = ''==''" by (simp add: pad_length numeral_2_eq_2)
  moreover have "0 \<le> code a div 4" "code a div 4 < 64" "0 \<le> code a mod 4 * 16" "code a mod 4 * 16 < 64" using code_less [of a] by auto
  moreover have "char_of (code a div 4 * 4 + (code a mod 4 * 16) div 16) = a" using first_char [of 0 a] by simp
  ultimately show ?case by simp
next
  case (3 a b)
  then have p: "replicate pad CHR ''='' = ''=''" by (simp add: pad_length)
  have "0 \<le> code a div 4" "code a div 4 < 64" "0 \<le> code a mod 4 * 16 + code b div 16" "code a mod 4 * 16 + code b div 16 < 64"
    "0 \<le> code b mod 16 * 4" "code b mod 16 * 4 < 64" "0 \<le> code b div 16" "code b div 16 < 16"
    using code_less [of a] code_less [of b] by auto
  then show ?case using p first_char [of "code b div 16" a] second_char [of 0 a b] by simp
next
  case (4 a b c s)
  have v: "0 \<le> code a div 4" "code a div 4 < 64" "0 \<le> code a mod 4 * 16 + code b div 16" "code a mod 4 * 16 + code b div 16 < 64"
    "0 \<le> code b mod 16 * 4 + code c div 64" "code b mod 16 * 4 + code c div 64 < 64" "0 \<le> code c mod 64" "code c mod 64 < 64"
    "0 \<le> code b div 16" "code b div 16 < 16" "0 \<le> code c div 64" "code c div 64 < 4"
    using code_less [of a] code_less [of b] code_less [of c] by auto
  have "pad = nat ((- int (length (to_b64 s))) mod 4)" using 4(2) by (simp add: neg_four)
  from 4(1) [OF this] show ?case
    using first_char [OF v(9,10), of a] second_char [OF v(11,12), of a b] third_char [of b c]
    by (simp only: to_b64.simps append.simps b64_step v One_nat_def option.map)
qed simp

end
