(* ===== verification/DecodeEngine.thy ===== *)
theory DecodeEngine
  imports Codecs
begin

text \<open>
  Unrolling encoded blobs: \<^verbatim>\<open>analyze/decode_engine.py\<close>. The three decompressors are arguments: what they make of a
  byte string under a limit, \<^const>\<open>None\<close> for an exception, and for zlib the input left when the limit was hit. \<open>hash\<close> of a
  byte string is one too. The ratios the code compares as floating-point numbers are of lengths below 8193, for which
  the comparison agrees with the one of the fractions.
\<close>

record dec_cfg =
  dc_max_depth :: int
  dc_max_total :: int
  dc_max_layer :: int
  dc_max_nodes :: int
  dc_max_blobs :: int

definition default_dec_cfg :: dec_cfg where
  "default_dec_cfg = \<lparr>dc_max_depth = 6, dc_max_total = 64 * 1024 * 1024, dc_max_layer = 32 * 1024 * 1024,
     dc_max_nodes = 2000, dc_max_blobs = 400\<rparr>"

record dec_env =
  de_zlib :: "string \<Rightarrow> int \<Rightarrow> (string \<times> string) option"
  de_bz2 :: "string \<Rightarrow> int \<Rightarrow> string option"
  de_xz :: "string \<Rightarrow> int \<Rightarrow> string option"
  de_hash :: "string \<Rightarrow> int"

definition min_blob_len :: nat where "min_blob_len = 16"

definition min_out_len :: nat where "min_out_len = 4"

definition sub_blob_cap :: int where "sub_blob_cap = 8"

definition scan_window :: int where "scan_window = 8192"

definition scan_part :: "string \<Rightarrow> string" where
  "scan_part b = take (nat scan_window) b"

lemma scan_part_code [code]: "scan_part b = (if int (length b) \<le> scan_window then b else take (nat scan_window) b)"
  by (simp add: scan_part_def)

section \<open>Patterns\<close>

definition b64_alpha :: "char \<Rightarrow> bool" where
  "b64_alpha c \<longleftrightarrow> alpha_char c \<or> is_digit c \<or> c = CHR ''+'' \<or> c = CHR ''/''"

definition b64_cand :: regex where
  "b64_cand = Cat (Rep 16 None (Sat b64_alpha)) (Rep 0 (Some 2) (lit ''=''))"

definition b64url_cand :: regex where
  "b64url_cand = Cat (Rep 16 None (Sat (\<lambda>c. word_char c \<or> c = CHR ''-''))) (Rep 0 (Some 2) (lit ''=''))"

definition b32_alpha :: "char \<Rightarrow> bool" where
  "b32_alpha c \<longleftrightarrow> b32_value c \<noteq> None"

definition b32_cand :: regex where
  "b32_cand = Cat (Rep 16 None (Sat b32_alpha)) (Rep 0 (Some 6) (lit ''=''))"

definition two_hex :: regex where
  "two_hex = Rep 2 (Some 0) (Sat hex_char_ok)"

definition hex_cand :: regex where
  "hex_cand = Rep 12 None two_hex"

definition xesc_byte :: regex where
  "xesc_byte = Cat (lit [CHR 0x5C, CHR ''x'']) two_hex"

definition xesc_cand :: regex where
  "xesc_cand = Rep 4 None xesc_byte"

definition charcode_num :: regex where
  "charcode_num = Rep 1 (Some 2) (Sat is_digit)"

definition charcode_cand :: regex where
  "charcode_cand = Cat (Rep 7 None (seqs [charcode_num, star (Sat byte_space), lit '','', star (Sat byte_space)])) charcode_num"

definition a85_cand :: regex where
  "a85_cand = seqs [lit ''<~'', Rep 16 None (Sat (\<lambda>c. (33 \<le> code c \<and> code c \<le> 117) \<or> byte_space c)), lit ''~>'']"

definition uri_cand :: regex where
  "uri_cand = Rep 10 None (Cat (lit ''%'') two_hex)"

definition layer_url :: regex where
  "layer_url = seqs [lit ''http'', opt (lit ''s''), lit ''://'',
     Rep 4 None (Sat (\<lambda>c. \<not> byte_space c \<and> c \<notin> set [CHR 0x27, CHR 0x22, CHR ''<'', CHR ''>'', CHR ''('', CHR '')'']))]"

definition code_tokens :: "string list" where
  "code_tokens = [''eval('', ''exec('', ''os.system'', ''subprocess'', ''__import__'', ''compile('', ''child_process'', ''require('',
     ''function('', ''powershell'', ''/bin/sh'', ''/bin/bash'', ''cmd.exe'', ''wscript'', ''socket'', ''.connect('', ''base64'',
     ''marshal'', ''createdecipher'', ''atob('', ''fromcharcode'', ''shellexec'']"

definition exe_magic :: "string list" where
  "exe_magic = [''MZ'', [CHR 0x7F] @ ''ELF'', map char_of [0xFE, 0xED, 0xFA, 0xCE :: int], map char_of [0xFE, 0xED, 0xFA, 0xCF :: int],
     map char_of [0xCE, 0xFA, 0xED, 0xFE :: int], map char_of [0xCF, 0xFA, 0xED, 0xFE :: int], ''#!/'']"

definition is_executable :: "string \<Rightarrow> bool" where
  "is_executable b \<longleftrightarrow> list_ex (\<lambda>m. prefix m b) exe_magic"

definition re_fullmatch :: "regex \<Rightarrow> string \<Rightarrow> bool" where
  "re_fullmatch r s \<longleftrightarrow> list_ex (\<lambda>y. snd y = []) (ends r ([], s))"

section \<open>Decoders\<close>

definition some_output :: "string \<Rightarrow> string option" where
  "some_output out = (if out = [] then None else Some out)"

definition inflate :: "dec_env \<Rightarrow> dec_cfg \<Rightarrow> string \<Rightarrow> string option" where
  "inflate e c d =
    (case de_zlib e d (dc_max_layer c) of None \<Rightarrow> None
     | Some (out, tail) \<Rightarrow> if tail \<noteq> [] then None else some_output out)"

definition un_bz2 :: "dec_env \<Rightarrow> dec_cfg \<Rightarrow> string \<Rightarrow> string option" where
  "un_bz2 e c d = Option.bind (de_bz2 e d (dc_max_layer c)) some_output"

definition un_xz :: "dec_env \<Rightarrow> dec_cfg \<Rightarrow> string \<Rightarrow> string option" where
  "un_xz e c d = Option.bind (de_xz e d (dc_max_layer c)) some_output"

definition padded :: "nat \<Rightarrow> string \<Rightarrow> string" where
  "padded n blob = blob @ replicate (nat ((- int (length blob)) mod int n)) CHR ''=''"

definition dec_b64 :: "string \<Rightarrow> string option" where
  "dec_b64 blob = b64decode (padded 4 blob)"

definition dec_b64url :: "string \<Rightarrow> string option" where
  "dec_b64url blob = (if CHR ''-'' \<notin> set blob \<and> CHR ''_'' \<notin> set blob then None else urlsafe_b64decode (padded 4 blob))"

definition dec_b32 :: "string \<Rightarrow> string option" where
  "dec_b32 blob = b32decode (padded 8 blob)"

definition is_ascii :: "string \<Rightarrow> bool" where
  "is_ascii s \<longleftrightarrow> list_all (\<lambda>c. code c < 128) s"

definition dec_hex :: "string \<Rightarrow> string option" where
  "dec_hex blob = (let b = (if length blob mod 2 = 1 then butlast blob else blob) in if is_ascii b then fromhex b else None)"

definition dec_xesc :: "string \<Rightarrow> string option" where
  "dec_xesc blob = Some (List.map_filter (\<lambda>t. case drop 2 t of [h, l] \<Rightarrow> hex_pair h l | _ \<Rightarrow> None) (findall xesc_byte blob))"

definition decimal :: "string \<Rightarrow> int" where
  "decimal s = fold (\<lambda>c n. 10 * n + (code c - 48)) s 0"

definition dec_charcode :: "string \<Rightarrow> string option" where
  "dec_charcode blob =
    (let vals = map decimal (findall charcode_num blob) in
     if list_all (\<lambda>v. v \<le> 255) vals then Some (map char_of vals) else None)"

definition dec_a85 :: "string \<Rightarrow> string option" where
  "dec_a85 blob = a85decode (prefix ''<~'' blob) blob"

definition dec_uri :: "string \<Rightarrow> string option" where
  "dec_uri blob =
    (if \<not> is_ascii blob \<or> length (filter (\<lambda>c. c = CHR ''%'') blob) < 10 then None
     else let out = unquote_to_bytes blob in if out = blob \<or> length out < min_out_len then None else Some out)"

definition has_code_token :: "string \<Rightarrow> bool" where
  "has_code_token b \<longleftrightarrow> (let low = lower (scan_part b) in list_ex (contains low) code_tokens)"

definition rot_char :: "int \<Rightarrow> char \<Rightarrow> char" where
  "rot_char shift c =
    (if 65 \<le> code c \<and> code c \<le> 90 then char_of (65 + (code c - 65 + shift) mod 26)
     else if 97 \<le> code c \<and> code c \<le> 122 then char_of (97 + (code c - 97 + shift) mod 26) else c)"

definition dec_rot :: "string \<Rightarrow> string option" where
  "dec_rot blob =
    (let w = scan_part blob in
     if length blob < 32 \<or> 10 * length (filter alpha_char w) < 3 * length w then None
     else find has_code_token (map (\<lambda>shift. map (rot_char shift) blob) [1..25]))"

definition token_shaped :: "string \<Rightarrow> bool" where
  "token_shaped s \<longleftrightarrow> re_fullmatch b64_cand s \<or> re_fullmatch hex_cand s \<or> re_fullmatch b32_cand s"

definition dec_reverse :: "string \<Rightarrow> string option" where
  "dec_reverse blob =
    (let s = strip_by byte_space blob in if length s < min_blob_len \<or> \<not> token_shaped s then None else Some (rev s))"

type_synonym decoder = "string \<times> (string \<Rightarrow> string option)"

definition compressors :: "dec_env \<Rightarrow> dec_cfg \<Rightarrow> (string \<times> (string \<Rightarrow> bool) \<times> (string \<Rightarrow> string option)) list" where
  "compressors e c =
    [(''gzip'', prefix (map char_of [0x1F, 0x8B, 0x08 :: int]), inflate e c),
     (''zlib'', \<lambda>b. 2 < length b \<and> code (b ! 0) = 120 \<and> (code (b ! 0) * 256 + code (b ! 1)) mod 31 = 0, inflate e c),
     (''bz2'', prefix ''BZh'', un_bz2 e c),
     (''xz'', prefix (map char_of [0xFD, 0x37, 0x7A, 0x58, 0x5A, 0x00 :: int]), un_xz e c)]"

definition text_decoders :: "decoder list" where
  "text_decoders = [(''b64'', dec_b64), (''b64url'', dec_b64url), (''b32'', dec_b32), (''hex'', dec_hex), (''xesc'', dec_xesc),
     (''charcode'', dec_charcode), (''a85'', dec_a85), (''uri'', dec_uri), (''rot'', dec_rot)]"

definition decoders_for :: "dec_env \<Rightarrow> dec_cfg \<Rightarrow> string \<Rightarrow> decoder list" where
  "decoders_for e c blob =
    List.map_filter (\<lambda>(name, applies, fn). if applies blob then Some (name, fn) else None) (compressors e c) @
    text_decoders @ [(''reverse'', dec_reverse)]"

section \<open>What a decoded layer is\<close>

datatype layer_class = Terminal | Recurse | Dropped

definition printable :: "char \<Rightarrow> bool" where
  "printable c \<longleftrightarrow> (32 \<le> code c \<and> code c \<le> 126) \<or> code c \<in> {9, 10, 13}"

text \<open>\<^verbatim>\<open>_printable_ratio(b) >= 0.85\<close>\<close>

definition mostly_printable_window :: "string \<Rightarrow> bool" where
  "mostly_printable_window b \<longleftrightarrow>
    (let w = scan_part b in w \<noteq> [] \<and> 17 * length w \<le> 20 * length (filter printable w))"

definition sniff_compression :: "dec_env \<Rightarrow> dec_cfg \<Rightarrow> string \<Rightarrow> bool" where
  "sniff_compression e c b \<longleftrightarrow> list_ex (\<lambda>(_, applies, _). applies b) (compressors e c)"

definition looks_like_blob :: "string \<Rightarrow> bool" where
  "looks_like_blob b \<longleftrightarrow> (let s = strip_by byte_space b in min_blob_len \<le> length s \<and> token_shaped s)"

definition has_nested_candidate :: "string \<Rightarrow> bool" where
  "has_nested_candidate b \<longleftrightarrow> (let w = scan_part b in list_ex (\<lambda>r. re_found r w) [b64_cand, hex_cand, xesc_cand, charcode_cand])"

definition count_chars :: "string \<Rightarrow> string \<Rightarrow> nat" where
  "count_chars cs w = length (filter (\<lambda>c. c \<in> set cs) w)"

definition looks_like_rotated_code :: "string \<Rightarrow> bool" where
  "looks_like_rotated_code b \<longleftrightarrow>
    (let w = scan_part b; opens = count_chars ''({'' w; closes = count_chars '')}'' w; semis = count_chars '';'' w in
     64 \<le> length w \<and> 4 * length w \<le> 10 * length (filter alpha_char w) \<and> 3 \<le> opens \<and> 3 \<le> closes \<and>
     max opens closes \<le> min opens closes * 3 \<and> 2 \<le> semis \<and>
     length w \<le> 20 * (opens + closes + semis + count_chars ''='' w + count_chars '','' w))"

definition classify :: "dec_env \<Rightarrow> dec_cfg \<Rightarrow> string \<Rightarrow> layer_class" where
  "classify e c out =
    (if is_executable out then Terminal
     else if mostly_printable_window out then
       (if re_found layer_url (scan_part out) \<or> has_code_token out then Terminal
        else if has_nested_candidate out \<or> looks_like_rotated_code out then Recurse else Dropped)
     else if sniff_compression e c out \<or> looks_like_blob out then Recurse else Dropped)"

fun cand_loop :: "int \<Rightarrow> string list \<Rightarrow> string list \<Rightarrow> string list" where
  "cand_loop cap seen [] = []"
| "cand_loop cap seen (b # bs) =
    (if cap \<le> int (length seen) then []
     else if length b < min_blob_len \<or> b \<in> set seen then cand_loop cap seen bs
     else b # cand_loop cap (b # seen) bs)"

definition blob_candidates :: "string \<Rightarrow> int \<Rightarrow> string list" where
  "blob_candidates d cap = cand_loop cap []
    (concat (map (\<lambda>rx. findall rx d) [b64_cand, b64url_cand, hex_cand, xesc_cand, charcode_cand, a85_cand, uri_cand]))"

section \<open>The search\<close>

text \<open>The stack has its top first; a chain is the list of the decoders' names.\<close>

record dec_st =
  ds_total :: int
  ds_seen :: "int list"
  ds_stack :: "(string \<times> string list) list"
  ds_results :: "(string \<times> string list) list"

definition push_layer :: "string \<Rightarrow> string list \<Rightarrow> dec_st \<Rightarrow> dec_st" where
  "push_layer out chain s =
    s\<lparr>ds_stack := fold (\<lambda>sub. Cons (sub, chain)) (out # filter (\<lambda>sub. sub \<noteq> out) (blob_candidates out sub_blob_cap)) (ds_stack s)\<rparr>"

definition take_layer :: "dec_env \<Rightarrow> dec_cfg \<Rightarrow> string \<Rightarrow> string list \<Rightarrow> dec_st \<Rightarrow> dec_st" where
  "take_layer e c out chain s =
    (case classify e c out of
       Terminal \<Rightarrow> s\<lparr>ds_results := ds_results s @ [(out, chain)]\<rparr>
     | Recurse \<Rightarrow> push_layer out chain s
     | Dropped \<Rightarrow> s)"

text \<open>The output of a decoder that is looked at: long enough, changed, and not an expanded layer.\<close>

definition fresh_output :: "dec_env \<Rightarrow> string \<Rightarrow> int list \<Rightarrow> string option \<Rightarrow> string option" where
  "fresh_output e cur seen out =
    (case out of None \<Rightarrow> None
     | Some d \<Rightarrow> if length d < min_out_len \<or> d = cur \<or> de_hash e d \<in> set seen then None else Some d)"

fun try_decoders :: "dec_env \<Rightarrow> dec_cfg \<Rightarrow> string \<Rightarrow> string list \<Rightarrow> decoder list \<Rightarrow> dec_st \<Rightarrow> dec_st" where
  "try_decoders e c cur chain [] s = s"
| "try_decoders e c cur chain ((name, fn) # ds) s =
    (case fresh_output e cur (ds_seen s) (fn cur) of
       None \<Rightarrow> try_decoders e c cur chain ds s
     | Some out \<Rightarrow>
         (let s1 = s\<lparr>ds_total := ds_total s + int (length out)\<rparr> in
          if dc_max_total c < ds_total s1 then s1
          else try_decoders e c cur chain ds (take_layer e c out (chain @ [name]) s1)))"

definition expand :: "dec_env \<Rightarrow> dec_cfg \<Rightarrow> string \<times> string list \<Rightarrow> dec_st \<Rightarrow> dec_st" where
  "expand e c = (\<lambda>(cur, chain) s.
    if dc_max_depth c \<le> int (length chain) \<or> de_hash e cur \<in> set (ds_seen s) then s
    else try_decoders e c cur chain (decoders_for e c cur) (s\<lparr>ds_seen := de_hash e cur # ds_seen s\<rparr>))"

text \<open>The first argument is what is left of the budget of nodes.\<close>

fun recover_loop :: "dec_env \<Rightarrow> dec_cfg \<Rightarrow> nat \<Rightarrow> dec_st \<Rightarrow> dec_st" where
  "recover_loop e c 0 s = s"
| "recover_loop e c (Suc n) s =
    (case ds_stack s of [] \<Rightarrow> s | x # xs \<Rightarrow> recover_loop e c n (expand e c x (s\<lparr>ds_stack := xs\<rparr>)))"

definition recover_state :: "dec_env \<Rightarrow> dec_cfg \<Rightarrow> string \<Rightarrow> dec_st" where
  "recover_state e c d = recover_loop e c (nat (dc_max_nodes c))
     \<lparr>ds_total = 0, ds_seen = [], ds_stack = rev (map (\<lambda>b. (b, [])) (blob_candidates d (dc_max_blobs c))), ds_results = []\<rparr>"

definition recover :: "dec_env \<Rightarrow> dec_cfg \<Rightarrow> string \<Rightarrow> (string \<times> string list) list" where
  "recover e c d = ds_results (recover_state e c d)"

section \<open>What is recovered is there, and within the budgets\<close>

text \<open>The layers a chain of transformations reaches: a candidate of the data is one, and so are a decoded output that is worth another
  pass and the blob_candidates inside it.\<close>

inductive layer :: "dec_env \<Rightarrow> dec_cfg \<Rightarrow> string \<Rightarrow> string \<Rightarrow> string list \<Rightarrow> bool" for e c d where
  layer_start: "b \<in> set (blob_candidates d (dc_max_blobs c)) \<Longrightarrow> layer e c d b []"
| layer_out: "layer e c d cur chain \<Longrightarrow> (name, fn) \<in> set (decoders_for e c cur) \<Longrightarrow> fn cur = Some out \<Longrightarrow> classify e c out = Recurse \<Longrightarrow>
    layer e c d out (chain @ [name])"
| layer_sub: "layer e c d cur chain \<Longrightarrow> (name, fn) \<in> set (decoders_for e c cur) \<Longrightarrow> fn cur = Some out \<Longrightarrow> classify e c out = Recurse \<Longrightarrow>
    sub \<in> set (blob_candidates out sub_blob_cap) \<Longrightarrow> layer e c d sub (chain @ [name])"

definition recovered :: "dec_env \<Rightarrow> dec_cfg \<Rightarrow> string \<Rightarrow> string \<times> string list \<Rightarrow> bool" where
  "recovered e c d x \<longleftrightarrow> (\<exists>cur chain name fn. layer e c d cur chain \<and> (name, fn) \<in> set (decoders_for e c cur) \<and> fn cur = Some (fst x) \<and>
     snd x = chain @ [name] \<and> classify e c (fst x) = Terminal \<and> int (length chain) < dc_max_depth c)"

definition kept_bytes :: "dec_st \<Rightarrow> int" where
  "kept_bytes s = (\<Sum>x \<leftarrow> ds_results s. int (length (fst x)))"

definition sound_st :: "dec_env \<Rightarrow> dec_cfg \<Rightarrow> string \<Rightarrow> dec_st \<Rightarrow> bool" where
  "sound_st e c d s \<longleftrightarrow> (\<forall>x \<in> set (ds_results s). recovered e c d x) \<and> (\<forall>x \<in> set (ds_stack s). layer e c d (fst x) (snd x)) \<and>
     kept_bytes s \<le> ds_total s \<and> kept_bytes s \<le> max 0 (dc_max_total c)"

lemma set_fold_Cons: "set (fold (\<lambda>sub. Cons (sub, chain)) xs st) = (\<lambda>sub. (sub, chain)) ` set xs \<union> set st"
  by (induction xs arbitrary: st) auto

lemma push_layer_simps [simp]:
  "ds_total (push_layer out chain s) = ds_total s" "ds_seen (push_layer out chain s) = ds_seen s"
  "ds_results (push_layer out chain s) = ds_results s"
  "set (ds_stack (push_layer out chain s)) =
     (\<lambda>sub. (sub, chain)) ` (insert out {sub \<in> set (blob_candidates out sub_blob_cap). sub \<noteq> out}) \<union> set (ds_stack s)"
  by (simp_all add: push_layer_def set_fold_Cons del: fold_simps)

lemma take_layer_simps [simp]:
  "ds_total (take_layer e c out chain s) = ds_total s" "ds_seen (take_layer e c out chain s) = ds_seen s"
  by (simp_all add: take_layer_def split: layer_class.split)

lemma fresh_output_Some: "fresh_output e cur seen o1 = Some out \<longleftrightarrow>
    o1 = Some out \<and> min_out_len \<le> length out \<and> out \<noteq> cur \<and> de_hash e out \<notin> set seen"
  by (auto simp: fresh_output_def split: option.split)

lemma take_layer_sound:
  assumes "sound_st e c d s" and "layer e c d cur chain" and "int (length chain) < dc_max_depth c"
    and "(name, fn) \<in> set (decoders_for e c cur)" and "fn cur = Some out" and "ds_total s + int (length out) \<le> dc_max_total c"
  shows "sound_st e c d (take_layer e c out (chain @ [name]) (s\<lparr>ds_total := ds_total s + int (length out)\<rparr>))"
proof (cases "classify e c out")
  case Terminal
  have "recovered e c d (out, chain @ [name])" using assms Terminal by (auto simp: recovered_def)
  then show ?thesis using assms(1,6) Terminal by (auto simp: take_layer_def sound_st_def kept_bytes_def)
next
  case Recurse
  have "layer e c d out (chain @ [name])" using layer_out [OF assms(2,4,5) Recurse] .
  moreover have "layer e c d sub (chain @ [name])" if "sub \<in> set (blob_candidates out sub_blob_cap)" for sub
    using layer_sub [OF assms(2,4,5) Recurse that] .
  ultimately show ?thesis using assms(1) Recurse by (auto simp: take_layer_def sound_st_def kept_bytes_def)
next
  case Dropped
  then show ?thesis using assms(1) by (auto simp: take_layer_def sound_st_def kept_bytes_def)
qed

lemma try_decoders_sound:
  assumes "sound_st e c d s" and "layer e c d cur chain" and "int (length chain) < dc_max_depth c" and "set ds \<subseteq> set (decoders_for e c cur)"
  shows "sound_st e c d (try_decoders e c cur chain ds s)"
  using assms
proof (induction e c cur chain ds s rule: try_decoders.induct)
  case (2 e c cur chain name fn ds s)
  show ?case
  proof (cases "fresh_output e cur (ds_seen s) (fn cur)")
    case None
    then show ?thesis using 2(1) 2(3-6) by simp
  next
    case (Some out)
    let ?s1 = "s\<lparr>ds_total := ds_total s + int (length out)\<rparr>"
    show ?thesis
    proof (cases "dc_max_total c < ds_total ?s1")
      case True
      have "sound_st e c d ?s1" using 2(3) by (auto simp: sound_st_def kept_bytes_def)
      then show ?thesis using True Some by simp
    next
      case False
      have "sound_st e c d (take_layer e c out (chain @ [name]) ?s1)"
        using take_layer_sound [OF 2(3,4,5)] 2(6) Some False by (auto simp: fresh_output_Some)
      then show ?thesis using 2(2) [OF Some refl False] 2(4-6) Some False by (simp add: Let_def)
    qed
  qed
qed simp

lemma expand_sound:
  assumes "sound_st e c d s" and "layer e c d cur chain"
  shows "sound_st e c d (expand e c (cur, chain) s)"
proof -
  have "sound_st e c d (s\<lparr>ds_seen := de_hash e cur # ds_seen s\<rparr>)" using assms(1) by (simp add: sound_st_def kept_bytes_def)
  from try_decoders_sound [OF this assms(2) _ subset_refl] show ?thesis using assms(1) by (simp add: expand_def)
qed

lemma try_decoders_seen [simp]: "ds_seen (try_decoders e c cur chain ds s) = ds_seen s"
  by (induction e c cur chain ds s rule: try_decoders.induct) (simp_all add: Let_def split: option.split)

lemma expand_seen_length: "length (ds_seen (expand e c x s)) \<le> Suc (length (ds_seen s))"
  by (cases x) (simp add: expand_def)

lemma recover_loop_sound:
  "sound_st e c d s \<Longrightarrow> sound_st e c d (recover_loop e c n s) \<and> length (ds_seen (recover_loop e c n s)) \<le> n + length (ds_seen s)"
proof (induction n arbitrary: s)
  case (Suc n)
  show ?case
  proof (cases "ds_stack s")
    case (Cons x xs)
    obtain cur chain where x: "x = (cur, chain)" by (cases x)
    have "layer e c d cur chain" using Suc.prems Cons x by (auto simp: sound_st_def)
    moreover have "sound_st e c d (s\<lparr>ds_stack := xs\<rparr>)" using Suc.prems Cons by (auto simp: sound_st_def kept_bytes_def)
    ultimately have "sound_st e c d (expand e c x (s\<lparr>ds_stack := xs\<rparr>))" using expand_sound x by blast
    from Suc.IH [OF this] show ?thesis using expand_seen_length [of e c x "s\<lparr>ds_stack := xs\<rparr>"] Cons by simp
  qed (use Suc.prems in simp)
qed simp

lemma recover_sound: "sound_st e c d (recover_state e c d) \<and> length (ds_seen (recover_state e c d)) \<le> nat (dc_max_nodes c)"
proof -
  have "sound_st e c d \<lparr>ds_total = 0, ds_seen = [], ds_stack = rev (map (\<lambda>b. (b, [])) (blob_candidates d (dc_max_blobs c))), ds_results = []\<rparr>"
    by (auto simp: sound_st_def kept_bytes_def intro: layer_start)
  from recover_loop_sound [OF this, of "nat (dc_max_nodes c)"] show ?thesis by (simp add: recover_state_def)
qed

section \<open>A run within its budgets misses no single layer\<close>

definition settled :: "dec_env \<Rightarrow> dec_cfg \<Rightarrow> dec_st \<Rightarrow> bool" where
  "settled e c s \<longleftrightarrow> (\<forall>cur name fn out. de_hash e cur \<in> set (ds_seen s) \<and> (name, fn) \<in> set (decoders_for e c cur) \<and> fn cur = Some out \<and>
     min_out_len \<le> length out \<and> out \<noteq> cur \<and> classify e c out = Terminal \<longrightarrow>
     de_hash e out \<in> set (ds_seen s) \<or> out \<in> fst ` set (ds_results s))"

definition covered :: "dec_env \<Rightarrow> string \<Rightarrow> dec_st \<Rightarrow> bool" where
  "covered e b s \<longleftrightarrow> (b, []) \<in> set (ds_stack s) \<or> de_hash e b \<in> set (ds_seen s)"

lemma take_layer_grows:
  "set (ds_results s) \<subseteq> set (ds_results (take_layer e c out chain s))" "set (ds_stack s) \<subseteq> set (ds_stack (take_layer e c out chain s))"
  by (auto simp: take_layer_def split: layer_class.split)

lemma try_decoders_grows:
  "ds_total s \<le> ds_total (try_decoders e c cur chain ds s) \<and> set (ds_results s) \<subseteq> set (ds_results (try_decoders e c cur chain ds s)) \<and>
   set (ds_stack s) \<subseteq> set (ds_stack (try_decoders e c cur chain ds s))"
proof (induction e c cur chain ds s rule: try_decoders.induct)
  case (2 e c cur chain name fn ds s)
  show ?case
  proof (cases "fresh_output e cur (ds_seen s) (fn cur)")
    case (Some out)
    let ?s1 = "s\<lparr>ds_total := ds_total s + int (length out)\<rparr>"
    show ?thesis
    proof (cases "dc_max_total c < ds_total ?s1")
      case False
      have "set (ds_results s) \<subseteq> set (ds_results (take_layer e c out (chain @ [name]) ?s1))"
        "set (ds_stack s) \<subseteq> set (ds_stack (take_layer e c out (chain @ [name]) ?s1))"
        using take_layer_grows [of ?s1] by simp_all
      then show ?thesis using 2(2) [OF Some refl False] Some False by (auto simp: Let_def)
    qed (use Some in simp)
  qed (use 2(1) in simp)
qed simp

lemma try_decoders_complete:
  assumes "ds_total (try_decoders e c cur chain ds s) \<le> dc_max_total c" and "(name, fn) \<in> set ds"
    and "fresh_output e cur (ds_seen s) (fn cur) = Some out" and "classify e c out = Terminal"
  shows "out \<in> fst ` set (ds_results (try_decoders e c cur chain ds s))"
  using assms
proof (induction e c cur chain ds s rule: try_decoders.induct)
  case (2 e c cur chain name' fn' ds s)
  show ?case
  proof (cases "fresh_output e cur (ds_seen s) (fn' cur)")
    case None
    then show ?thesis using 2(1) [OF None] 2(3-6) by auto
  next
    case (Some out')
    let ?s1 = "s\<lparr>ds_total := ds_total s + int (length out')\<rparr>"
    let ?s2 = "take_layer e c out' (chain @ [name']) ?s1"
    have within: "\<not> dc_max_total c < ds_total ?s1" using 2(3) Some by (auto simp: Let_def split: if_splits)
    have rest: "try_decoders e c cur chain ((name', fn') # ds) s = try_decoders e c cur chain ds ?s2"
      using Some within by (simp add: Let_def)
    show ?thesis
    proof (cases "(name, fn) = (name', fn')")
      case True
      then have "out' = out" using Some 2(5) by simp
      then have "out \<in> fst ` set (ds_results ?s2)" using 2(6) by (simp add: take_layer_def)
      then show ?thesis unfolding rest using try_decoders_grows [of ?s2] by blast
    next
      case False
      then show ?thesis using 2(2) [OF Some refl within] 2(3-6) unfolding rest by auto
    qed
  qed
qed simp

lemma expand_grows:
  "ds_total s \<le> ds_total (expand e c x s)" "set (ds_results s) \<subseteq> set (ds_results (expand e c x s))"
  "set (ds_stack s) \<subseteq> set (ds_stack (expand e c x s))" "set (ds_seen s) \<subseteq> set (ds_seen (expand e c x s))"
  using try_decoders_grows [of "s\<lparr>ds_seen := de_hash e (fst x) # ds_seen s\<rparr>" e c "fst x" "snd x" "decoders_for e c (fst x)"]
  by (auto simp: expand_def split: prod.splits)

lemma expand_settled:
  assumes "inj (de_hash e)" and "settled e c s" and "ds_total (expand e c (cur, chain) s) \<le> dc_max_total c"
  shows "settled e c (expand e c (cur, chain) s)"
proof (cases "dc_max_depth c \<le> int (length chain) \<or> de_hash e cur \<in> set (ds_seen s)")
  case True
  then show ?thesis using assms(2) by (simp add: expand_def)
next
  case False
  let ?s1 = "s\<lparr>ds_seen := de_hash e cur # ds_seen s\<rparr>"
  let ?t = "try_decoders e c cur chain (decoders_for e c cur) ?s1"
  have t: "expand e c (cur, chain) s = ?t" using False by (simp add: expand_def)
  show ?thesis unfolding t settled_def
  proof (intro allI impI)
    fix cur' name fn out
    assume h: "de_hash e cur' \<in> set (ds_seen ?t) \<and> (name, fn) \<in> set (decoders_for e c cur') \<and> fn cur' = Some out \<and>
      min_out_len \<le> length out \<and> out \<noteq> cur' \<and> classify e c out = Terminal"
    consider "de_hash e cur' \<in> set (ds_seen s)" | "cur' = cur" using h injD [OF assms(1)] by auto
    then show "de_hash e out \<in> set (ds_seen ?t) \<or> out \<in> fst ` set (ds_results ?t)"
    proof cases
      case 1
      then have "de_hash e out \<in> set (ds_seen s) \<or> out \<in> fst ` set (ds_results s)" using assms(2) h unfolding settled_def by blast
      then show ?thesis using try_decoders_grows [of ?s1 e c cur chain "decoders_for e c cur"] by auto
    next
      case 2
      show ?thesis
      proof (cases "de_hash e out \<in> set (ds_seen ?s1)")
        case False
        then have "fresh_output e cur (ds_seen ?s1) (fn cur) = Some out" using h 2 by (simp add: fresh_output_Some)
        then show ?thesis using try_decoders_complete [of e c cur chain "decoders_for e c cur" ?s1 name fn out] assms(3) h 2 t by simp
      qed simp
    qed
  qed
qed

lemma expand_covered:
  assumes "covered e b (s\<lparr>ds_stack := x # xs\<rparr>)" and "0 < dc_max_depth c"
  shows "covered e b (expand e c x (s\<lparr>ds_stack := xs\<rparr>))"
proof (cases "x = (b, [])")
  case True
  then show ?thesis using assms(2) by (simp add: covered_def expand_def)
next
  case False
  then show ?thesis using assms(1) expand_grows(3,4) [of "s\<lparr>ds_stack := xs\<rparr>" e c x] by (auto simp: covered_def)
qed

lemma recover_loop_total: "ds_total s \<le> ds_total (recover_loop e c n s)"
proof (induction n arbitrary: s)
  case (Suc n)
  show ?case
  proof (cases "ds_stack s")
    case (Cons x xs)
    then show ?thesis using Suc.IH [of "expand e c x (s\<lparr>ds_stack := xs\<rparr>)"] expand_grows(1) [of "s\<lparr>ds_stack := xs\<rparr>" e c x] by simp
  qed simp
qed simp

lemma recover_loop_settled:
  assumes "inj (de_hash e)" and "0 < dc_max_depth c"
  shows "settled e c s \<Longrightarrow> covered e b s \<Longrightarrow> ds_total (recover_loop e c n s) \<le> dc_max_total c \<Longrightarrow>
    settled e c (recover_loop e c n s) \<and> covered e b (recover_loop e c n s)"
proof (induction n arbitrary: s)
  case (Suc n)
  show ?case
  proof (cases "ds_stack s")
    case (Cons x xs)
    let ?p = "s\<lparr>ds_stack := xs\<rparr>"
    obtain cur chain where x: "x = (cur, chain)" by (cases x)
    have "s = s\<lparr>ds_stack := x # xs\<rparr>" using Cons by (cases s) simp
    then have cov: "covered e b (expand e c x ?p)" using expand_covered [OF _ assms(2)] Suc.prems(2) by metis
    have "ds_total (expand e c x ?p) \<le> dc_max_total c" using Suc.prems(3) Cons recover_loop_total [of "expand e c x ?p" e c n] by simp
    moreover have "settled e c ?p" using Suc.prems(1) by (simp add: settled_def)
    ultimately have "settled e c (expand e c x ?p)" using expand_settled [OF assms(1)] unfolding x by blast
    then show ?thesis using Suc.IH [OF _ cov] Suc.prems(3) Cons by simp
  qed (use Suc.prems in simp)
qed simp

text \<open>An environment in which nothing is compressed and hashes do not collide.\<close>

fun demo_hash :: "string \<Rightarrow> int" where
  "demo_hash [] = 0"
| "demo_hash (c # cs) = 257 * demo_hash cs + code c + 1"

lemma demo_hash_inj: "inj demo_hash"
proof (rule injI)
  fix s t :: string
  have nn: "0 \<le> demo_hash t" for t
  proof (induction t)
    case (Cons c t)
    then show ?case using code_less [of c] by simp
  qed simp
  have pos: "0 < demo_hash (c # t)" for c t using nn [of t] code_less [of c] by simp
  show "demo_hash s = demo_hash t \<Longrightarrow> s = t"
  proof (induction s arbitrary: t)
    case Nil
    then show ?case using pos [of "hd t" "tl t"] by (cases t) auto
  next
    case (Cons c s)
    show ?case
    proof (cases t)
      case Nil
      then show ?thesis using Cons.prems pos [of c s] by simp
    next
      case (Cons d t')
      have h: "257 * demo_hash s + code c = 257 * demo_hash t' + code d" using Cons.prems Cons by simp
      have m: "(257 * x + code c) mod 257 = code c" "(257 * x + code c) div 257 = x" for c x using code_less [of c] by auto
      have "demo_hash s = demo_hash t'" "code c = code d" using m [of "demo_hash s" c] m [of "demo_hash t'" d] h by simp_all
      then show ?thesis using Cons Cons.IH code_eq by simp
    qed
  qed
qed

definition demo_env :: dec_env where
  "demo_env = \<lparr>de_zlib = \<lambda>_ _. None, de_bz2 = \<lambda>_ _. None, de_xz = \<lambda>_ _. None, de_hash = demo_hash\<rparr>"

definition demo_blob :: string where
  "demo_blob = to_b64 ''eval(atob(x)''"

lemma demo_recover: "recover demo_env default_dec_cfg demo_blob = [(''eval(atob(x)'', [''b64''])]"
  by code_simp

lemma demo_state:
  "ds_stack (recover_state demo_env default_dec_cfg demo_blob) = [] \<and>
   ds_total (recover_state demo_env default_dec_cfg demo_blob) \<le> dc_max_total default_dec_cfg \<and>
   de_hash demo_env ''eval(atob(x)'' \<notin> set (ds_seen (recover_state demo_env default_dec_cfg demo_blob)) \<and>
   demo_blob \<in> set (blob_candidates demo_blob (dc_max_blobs default_dec_cfg)) \<and> dec_b64 demo_blob = Some ''eval(atob(x)'' \<and>
   classify demo_env default_dec_cfg ''eval(atob(x)'' = Terminal"
  by code_simp

text \<open>C26. Every layer the decode engine reports was reached from a blob in the file by the decoders of its chain, at most as many as the
  depth allows, and is an executable, an address or code; the reported bytes stay within the total budget and the expanded
  layers within the budget of nodes, whatever the file decompresses to.\<close>
theorem recover_bounded:
  assumes "(out, chain) \<in> set (recover e c d)"
  shows "recovered e c d (out, chain) \<and> int (length chain) \<le> dc_max_depth c \<and>
    (\<Sum>x \<leftarrow> recover e c d. int (length (fst x))) \<le> max 0 (dc_max_total c) \<and>
    length (ds_seen (recover_state e c d)) \<le> nat (dc_max_nodes c)"
proof -
  have "sound_st e c d (recover_state e c d)" "length (ds_seen (recover_state e c d)) \<le> nat (dc_max_nodes c)"
    using recover_sound by auto
  then have r: "recovered e c d (out, chain)" and rest: "(\<Sum>x \<leftarrow> recover e c d. int (length (fst x))) \<le> max 0 (dc_max_total c)"
    "length (ds_seen (recover_state e c d)) \<le> nat (dc_max_nodes c)"
    using assms by (auto simp: sound_st_def kept_bytes_def recover_def)
  have "int (length chain) \<le> dc_max_depth c" using r by (auto simp: recovered_def)
  with r rest show ?thesis by blast
qed

theorem recover_bounded_witness:
  "recovered demo_env default_dec_cfg demo_blob (''eval(atob(x)'', [''b64''])"
  using recover_bounded [of "''eval(atob(x)''" "[''b64'']" demo_env default_dec_cfg demo_blob] by (simp add: demo_recover)



text \<open>What base 64 and hexadecimal print is read back by the engine.\<close>

lemma dec_b64_reads: "dec_b64 (to_b64 s) = Some s"
  using b64decode_to_b64 [of "nat ((- int (length (to_b64 s))) mod 4)" s] by (simp add: dec_b64_def padded_def)

section \<open>What the engine misses\<close>

text \<open>Addresses without a scheme are no reason to report a layer, although the documentation of \<^verbatim>\<open>recover\<close> says so.\<close>

lemma address_layer_dropped: "classify e default_dec_cfg ''connect 185.220.101.5:4444'' = Dropped"
proof -
  have "sniff_compression e default_dec_cfg ''connect 185.220.101.5:4444'' = sniff_compression demo_env default_dec_cfg ''connect 185.220.101.5:4444''"
    by (simp add: sniff_compression_def compressors_def)
  then have "classify e default_dec_cfg ''connect 185.220.101.5:4444'' = classify demo_env default_dec_cfg ''connect 185.220.101.5:4444''"
    by (simp add: classify_def)
  also have "\<dots> = Dropped" by code_simp
  finally show ?thesis .
qed

text \<open>A payload encoded as often as the depth allows is found alone; when an encoding of its outermost layer follows in the file, that
  layer is first reached through it, is marked as seen, and its innermost layer is too deep. The depth is 2 here.\<close>

definition shallow_cfg :: dec_cfg where
  "shallow_cfg = default_dec_cfg\<lparr>dc_max_depth := 2\<rparr>"

lemma payload_alone: "recover demo_env shallow_cfg (to_b64 demo_blob) = [(''eval(atob(x)'', [''b64'', ''b64''])]"
  by code_simp

lemma decoy_hides_payload: "recover demo_env shallow_cfg (to_b64 demo_blob @ '' '' @ to_b64 (to_b64 demo_blob)) = []"
  by code_simp

end
