(* ===== verification/Iocs.thy ===== *)
theory Iocs
  imports DecodeEngine SourceTree
begin

text \<open>
  Indicators of compromise in the text files of a package: \<^verbatim>\<open>analyze/iocs.py\<close>, with the layers of \<open>DecodeEngine\<close>. \<open>outer\<close> are
  the components of the extraction directory, which \<^verbatim>\<open>path.parts\<close> contains too. A loop whose body ends in adding a key
  to \<^verbatim>\<open>seen\<close> is a list of steps: the key and the finding, \<^const>\<open>None\<close> where the body continues before.
  The dash of the messages is a hyphen here.
\<close>

record ioc_cfg =
  ic_whitelist :: "string list"
  ic_recover_max :: int
  ic_env :: dec_env
  ic_dec :: dec_cfg

definition chain_has_real_decode :: "string list \<Rightarrow> bool" where
  "chain_has_real_decode chain \<longleftrightarrow> list_ex (\<lambda>step. step \<noteq> ''reverse'') chain"

section \<open>Patterns\<close>

definition call_of :: "regex \<Rightarrow> regex" where
  "call_of r = seqs [r, star (Sat byte_space), lit ''('']"

definition quotes :: "char list" where
  "quotes = [CHR 0x27, CHR 0x22]"

definition spawn_sinks :: "regex list" where
  "spawn_sinks = [lit_ci ''child_process'', call_of (Cat (lit_ci ''.exec'') (opt (any_lits_ci [''File'', ''Sync'']))),
     Cat Boundary (call_of (Cat (lit_ci ''spawn'') (opt (lit_ci ''Sync'')))), lit_ci ''execSync'', lit_ci ''os.system'',
     Cat (lit_ci ''subprocess.'') (any_lits_ci [''Popen'', ''call'', ''run'', ''check_output''])]"

definition decoded_exec_sink :: regex where
  "decoded_exec_sink = alts ([call_of (lit_ci ''eval''), call_of (seqs [lit_ci ''new'', plus1 (Sat byte_space), lit_ci ''Function'']),
     seqs [call_of (lit_ci ''Function''), star (Sat byte_space), one_of quotes]] @ spawn_sinks)"

definition file_exec_sink :: regex where
  "file_exec_sink = alts ([call_of (Cat (lit_ci ''exec.Command'') (opt (lit_ci ''Context''))),
     call_of (Cat (lit_ci ''syscall.'') (any_lits_ci [''Exec'', ''ForkExec'', ''StartProcess''])),
     seqs [Boundary, lit_ci ''os/exec'', Boundary]] @ spawn_sinks @ map lit_ci [''CreateProcess'', ''ShellExecute'', ''WinExec''])"

definition ioc_url :: regex where
  "ioc_url = seqs [lit ''http'', opt (lit ''s''), lit ''://'', plus1 (Sat (\<lambda>c. \<not> byte_space c \<and> c \<notin> set (quotes @ ''<>()'')))]"

definition octet :: regex where
  "octet = alts [Cat (lit ''25'') (one_of ''012345''), seqs [lit ''2'', one_of ''01234'', Sat is_digit],
     Cat (lit ''1'') (Rep 2 (Some 0) (Sat is_digit)), Cat (opt (one_of ''123456789'')) (Sat is_digit)]"

definition ioc_ipv4 :: regex where
  "ioc_ipv4 = seqs [Boundary, octet, Rep 3 (Some 0) (Cat (lit ''.'') octet), Boundary]"

definition ioc_onion :: regex where
  "ioc_onion = seqs [Boundary, Rep 16 (Some 40) (Sat (\<lambda>c. (97 \<le> code c \<and> code c \<le> 122) \<or> (50 \<le> code c \<and> code c \<le> 55))), lit ''.onion'', Boundary]"

definition ioc_b64 :: regex where
  "ioc_b64 = seqs [one_of quotes, Rep 160 None (Sat b64_alpha), Rep 0 (Some 2) (lit ''=''), one_of quotes]"

definition private_or_local :: regex where
  "private_or_local = Or (any_lits [''127.'', ''10.'', ''192.168.'', ''0.'', ''169.254.'', ''255.'', ''224.'', ''240.''])
     (seqs [lit ''172.'', alts [Cat (lit ''1'') (one_of ''6789''), Cat (lit ''2'') (Sat is_digit), Cat (lit ''3'') (one_of ''01'')], lit ''.''])"

definition doc_range :: regex where
  "doc_range = any_lits [''192.0.2.'', ''198.51.100.'', ''203.0.113.'']"

definition placeholder_ips :: "string list" where
  "placeholder_ips = [''1.2.3.4'', ''4.3.2.1'']"

definition metadata_ips :: "string list" where
  "metadata_ips = [''169.254.169.254'', ''169.254.170.2'']"

definition benign_public_ips :: "string list" where
  "benign_public_ips = [''8.8.8.8'', ''8.8.4.4'', ''1.1.1.1'', ''1.0.0.1'', ''9.9.9.9'', ''149.112.112.112'', ''208.67.222.222'',
     ''208.67.220.220'', ''4.2.2.1'', ''4.2.2.2'']"

definition port_after :: regex where
  "port_after = seqs [lit '':'', Rep 1 (Some 4) (Sat is_digit), Boundary]"

definition webrtc_uri_prefix :: regex where
  "webrtc_uri_prefix = seqs [Or (Cat (lit_ci ''turn'') (opt (lit_ci ''s''))) (lit_ci ''stun''), lit '':'', At_end]"

definition webrtc_context :: regex where
  "webrtc_context = alts (map lit_ci [''iceServers'', ''RTCPeerConnection'', ''RTCIceServer'', ''createDataChannel''] @
     [seqs [lit_ci ''url'', opt (lit_ci ''s''), star (Sat byte_space), lit '':'', star (Sat byte_space), one_of quotes,
        lit_ci ''turn'', opt (lit_ci ''s''), lit '':'']])"

definition webrtc_window :: nat where
  "webrtc_window = 400"

section \<open>Hosts\<close>

definition before :: "char \<Rightarrow> string \<Rightarrow> string" where
  "before c s = takeWhile (\<lambda>x. x \<noteq> c) s"

definition host_of :: "string \<Rightarrow> string" where
  "host_of url = lower (before (CHR '':'') (before (CHR ''/'') url))"

definition domain_of :: "string \<Rightarrow> string" where
  "domain_of url = (let parts = split_on (CHR ''.'') (host_of url) in
     if 2 < length parts then join ''.'' (drop (length parts - 2) parts) else host_of url)"

definition template_url :: regex where
  "template_url = alts [one_of ''{%$'', seqs [At_start, Rep 2 None (lit ''.''), At_end], seqs [At_start, lit '':'', At_end],
     seqs [At_start, lit ''test'', opt (Or (any_lits [''server'', ''host'', ''ing'', ''bed''])
       (Cat (lit ''.'') (any_lits [''com'', ''org'', ''net'', ''local'', ''example'', ''invalid'']))), At_end]]"

definition placeholder_hosts :: "string list" where
  "placeholder_hosts = [''host'', ''hostname'', ''your-host'', ''your_host'', ''yourhost'', ''server'', ''ip'', ''ipaddress'', ''ip-address'',
     ''address'', ''domain'', ''yourdomain'', ''example'', ''host1'', ''host2'', ''myhost'']"

definition placeholder_domains :: "string list" where
  "placeholder_domains = [''example.com'', ''example.org'', ''example.net'', ''example.edu'']"

text \<open>A URL holds no white space, so the search for trailing punctuation strips it.\<close>

definition without_junk :: "string \<Rightarrow> string" where
  "without_junk url = rstrip_by (\<lambda>c. c \<in> set ([CHR 0x60, CHR 0x27, CHR 0x22] @ ''),;]>'')) url"

definition is_benign_url :: "string list \<Rightarrow> string \<Rightarrow> bool" where
  "is_benign_url benign url \<longleftrightarrow>
    (let cleaned = without_junk url; host = host_of cleaned; base = domain_of cleaned in
     host \<in> set benign \<or> host \<in> set placeholder_hosts \<or> prefix ''localhost'' host \<or> suffix ''.localhost'' host \<or>
     re_found template_url host \<or> list_ex (\<lambda>t. suffix t host) [''.test'', ''.invalid'', ''.localdomain''] \<or>
     CHR ''{'' \<in> set url \<or> base \<in> set placeholder_domains \<or> base \<in> set benign)"

text \<open>\<^verbatim>\<open>u.split("://", 1)[-1]\<close>\<close>

fun after_scheme :: "string \<Rightarrow> string \<Rightarrow> string" where
  "after_scheme whole [] = whole"
| "after_scheme whole (c # cs) = (if prefix ''://'' (c # cs) then drop 3 (c # cs) else after_scheme whole cs)"

definition callback_host :: "string \<Rightarrow> string" where
  "callback_host url = (let u = lower url in
     rstrip_by (\<lambda>c. c = CHR ''.'') (strip (before (CHR '':'') (last (split_on (CHR ''@'')
       (before (CHR ''#'') (before (CHR ''?'') (before (CHR ''/'') (after_scheme u u)))))))))"

definition under_domain :: "string list \<Rightarrow> string \<Rightarrow> bool" where
  "under_domain ds host \<longleftrightarrow> list_ex (\<lambda>d. host = d \<or> suffix (CHR ''.'' # d) host) ds"

definition oast_domains :: "string list" where
  "oast_domains = [''oastify.com'', ''interact.sh'', ''oast.fun'', ''oast.site'', ''oast.pro'', ''oast.live'', ''oast.online'', ''oast.me'',
     ''burpcollaborator.net'', ''dnslog.cn'', ''requestcatcher.com'', ''canarytokens.com'', ''canarytokens.org'']"

definition oast_literal :: regex where
  "oast_literal = seqs [Boundary, any_lits_ci oast_domains, Boundary]"

definition is_oast_url :: "string \<Rightarrow> bool" where
  "is_oast_url url = under_domain oast_domains (callback_host url)"

definition abuse_hosting :: "string list" where
  "abuse_hosting = [''workers.dev'', ''pages.dev'', ''trycloudflare.com'', ''r2.dev'', ''ngrok.io'', ''ngrok-free.app'', ''ngrok.app'', ''ngrok.dev'',
     ''deno.dev'', ''val.run'', ''glitch.me'', ''repl.co'', ''replit.dev'', ''surge.sh'', ''serveo.net'', ''loca.lt'', ''telebit.io'', ''webhook.cool'']"

definition is_abuse_hosting_url :: "string \<Rightarrow> bool" where
  "is_abuse_hosting_url url = under_domain abuse_hosting (callback_host url)"

section \<open>Kinds of file\<close>

definition text_suffixes :: "string list" where
  "text_suffixes = [''.py'', ''.cfg'', ''.toml'', ''.ini'', ''.txt'', ''.md'', ''.rst'', ''.json'', ''.yml'', ''.yaml'',
     ''.js'', ''.ts'', ''.mjs'', ''.cjs'', ''.jsx'', ''.tsx'', ''.rs'', ''.go'', ''.sh'', ''.ps1'', ''.bat'']"

definition doc_basenames :: "string list" where
  "doc_basenames = [''readme'', ''notice'', ''license'', ''licence'', ''copying'', ''copyright'', ''changelog'', ''changes'', ''history'',
     ''authors'', ''contributors'', ''credits'', ''thanks'', ''security'', ''support'', ''code_of_conduct'', ''code-of-conduct'',
     ''governance'', ''maintainers'', ''contributing'']"

definition is_doc_file :: "string \<Rightarrow> bool" where
  "is_doc_file name \<longleftrightarrow> list_ex (\<lambda>e. suffix e (lower name)) [''.md'', ''.rst''] \<or> list_ex (\<lambda>d. prefix d (lower name)) doc_basenames"

definition any_text :: regex where
  "any_text = star (none_of [CHR 0x0A])"

definition test_basename :: "regex list" where
  "test_basename =
    [seqs [any_text, lit ''_test.go'', At_end],
     seqs [Or (seqs [At_start, lit ''test_'', any_text]) (Cat any_text (lit ''_test'')), lit ''.py'', At_end],
     seqs [At_start, lit ''conftest.py'', At_end],
     seqs [any_text, lit ''.'', any_lits [''test'', ''spec''], lit ''.'', opt (one_of ''cm''), one_of ''jt'', lit ''s'', opt (lit ''x''), At_end]]"

definition test_dir_parts :: "string list" where
  "test_dir_parts = [''test'', ''tests'', ''testdata'', ''testing'', ''__tests__'', ''__test__'', ''fixtures'', ''fixture'', ''spec'', ''specs'', ''e2e'']"

definition is_test_file :: "string list \<Rightarrow> string \<Rightarrow> bool" where
  "is_test_file outer path \<longleftrightarrow> list_ex (\<lambda>rx. re_match rx (lower (basename path)) \<noteq> None) test_basename \<or>
     list_ex (\<lambda>part. lower part \<in> set test_dir_parts) (outer @ split_on (CHR ''/'') path)"

section \<open>Encoded blobs and text for the model\<close>

definition decode_blob_cap :: nat where
  "decode_blob_cap = 400"

definition mostly_printable :: "string \<Rightarrow> bool" where
  "mostly_printable b \<longleftrightarrow> 6 \<le> length b \<and> 17 * length b \<le> 20 * length (filter printable b)"

definition decode_blobs :: "string \<Rightarrow> string list" where
  "decode_blobs d = filter mostly_printable
    (List.map_filter dec_b64 (take decode_blob_cap (findall b64_cand d)) @
     List.map_filter dec_xesc (take decode_blob_cap (findall xesc_cand d)) @
     List.map_filter dec_hex (take decode_blob_cap (findall hex_cand d)))"

definition llm_schema_mimic :: "regex list" where
  "llm_schema_mimic = [lit_ci ''agrees_with_rules'']"

definition blank :: regex where "blank = star (Sat byte_space)"

definition gap :: regex where "gap = plus1 (Sat byte_space)"

definition llm_override :: "regex list" where
  "llm_override =
    [seqs [one_of quotes, lit_ci ''verdict'', one_of quotes, blank, lit '':'', blank, one_of quotes, any_lits_ci [''benign'', ''safe'']],
     seqs [lit_ci ''ignore'', gap, star (Cat (any_lits_ci [''all'', ''the'', ''any'']) gap),
       any_lits_ci [''previous'', ''prior'', ''above'', ''preceding'', ''earlier'', ''system''], gap,
       any_lits_ci [''instruction'', ''prompt'', ''message'', ''rule'']],
     seqs [lit_ci ''disregard'', gap, star (Cat (any_lits_ci [''all'', ''the'', ''any'']) gap),
       any_lits_ci [''previous'', ''prior'', ''above'', ''preceding'', ''earlier'', ''system''], Boundary],
     seqs [any_lits_ci [''mark'', ''classify'', ''label'', ''treat'', ''rate'', ''consider'', ''report''], gap,
       alts [lit_ci ''this'', lit_ci ''it'', seqs [lit_ci ''the'', gap, plus1 (Sat word_char)]], gap,
       opt (Cat (any_lits_ci [''package'', ''code'', ''file'']) gap), opt (Cat (lit_ci ''as'') gap),
       alts [lit_ci ''safe'', lit_ci ''benign'', lit_ci ''clean'', lit_ci ''trusted'', seqs [lit_ci ''not'', gap, lit_ci ''malicious''],
         lit_ci ''non-malicious'', seqs [lit_ci ''a'', gap, lit_ci ''false'', gap, lit_ci ''positive'']]]]"

definition first_hit :: "regex list \<Rightarrow> string \<Rightarrow> string option" where
  "first_hit rxs d = (case List.map_filter (\<lambda>rx. re_search rx d) rxs of [] \<Rightarrow> None | m # ms \<Rightarrow> Some (m_text m))"

section \<open>One file\<close>

datatype ioc_key =
    Url_key string
  | Meta_key string
  | Ipport_key string int
  | Ip_key string
  | Onion_key string
  | Enc_url_key string
  | Enc_ip_key string
  | Exe_key string string
  | Code_key string

type_synonym ioc_step = "(ioc_key \<times> finding option) option"

type_synonym ioc_st = "ioc_key list \<times> finding list"

definition add_key :: "ioc_step \<Rightarrow> ioc_st \<Rightarrow> ioc_st" where
  "add_key step = (\<lambda>(seen, out). case step of None \<Rightarrow> (seen, out)
     | Some (k, f) \<Rightarrow> if k \<in> set seen then (seen, out) else (k # seen, out @ (case f of None \<Rightarrow> [] | Some x \<Rightarrow> [x])))"

definition ioc_finding :: "string \<Rightarrow> string \<Rightarrow> string \<Rightarrow> string \<Rightarrow> string \<Rightarrow> finding" where
  "ioc_finding name rid sev conf ev = at_file name None (''iocs.'' @ rid) ''iocs'' sev conf ev"

definition url_body :: "string \<Rightarrow> string" where
  "url_body full = drop (if prefix ''https'' full then 8 else 7) full"

definition llm_findings :: "string \<Rightarrow> string \<Rightarrow> finding list" where
  "llm_findings name d =
    (case first_hit llm_schema_mimic d of None \<Rightarrow> []
     | Some t \<Rightarrow> [ioc_finding name ''llm_prompt_injection'' ''high'' ''high'' (''LLM triage output-schema mimicry in source: '' @ take 160 t)]) @
    (case first_hit llm_override d of None \<Rightarrow> []
     | Some t \<Rightarrow> [ioc_finding name ''llm_injection_phrase'' ''medium'' ''low''
         (''LLM instruction-override phrase in source (informational; also appears in defensive injection-guard lists): '' @ take 160 t)])"

definition url_step :: "ioc_cfg \<Rightarrow> string \<Rightarrow> bool \<Rightarrow> bool \<Rightarrow> string \<Rightarrow> ioc_step" where
  "url_step cfg name is_doc is_test full = Some (Url_key full,
    if is_doc \<or> is_benign_url (ic_whitelist cfg) (url_body full) then None
    else if is_oast_url full then Some (ioc_finding name ''oast_callback'' ''high'' ''high'' (take 200 full))
    else if is_abuse_hosting_url full
    then Some (ioc_finding name ''abuse_hosting_callback'' ''medium'' ''high'' (''callback to abuse-prone hosting/tunnel host: '' @ take 160 full))
    else if is_test then None
    else Some (ioc_finding name ''url_suspicious'' ''low'' ''low'' (take 200 full)))"

definition unremarkable_ip :: "string \<Rightarrow> bool" where
  "unremarkable_ip ip \<longleftrightarrow> re_match private_or_local ip \<noteq> None \<or> re_match doc_range ip \<noteq> None \<or> ip \<in> set placeholder_ips"

definition webrtc_near :: "rmatch \<Rightarrow> bool" where
  "webrtc_near m \<longleftrightarrow> re_found webrtc_uri_prefix (rev (take 8 (fst (fst m)))) \<or>
     re_found webrtc_context (rev (take webrtc_window (fst (fst m))) @ m_text m @ take webrtc_window (snd (snd m)))"

definition port_of :: "rmatch \<Rightarrow> int option" where
  "port_of m = (case re_match port_after (take 7 (snd (snd m))) of None \<Rightarrow> None
     | Some pm \<Rightarrow> let port = decimal (drop 1 (m_text pm)) in
         if m_text m \<notin> set benign_public_ips \<and> 1 \<le> port \<and> port \<le> 65535 then Some port else None)"

definition ip_step :: "string \<Rightarrow> bool \<Rightarrow> bool \<Rightarrow> rmatch \<Rightarrow> ioc_step" where
  "ip_step name is_doc is_test m =
    (let ip = m_text m in
     if is_doc then None
     else if ip \<in> set metadata_ips
     then Some (Meta_key ip, Some (ioc_finding name ''cloud_metadata_endpoint'' ''medium'' ''high''
       (''cloud metadata endpoint '' @ ip @ '' (SSRF / credential theft)'')))
     else if unremarkable_ip ip then None
     else case port_of m of
       Some port \<Rightarrow> if webrtc_near m then None
         else Some (Ipport_key ip port, Some (ioc_finding name ''hardcoded_wan_ip_port'' (if is_test then ''low'' else ''high'') ''medium''
           (ip @ '':'' @ int_str port @ '' - hardcoded routable IP + port (C2-beacon shape)'' @ (if is_test then '' [test fixture]'' else []))))
     | None \<Rightarrow> if is_test then None else Some (Ip_key ip, Some (ioc_finding name ''ipv4'' ''low'' ''low'' ip)))"

definition onion_step :: "string \<Rightarrow> string \<Rightarrow> ioc_step" where
  "onion_step name t = Some (Onion_key t, Some (ioc_finding name ''onion'' ''high'' ''high'' t))"

definition blob_findings :: "string \<Rightarrow> string \<Rightarrow> finding list" where
  "blob_findings name d =
    map (\<lambda>t. ioc_finding name ''base64_blob'' ''medium'' ''low'' (take 64 (butlast (drop 1 t)) @ ''...'')) (findall ioc_b64 d)"

definition enc_url_step :: "ioc_cfg \<Rightarrow> string \<Rightarrow> string \<Rightarrow> string \<Rightarrow> ioc_step" where
  "enc_url_step cfg name label full =
    (if CHR ''.'' \<notin> set (before (CHR ''/'') (url_body full)) \<or> is_benign_url (ic_whitelist cfg) (url_body full) \<or> is_oast_url full then None
     else Some (Enc_url_key full, Some (ioc_finding name ''encoded_url'' ''medium'' ''medium'' (label @ take 160 full))))"

definition enc_ip_finding :: "string \<Rightarrow> string \<Rightarrow> finding" where
  "enc_ip_finding name ip = ioc_finding name ''encoded_ip'' ''high'' ''medium'' (''decoded: '' @ ip @ '' ('' @
     (if ip \<in> set metadata_ips then ''cloud metadata endpoint (SSRF / credential theft)'' else ''routable IP'') @ '')'')"

definition enc_ip_step :: "string \<Rightarrow> string \<Rightarrow> ioc_step" where
  "enc_ip_step name ip =
    (if ip \<notin> set metadata_ips \<and> (unremarkable_ip ip \<or> ip \<in> set benign_public_ips) then None
     else Some (Enc_ip_key ip, Some (enc_ip_finding name ip)))"

definition blob_steps :: "ioc_cfg \<Rightarrow> string \<Rightarrow> string \<Rightarrow> ioc_step list" where
  "blob_steps cfg name dec = map (enc_url_step cfg name ''decoded: '') (findall ioc_url dec) @ map (enc_ip_step name) (findall ioc_ipv4 dec)"

definition exe_finding :: "string \<Rightarrow> bool \<Rightarrow> bool \<Rightarrow> string \<Rightarrow> string \<Rightarrow> finding" where
  "exe_finding name has_sink is_test kind chain =
    (let (sev, conf, ev) =
       (if has_sink \<and> \<not> is_test
        then (''critical'', ''high'', ''source decodes a hidden '' @ kind @ '' via ['' @ chain @ ''] with an execution sink - dropper shape'')
        else if has_sink
        then (''high'', ''medium'', ''test file decodes a hidden '' @ kind @ '' via ['' @ chain @ ''] with an execution sink [test fixture]'')
        else if is_test then (''low'', ''low'', ''embedded '' @ kind @ '' via ['' @ chain @ ''], no execution sink in file [test fixture]'')
        else (''medium'', ''medium'', ''embedded '' @ kind @ '' via ['' @ chain @ ''], no execution sink in file''))
     in ioc_finding name ''decoded_executable'' sev conf ev)"

definition layer_steps :: "ioc_cfg \<Rightarrow> string \<Rightarrow> bool \<Rightarrow> string \<Rightarrow> string \<times> string list \<Rightarrow> ioc_step list" where
  "layer_steps cfg name is_test d = (\<lambda>(data, steps).
    let chain = join ''->'' steps in
    if is_executable data \<and> chain_has_real_decode steps
    then [Some (Exe_key chain (take 4 data), Some (exe_finding name (re_found file_exec_sink d) is_test
      (if prefix ''#!/'' data then ''shebang script'' else ''native executable'') chain))]
    else map (enc_url_step cfg name (''decoded ['' @ chain @ '']: '')) (findall ioc_url data) @
      (if chain_has_real_decode steps \<and> re_found decoded_exec_sink data
       then [Some (Code_key chain, Some (ioc_finding name ''decoded_code'' ''high'' ''medium''
         (''execution sink recovered through decode chain ['' @ chain @ '']'')))] else []))"

definition run_steps :: "ioc_step list \<Rightarrow> ioc_st \<Rightarrow> ioc_st" where
  "run_steps steps st = fold add_key steps st"

definition plain_steps :: "ioc_cfg \<Rightarrow> string \<Rightarrow> bool \<Rightarrow> bool \<Rightarrow> string \<Rightarrow> ioc_step list" where
  "plain_steps cfg name is_doc is_test d = map (url_step cfg name is_doc is_test) (findall ioc_url d) @
     map (ip_step name is_doc is_test) (finditer ioc_ipv4 d) @ map (onion_step name) (findall ioc_onion d)"

definition hidden_steps :: "ioc_cfg \<Rightarrow> string \<Rightarrow> bool \<Rightarrow> string \<Rightarrow> ioc_step list" where
  "hidden_steps cfg name is_test d = concat (map (blob_steps cfg name) (decode_blobs d)) @
     concat (map (layer_steps cfg name is_test d)
       (if int (length d) \<le> ic_recover_max cfg then recover (ic_env cfg) (ic_dec cfg) d else []))"

definition scan_file :: "ioc_cfg \<Rightarrow> string list \<Rightarrow> string \<Rightarrow> string \<Rightarrow> finding list" where
  "scan_file cfg outer path d =
    (let name = basename path; is_doc = is_doc_file name; is_test = is_test_file outer path;
         (seen, out) = run_steps (plain_steps cfg name is_doc is_test d) ([], llm_findings name d);
         (_, found) = run_steps (if is_doc then [] else hidden_steps cfg name is_test d) (seen, out @ blob_findings name d)
     in found @
       (if is_doc \<or> list_ex (\<lambda>f. f_rule_id f = ''iocs.oast_callback'') found then []
        else case re_search oast_literal d of None \<Rightarrow> []
          | Some m \<Rightarrow> [ioc_finding name ''oast_callback'' ''high'' ''high''
              (''OOB-interaction callback domain in source (string-built): '' @ take 80 (m_text m))]))"

definition analyze_iocs :: "ioc_cfg \<Rightarrow> string list \<Rightarrow> tree_file list \<Rightarrow> string list option \<Rightarrow> finding list" where
  "analyze_iocs cfg outer fs changed =
    concat (map (\<lambda>(f, d). scan_file cfg outer (tf_path f) d)
      (readable (\<lambda>f. lower (path_suffix (tf_path f)) \<in> set text_suffixes \<and> selected changed f) fs))"

section \<open>What a list of steps finds\<close>

lemma run_steps_simps [simp]: "run_steps [] st = st" "run_steps (x # xs) st = run_steps xs (add_key x st)"
  by (simp_all add: run_steps_def)

lemma run_steps_seen: "set (fst (run_steps steps (seen, out))) = set seen \<union> {k. \<exists>f. Some (k, f) \<in> set steps}"
  by (induction steps arbitrary: seen out) (auto simp: add_key_def split: option.splits)

lemma run_steps_subset: "set (snd (run_steps steps (seen, out))) \<subseteq> set out \<union> {f. \<exists>k. Some (k, Some f) \<in> set steps \<and> k \<notin> set seen}"
proof (induction steps arbitrary: seen out)
  case (Cons x xs)
  show ?case
  proof (cases "\<exists>k f. x = Some (k, f) \<and> k \<notin> set seen")
    case True
    then obtain k f where x: "x = Some (k, f)" "k \<notin> set seen" by blast
    show ?thesis using Cons [of "k # seen" "out @ (case f of None \<Rightarrow> [] | Some y \<Rightarrow> [y])"] x by (fastforce simp: add_key_def split: option.splits)
  next
    case False
    then have "add_key x (seen, out) = (seen, out)" by (auto simp: add_key_def split: option.split)
    then show ?thesis using Cons [of seen out] by auto
  qed
qed simp

lemma add_key_split: "add_key x (seen, out) = (fst (add_key x (seen, [])), out @ snd (add_key x (seen, [])))"
  by (auto simp: add_key_def split: option.split)

lemma run_steps_keeps: "set out \<subseteq> set (snd (run_steps steps (seen, out)))"
proof (induction steps arbitrary: seen out)
  case (Cons x xs)
  have "run_steps (x # xs) (seen, out) = run_steps xs (fst (add_key x (seen, [])), out @ snd (add_key x (seen, [])))"
    using add_key_split [of x seen out] by simp
  then show ?case using Cons [of "out @ snd (add_key x (seen, []))" "fst (add_key x (seen, []))"] by simp
qed simp

text \<open>When all steps with a new key find the same, it is found.\<close>

lemma run_steps_superset:
  "Some (k, Some f) \<in> set steps \<Longrightarrow> (\<And>g. Some (k, g) \<in> set steps \<Longrightarrow> g = Some f) \<Longrightarrow> k \<notin> set seen \<Longrightarrow>
    f \<in> set (snd (run_steps steps (seen, out)))"
proof (induction steps arbitrary: seen out)
  case (Cons x xs)
  show ?case
  proof (cases "\<exists>g. x = Some (k, g)")
    case True
    then have "x = Some (k, Some f)" using Cons.prems(2) by auto
    then show ?thesis using Cons.prems(3) run_steps_keeps [of "out @ [f]" xs "k # seen"] by (simp add: add_key_def)
  next
    case False
    have seen: "k \<notin> set (fst (add_key x (seen, out)))" using False Cons.prems(3) by (auto simp: add_key_def split: option.splits)
    have "Some (k, Some f) \<in> set xs" using Cons.prems(1) False by auto
    moreover have "g = Some f" if "Some (k, g) \<in> set xs" for g using Cons.prems(2) [of g] that by simp
    ultimately have "f \<in> set (snd (run_steps xs (fst (add_key x (seen, out)), snd (add_key x (seen, out)))))"
      using Cons.IH seen by blast
    then show ?thesis by simp
  qed
qed simp

section \<open>What a file's findings are\<close>

definition found_in :: "ioc_cfg \<Rightarrow> string list \<Rightarrow> string \<Rightarrow> string \<Rightarrow> finding list" where
  "found_in cfg outer path d =
    (let name = basename path; is_doc = is_doc_file name; is_test = is_test_file outer path;
         (seen, out) = run_steps (plain_steps cfg name is_doc is_test d) ([], llm_findings name d)
     in snd (run_steps (if is_doc then [] else hidden_steps cfg name is_test d) (seen, out @ blob_findings name d)))"

lemma scan_file_found: "scan_file cfg outer path d = found_in cfg outer path d @
    (if is_doc_file (basename path) \<or> list_ex (\<lambda>f. f_rule_id f = ''iocs.oast_callback'') (found_in cfg outer path d) then []
     else case re_search oast_literal d of None \<Rightarrow> []
       | Some m \<Rightarrow> [ioc_finding (basename path) ''oast_callback'' ''high'' ''high''
           (''OOB-interaction callback domain in source (string-built): '' @ take 80 (m_text m))])"
  unfolding scan_file_def found_in_def Let_def by (simp split: prod.split)

lemma found_in_cases:
  assumes "f \<in> set (found_in cfg outer path d)"
  shows "f \<in> set (llm_findings (basename path) d) \<or> f \<in> set (blob_findings (basename path) d) \<or>
    (\<exists>k. Some (k, Some f) \<in> set (plain_steps cfg (basename path) (is_doc_file (basename path)) (is_test_file outer path) d)) \<or>
    \<not> is_doc_file (basename path) \<and> (\<exists>k. Some (k, Some f) \<in> set (hidden_steps cfg (basename path) (is_test_file outer path) d))"
proof -
  let ?plain = "plain_steps cfg (basename path) (is_doc_file (basename path)) (is_test_file outer path) d"
  let ?hidden = "if is_doc_file (basename path) then [] else hidden_steps cfg (basename path) (is_test_file outer path) d"
  obtain seen out where r: "run_steps ?plain ([], llm_findings (basename path) d) = (seen, out)"
    by (cases "run_steps ?plain ([], llm_findings (basename path) d)")
  then have "f \<in> set (snd (run_steps ?hidden (seen, out @ blob_findings (basename path) d)))"
    using assms unfolding found_in_def Let_def by simp
  moreover have "set out \<subseteq> set (llm_findings (basename path) d) \<union> {f. \<exists>k. Some (k, Some f) \<in> set ?plain}"
    using run_steps_subset [of ?plain "[]" "llm_findings (basename path) d"] r by auto
  ultimately show ?thesis using run_steps_subset [of ?hidden seen "out @ blob_findings (basename path) d"] by (auto split: if_splits)
qed

lemma found_in_hidden:
  assumes "\<not> is_doc_file (basename path)"
    and "Some (k, Some f) \<in> set (hidden_steps cfg (basename path) (is_test_file outer path) d)"
    and "\<And>g. Some (k, g) \<in> set (hidden_steps cfg (basename path) (is_test_file outer path) d) \<Longrightarrow> g = Some f"
    and "\<And>g. Some (k, g) \<notin> set (plain_steps cfg (basename path) False (is_test_file outer path) d)"
  shows "f \<in> set (found_in cfg outer path d)"
proof -
  let ?plain = "plain_steps cfg (basename path) False (is_test_file outer path) d"
  obtain seen out where r: "run_steps ?plain ([], llm_findings (basename path) d) = (seen, out)"
    by (cases "run_steps ?plain ([], llm_findings (basename path) d)")
  then have "k \<notin> set seen" using run_steps_seen [of ?plain "[]" "llm_findings (basename path) d"] assms(4) by auto
  with run_steps_superset [OF assms(2,3)] show ?thesis using assms(1) r unfolding found_in_def Let_def by simp
qed

lemma rule_ids:
  "f \<in> set (llm_findings name d) \<Longrightarrow> f_rule_id f \<in> {''iocs.llm_prompt_injection'', ''iocs.llm_injection_phrase''}"
  "f \<in> set (blob_findings name d) \<Longrightarrow> f_rule_id f = ''iocs.base64_blob''"
  "url_step cfg name is_doc is_test u = Some (k, Some f) \<Longrightarrow>
     (f_rule_id f, f_severity f) \<in> {(''iocs.oast_callback'', ''high''), (''iocs.abuse_hosting_callback'', ''medium''), (''iocs.url_suspicious'', ''low'')}"
  "ip_step name is_doc is_test m = Some (k, Some f) \<Longrightarrow>
     f_rule_id f \<in> {''iocs.cloud_metadata_endpoint'', ''iocs.hardcoded_wan_ip_port'', ''iocs.ipv4''}"
  "onion_step name t = Some (k, Some f) \<Longrightarrow> f_rule_id f = ''iocs.onion''"
  "enc_url_step cfg name label u = Some (k, Some f) \<Longrightarrow> f_rule_id f = ''iocs.encoded_url''"
  "Some (k, Some f) \<in> set (layer_steps cfg name is_test d x) \<Longrightarrow>
     f_rule_id f \<in> {''iocs.decoded_executable'', ''iocs.encoded_url'', ''iocs.decoded_code''}"
  by (auto simp: llm_findings_def blob_findings_def url_step_def ip_step_def onion_step_def enc_url_step_def layer_steps_def exe_finding_def
      ioc_finding_def at_file_def Let_def split: option.splits if_splits prod.splits)

lemma plain_rule_ids:
  "Some (k, Some f) \<in> set (plain_steps cfg name is_doc is_test d) \<Longrightarrow> f_rule_id f \<noteq> ''iocs.encoded_ip''"
  "Some (k, Some f) \<in> set (plain_steps cfg name is_doc is_test d) \<Longrightarrow> f_rule_id f = ''iocs.oast_callback'' \<Longrightarrow> f_severity f = ''high''"
  using rule_ids(3,4,5) by (fastforce simp: plain_steps_def eq_commute [of "Some _"])+

lemma plain_keys: "Some (Enc_ip_key ip, g) \<notin> set (plain_steps cfg name is_doc is_test d)"
  by (auto simp: plain_steps_def url_step_def ip_step_def onion_step_def Let_def split: option.splits if_splits)

lemma hidden_enc_ip: "Some (Enc_ip_key ip, g) \<in> set (hidden_steps cfg name is_test d) \<longleftrightarrow>
    (\<exists>dec \<in> set (decode_blobs d). ip \<in> set (findall ioc_ipv4 dec)) \<and> (ip \<in> set metadata_ips \<or> \<not> unremarkable_ip ip \<and> ip \<notin> set benign_public_ips) \<and>
    g = Some (enc_ip_finding name ip)"
proof -
  have url: "Some (Enc_ip_key ip, g) \<noteq> enc_url_step cfg name l u" for l u by (simp add: enc_url_step_def)
  have "Some (Enc_ip_key ip, g) \<notin> set (layer_steps cfg name is_test d x)" for x
    by (cases x) (simp add: layer_steps_def Let_def image_iff url)
  moreover have "Some (Enc_ip_key ip, g) \<in> set (blob_steps cfg name dec) \<longleftrightarrow> ip \<in> set (findall ioc_ipv4 dec) \<and>
      (ip \<in> set metadata_ips \<or> \<not> unremarkable_ip ip \<and> ip \<notin> set benign_public_ips) \<and> g = Some (enc_ip_finding name ip)" for dec
    by (auto simp: blob_steps_def image_iff url enc_ip_step_def split: if_splits)
  ultimately show ?thesis by (auto simp: hidden_steps_def)
qed

lemma hidden_rule_ids:
  assumes "Some (k, Some f) \<in> set (hidden_steps cfg name is_test d)"
  shows "f_rule_id f = ''iocs.encoded_ip'' \<Longrightarrow> \<exists>ip. k = Enc_ip_key ip" "f_rule_id f \<noteq> ''iocs.oast_callback''"
proof -
  consider dec u where "enc_url_step cfg name ''decoded: '' u = Some (k, Some f)" | ip where "enc_ip_step name ip = Some (k, Some f)"
    | x where "Some (k, Some f) \<in> set (layer_steps cfg name is_test d x)"
    using assms by (auto simp: hidden_steps_def blob_steps_def eq_commute [of "Some _"])
  then have "(\<exists>ip. k = Enc_ip_key ip \<and> f_rule_id f = ''iocs.encoded_ip'') \<or>
      f_rule_id f \<in> {''iocs.decoded_executable'', ''iocs.encoded_url'', ''iocs.decoded_code''}"
  proof cases
    case 2
    then show ?thesis by (auto simp: enc_ip_step_def enc_ip_finding_def ioc_finding_def at_file_def split: if_splits)
  qed (use rule_ids(6,7) in blast)+
  then show "f_rule_id f = ''iocs.encoded_ip'' \<Longrightarrow> \<exists>ip. k = Enc_ip_key ip" "f_rule_id f \<noteq> ''iocs.oast_callback''" by auto
qed

lemma oast_is_high: "f \<in> set (found_in cfg outer path d) \<Longrightarrow> f_rule_id f = ''iocs.oast_callback'' \<Longrightarrow> f_severity f = ''high''"
  using found_in_cases [of f cfg outer path d] rule_ids(1,2) plain_rule_ids(2) hidden_rule_ids(2) by fastforce

definition demo_ioc_cfg :: ioc_cfg where
  "demo_ioc_cfg = \<lparr>ic_whitelist = [''github.com''], ic_recover_max = 2097152, ic_env = demo_env, ic_dec = default_dec_cfg\<rparr>"

text \<open>C28. A domain of an out-of-band interaction service in a file that is not documentation is always reported, with high severity:
  neither a whitelisted or templated URL around it, a test directory nor an earlier finding hides it.\<close>
theorem oast_always_reported:
  assumes "\<not> is_doc_file (basename path)" and "re_found oast_literal d"
  shows "\<exists>f \<in> set (scan_file cfg outer path d). f_rule_id f = ''iocs.oast_callback'' \<and> f_severity f = ''high''"
proof (cases "list_ex (\<lambda>f. f_rule_id f = ''iocs.oast_callback'') (found_in cfg outer path d)")
  case True
  then show ?thesis using oast_is_high by (auto simp: scan_file_found list_ex_iff)
next
  case False
  obtain m where "re_search oast_literal d = Some m" using assms(2) by (auto simp: re_found_def)
  then show ?thesis using assms(1) False by (simp add: scan_file_found ioc_finding_def at_file_def)
qed

text \<open>C29. The hidden addresses reported for a file are exactly the routable and metadata addresses in what its base 64, hexadecimal and
  escaped blobs decode to, none for documentation; addresses in plain text or in earlier findings do not mask them.\<close>
theorem encoded_ip_exact:
  "f \<in> set (scan_file cfg outer path d) \<and> f_rule_id f = ''iocs.encoded_ip'' \<longleftrightarrow>
    \<not> is_doc_file (basename path) \<and>
    (\<exists>dec \<in> set (decode_blobs d). \<exists>ip \<in> set (findall ioc_ipv4 dec).
      (ip \<in> set metadata_ips \<or> \<not> unremarkable_ip ip \<and> ip \<notin> set benign_public_ips) \<and> f = enc_ip_finding (basename path) ip)"
    (is "?reported \<longleftrightarrow> ?hidden")
proof
  assume r: ?reported
  then have "f \<in> set (found_in cfg outer path d)"
    by (auto simp: scan_file_found ioc_finding_def at_file_def split: if_splits option.splits)
  then obtain k where doc: "\<not> is_doc_file (basename path)"
    and k: "Some (k, Some f) \<in> set (hidden_steps cfg (basename path) (is_test_file outer path) d)"
    using found_in_cases [of f cfg outer path d] rule_ids(1,2) plain_rule_ids(1) r by fastforce
  then obtain ip where "k = Enc_ip_key ip" using hidden_rule_ids(1) r by blast
  with k have "Some (Enc_ip_key ip, Some f) \<in> set (hidden_steps cfg (basename path) (is_test_file outer path) d)" by simp
  then show ?hidden using doc unfolding hidden_enc_ip by blast
next
  assume h: ?hidden
  then obtain dec ip where ip: "dec \<in> set (decode_blobs d)" "ip \<in> set (findall ioc_ipv4 dec)"
    "ip \<in> set metadata_ips \<or> \<not> unremarkable_ip ip \<and> ip \<notin> set benign_public_ips" "f = enc_ip_finding (basename path) ip" by blast
  have "Some (Enc_ip_key ip, Some f) \<in> set (hidden_steps cfg (basename path) (is_test_file outer path) d)"
    unfolding hidden_enc_ip using ip by blast
  then have "f \<in> set (found_in cfg outer path d)"
  proof (rule found_in_hidden [rotated])
    show "\<not> is_doc_file (basename path)" using h by blast
    show "g = Some f" if "Some (Enc_ip_key ip, g) \<in> set (hidden_steps cfg (basename path) (is_test_file outer path) d)" for g
      using that ip(4) unfolding hidden_enc_ip by simp
    show "Some (Enc_ip_key ip, g) \<notin> set (plain_steps cfg (basename path) False (is_test_file outer path) d)" for g
      by (rule plain_keys)
  qed
  then have "f \<in> set (scan_file cfg outer path d)" unfolding scan_file_found set_append by (rule UnI1)
  moreover have "f_rule_id f = ''iocs.encoded_ip''" unfolding ip(4) by (simp add: enc_ip_finding_def ioc_finding_def at_file_def)
  ultimately show ?reported ..
qed

theorem oast_always_reported_witness:
  "\<exists>f \<in> set (scan_file demo_ioc_cfg [''tmp''] ''tests/a.py'' ''x = .oast.me''). f_rule_id f = ''iocs.oast_callback'' \<and> f_severity f = ''high''"
proof (rule oast_always_reported)
  show "\<not> is_doc_file (basename ''tests/a.py'')" by code_simp
  show "re_found oast_literal ''x = .oast.me''" by code_simp
qed

section \<open>What escapes\<close>

text \<open>The user name of a URL and the beginning of its host decide whether it is benign.\<close>

lemma user_info_whitelisted: "is_benign_url [''github.com''] ''github.com:x@c2.io/a''"
  by code_simp

lemma localhost_prefix_whitelisted: "is_benign_url benign ''localhost.c2.io/a''"
  by (simp add: is_benign_url_def Let_def host_of_def before_def without_junk_def rstrip_by_def lower_def lower_char_def)

text \<open>A brace anywhere in a URL hides a callback to a tunnel.\<close>

lemma template_hides_tunnel:
  "is_abuse_hosting_url ''https://x.workers.dev/?d={d}'' \<and>
   url_step cfg name False False ''https://x.workers.dev/?d={d}'' = Some (Url_key ''https://x.workers.dev/?d={d}'', None)"
proof
  show "is_abuse_hosting_url ''https://x.workers.dev/?d={d}''" by code_simp
  have "is_benign_url (ic_whitelist cfg) (url_body ''https://x.workers.dev/?d={d}'')"
    by (simp add: is_benign_url_def url_body_def Let_def)
  then show "url_step cfg name False False ''https://x.workers.dev/?d={d}'' = Some (Url_key ''https://x.workers.dev/?d={d}'', None)"
    by (simp add: url_step_def)
qed

text \<open>A source file whose name begins like that of a document is not looked into.\<close>

lemma support_file_unread: "is_doc_file ''support.js''" "is_doc_file ''security_check.py''"
  by code_simp+

end
