(* ===== verification/Spec2Isabelle.thy ===== *)
theory Spec2Isabelle
  imports Janitor DetonationWorker Extract NpmCursor GomodCursor CratesFeeds MaintainerPivot WatchlistRefresh Vault SecretAccess MalwarePatterns NpmInstaller Iocs
begin

text \<open>
  A model of pkgward, a scanner that watches PyPI, npm, crates.io and the Go module proxy for new package versions, scores each
  by static rules, has a language model adjudicate what looks suspicious, runs some of it in a detonation service, and alerts.
  Files are named below \<^verbatim>\<open>src/pkgward/\<close>.

  \<^bold>\<open>How the program works and where its parts are.\<close> Discovery polls a feed of each registry and puts the versions that pass the
  enqueue gate into the scan queue. A worker claims a row, fetches and unpacks the archive, runs the analyzers over the tree,
  scores the findings, stores the scan, may hand it to the detonation queue, has the model adjudicate it, alerts, and feeds what it
  learned (fingerprints, watches, a sweep over the maintainer's other packages) back into the tables that discovery and later scans
  read. All components meet in the tables of \<^verbatim>\<open>store/models.py\<close>; here a table is a list of records in primary-key order, and
  what one component does to a table another reads is composed as the code composes it.

  \<^item> \<^bold>\<open>Shared.\<close> \<open>Prelude\<close>: tables, association lists, ordered selection, the collections \<open>table_simps\<close> and \<open>order_simps\<close>. \<open>PyStr\<close>: the
    part of Python's \<^verbatim>\<open>str\<close> that is used. \<open>PyRegex\<close>: regular expressions, as matches in the order of Python's backtracking, with the
    language they denote. \<open>Codecs\<close>: the decoders of \<^verbatim>\<open>base64\<close> and its like. \<open>Store\<close>: rows several components read, and decoded JSON. \<open>SourceTree\<close>: the extracted tree as analyzers
    see it. \<open>EditDistance\<close>: the table filled by \<^verbatim>\<open>_levenshtein\<close> is the distance.
  \<^item> \<^bold>\<open>Queues.\<close> \<open>JobQueue\<close>: what both queues promise (\<open>claim_table\<close>) and the transactions of other workers between two statements.
    \<open>ScanQueue\<close> (\<^verbatim>\<open>queue.py\<close>, \<^verbatim>\<open>workers.py\<close>): enqueue, claim with the fair share per ecosystem, retry, sweep. \<open>DetonationQueue\<close>
    (\<^verbatim>\<open>detonation_queue.py\<close>), \<open>DetonationWorker\<close> (\<^verbatim>\<open>detonation_worker.py\<close>, \<^verbatim>\<open>detonate/client.py\<close>).
  \<^item> \<^bold>\<open>Discovery.\<close> \<open>Ingest\<close>: gates and batches common to the pollers. \<open>NpmCursor\<close>, \<open>PypiIngest\<close>, \<open>CratesFeeds\<close>, \<open>GomodCursor\<close>:
    the polls in \<^verbatim>\<open>ecosystems/*/ingest/\<close>, from the stored cursor to the stored cursor. \<open>Anomaly\<close>: version anomalies.
    \<open>WatchlistRefresh\<close>: the four \<^verbatim>\<open>refresh_watchlist\<close>.
  \<^item> \<^bold>\<open>Watches.\<close> \<open>WatchlistAuto\<close>, \<open>ScopeWatchlist\<close>, \<open>MaintainerWatch\<close>, \<open>Focus\<close>, \<open>KnownBad\<close>, \<open>MaintainerPivot\<close>: the modules of the
    same names. \<open>Janitor\<close>: the contract of a table that is kept under a cap by evicting its oldest rows.
  \<^item> \<^bold>\<open>Extraction.\<close> \<open>Extract\<close> (\<^verbatim>\<open>util/extract.py\<close>): archives onto a map from paths to nodes.
  \<^item> \<^bold>\<open>Static analysis.\<close> \<open>Metadata\<close> (\<^verbatim>\<open>analyze/metadata.py\<close>, \<^verbatim>\<open>lure_names.py\<close>, \<^verbatim>\<open>version_diff.py\<close>), \<open>SecretAccess\<close>,
    \<open>MalwarePatterns\<close>, \<open>BinaryArtifacts\<close> (\<^verbatim>\<open>analyze/binary.py\<close>), \<open>JsPackers\<close> (\<^verbatim>\<open>analyze/obfuscation.py\<close>), \<open>NpmInstaller\<close>
    (\<^verbatim>\<open>ecosystems/npm/installer.py\<close>), \<open>DecodeEngine\<close> (\<^verbatim>\<open>analyze/decode_engine.py\<close>), \<open>Iocs\<close> (\<^verbatim>\<open>analyze/iocs.py\<close>), \<open>ThreatIntel\<close> (\<^verbatim>\<open>analyze/threat_intel.py\<close>, \<^verbatim>\<open>threat_intel_auto.py\<close>), \<open>FindingReuse\<close>.
  \<^item> \<^bold>\<open>Verdict.\<close> \<open>IntelPack\<close> (\<^verbatim>\<open>intel/pack.py\<close>), \<open>Score\<close> (\<^verbatim>\<open>detect/\<close>, \<^verbatim>\<open>detonate/gate.py\<close>), \<open>SourceGather\<close> and \<open>Triage\<close>
    (\<^verbatim>\<open>llm/triage.py\<close>), \<open>Adjudication\<close> and \<open>Pipeline\<close> (\<^verbatim>\<open>pipeline.py\<close>), \<open>Vault\<close> and \<open>ZipCrypto\<close> (\<^verbatim>\<open>vault.py\<close>).

  \<^bold>\<open>Interfaces.\<close> \<open>claim_table\<close> is interpreted on both queues, \<open>janitor\<close> on the automatic and the maintainer watchlist,
  \<open>verdict_policy\<close> on the scorer with the packs that \<open>IntelPack\<close> admits. The step relations of the queues and of a poll are
  inductive; invariants go by induction over reachable tables.

  \<^bold>\<open>What is shown.\<close> A job is claimed by one worker whatever others do in between, retries are bounded, sweeps spare live claims, and
  the operations refine an abstract machine. A poll loses no release between two stored cursors, and when one returns. An alert goes out
  exactly when a malicious verdict is stored; neither the model nor text in a package can lower certain verdicts, and the source
  shown to it is bounded. The score is a capped sum and monotone in the findings. Extraction writes below its root only. Analyzers
  report what their declarative descriptions say (flows of data, numbers of stores, nearest neighbours, magic numbers, hidden addresses)
  and read only the package; the search for encoded layers is sound, stays in its budgets and misses no single layer within them. Stored samples and printed focus files read back. Where the code falls short of its comments the lemma that shows
  it is named as a finding.

  \<^bold>\<open>Bounds and fuel.\<close> Loops over rows, pages, archive members or characters recurse over the list, with a measure where they skip.
  Loops that may not end are \<open>partial_function (option)\<close> (the paging of the Go index, repeated requests), with the exact condition for
  returning as an inductive count of iterations. \<open>ends\<close> recurses on the number of characters left for an unbounded repetition, which
  loses no match since each round consumes one. Retry limits, budgets and sizes are the program's constants or
  the environment's values, read into settings records. Numbers are unbounded integers where Python's are; the cipher uses words.
  Python's doubles are reals or rationals, so equalities at rounding boundaries are those of exact arithmetic.

  \<^bold>\<open>Not modelled.\<close> What is outside the repository is an argument: replies to requests, clocks, random numbers, the parsers of archives,
  JSON, XML, TOML and Python, decompressors, hash and fuzzy-hash functions, the model and the detonation service. Not modelled are the external
  scanners (YARA, opengrep, webcrack, UPX), the analyzers of imports and entropy and the install hooks of the other ecosystems, whose findings are arguments of the pipeline; HTTP adapters and downloads; texts of notifications; the
  command line, scheduling, sessions and logging. Characters are bytes: what Python does with letters beyond code
  point 127 (case folding, whitespace, look-alikes) is not claimed.
\<close>

end
